(* ===== verification/Prelude.thy ===== *)
theory Prelude
  imports Complex_Main "HOL-Library.AList" "HOL-Library.Multiset"
    "HOL-Library.Char_ord" "HOL-Library.List_Lexorder"
begin

text \<open>
  The part of ECMAScript the client's modules rely on, and the generic lemmas the component
  theories share.

  A JavaScript number that is a measure (pixels, points, hours, shares) is a \<^typ>\<open>real\<close>: the
  rounding of double precision is not modelled, everything else of \<open>Math\<close> is. A number that only
  ever counts (an index, a day number, a time value in milliseconds) is an \<^typ>\<open>int\<close> or a
  \<^typ>\<open>nat\<close>. A string is the list of its code units, restricted to units below 256 (Latin-1), so
  \<open>length\<close>, slicing, the order \<open><\<close> and lower-casing agree with the engine on those units. A \<open>Map\<close>
  is the association list of its entries in insertion order: \<^const>\<open>AList.update\<close> is \<open>set\<close>,
  \<^const>\<open>map_of\<close> is \<open>get\<close> and \<^const>\<open>AList.delete\<close> is \<open>delete\<close>. A \<open>Set\<close> is the list of its elements in
  insertion order, without repeats.
\<close>

named_theorems js_num \<open>rounding and comparing numbers\<close>
named_theorems js_str \<open>strings\<close>
named_theorems js_list \<open>arrays, maps and sorting\<close>

section \<open>Numbers\<close>

text \<open>\<open>Math.round\<close> takes the nearest integer and a half upwards.\<close>

definition js_round :: "real \<Rightarrow> int" where
  "js_round x = \<lfloor>x + 1 / 2\<rfloor>"

lemma js_round_of_int [simp, js_num]: "js_round (of_int n) = n"
proof -
  have "\<lfloor>(of_int n :: real) + 1 / 2\<rfloor> = n" by (rule floor_unique) auto
  then show ?thesis by (simp add: js_round_def)
qed

lemma js_round_numeral [simp, js_num]:
  "js_round 0 = 0" "js_round 1 = 1" "js_round (numeral k) = numeral k"
  "js_round (- numeral k) = - numeral k"
  using js_round_of_int [of 0] js_round_of_int [of 1] js_round_of_int [of "numeral k"]
    js_round_of_int [of "- numeral k"]
  by simp_all

lemma js_round_near: "of_int (js_round x) \<le> x + 1 / 2" "x < of_int (js_round x) + 1 / 2"
  unfolding js_round_def by linarith+

lemma js_round_mono: "x \<le> y \<Longrightarrow> js_round x \<le> js_round y"
  unfolding js_round_def by (simp add: floor_mono)

lemma js_round_unique: "of_int n - 1 / 2 \<le> x \<Longrightarrow> x < of_int n + 1 / 2 \<Longrightarrow> js_round x = n"
  unfolding js_round_def by (rule floor_unique) auto

section \<open>Strings\<close>

text \<open>The code units below 256 that \<open>trim\<close> and the white space class of a pattern match.\<close>

definition is_space :: "char \<Rightarrow> bool" where
  "is_space c \<longleftrightarrow> (of_char c :: nat) \<in> {9, 10, 11, 12, 13, 32, 160}"

definition trim_start :: "string \<Rightarrow> string" where
  "trim_start s = dropWhile is_space s"

definition trim :: "string \<Rightarrow> string" where
  "trim s = rev (trim_start (rev (trim_start s)))"

text \<open>\<open>strings.TrimSpace\<close> also takes the next-line control, which the browser's \<open>trim\<close> leaves.\<close>

definition go_space :: "char \<Rightarrow> bool" where
  "go_space c \<longleftrightarrow> (of_char c :: nat) \<in> {9, 10, 11, 12, 13, 32, 133, 160}"

definition TrimSpace :: "string \<Rightarrow> string" where
  "TrimSpace s = rev (dropWhile go_space (rev (dropWhile go_space s)))"

text \<open>Lower case below 256: the letters A to Z, and the accented ones that are not the times sign.\<close>

definition lower_char :: "char \<Rightarrow> char" where
  "lower_char c =
     (let n = (of_char c :: nat)
      in if 65 \<le> n \<and> n \<le> 90 \<or> 192 \<le> n \<and> n \<le> 222 \<and> n \<noteq> 215 then char_of (n + 32) else c)"

definition toLowerCase :: "string \<Rightarrow> string" where
  "toLowerCase s = map lower_char s"

definition is_digit :: "char \<Rightarrow> bool" where
  "is_digit c \<longleftrightarrow> 48 \<le> (of_char c :: nat) \<and> (of_char c :: nat) \<le> 57"

definition startsWith :: "string \<Rightarrow> string \<Rightarrow> bool" where
  "startsWith s p \<longleftrightarrow> take (length p) s = p"

definition endsWith :: "string \<Rightarrow> string \<Rightarrow> bool" where
  "endsWith s p \<longleftrightarrow> startsWith (rev s) (rev p)"

fun includes_str :: "string \<Rightarrow> string \<Rightarrow> bool" where
  "includes_str [] p = (p = [])"
| "includes_str (c # s) p = (startsWith (c # s) p \<or> includes_str s p)"

text \<open>\<open>split\<close> at every unit that satisfies a test, and \<open>join\<close>.\<close>

fun split_at :: "(char \<Rightarrow> bool) \<Rightarrow> string \<Rightarrow> string list" where
  "split_at p [] = [[]]"
| "split_at p (c # s) =
     (if p c then [] # split_at p s
      else (case split_at p s of [] \<Rightarrow> [[c]] | w # ws \<Rightarrow> (c # w) # ws))"

abbreviation split_on :: "char \<Rightarrow> string \<Rightarrow> string list" where
  "split_on c \<equiv> split_at (\<lambda>d. d = c)"

fun join :: "string \<Rightarrow> string list \<Rightarrow> string" where
  "join sep [] = []"
| "join sep [w] = w"
| "join sep (w # ws) = w @ sep @ join sep ws"

lemma split_at_not_Nil [simp, js_str]: "split_at p s \<noteq> []"
  by (induction s) (auto split: list.splits)

lemma split_at_no_sep: "(\<forall>c \<in> set s. \<not> p c) \<Longrightarrow> split_at p s = [s]"
  by (induction s) auto

lemma split_at_append_sep:
  "(\<forall>c \<in> set s. \<not> p c) \<Longrightarrow> p d \<Longrightarrow> split_at p (s @ d # t) = s # split_at p t"
  by (induction s) auto

lemma split_join:
  assumes "ws \<noteq> []" and "\<forall>w \<in> set ws. c \<notin> set w"
  shows "split_on c (join [c] ws) = ws"
  using assms
proof (induction "[c]" ws rule: join.induct)
  case (2 w)
  then show ?case by (auto intro!: split_at_no_sep)
next
  case (3 w v vs)
  have "split_on c (w @ c # join [c] (v # vs)) = w # split_on c (join [c] (v # vs))"
    using 3 by (intro split_at_append_sep) auto
  with 3 show ?case by simp
qed simp

lemma join_split: "join [c] (split_on c s) = s"
proof (induction s)
  case (Cons d s)
  obtain w ws where w: "split_on c s = w # ws" by (cases "split_on c s") auto
  with Cons show ?case by (cases ws) auto
qed simp

lemma split_no_sep: "w \<in> set (split_at p s) \<Longrightarrow> x \<in> set w \<Longrightarrow> \<not> p x"
proof (induction s arbitrary: w)
  case (Cons c s)
  obtain v vs where v: "split_at p s = v # vs" by (cases "split_at p s") auto
  from Cons.prems v Cons.IH [of v] Cons.IH [of w] show ?case
    by (auto split: if_splits)
qed simp

lemma trim_start_idem: "trim_start (trim_start s) = trim_start s"
  unfolding trim_start_def by (induction s) auto

lemma trim_trim: "trim (trim s) = trim s"
proof -
  have hd: "t = [] \<or> \<not> is_space (hd t)" if "t = trim_start u" for t u
    using that hd_dropWhile [of is_space u] by (auto simp: trim_start_def)
  have idle: "trim_start t = t" if "t = [] \<or> \<not> is_space (hd t)" for t using that by (cases t) (auto simp: trim_start_def)
  have last: "trim s = [] \<or> \<not> is_space (last (trim s))"
    using hd [of "trim_start (rev (trim_start s))"] by (auto simp: trim_def last_rev)
  have first: "trim s = [] \<or> \<not> is_space (hd (trim s))"
  proof -
    obtain w where w: "rev (trim_start s) = w @ trim_start (rev (trim_start s))"
      unfolding trim_start_def by (metis takeWhile_dropWhile_id)
    then have "trim_start s = trim s @ rev w" unfolding trim_def by (metis rev_append rev_rev_ident)
    then show ?thesis using hd [OF refl, of s] by (cases "trim s") auto
  qed
  have "trim_start (trim s) = trim s" using first by (rule idle)
  moreover have "trim_start (rev (trim s)) = rev (trim s)" using last by (intro idle) (auto simp: hd_rev)
  ultimately show ?thesis by (simp add: trim_def [of "trim s"])
qed

text \<open>Decimal numerals.\<close>

definition digit_char :: "nat \<Rightarrow> char" where
  "digit_char d = char_of (48 + d)"

fun nat_str :: "nat \<Rightarrow> string" where
  "nat_str n = (if n < 10 then [digit_char n] else nat_str (n div 10) @ [digit_char (n mod 10)])"

declare nat_str.simps [simp del]

definition int_str :: "int \<Rightarrow> string" where
  "int_str i = (if i < 0 then ''-'' @ nat_str (nat (- i)) else nat_str (nat i))"

definition padStart :: "nat \<Rightarrow> string \<Rightarrow> string" where
  "padStart n s = replicate (n - length s) (CHR ''0'') @ s"

definition digit_val :: "char \<Rightarrow> nat" where
  "digit_val c = of_char c - 48"

definition str_nat :: "string \<Rightarrow> nat" where
  "str_nat s = foldl (\<lambda>n c. 10 * n + digit_val c) 0 s"

lemma digit_char_props [simp, js_str]:
  assumes "d < 10"
  shows "is_digit (digit_char d)" "digit_val (digit_char d) = d"
  using assms by (auto simp: is_digit_def digit_char_def digit_val_def)

lemma nat_str_not_Nil [simp, js_str]: "nat_str n \<noteq> []"
  by (subst nat_str.simps) simp

lemma nat_str_digits: "\<forall>c \<in> set (nat_str n). is_digit c"
proof (induction n rule: nat_str.induct)
  case (1 n)
  then show ?case by (cases "n < 10") (auto simp: nat_str.simps [of n])
qed

lemma str_nat_append: "str_nat (s @ [c]) = 10 * str_nat s + digit_val c"
  by (simp add: str_nat_def)

lemma str_nat_nat_str [simp, js_str]: "str_nat (nat_str n) = n"
proof (induction n rule: nat_str.induct)
  case (1 n)
  show ?case
  proof (cases "n < 10")
    case True
    then show ?thesis by (simp add: nat_str.simps [of n] str_nat_def)
  next
    case False
    with 1 show ?thesis by (simp add: nat_str.simps [of n] str_nat_append)
  qed
qed

lemma str_nat_zeros: "str_nat (replicate k (CHR ''0'') @ s) = str_nat s"
  by (induction k) (simp_all add: str_nat_def digit_val_def)

lemma str_nat_padStart [simp, js_str]: "str_nat (padStart k (nat_str n)) = n"
  by (simp add: padStart_def str_nat_zeros)

section \<open>Sorting\<close>

text \<open>
  \<open>Array.prototype.sort\<close> with a comparator is stable. The comparator answers a number; the
  elements end up in an order in which no later element compares below an earlier one, and
  elements that compare as zero keep the order they came in.
\<close>

fun insert_by :: "('a \<Rightarrow> 'a \<Rightarrow> real) \<Rightarrow> 'a \<Rightarrow> 'a list \<Rightarrow> 'a list" where
  "insert_by c x [] = [x]"
| "insert_by c x (y # ys) = (if c x y \<le> 0 then x # y # ys else y # insert_by c x ys)"

definition js_sort :: "('a \<Rightarrow> 'a \<Rightarrow> real) \<Rightarrow> 'a list \<Rightarrow> 'a list" where
  "js_sort c xs = foldr (insert_by c) xs []"

lemma js_sort_simps [simp, js_list]:
  "js_sort c [] = []" "js_sort c (x # xs) = insert_by c x (js_sort c xs)"
  by (simp_all add: js_sort_def)

lemma mset_insert_by: "mset (insert_by c x xs) = add_mset x (mset xs)"
  by (induction xs) auto

lemma mset_js_sort [simp, js_list]: "mset (js_sort c xs) = mset xs"
  by (induction xs) (simp_all add: mset_insert_by)

lemma set_js_sort [simp, js_list]: "set (js_sort c xs) = set xs"
  by (metis mset_js_sort set_mset_mset)

lemma length_js_sort [simp, js_list]: "length (js_sort c xs) = length xs"
  by (metis mset_js_sort size_mset)

lemma distinct_js_sort [simp, js_list]: "distinct (js_sort c xs) = distinct xs"
  by (metis mset_js_sort mset_eq_imp_distinct_iff)

text \<open>A sort depends on its comparator only through which of two elements may come first.\<close>

lemma js_sort_cong:
  assumes "\<And>x y. x \<in> set xs \<Longrightarrow> y \<in> set xs \<Longrightarrow> c x y \<le> 0 \<longleftrightarrow> d x y \<le> 0"
  shows "js_sort c xs = js_sort d xs"
proof -
  have ins: "insert_by c x ys = insert_by d x ys" if "\<And>y. y \<in> set ys \<Longrightarrow> c x y \<le> 0 \<longleftrightarrow> d x y \<le> 0" for x ys
    using that by (induction ys) auto
  show ?thesis using assms
  proof (induction xs)
    case (Cons x xs)
    then show ?case by (auto intro!: ins)
  qed simp
qed

text \<open>The contract a comparator has to keep for the engine to sort by it.\<close>

locale comparator =
  fixes c :: "'a \<Rightarrow> 'a \<Rightarrow> real"
  assumes flip: "c x y \<le> 0 \<longleftrightarrow> 0 \<le> c y x"
    and le_trans: "c x y \<le> 0 \<Longrightarrow> c y z \<le> 0 \<Longrightarrow> c x z \<le> 0"
begin

lemma total: "c x y \<le> 0 \<or> c y x \<le> 0"
  using flip [of x y] flip [of y x] by linarith

lemma self_zero: "c x x = 0"
  using flip [of x x] by linarith

lemma zero_sym: "c x y = 0 \<longleftrightarrow> c y x = 0"
  using flip [of x y] flip [of y x] by linarith

lemma zero_trans: "c x y = 0 \<Longrightarrow> c y z = 0 \<Longrightarrow> c x z = 0"
  using le_trans [of x y z] le_trans [of z y x] flip [of z x] zero_sym [of x y] zero_sym [of y z]
  by linarith

lemma sorted_insert_by:
  assumes "sorted_wrt (\<lambda>x y. c x y \<le> 0) xs"
  shows "sorted_wrt (\<lambda>x y. c x y \<le> 0) (insert_by c x xs)"
  using assms
proof (induction xs)
  case (Cons y ys)
  have "c y x \<le> 0" if "\<not> c x y \<le> 0" using that total by blast
  moreover have "set (insert_by c x ys) = insert x (set ys)"
    using mset_insert_by [of c x ys] by (metis set_mset_add_mset_insert set_mset_mset)
  ultimately show ?case using Cons le_trans by auto
qed simp

lemma sorted_js_sort: "sorted_wrt (\<lambda>x y. c x y \<le> 0) (js_sort c xs)"
  by (induction xs) (simp_all add: sorted_insert_by)

lemma filter_insert_by:
  assumes "sorted_wrt (\<lambda>x y. c x y \<le> 0) xs"
  shows "filter (\<lambda>y. c z y = 0) (insert_by c x xs) = filter (\<lambda>y. c z y = 0) (x # xs)"
  using assms
proof (induction xs)
  case (Cons y ys)
  have "\<not> (c z x = 0 \<and> c z y = 0)" if "\<not> c x y \<le> 0"
    using that zero_sym [of z x] zero_trans [of x z y] by auto
  with Cons show ?case by auto
qed simp

lemma stable_js_sort: "filter (\<lambda>y. c z y = 0) (js_sort c xs) = filter (\<lambda>y. c z y = 0) xs"
  by (induction xs) (simp_all add: filter_insert_by sorted_js_sort)

lemma js_sort_idle: "sorted_wrt (\<lambda>x y. c x y \<le> 0) xs \<Longrightarrow> js_sort c xs = xs"
proof (induction xs)
  case (Cons x xs)
  then show ?case by (cases xs) auto
qed simp

end

text \<open>\<open>f(a, b) || g(a, b)\<close>: the second comparator decides where the first answers zero.\<close>

definition cmp_or :: "('a \<Rightarrow> 'a \<Rightarrow> real) \<Rightarrow> ('a \<Rightarrow> 'a \<Rightarrow> real) \<Rightarrow> 'a \<Rightarrow> 'a \<Rightarrow> real" where
  "cmp_or f g x y = (if f x y \<noteq> 0 then f x y else g x y)"

definition cmp_by :: "('a \<Rightarrow> real) \<Rightarrow> 'a \<Rightarrow> 'a \<Rightarrow> real" where
  "cmp_by f x y = f x - f y"

lemma comparator_cmp_by: "comparator (cmp_by f)"
  by unfold_locales (auto simp: cmp_by_def)

lemma comparator_cmp_or:
  assumes "comparator f" and "comparator g"
  shows "comparator (cmp_or f g)"
proof (rule comparator.intro)
  fix x y z
  note f = comparator.flip [OF assms(1)] comparator.zero_sym [OF assms(1)]
  note g = comparator.flip [OF assms(2)]
  show "(cmp_or f g x y \<le> 0) = (0 \<le> cmp_or f g y x)"
    using f [of x y] f [of y x] g [of x y] by (auto simp: cmp_or_def)
  assume "cmp_or f g x y \<le> 0" "cmp_or f g y z \<le> 0"
  then show "cmp_or f g x z \<le> 0"
    using comparator.le_trans [OF assms(1), of x y z] comparator.le_trans [OF assms(2), of x y z]
      comparator.le_trans [OF assms(1), of z x y] comparator.le_trans [OF assms(1), of y z x]
      comparator.zero_trans [OF assms(1), of x y z] f [of x y] f [of y z] f [of x z]
    by (auto simp: cmp_or_def split: if_splits)
qed

lemma comparator_pull: "comparator c \<Longrightarrow> comparator (\<lambda>x y. c (f x) (f y))"
  unfolding comparator_def by blast

text \<open>
  \<open>localeCompare\<close> orders strings by the reader's language, which the language leaves to the
  engine's collation tables. The components take it as a parameter; all they rely on is that it
  is a consistent comparator. Comparing code units is one.
\<close>

locale collation = comparator lc
  for lc :: "string \<Rightarrow> string \<Rightarrow> real"

definition code_unit_compare :: "string \<Rightarrow> string \<Rightarrow> real" where
  "code_unit_compare a b = (if a < b then - 1 else if a = b then 0 else 1)"

interpretation cu: collation code_unit_compare
  by unfold_locales (auto simp: code_unit_compare_def split: if_splits)

section \<open>Arrays, sets and maps\<close>

text \<open>\<open>[...new Set(xs)]\<close>: each element where it first occurs.\<close>

fun uniq :: "'a list \<Rightarrow> 'a list" where
  "uniq [] = []"
| "uniq (x # xs) = x # filter (\<lambda>y. y \<noteq> x) (uniq xs)"

lemma set_uniq [simp, js_list]: "set (uniq xs) = set xs"
  by (induction xs) auto

lemma distinct_uniq [simp, js_list]: "distinct (uniq xs)"
  by (induction xs) auto

text \<open>\<open>find\<close>: the first element that satisfies a test, or undefined.\<close>

abbreviation js_find :: "('a \<Rightarrow> bool) \<Rightarrow> 'a list \<Rightarrow> 'a option" where
  "js_find \<equiv> List.find"

text \<open>A string field that may be absent is falsy when it is absent or empty.\<close>

definition truthy :: "string option \<Rightarrow> bool" where
  "truthy s \<longleftrightarrow> (case s of None \<Rightarrow> False | Some v \<Rightarrow> v \<noteq> [])"

lemma truthy_simps [simp, js_str]:
  "truthy None = False" "truthy (Some v) = (v \<noteq> [])"
  by (simp_all add: truthy_def)

text \<open>Reading an array out of range is undefined.\<close>

definition nth_opt :: "'a list \<Rightarrow> nat \<Rightarrow> 'a option" where
  "nth_opt xs i = (if i < length xs then Some (xs ! i) else None)"

lemma map_of_update [simp, js_list]:
  "map_of (AList.update k v m) = (map_of m)(k \<mapsto> v)"
  by (simp add: update_conv')

lemma dom_AList_update: "fst ` set (AList.update t v m) = insert t (fst ` set m)"
  by (simp add: dom_update flip: dom_map_of_conv_image_fst)

text \<open>\<open>set\<close> of each entry in turn.\<close>

definition put_all :: "('k \<times> 'v) list \<Rightarrow> ('k \<times> 'v) list \<Rightarrow> ('k \<times> 'v) list" where
  "put_all m kvs = foldl (\<lambda>m (k, v). AList.update k v m) m kvs"

lemma put_all_simps [simp]:
  "put_all m [] = m" "put_all m (kv # kvs) = put_all (AList.update (fst kv) (snd kv) m) kvs"
  "put_all m (xs @ ys) = put_all (put_all m xs) ys"
  by (simp_all add: put_all_def split_beta)

lemma put_all_other: "k \<notin> fst ` set kvs \<Longrightarrow> map_of (put_all m kvs) k = map_of m k"
  by (induction kvs arbitrary: m) auto

lemma put_all_distinct: "distinct (map fst kvs) \<Longrightarrow> (k, v) \<in> set kvs \<Longrightarrow> map_of (put_all m kvs) k = Some v"
proof (induction kvs arbitrary: m)
  case (Cons a kvs)
  then show ?case by (cases "(k, v) \<in> set kvs") (auto simp: put_all_other)
qed simp

lemma put_all_dom: "fst ` set (put_all m kvs) = fst ` set m \<union> fst ` set kvs"
  by (induction kvs arbitrary: m) (auto simp: dom_update simp flip: dom_map_of_conv_image_fst)

lemma put_all_keys_distinct: "distinct (map fst m) \<Longrightarrow> distinct (map fst (put_all m kvs))"
  by (induction kvs arbitrary: m) (auto simp: distinct_update)

text \<open>A number that may be NaN: every comparison with NaN is false.\<close>

type_synonym num = "real option"

definition num_less :: "num \<Rightarrow> num \<Rightarrow> bool" where
  "num_less a b \<longleftrightarrow> (case (a, b) of (Some x, Some y) \<Rightarrow> x < y | _ \<Rightarrow> False)"

definition num_le :: "num \<Rightarrow> num \<Rightarrow> bool" where
  "num_le a b \<longleftrightarrow> (case (a, b) of (Some x, Some y) \<Rightarrow> x \<le> y | _ \<Rightarrow> False)"

lemma num_simps [simp, js_num]:
  "num_less (Some x) (Some y) = (x < y)" "num_less None b = False" "num_less a None = False"
  "num_le (Some x) (Some y) = (x \<le> y)" "num_le None b = False" "num_le a None = False"
  by (auto simp: num_less_def num_le_def split: option.splits)

end
