(* ===== verification/JsDate.thy ===== *)
theory JsDate
  imports Prelude
begin

text \<open>
  \<open>Date\<close> as ECMAScript specifies it: a time value is an \<^typ>\<open>int\<close>, the milliseconds since 1970 in
  UTC, and the calendar is the proleptic Gregorian one. The year of a day is computed, and the
  lemmas show that it is the year the specification asks for, that taking a day apart and making
  it again gives the day back, and that a valid civil date survives the other way round. The two
  digit years that \<open>Date.UTC\<close> reads as the twentieth century are kept. A time value is not clipped
  to the range the engine allows. An invalid date (NaN) is \<^const>\<open>None\<close>.
\<close>

named_theorems date_simps \<open>taking dates apart and making them\<close>

section \<open>Days and years\<close>

definition MS_PER_DAY :: int where
  "MS_PER_DAY = 86400000"

definition day_from_year :: "int \<Rightarrow> int" where
  "day_from_year y =
     365 * (y - 1970) + (y - 1969) div 4 - (y - 1901) div 100 + (y - 1601) div 400"

definition leap :: "int \<Rightarrow> bool" where
  "leap y \<longleftrightarrow> y mod 4 = 0 \<and> (y mod 100 \<noteq> 0 \<or> y mod 400 = 0)"

definition days_in_year :: "int \<Rightarrow> int" where
  "days_in_year y = (if leap y then 366 else 365)"

text \<open>The year a day falls in, from the cycles of 400, 100, 4 and 1 years.\<close>

definition year_from_day :: "int \<Rightarrow> int" where
  "year_from_day d =
     (let n = d + 719162;
          q = n div 146097; r = n mod 146097;
          b = min 3 (r div 36524); r2 = r - 36524 * b;
          c = r2 div 1461; r3 = r2 mod 1461;
          e = min 3 (r3 div 365)
      in 400 * q + 100 * b + 4 * c + e + 1)"

lemma div_step:
  fixes x k :: int
  assumes "0 < k"
  shows "(x + 1) div k = x div k + (if (x + 1) mod k = 0 then 1 else 0)"
proof -
  have x: "x = k * (x div k) + x mod k" by simp
  have m: "0 \<le> x mod k" "x mod k < k" using assms by simp_all
  show ?thesis
  proof (cases "x mod k + 1 = k")
    case True
    with x have "x + 1 = k * (x div k + 1) + 0" by (simp only: distrib_left)
    then have "(x + 1) div k = x div k + 1" and "(x + 1) mod k = 0"
      using assms int_div_pos_eq [of "x + 1" k "x div k + 1" 0]
        int_mod_pos_eq [of "x + 1" k "x div k + 1" 0]
      by auto
    then show ?thesis by simp
  next
    case False
    with x have "x + 1 = k * (x div k) + (x mod k + 1)" by linarith
    then have "(x + 1) div k = x div k" and "(x + 1) mod k = x mod k + 1"
      using False m int_div_pos_eq [of "x + 1" k "x div k" "x mod k + 1"]
        int_mod_pos_eq [of "x + 1" k "x div k" "x mod k + 1"]
      by auto
    with m show ?thesis by simp
  qed
qed

lemma mod_shift: "(y - m * k) mod k = y mod (k :: int)"
  using mod_mult_self1 [of y "- m" k] by simp

lemma leap_count:
  assumes "B \<Longrightarrow> A" "C \<Longrightarrow> B"
  shows "(if A \<and> (\<not> B \<or> C) then 366 else 365) =
    365 + (if A then 1 else 0) - (if B then 1 else 0) + (if C then 1 else (0 :: int))"
  using assms by (cases A; cases B; cases C; simp)

lemma day_from_year_Suc: "day_from_year (y + 1) = day_from_year y + days_in_year y"
proof -
  have a: "(y + 1 - 1969) div 4 = (y - 1969) div 4 + (if y mod 4 = 0 then 1 else 0)"
    using div_step [of 4 "y - 1969"] mod_shift [of y 492 4] by simp
  have b: "(y + 1 - 1901) div 100 = (y - 1901) div 100 + (if y mod 100 = 0 then 1 else 0)"
    using div_step [of 100 "y - 1901"] mod_shift [of y 19 100] by simp
  have c: "(y + 1 - 1601) div 400 = (y - 1601) div 400 + (if y mod 400 = 0 then 1 else 0)"
    using div_step [of 400 "y - 1601"] mod_shift [of y 4 400] by simp
  have d: "y mod 4 = 0" if "y mod 100 = 0"
    using that mod_mod_cancel [of 4 100 y] by simp
  have e: "y mod 100 = 0" if "y mod 400 = 0"
    using that mod_mod_cancel [of 100 400 y] by simp
  have "days_in_year y = 365 + (if y mod 4 = 0 then 1 else 0) - (if y mod 100 = 0 then 1 else 0)
      + (if y mod 400 = 0 then 1 else 0)"
    unfolding days_in_year_def leap_def using d e by (rule leap_count)
  then show ?thesis unfolding day_from_year_def a b c by simp
qed

lemma days_in_year_bounds: "365 \<le> days_in_year y" "days_in_year y \<le> 366"
  by (simp_all add: days_in_year_def)

lemma day_from_year_mono: "y < z \<Longrightarrow> day_from_year y + 365 \<le> day_from_year z"
proof (induction "nat (z - y)" arbitrary: z)
  case (Suc n)
  show ?case
  proof (cases "y = z - 1")
    case True
    with day_from_year_Suc [of y] days_in_year_bounds [of y] show ?thesis by simp
  next
    case False
    with Suc have "day_from_year y + 365 \<le> day_from_year (z - 1)" by simp
    with day_from_year_Suc [of "z - 1"] days_in_year_bounds [of "z - 1"] show ?thesis by simp
  qed
qed simp

lemma day_from_year_unique:
  assumes "day_from_year y \<le> d" "d < day_from_year (y + 1)"
    and "day_from_year z \<le> d" "d < day_from_year (z + 1)"
  shows "y = z"
proof (rule ccontr)
  assume "y \<noteq> z"
  then consider "y + 1 = z" | "y + 1 < z" | "z + 1 = y" | "z + 1 < y" by linarith
  then show False
    using assms day_from_year_mono [of "y + 1" z] day_from_year_mono [of "z + 1" y]
    by cases auto
qed

lemma day_from_cycles:
  assumes "0 \<le> b" "b \<le> 3" "0 \<le> c" "c \<le> 24" "0 \<le> e" "e \<le> 3"
  shows "day_from_year (400 * q + 100 * b + 4 * c + e + 1) =
    146097 * q + 36524 * b + 1461 * c + 365 * e - 719162"
proof -
  have "(400 * q + 100 * b + 4 * c + e + 1 - 1969) div 4 = 100 * q + 25 * b + c - 492"
    using assms by (intro int_div_pos_eq [where r = e]) auto
  moreover have "(400 * q + 100 * b + 4 * c + e + 1 - 1901) div 100 = 4 * q + b - 19"
    using assms by (intro int_div_pos_eq [where r = "4 * c + e"]) auto
  moreover have "(400 * q + 100 * b + 4 * c + e + 1 - 1601) div 400 = q - 4"
    using assms by (intro int_div_pos_eq [where r = "100 * b + 4 * c + e"]) auto
  ultimately show ?thesis by (simp add: day_from_year_def)
qed

lemma div_bounds: "0 < k \<Longrightarrow> k * (x div k) \<le> x \<and> x < k * (x div k) + (k :: int)"
  using mult_div_mod_eq [of k x] pos_mod_sign [of k x] pos_mod_bound [of k x] by linarith

text \<open>The year of a day is the one whose first day is not after it and whose next year's is.\<close>

lemma year_from_day: "day_from_year (year_from_day d) \<le> d" "d < day_from_year (year_from_day d + 1)"
proof -
  define q r where "q = (d + 719162) div 146097" and "r = (d + 719162) mod 146097"
  define b where "b = min 3 (r div 36524)"
  define c s where "c = (r - 36524 * b) div 1461" and "s = (r - 36524 * b) mod 1461"
  define e where "e = min 3 (s div 365)"
  have y: "year_from_day d = 400 * q + 100 * b + 4 * c + e + 1"
    by (simp only: year_from_day_def Let_def q_def r_def b_def c_def s_def e_def)
  have "0 \<le> r" unfolding r_def by (rule pos_mod_sign) simp
  moreover have "r < 146097" unfolding r_def by (rule pos_mod_bound) simp
  moreover have "d + 719162 = 146097 * q + r"
    unfolding q_def r_def by (rule mult_div_mod_eq [symmetric])
  ultimately have r: "0 \<le> r" "r \<le> 146096" "d + 719162 = 146097 * q + r" by linarith+
  define k where "k = r div 36524"
  have k: "0 \<le> k" "36524 * k \<le> r" "r < 36524 * k + 36524"
    using r(1) div_bounds [of 36524 r] by (simp_all add: k_def pos_imp_zdiv_nonneg_iff)
  have b: "0 \<le> b" "b \<le> 3" "36524 * b \<le> r" "b < 3 \<Longrightarrow> r < 36524 * b + 36524"
    using k by (auto simp: b_def k_def [symmetric] min_def)
  have r2: "0 \<le> r - 36524 * b" "r - 36524 * b \<le> 36524"
    using b r by (cases "b < 3"; simp)+
  have c: "0 \<le> c" "0 \<le> s" "s \<le> 1460" "r - 36524 * b = 1461 * c + s"
    using r2 by (simp_all add: c_def s_def pos_imp_zdiv_nonneg_iff)
  then have c24: "c \<le> 24" using r2 by linarith
  define m where "m = s div 365"
  have m: "0 \<le> m" "365 * m \<le> s" "s < 365 * m + 365"
    using c div_bounds [of 365 s] by (simp_all add: m_def pos_imp_zdiv_nonneg_iff)
  have e: "0 \<le> e" "e \<le> 3" "365 * e \<le> s" "e < 3 \<Longrightarrow> s < 365 * e + 365"
    using m by (auto simp: e_def m_def [symmetric] min_def)
  have first: "day_from_year (year_from_day d) = 146097 * q + 36524 * b + 1461 * c + 365 * e - 719162"
    unfolding y using b c c24 e by (intro day_from_cycles)
  show "day_from_year (year_from_day d) \<le> d" using first r c e by linarith
  have dy: "d - day_from_year (year_from_day d) = s - 365 * e" using first r c by linarith
  show "d < day_from_year (year_from_day d + 1)"
  proof (cases "e < 3")
    case True
    then show ?thesis
      using dy e day_from_year_mono [of "year_from_day d" "year_from_day d + 1"] by linarith
  next
    case False
    then have e3: "e = 3" using e by simp
    have "year_from_day d = 4 * (100 * q + 25 * b + c + 1)" using y e3 by simp
    then have m4: "year_from_day d mod 4 = 0" by simp
    have "leap (year_from_day d)" if "365 * e + 365 \<le> s"
    proof -
      from that e3 c have s: "s = 1460" by simp
      have "year_from_day d mod 100 \<noteq> 0 \<or> year_from_day d mod 400 = 0"
      proof (cases "c = 24")
        case True
        with c s r2 have "r - 36524 * b = 36524" by simp
        with b r have "b = 3" by (cases "b < 3") auto
        with True e3 y have "year_from_day d = 400 * (q + 1)" by simp
        then show ?thesis by simp
      next
        case False
        then have "year_from_day d = (4 * c + 4) + (4 * q + b) * 100" using y e3 by simp
        then have "year_from_day d mod 100 = (4 * c + 4) mod 100"
          by (simp only: mod_mult_self1)
        also have "\<dots> = 4 * c + 4" using c c24 False by (intro mod_pos_pos_trivial) auto
        finally show ?thesis using c by simp
      qed
      with m4 show ?thesis by (simp add: leap_def)
    qed
    then show ?thesis
      using dy e3 c day_from_year_Suc [of "year_from_day d"]
      by (cases "365 * e + 365 \<le> s") (auto simp: days_in_year_def)
  qed
qed

lemma year_from_dayI:
  "day_from_year y \<le> d \<Longrightarrow> d < day_from_year y + days_in_year y \<Longrightarrow> year_from_day d = y"
  using year_from_day [of d] day_from_year_Suc [of y] by (intro day_from_year_unique) auto

section \<open>Months\<close>

text \<open>The day of the year a month begins on, months counted from zero.\<close>

definition month_start :: "bool \<Rightarrow> int \<Rightarrow> int" where
  "month_start lp m =
     (let l = (if lp then 1 else 0)
      in if m = 0 then 0 else if m = 1 then 31 else if m = 2 then 59 + l else if m = 3 then 90 + l
      else if m = 4 then 120 + l else if m = 5 then 151 + l else if m = 6 then 181 + l
      else if m = 7 then 212 + l else if m = 8 then 243 + l else if m = 9 then 273 + l
      else if m = 10 then 304 + l else if m = 11 then 334 + l else 365 + l)"

definition month_of_yday :: "bool \<Rightarrow> int \<Rightarrow> int" where
  "month_of_yday lp k =
     (let l = (if lp then 1 else 0)
      in if k < 31 then 0 else if k < 59 + l then 1 else if k < 90 + l then 2
      else if k < 120 + l then 3 else if k < 151 + l then 4 else if k < 181 + l then 5
      else if k < 212 + l then 6 else if k < 243 + l then 7 else if k < 273 + l then 8
      else if k < 304 + l then 9 else if k < 334 + l then 10 else 11)"

lemma month_of_yday_range: "0 \<le> month_of_yday lp k" "month_of_yday lp k \<le> 11"
  by (simp_all add: month_of_yday_def Let_def)

lemma month_of_yday_start:
  assumes "0 \<le> k" and "k < (if lp then 366 else 365)"
  shows "month_start lp (month_of_yday lp k) \<le> k" "k < month_start lp (month_of_yday lp k + 1)"
  using assms by (cases lp; simp add: month_of_yday_def month_start_def Let_def)+

lemma month_cases:
  assumes "0 \<le> m" "m \<le> (11::int)"
  obtains "m = 0" | "m = 1" | "m = 2" | "m = 3" | "m = 4" | "m = 5" | "m = 6" | "m = 7"
    | "m = 8" | "m = 9" | "m = 10" | "m = 11"
proof -
  have "m = 0 \<or> m = 1 \<or> m = 2 \<or> m = 3 \<or> m = 4 \<or> m = 5 \<or> m = 6 \<or> m = 7 \<or> m = 8 \<or> m = 9
    \<or> m = 10 \<or> m = 11" using assms by presburger
  then show thesis using that by blast
qed

lemma month_of_yday_unique:
  assumes "0 \<le> m" "m \<le> 11" "month_start lp m \<le> k" "k < month_start lp (m + 1)"
  shows "month_of_yday lp k = m"
  using assms(1,2) by (cases rule: month_cases; cases lp;
    use assms(3,4) in \<open>simp add: month_of_yday_def month_start_def\<close>)

lemma month_start_mono:
  assumes "0 \<le> m" "m \<le> 11"
  shows "month_start lp m + 28 \<le> month_start lp (m + 1)"
    and "month_start lp (m + 1) \<le> (if lp then 366 else 365)"
    and "0 \<le> month_start lp m"
  using assms by (cases rule: month_cases; simp add: month_start_def Let_def)+

lemma month_start_le:
  assumes "0 \<le> m" "m \<le> n" "n \<le> 12"
  shows "month_start lp m \<le> month_start lp n"
  using assms
proof (induction "nat (n - m)" arbitrary: n)
  case (Suc k)
  then have "month_start lp m \<le> month_start lp (n - 1)" by (intro Suc.hyps(1)) auto
  moreover have "month_start lp (n - 1) \<le> month_start lp n"
  proof -
    have "0 \<le> n - 1" "n - 1 \<le> 11" using Suc.prems Suc.hyps(2) by linarith+
    from month_start_mono(1) [OF this, of lp] show ?thesis by simp
  qed
  ultimately show ?case by simp
qed simp

text \<open>\<open>MakeDay\<close>: months outside 0 to 11 carry into the year, days outside the month run on.\<close>

definition make_day :: "int \<Rightarrow> int \<Rightarrow> int \<Rightarrow> int" where
  "make_day y m dt =
     (let ym = y + m div 12; mn = m mod 12
      in day_from_year ym + month_start (leap ym) mn + dt - 1)"

definition day_month :: "int \<Rightarrow> int" where
  "day_month d = (let y = year_from_day d in month_of_yday (leap y) (d - day_from_year y))"

definition day_date :: "int \<Rightarrow> int" where
  "day_date d = (let y = year_from_day d
     in d - day_from_year y - month_start (leap y) (day_month d) + 1)"

text \<open>Monday is 1 and Sunday 0; the first day of 1970 was a Thursday.\<close>

definition day_weekday :: "int \<Rightarrow> int" where
  "day_weekday d = (d + 4) mod 7"

lemma day_month_range: "0 \<le> day_month d" "day_month d \<le> 11"
  by (simp_all add: day_month_def Let_def month_of_yday_range)

lemma yday_range: "0 \<le> d - day_from_year (year_from_day d)"
  "d - day_from_year (year_from_day d) < (if leap (year_from_day d) then 366 else 365)"
  using year_from_day [of d] day_from_year_Suc [of "year_from_day d"]
  by (auto simp: days_in_year_def split: if_splits)

lemma month_at_most_31:
  assumes "0 \<le> m" "m \<le> 11"
  shows "month_start lp (m + 1) \<le> month_start lp m + 31"
  using assms by (cases rule: month_cases; simp add: month_start_def Let_def)

lemma day_date_range: "1 \<le> day_date d" "day_date d \<le> 31"
proof -
  let ?y = "year_from_day d"
  have s: "month_start (leap ?y) (day_month d) \<le> d - day_from_year ?y"
    "d - day_from_year ?y < month_start (leap ?y) (day_month d + 1)"
    using month_of_yday_start [OF yday_range [of d]] by (simp_all add: day_month_def Let_def)
  then show "1 \<le> day_date d" "day_date d \<le> 31"
    using month_at_most_31 [OF day_month_range, of "leap ?y" d]
    by (simp_all add: day_date_def Let_def)
qed

text \<open>Taking a day apart and making it again gives the day back.\<close>

lemma make_day_of_parts [simp, date_simps]:
  "make_day (year_from_day d) (day_month d) (day_date d) = d"
  using day_month_range [of d] by (simp add: make_day_def day_date_def Let_def div_pos_pos_trivial)

lemma make_day_shift: "make_day y m (dt + k) = make_day y m dt + k"
  by (simp add: make_day_def Let_def)

definition month_length :: "int \<Rightarrow> int \<Rightarrow> int" where
  "month_length y m = month_start (leap y) (m + 1) - month_start (leap y) m"

text \<open>And a civil date that exists is what its day is taken apart into.\<close>

lemma parts_of_make_day:
  assumes "0 \<le> m" "m \<le> 11" "1 \<le> dt" "dt \<le> month_length y m"
  shows "year_from_day (make_day y m dt) = y" "day_month (make_day y m dt) = m"
    "day_date (make_day y m dt) = dt"
proof -
  have d: "make_day y m dt = day_from_year y + month_start (leap y) m + dt - 1"
    using assms by (simp add: make_day_def div_pos_pos_trivial)
  note ms = month_start_mono [OF assms(1,2), of "leap y"]
  have l: "dt \<le> month_start (leap y) (m + 1) - month_start (leap y) m"
    using assms(4) by (simp add: month_length_def)
  show y: "year_from_day (make_day y m dt) = y"
    using ms l assms(3) by (intro year_from_dayI) (auto simp: d days_in_year_def)
  have k: "make_day y m dt - day_from_year y = month_start (leap y) m + dt - 1" by (simp add: d)
  show m: "day_month (make_day y m dt) = m"
    unfolding day_month_def Let_def y k
    using assms l by (intro month_of_yday_unique) auto
  show "day_date (make_day y m dt) = dt" unfolding day_date_def Let_def y m by (simp add: d)
qed

lemma month_length_pos: "0 \<le> m \<Longrightarrow> m \<le> 11 \<Longrightarrow> 28 \<le> month_length y m"
  using month_start_mono(1) [of m "leap y"] by (simp add: month_length_def)

text \<open>The first of a later month is a later day.\<close>

lemma make_day_next_month: "make_day y m 1 < make_day y (m + 1) 1"
proof -
  let ?y = "y + m div 12"
  have m: "0 \<le> m mod 12" "m mod 12 \<le> 11" by (simp_all add: le_less_trans [of _ 11 12])
  note ms = month_start_mono [OF m, of "leap ?y"]
  have here: "make_day y m 1 = day_from_year ?y + month_start (leap ?y) (m mod 12)"
    by (simp add: make_day_def Let_def)
  show ?thesis
  proof (cases "(m + 1) mod 12 = 0")
    case True
    then have "(m + 1) div 12 = m div 12 + 1" using div_step [of 12 m] by simp
    then have "make_day y (m + 1) 1 = day_from_year (?y + 1)"
      using True by (simp add: make_day_def Let_def month_start_def add.assoc)
    then show ?thesis
      using here ms day_from_year_Suc [of ?y] by (simp add: days_in_year_def split: if_splits)
  next
    case False
    then have d: "(m + 1) div 12 = m div 12" using div_step [of 12 m] by simp
    then have "(m + 1) mod 12 = m mod 12 + 1"
      using minus_mult_div_eq_mod [of "m + 1" 12] minus_mult_div_eq_mod [of m 12] by linarith
    with d show ?thesis using here ms by (simp add: make_day_def Let_def)
  qed
qed

section \<open>Time values\<close>

text \<open>The UTC parts of a time value, and \<open>Date.UTC\<close>, which reads the years 0 to 99 as 1900 to 1999.\<close>

abbreviation ms_day :: "int \<Rightarrow> int" where
  "ms_day t \<equiv> t div MS_PER_DAY"

definition getUTCFullYear :: "int \<Rightarrow> int" where
  "getUTCFullYear t = year_from_day (ms_day t)"

definition getUTCMonth :: "int \<Rightarrow> int" where
  "getUTCMonth t = day_month (ms_day t)"

definition getUTCDate :: "int \<Rightarrow> int" where
  "getUTCDate t = day_date (ms_day t)"

definition getUTCDay :: "int \<Rightarrow> int" where
  "getUTCDay t = day_weekday (ms_day t)"

definition full_year :: "int \<Rightarrow> int" where
  "full_year y = (if 0 \<le> y \<and> y \<le> 99 then 1900 + y else y)"

definition date_UTC :: "int \<Rightarrow> int \<Rightarrow> int \<Rightarrow> int" where
  "date_UTC y m d = make_day (full_year y) m d * MS_PER_DAY"

lemma MS_PER_DAY_pos [simp]: "0 < MS_PER_DAY" "0 \<le> MS_PER_DAY" "MS_PER_DAY \<noteq> 0"
  by (simp_all add: MS_PER_DAY_def)

lemma ms_day_mult [simp, date_simps]: "ms_day (d * MS_PER_DAY) = d"
  by simp

lemma full_year_ge: "y \<le> full_year y"
  by (simp add: full_year_def)

lemma day_from_year_le: "y \<le> z \<Longrightarrow> day_from_year y \<le> day_from_year z"
  using day_from_year_mono [of y z] by (cases "y = z") auto

lemma mod12: "0 \<le> m mod 12" "m mod 12 \<le> (11 :: int)"
  using pos_mod_bound [of 12 m] by simp_all

lemma make_day_year_le:
  assumes "y \<le> z"
  shows "make_day y m 1 \<le> make_day z m 1"
proof (cases "y = z")
  case False
  then have "y + m div 12 < z + m div 12" using assms by simp
  then have "day_from_year (y + m div 12 + 1) \<le> day_from_year (z + m div 12)"
    by (intro day_from_year_le) simp
  moreover have "month_start (leap u) (m mod 12) \<le> days_in_year u" for u
    using month_start_mono(1,2) [OF mod12, of "leap u" m] by (simp add: days_in_year_def)
  moreover have "0 \<le> month_start lp (m mod 12)" for lp by (rule month_start_mono(3) [OF mod12])
  ultimately show ?thesis
    using day_from_year_Suc [of "y + m div 12"]
    by (simp only: make_day_def Let_def) (meson add_mono add_increasing2 order.trans diff_right_mono order.refl)
qed simp

section \<open>Days as text\<close>

definition two_digits :: "int \<Rightarrow> string" where
  "two_digits n = padStart 2 (nat_str (nat n))"

definition iso_year :: "int \<Rightarrow> string" where
  "iso_year y =
     (if 0 \<le> y \<and> y \<le> 9999 then padStart 4 (nat_str (nat y))
      else (if y < 0 then ''-'' else ''+'') @ padStart 6 (nat_str (nat \<bar>y\<bar>)))"

definition iso_date :: "int \<Rightarrow> string" where
  "iso_date d = iso_year (year_from_day d) @ ''-'' @ two_digits (day_month d + 1) @ ''-''
     @ two_digits (day_date d)"

definition iso_clock :: "int \<Rightarrow> string" where
  "iso_clock ms = two_digits (ms div 3600000) @ '':'' @ two_digits (ms div 60000 mod 60) @ '':''
     @ two_digits (ms div 1000 mod 60) @ ''.'' @ padStart 3 (nat_str (nat (ms mod 1000)))"

definition toISOString :: "int \<Rightarrow> string" where
  "toISOString t = iso_date (ms_day t) @ ''T'' @ iso_clock (t mod MS_PER_DAY) @ ''Z''"

definition all_digits :: "string \<Rightarrow> bool" where
  "all_digits s \<longleftrightarrow> s \<noteq> [] \<and> list_all is_digit s"

text \<open>Reading \<open>YYYY-MM-DD\<close>: the day, or nothing for text of another form or a day no month has.\<close>

definition read_day :: "string \<Rightarrow> int option" where
  "read_day s =
     (if length s = 10 \<and> s ! 4 = CHR ''-'' \<and> s ! 7 = CHR ''-''
         \<and> all_digits (take 4 s) \<and> all_digits (take 2 (drop 5 s)) \<and> all_digits (drop 8 s)
      then let y = int (str_nat (take 4 s)); m = int (str_nat (take 2 (drop 5 s))) - 1;
               d = int (str_nat (drop 8 s))
           in if 0 \<le> m \<and> m \<le> 11 \<and> 1 \<le> d \<and> d \<le> month_length y m then Some (make_day y m d) else None
      else None)"

text \<open>
  Reading a clock \<open>HH:mm\<close>, with seconds and a fraction or without, and its zone: the milliseconds
  into the day in UTC.
\<close>

definition read_two :: "string \<Rightarrow> (int \<times> string) option" where
  "read_two s = (if 2 \<le> length s \<and> all_digits (take 2 s)
     then Some (int (str_nat (take 2 s)), drop 2 s) else None)"

definition read_sep :: "char \<Rightarrow> string \<Rightarrow> string option" where
  "read_sep c s = (case s of [] \<Rightarrow> None | d # r \<Rightarrow> if d = c then Some r else None)"

definition read_seconds :: "string \<Rightarrow> (int \<times> string) option" where
  "read_seconds s =
     (case read_sep (CHR '':'') s of None \<Rightarrow> Some (0, s)
      | Some r \<Rightarrow> Option.bind (read_two r) (\<lambda>(sec, r).
          (case read_sep (CHR ''.'') r of None \<Rightarrow> Some (sec * 1000, r)
           | Some f \<Rightarrow> let ds = takeWhile is_digit f
               in if ds = [] then None
                  else Some (sec * 1000 + int (str_nat (take 3 (ds @ ''00''))), dropWhile is_digit f))))"

definition read_zone :: "string \<Rightarrow> int option" where
  "read_zone s =
     (if s = ''Z'' then Some 0
      else case s of [] \<Rightarrow> None
        | c # r \<Rightarrow> Option.bind (read_two r) (\<lambda>(h, r). Option.bind (read_sep (CHR '':'') r) (\<lambda>r.
            Option.bind (read_two r) (\<lambda>(m, r).
              if r = [] \<and> h \<le> 23 \<and> m \<le> 59 \<and> (c = CHR ''+'' \<or> c = CHR ''-'')
              then Some ((if c = CHR ''+'' then 1 else - 1) * (h * 60 + m) * 60000) else None))))"

definition read_clock :: "string \<Rightarrow> int option" where
  "read_clock s = Option.bind (read_two s) (\<lambda>(h, r). Option.bind (read_sep (CHR '':'') r) (\<lambda>r.
     Option.bind (read_two r) (\<lambda>(m, r). Option.bind (read_seconds r) (\<lambda>(ms, r).
     Option.bind (read_zone r) (\<lambda>z.
       let t = h * 3600000 + m * 60000 + ms
       in if m \<le> 59 \<and> ms < 60000 \<and> t \<le> MS_PER_DAY then Some (t - z) else None)))))"

text \<open>
  \<open>new Date(text).getTime()\<close> for the interchange formats with a day or with a day, a clock and a
  zone, which are the ones the server writes. Other text is an invalid date.
\<close>

definition date_value :: "string \<Rightarrow> int option" where
  "date_value s =
     (case read_day (take 10 s) of None \<Rightarrow> None
      | Some d \<Rightarrow> if length s = 10 then Some (d * MS_PER_DAY)
          else Option.bind (read_sep (CHR ''T'') (drop 10 s)) (\<lambda>r.
            map_option (\<lambda>t. d * MS_PER_DAY + t) (read_clock r)))"

lemma foldl_digits:
  "foldl (\<lambda>n c. 10 * n + digit_val c) a s = a * 10 ^ length s + str_nat s"
proof (induction s arbitrary: a)
  case (Cons c s)
  have "str_nat (c # s) = digit_val c * 10 ^ length s + str_nat s"
    using Cons [of "digit_val c"] by (simp add: str_nat_def)
  with Cons [of "10 * a + digit_val c"] show ?case by (simp add: algebra_simps)
qed (simp add: str_nat_def)

lemma str_nat_Cons: "str_nat (c # s) = digit_val c * 10 ^ length s + str_nat s"
  using foldl_digits [of 0 "c # s"] foldl_digits [of "digit_val c" s] by simp

lemma str_nat_less: "list_all is_digit s \<Longrightarrow> str_nat s < 10 ^ length s"
proof (induction s)
  case (Cons c s)
  then have "digit_val c \<le> 9" by (auto simp: is_digit_def digit_val_def)
  then have "digit_val c * 10 ^ length s \<le> 9 * 10 ^ length s" by (rule mult_le_mono1)
  moreover have "str_nat s < 10 ^ length s" using Cons by simp
  ultimately show ?case unfolding str_nat_Cons length_Cons power_Suc by linarith
qed (simp add: str_nat_def)

lemma digits_less_iff:
  assumes "list_all is_digit s" "list_all is_digit t" "length s = length t"
  shows "s < t \<longleftrightarrow> str_nat s < str_nat t"
  using assms
proof (induction s arbitrary: t)
  case (Cons c s)
  then obtain d u where t: "t = d # u" "length s = length u" by (cases t) auto
  have cd: "c < d \<longleftrightarrow> digit_val c < digit_val d" "c = d \<longleftrightarrow> digit_val c = digit_val d"
    using Cons.prems t of_char_eq_iff [where ?'a = nat, of c d]
    by (auto simp: is_digit_def digit_val_def less_char_def simp del: of_char_eq_iff)
  have lt: "str_nat s < 10 ^ length u" "str_nat u < 10 ^ length u"
    using Cons.prems t str_nat_less [of s] str_nat_less [of u] by simp_all
  have ih: "s < u \<longleftrightarrow> str_nat s < str_nat u" using Cons t by simp
  consider "digit_val c < digit_val d" | "digit_val c = digit_val d" | "digit_val d < digit_val c"
    by linarith
  then show ?case
  proof cases
    case 1
    then have "(digit_val c + 1) * 10 ^ length u \<le> digit_val d * 10 ^ length u"
      by (intro mult_le_mono1) simp
    with 1 lt t cd show ?thesis by (simp add: str_nat_Cons)
  next
    case 2
    with ih t cd show ?thesis by (simp add: str_nat_Cons)
  next
    case 3
    then have "(digit_val d + 1) * 10 ^ length u \<le> digit_val c * 10 ^ length u"
      by (intro mult_le_mono1) simp
    with 3 lt t cd show ?thesis by (simp add: str_nat_Cons)
  qed
qed simp

lemma append_less_iff:
  fixes a b :: string
  assumes "length a = length b"
  shows "a @ s < b @ t \<longleftrightarrow> a < b \<or> a = b \<and> s < t"
  using assms by (induction a b rule: list_induct2) auto

lemma length_nat_str: "0 < k \<Longrightarrow> n < 10 ^ k \<Longrightarrow> length (nat_str n) \<le> k"
proof (induction n arbitrary: k rule: nat_str.induct)
  case (1 n)
  show ?case
  proof (cases "n < 10")
    case True
    with 1 show ?thesis by (simp add: nat_str.simps [of n])
  next
    case False
    with 1 have "k \<noteq> 1" by auto
    with 1 obtain j where j: "k = Suc j" "0 < j" by (cases k) auto
    with 1 False have "length (nat_str (n div 10)) \<le> j" by simp
    with False j show ?thesis by (simp add: nat_str.simps [of n])
  qed
qed

lemma padStart_nat_str:
  assumes "0 < k" "n < 10 ^ k"
  shows "length (padStart k (nat_str n)) = k" "list_all is_digit (padStart k (nat_str n))"
  using assms length_nat_str [of k n] nat_str_digits [of n]
  by (auto simp: padStart_def list_all_iff is_digit_def)

lemma two_digits:
  assumes "0 \<le> n" "n \<le> 99"
  shows "length (two_digits n) = 2" "list_all is_digit (two_digits n)" "str_nat (two_digits n) = nat n"
    "all_digits (two_digits n)"
proof -
  have "nat n < 10 ^ 2" using assms by simp
  note pad = padStart_nat_str [OF _ this]
  then show "length (two_digits n) = 2" "list_all is_digit (two_digits n)"
    "str_nat (two_digits n) = nat n" "all_digits (two_digits n)"
    by (auto simp: two_digits_def all_digits_def dest: arg_cong [of _ _ length])
qed

lemma iso_year:
  assumes "0 \<le> y" "y \<le> 9999"
  shows "length (iso_year y) = 4" "list_all is_digit (iso_year y)" "str_nat (iso_year y) = nat y"
    "all_digits (iso_year y)"
proof -
  have "nat y < 10 ^ 4" using assms by simp
  note pad = padStart_nat_str [OF _ this]
  with assms show "length (iso_year y) = 4" "list_all is_digit (iso_year y)"
    "str_nat (iso_year y) = nat y" "all_digits (iso_year y)"
    by (auto simp: iso_year_def all_digits_def dest: arg_cong [of _ _ length])
qed

text \<open>A day whose year has four digits.\<close>

definition plain_day :: "int \<Rightarrow> bool" where
  "plain_day d \<longleftrightarrow> 0 \<le> year_from_day d \<and> year_from_day d \<le> 9999"

lemma length_iso_date: "plain_day d \<Longrightarrow> length (iso_date d) = 10"
  using day_month_range [of d] day_date_range [of d]
  by (simp add: iso_date_def plain_day_def iso_year two_digits)

lemma iso_date_fields:
  assumes "plain_day d"
  shows "take 4 (iso_date d) = iso_year (year_from_day d)" "iso_date d ! 4 = CHR ''-''"
    "take 2 (drop 5 (iso_date d)) = two_digits (day_month d + 1)" "iso_date d ! 7 = CHR ''-''"
    "drop 8 (iso_date d) = two_digits (day_date d)"
  using assms day_month_range [of d] day_date_range [of d]
  by (simp_all add: iso_date_def plain_day_def iso_year two_digits nth_append)

text \<open>What a day is written as reads back as the day.\<close>

lemma read_iso_date:
  assumes "plain_day d"
  shows "read_day (iso_date d) = Some d"
proof -
  have m: "0 \<le> day_month d" "day_month d \<le> 11" "1 \<le> day_date d" "day_date d \<le> 31"
    by (simp_all add: day_month_range day_date_range)
  have "day_date d \<le> month_length (year_from_day d) (day_month d)"
    using month_of_yday_start(2) [OF yday_range [of d]]
    by (simp add: day_date_def month_length_def day_month_def Let_def)
  then show ?thesis
    using assms m length_iso_date [OF assms] iso_date_fields [OF assms]
    by (simp add: read_day_def plain_day_def iso_year two_digits)
qed

lemma date_value_day: "plain_day d \<Longrightarrow> date_value (iso_date d) = Some (d * MS_PER_DAY)"
  by (simp add: date_value_def length_iso_date read_iso_date)

text \<open>Days compare as the texts they are written as.\<close>

lemma day_less_parts:
  "d < e \<longleftrightarrow> year_from_day d < year_from_day e \<or>
    year_from_day d = year_from_day e \<and> (day_month d < day_month e \<or>
      day_month d = day_month e \<and> day_date d < day_date e)" (is "_ \<longleftrightarrow> ?less d e")
proof -
  have less: "d < e" if l: "?less d e" for d e
  proof -
    consider "year_from_day d < year_from_day e"
      | "year_from_day d = year_from_day e" "day_month d < day_month e"
      | "year_from_day d = year_from_day e" "day_month d = day_month e" "day_date d < day_date e"
      using l by blast
    then show ?thesis
    proof cases
      case 1
      then have "day_from_year (year_from_day d + 1) \<le> day_from_year (year_from_day e)"
        by (intro day_from_year_le) simp
      then show ?thesis using year_from_day [of d] year_from_day [of e] by simp
    next
      case 2
      let ?y = "year_from_day d"
      have "month_start (leap ?y) (day_month d + 1) \<le> month_start (leap ?y) (day_month e)"
        by (rule month_start_le) (use 2 day_month_range [of e] day_month_range [of d] in auto)
      then show ?thesis
        using 2 month_of_yday_start [OF yday_range [of d]] month_of_yday_start [OF yday_range [of e]]
        by (simp add: day_month_def Let_def)
    next
      case 3
      then show ?thesis by (simp add: day_date_def Let_def)
    qed
  qed
  have "?less d e \<or> d = e \<or> ?less e d"
    by (metis make_day_of_parts linorder_less_linear)
  then show ?thesis using less [of d e] less [of e d] by (auto dest: less_asym)
qed

lemma iso_date_less_iff:
  assumes "plain_day d" "plain_day e"
  shows "iso_date d < iso_date e \<longleftrightarrow> d < e"
proof -
  have two: "two_digits m < two_digits n \<longleftrightarrow> m < n" "two_digits m = two_digits n \<longleftrightarrow> m = n"
    if "0 \<le> m" "m \<le> 99" "0 \<le> n" "n \<le> 99" for m n
    using that digits_less_iff [of "two_digits m" "two_digits n"]
    by (auto simp: two_digits dest: arg_cong [of _ _ str_nat])
  have year: "iso_year y < iso_year z \<longleftrightarrow> y < z" "iso_year y = iso_year z \<longleftrightarrow> y = z"
    if "0 \<le> y" "y \<le> 9999" "0 \<le> z" "z \<le> 9999" for y z
    using that digits_less_iff [of "iso_year y" "iso_year z"]
    by (auto simp: iso_year dest: arg_cong [of _ _ str_nat])
  show ?thesis
    using assms day_month_range [of d] day_month_range [of e] day_date_range [of d] day_date_range [of e]
    by (simp add: iso_date_def plain_day_def append_less_iff iso_year two_digits two year
        day_less_parts [of d e]) (auto simp: zless_add1_eq add1_zle_eq)
qed

lemma iso_date_le_iff: "plain_day d \<Longrightarrow> plain_day e \<Longrightarrow> iso_date d \<le> iso_date e \<longleftrightarrow> d \<le> e"
  by (metis iso_date_less_iff not_less)

lemma iso_date_eq_iff: "plain_day d \<Longrightarrow> plain_day e \<Longrightarrow> iso_date d = iso_date e \<longleftrightarrow> d = e"
  by (metis read_iso_date option.inject)

lemma take_iso_date: "plain_day (ms_day t) \<Longrightarrow> take 10 (toISOString t) = iso_date (ms_day t)"
  by (simp add: toISOString_def length_iso_date)

lemma year_from_day_mono: "d \<le> e \<Longrightarrow> year_from_day d \<le> year_from_day e"
  using day_less_parts [of d e] by (cases "d = e") auto

lemma day_before_next_month: "d < make_day (year_from_day d) (day_month d + 1) 1"
proof -
  let ?y = "year_from_day d" and ?m = "day_month d"
  have k: "d < day_from_year ?y + month_start (leap ?y) (?m + 1)"
    using month_of_yday_start(2) [OF yday_range [of d]] by (simp add: day_month_def Let_def)
  show ?thesis
  proof (cases "?m = 11")
    case True
    then have "make_day ?y (?m + 1) 1 = day_from_year (?y + 1)"
      by (simp add: make_day_def month_start_def)
    then show ?thesis using year_from_day(2) [of d] by simp
  next
    case False
    then have "make_day ?y (?m + 1) 1 = day_from_year ?y + month_start (leap ?y) (?m + 1)"
      using day_month_range [of d] by (simp add: make_day_def div_pos_pos_trivial Let_def)
    then show ?thesis using k by simp
  qed
qed

lemma make_day_month_mono: "m \<le> n \<Longrightarrow> make_day y m 1 \<le> make_day y n 1"
proof (induction "nat (n - m)" arbitrary: n)
  case (Suc k)
  then have "make_day y m 1 \<le> make_day y (n - 1) 1" by (intro Suc.hyps(1)) auto
  then show ?case using make_day_next_month [of y "n - 1"] by simp
qed simp

text \<open>The first day of a later month, as \<open>Date.UTC\<close> makes it, is after the day one starts from.\<close>

lemma date_UTC_next_month:
  assumes "1 \<le> n"
  shows "t < date_UTC (getUTCFullYear t) (getUTCMonth t + n) 1"
proof -
  let ?d = "ms_day t"
  have "?d + 1 \<le> make_day (year_from_day ?d) (day_month ?d + 1) 1"
    using day_before_next_month [of ?d] by simp
  also have "\<dots> \<le> make_day (year_from_day ?d) (day_month ?d + n) 1"
    using assms by (intro make_day_month_mono) simp
  also have "\<dots> \<le> make_day (full_year (year_from_day ?d)) (day_month ?d + n) 1"
    by (rule make_day_year_le [OF full_year_ge])
  finally have "(?d + 1) * MS_PER_DAY \<le> date_UTC (getUTCFullYear t) (getUTCMonth t + n) 1"
    unfolding date_UTC_def getUTCFullYear_def getUTCMonth_def by (intro mult_right_mono) auto
  moreover have "t < (?d + 1) * MS_PER_DAY"
    using div_bounds [of MS_PER_DAY t] by (simp add: algebra_simps)
  ultimately show ?thesis by simp
qed

end
