(* ===== verification/Config.thy ===== *)
theory Config
  imports Prelude
begin

text \<open>
  The tunable values of \<open>web/src/config.ts\<close> that the modelled components read. Pixels and ratios
  are \<^typ>\<open>real\<close>, counts are \<^typ>\<open>int\<close> or \<^typ>\<open>nat\<close>. The definitions are unfolded through the
  collection \<open>config\<close>.
\<close>

named_theorems config \<open>the values of config.ts\<close>

section \<open>The plan\<close>

definition PLAN_ROW_HEIGHT :: real where [config]: "PLAN_ROW_HEIGHT = 34"

definition PLAN_HEADER_ROW_HEIGHT :: real where [config]: "PLAN_HEADER_ROW_HEIGHT = 23"

definition PLAN_SPRINT_BAND_HEIGHT :: real where [config]: "PLAN_SPRINT_BAND_HEIGHT = 26"

definition PLAN_MIN_PX_PER_DAY :: real where [config]: "PLAN_MIN_PX_PER_DAY = 3"

definition PLAN_WEEK_LABEL_MIN_PX_PER_DAY :: real where
  [config]: "PLAN_WEEK_LABEL_MIN_PX_PER_DAY = 6"

definition PLAN_MILESTONE_BAND_HEIGHT :: real where [config]: "PLAN_MILESTONE_BAND_HEIGHT = 24"

definition PLAN_MILESTONE_FLAG_WIDTH :: real where [config]: "PLAN_MILESTONE_FLAG_WIDTH = 160"

definition PLAN_LOAD_FULL_RATIO :: real where [config]: "PLAN_LOAD_FULL_RATIO = 85 / 100"

definition PLAN_DRAG_THRESHOLD_PX :: real where [config]: "PLAN_DRAG_THRESHOLD_PX = 8"

definition PLAN_DRAFT_INPUT_MIN_PX :: real where [config]: "PLAN_DRAFT_INPUT_MIN_PX = 160"

definition PLAN_DEFAULT_CLOSED_FOR_DAYS :: int where [config]: "PLAN_DEFAULT_CLOSED_FOR_DAYS = 14"

section \<open>The dependency graph\<close>

definition GRAPH_NODE_WIDTH :: real where [config]: "GRAPH_NODE_WIDTH = 200"

definition GRAPH_NODE_HEIGHT :: real where [config]: "GRAPH_NODE_HEIGHT = 40"

definition GRAPH_COLUMN_GAP :: real where [config]: "GRAPH_COLUMN_GAP = 96"

definition GRAPH_ROW_GAP :: real where [config]: "GRAPH_ROW_GAP = 16"

definition GRAPH_ORIGIN :: real where [config]: "GRAPH_ORIGIN = 24"

definition GRAPH_SECTION_GAP :: real where [config]: "GRAPH_SECTION_GAP = 56"

definition GRAPH_EDGE_BEND :: real where [config]: "GRAPH_EDGE_BEND = 32"

definition GRAPH_MIN_GRID_COLUMNS :: nat where [config]: "GRAPH_MIN_GRID_COLUMNS = 2"

section \<open>The workflow designer\<close>

definition WORKFLOW_NODE_WIDTH :: real where [config]: "WORKFLOW_NODE_WIDTH = 240"

definition WORKFLOW_NODE_HEIGHT :: real where [config]: "WORKFLOW_NODE_HEIGHT = 72"

definition WORKFLOW_GRID :: real where [config]: "WORKFLOW_GRID = 8"

definition WORKFLOW_LAYOUT_ORIGIN_X :: real where [config]: "WORKFLOW_LAYOUT_ORIGIN_X = 32"

definition WORKFLOW_LAYOUT_ORIGIN_Y :: real where [config]: "WORKFLOW_LAYOUT_ORIGIN_Y = 40"

definition WORKFLOW_COLUMN_GAP :: real where [config]: "WORKFLOW_COLUMN_GAP = 352"

definition WORKFLOW_ROW_GAP :: real where [config]: "WORKFLOW_ROW_GAP = 104"

definition WORKFLOW_ANYWHERE_X :: real where
  [config]: "WORKFLOW_ANYWHERE_X = WORKFLOW_LAYOUT_ORIGIN_X"

definition WORKFLOW_ANYWHERE_Y :: real where
  [config]: "WORKFLOW_ANYWHERE_Y = WORKFLOW_LAYOUT_ORIGIN_Y + 2 * WORKFLOW_ROW_GAP"

definition WORKFLOW_EDGE_BEND :: real where [config]: "WORKFLOW_EDGE_BEND = 64"

definition WORKFLOW_CANVAS_MIN_WIDTH :: real where [config]: "WORKFLOW_CANVAS_MIN_WIDTH = 900"

definition WORKFLOW_CANVAS_MIN_HEIGHT :: real where [config]: "WORKFLOW_CANVAS_MIN_HEIGHT = 520"

definition WORKFLOW_CANVAS_MARGIN :: real where [config]: "WORKFLOW_CANVAS_MARGIN = 160"

definition WORKFLOW_HANDLE_SIZE :: real where [config]: "WORKFLOW_HANDLE_SIZE = 16"

section \<open>Charts, the calendar and the guide\<close>

definition CHART_MAX_GROUPS :: nat where [config]: "CHART_MAX_GROUPS = 6"

definition CALENDAR_MAX_ITEMS_PER_DAY :: nat where [config]: "CALENDAR_MAX_ITEMS_PER_DAY = 4"

definition CALENDAR_GRID_DAYS :: nat where [config]: "CALENDAR_GRID_DAYS = 42"

definition GUIDE_WEIGHT_TITLE :: int where [config]: "GUIDE_WEIGHT_TITLE = 3"

definition GUIDE_WEIGHT_KEYWORD :: int where [config]: "GUIDE_WEIGHT_KEYWORD = 2"

definition GUIDE_WEIGHT_SENTENCE :: int where [config]: "GUIDE_WEIGHT_SENTENCE = 1"

definition GUIDE_MIN_SCORE :: real where [config]: "GUIDE_MIN_SCORE = 1"

definition GUIDE_MAX_ANSWERS :: nat where [config]: "GUIDE_MAX_ANSWERS = 4"

definition GUIDE_MIN_WORDS :: nat where [config]: "GUIDE_MIN_WORDS = 2"

section \<open>The shell, overlays and working hours\<close>

definition SIDEBAR_RAIL_BELOW_PX :: int where [config]: "SIDEBAR_RAIL_BELOW_PX = 1024"

definition SIDEBAR_DRAWER_BELOW_PX :: int where [config]: "SIDEBAR_DRAWER_BELOW_PX = 768"

definition MENU_GAP_PX :: real where [config]: "MENU_GAP_PX = 4"

definition POPOVER_MAX_HEIGHT_PX :: real where [config]: "POPOVER_MAX_HEIGHT_PX = 560"

definition POPOVER_EDGE_PX :: real where [config]: "POPOVER_EDGE_PX = 8"

definition MINUTES_PER_HOUR :: int where [config]: "MINUTES_PER_HOUR = 60"

definition HOURS_PER_DAY :: int where [config]: "HOURS_PER_DAY = 24"

definition WORKING_HOURS_DECIMALS :: nat where [config]: "WORKING_HOURS_DECIMALS = 2"

definition WEEKDAY_REFERENCE_MONDAY :: string where
  [config]: "WEEKDAY_REFERENCE_MONDAY = ''2024-01-01''"

definition ABSENCE_MAX_DAYS :: int where [config]: "ABSENCE_MAX_DAYS = 366"

definition ABSENCES_LISTED_DAYS_BEHIND :: int where [config]: "ABSENCES_LISTED_DAYS_BEHIND = 31"

definition LANGUAGE_STORAGE_KEY :: string where [config]: "LANGUAGE_STORAGE_KEY = ''armature.language''"

end
