(* ===== verification/Api.thy ===== *)
theory Api
  imports Prelude
begin

text \<open>
  The values the API hands the client, as \<open>web/src/api\<close> types them. A field the source marks
  optional is an \<^typ>\<open>'a option\<close>, absent being \<^const>\<open>None\<close>; timestamps and days are the texts the
  server writes. The types of an issue that no modelled function reads past their name are kept in
  full, so a record here has the fields of the interface it stands for.
\<close>

section \<open>Rich text\<close>

text \<open>A value of type \<open>unknown\<close> is a JSON value.\<close>

datatype json = JNull | JBool bool | JNum real | JStr string | JArr "json list"
  | JObj "(string \<times> json) list"

text \<open>
  \<open>String(v)\<close> and \<open>join\<close> of a JSON value. Numbers are written by a parameter; inside an array null
  writes nothing.
\<close>

fun json_text :: "(real \<Rightarrow> string) \<Rightarrow> json \<Rightarrow> string" and json_items :: "(real \<Rightarrow> string) \<Rightarrow> json list \<Rightarrow> string list" where
  "json_text num JNull = ''null''"
| "json_text num (JBool b) = (if b then ''true'' else ''false'')"
| "json_text num (JNum x) = num x"
| "json_text num (JStr s) = s"
| "json_text num (JArr vs) = join '','' (json_items num vs)"
| "json_text num (JObj kvs) = ''[object Object]''"
| "json_items num [] = []"
| "json_items num (v # vs) = (if v = JNull then [] else json_text num v) # json_items num vs"

fun json_truthy :: "json \<Rightarrow> bool" where
  "json_truthy JNull = False"
| "json_truthy (JBool b) = b"
| "json_truthy (JNum x) = (x \<noteq> 0)"
| "json_truthy (JStr s) = (s \<noteq> [])"
| "json_truthy (JArr vs) = True"
| "json_truthy (JObj kvs) = True"

record DocMark =
  mark_type :: string
  mark_attrs :: "(string \<times> json) list option"

datatype DocNode = DocNode
  (node_type: string)
  (node_text: "string option")
  (node_attrs: "(string \<times> json) list option")
  (node_marks: "DocMark list option")
  (node_content: "DocNode list option")

text \<open>A document is the list of its blocks.\<close>

type_synonym Doc = "DocNode list"

section \<open>Issues\<close>

datatype StatusCategory = Todo | In_progress | Done

datatype Priority = Lowest | Low | Medium | High | Highest

record Status =
  status_id :: string
  status_name :: string
  status_category :: StatusCategory
  status_description :: "string option"
  status_position :: int

record TypeRef =
  type_id :: string
  type_name :: string
  type_icon :: string
  type_level :: int
  type_isSubtask :: bool

definition LEVEL_SUBTASK :: int where "LEVEL_SUBTASK = - 1"

definition LEVEL_STANDARD :: int where "LEVEL_STANDARD = 0"

definition LEVEL_EPIC :: int where "LEVEL_EPIC = 1"

record ParentRef =
  parent_id :: string
  parent_key :: string
  parent_summary :: string
  parent_type :: TypeRef

record UserRef =
  user_id :: string
  user_name :: string
  user_email :: "string option"
  user_avatarUrl :: "string option"

datatype LabelColor = Gray | Red | Orange | Amber | Green | Teal | Blue | Purple | Pink

record LabelRef =
  label_id :: string
  label_name :: string
  label_color :: LabelColor

datatype SprintState = Future | Active | Closed

record SprintRef =
  sprintref_id :: string
  sprintref_name :: string
  sprintref_state :: SprintState

record NamedRef =
  ref_id :: string
  ref_name :: string

record VersionRef =
  version_id :: string
  version_name :: string
  version_released :: bool

record Issue =
  issue_id :: string
  issue_key :: string
  issue_type :: TypeRef
  issue_projectId :: string
  issue_projectKey :: string
  issue_summary :: string
  issue_description :: "Doc option"
  issue_status :: Status
  issue_priority :: Priority
  issue_assignee :: "UserRef option"
  issue_reporter :: "UserRef option"
  issue_parentId :: "string option"
  issue_parentKey :: "string option"
  issue_parent :: "ParentRef option"
  issue_startDate :: "string option"
  issue_dueDate :: "string option"
  issue_sprintId :: "string option"
  issue_sprint :: "SprintRef option"
  issue_milestoneId :: "string option"
  issue_milestone :: "NamedRef option"
  issue_estimate :: "real option"
  issue_teamId :: "string option"
  issue_team :: "NamedRef option"
  issue_requestTypeId :: "string option"
  issue_requestTypeName :: "string option"
  issue_company :: "NamedRef option"
  issue_sharedWithCompany :: "bool option"
  issue_timeEstimateMinutes :: "int option"
  issue_timeRemainingMinutes :: "int option"
  issue_timeSpentMinutes :: int
  issue_labels :: "LabelRef list"
  issue_fixVersions :: "VersionRef list"
  issue_affectsVersions :: "VersionRef list"
  issue_components :: "NamedRef list"
  issue_createdAt :: string
  issue_updatedAt :: string
  issue_resolvedAt :: "string option"
  issue_childCount :: "int option"
  issue_commentCount :: "int option"

record Progress =
  progress_total :: int
  progress_done :: int
  progress_inProgress :: int
  progress_todo :: int

section \<open>Sprints, milestones and days off\<close>

record Sprint =
  sprint_id :: string
  sprint_projectId :: string
  sprint_projectKey :: string
  sprint_teamId :: "string option"
  sprint_teamName :: "string option"
  sprint_name :: string
  sprint_goal :: "string option"
  sprint_state :: SprintState
  sprint_startsOn :: "string option"
  sprint_endsOn :: "string option"
  sprint_capacity :: "real option"
  sprint_position :: int
  sprint_startedAt :: "string option"
  sprint_completedAt :: "string option"
  sprint_committed :: "real option"
  sprint_completed :: "real option"
  sprint_createdAt :: string
  sprint_updatedAt :: string

record SprintPlan =
  plan_sprint :: Sprint
  plan_committed :: real
  plan_completed :: real
  plan_issues :: int
  plan_unestimated :: int
  plan_availableHours :: "real option"
  plan_nominalHours :: "real option"

record MilestoneProgress =
  mp_issues :: int
  mp_done :: int
  mp_inProgress :: int
  mp_todo :: int
  mp_percent :: int

record Milestone =
  milestone_id :: string
  milestone_projectId :: string
  milestone_projectKey :: string
  milestone_name :: string
  milestone_description :: "string option"
  milestone_dueOn :: "string option"
  milestone_closedAt :: "string option"
  milestone_position :: int
  milestone_progress :: MilestoneProgress
  milestone_createdAt :: string
  milestone_updatedAt :: string

record Holiday =
  holiday_day :: string
  holiday_name :: string
  holiday_halfDay :: bool

section \<open>The plan\<close>

datatype PlanItem = PlanItem
  (item_issue: Issue)
  (item_depth: int)
  (item_start: "string option")
  (item_due: "string option")
  (item_derived: bool)
  (item_estimate: "real option")
  (item_estimateDerived: "bool option")
  (item_progress: Progress)
  (item_children: "PlanItem list")

datatype WarningKind = Blocked_too_early | Outside_parent | Half_scheduled | Over_capacity
  | Outside_sprint | Past_milestone | Over_load | Over_allocated

record PlanWarning =
  warning_issueKey :: "string option"
  warning_sprint :: "string option"
  warning_team :: "string option"
  warning_person :: "string option"
  warning_kind :: WarningKind
  warning_message :: string

record LoadWeek =
  week_start :: string
  week_load :: real
  week_capacity :: "real option"
  week_nominalCapacity :: "real option"
  week_daysAway :: "real option"
  week_holidays :: "int option"
  week_issues :: int
  week_unestimated :: int

datatype LoadKind = Team_load | Unassigned_load | Total_load

record TeamLoad =
  load_teamId :: "string option"
  load_team :: string
  load_kind :: LoadKind
  load_weeklyCapacity :: "real option"
  load_weeks :: "LoadWeek list"
  load_unscheduled :: int

record Load =
  loads_weeks :: "string list"
  loads_rows :: "TeamLoad list"

record PlanSpan =
  span_startDate :: string
  span_dueDate :: string

record PlanMove =
  move_issueKey :: string
  move_from :: "PlanSpan option"
  move_to :: PlanSpan
  move_placed :: "bool option"
  move_workingDays :: int
  move_after :: string

record Unplaced =
  unplaced_issueKey :: string
  unplaced_reason :: string

record Alignment =
  align_projectKey :: string
  align_moves :: "PlanMove list"
  align_unplaced :: "Unplaced list"
  align_warnings :: "PlanWarning list"

record ScheduleMoveInput =
  smi_key :: string
  smi_expected_startDate :: "string option"
  smi_expected_dueDate :: "string option"
  smi_startDate :: "string option"
  smi_dueDate :: "string option"

section \<open>A sample issue\<close>

text \<open>An issue with little on it, from which the examples are built.\<close>

definition sample_type :: "string \<Rightarrow> int \<Rightarrow> TypeRef" where
  "sample_type name level = \<lparr>type_id = name, type_name = name, type_icon = ''task'', type_level = level,
     type_isSubtask = (level < 0)\<rparr>"

definition sample_status :: "StatusCategory \<Rightarrow> Status" where
  "sample_status c = \<lparr>status_id = ''s'', status_name = ''s'', status_category = c,
     status_description = None, status_position = 0\<rparr>"

definition sample_issue :: "string \<Rightarrow> TypeRef \<Rightarrow> StatusCategory \<Rightarrow> Issue" where
  "sample_issue key ty c = \<lparr>issue_id = key, issue_key = key, issue_type = ty,
     issue_projectId = ''p'', issue_projectKey = ''P'', issue_summary = key, issue_description = None,
     issue_status = sample_status c, issue_priority = Medium, issue_assignee = None,
     issue_reporter = None, issue_parentId = None, issue_parentKey = None, issue_parent = None,
     issue_startDate = None, issue_dueDate = None, issue_sprintId = None, issue_sprint = None,
     issue_milestoneId = None, issue_milestone = None, issue_estimate = None, issue_teamId = None,
     issue_team = None, issue_requestTypeId = None, issue_requestTypeName = None,
     issue_company = None, issue_sharedWithCompany = None, issue_timeEstimateMinutes = None,
     issue_timeRemainingMinutes = None, issue_timeSpentMinutes = 0, issue_labels = [],
     issue_fixVersions = [], issue_affectsVersions = [], issue_components = [],
     issue_createdAt = ''2026-01-05T09:00:00Z'', issue_updatedAt = ''2026-01-05T09:00:00Z'',
     issue_resolvedAt = None, issue_childCount = None, issue_commentCount = None\<rparr>"

definition sample_item :: "Issue \<Rightarrow> PlanItem list \<Rightarrow> PlanItem" where
  "sample_item i ch = PlanItem i 0 None None False None None
     \<lparr>progress_total = 0, progress_done = 0, progress_inProgress = 0, progress_todo = 0\<rparr> ch"

definition sample_sprint :: "string \<Rightarrow> SprintPlan" where
  "sample_sprint i = \<lparr>plan_sprint = \<lparr>sprint_id = i, sprint_projectId = ''p'', sprint_projectKey = ''P'',
     sprint_teamId = None, sprint_teamName = None, sprint_name = i, sprint_goal = None,
     sprint_state = Active, sprint_startsOn = None, sprint_endsOn = None, sprint_capacity = None,
     sprint_position = 0, sprint_startedAt = None, sprint_completedAt = None, sprint_committed = None,
     sprint_completed = None, sprint_createdAt = [], sprint_updatedAt = []\<rparr>,
     plan_committed = 0, plan_completed = 0, plan_issues = 0, plan_unestimated = 0,
     plan_availableHours = None, plan_nominalHours = None\<rparr>"

named_theorems samples \<open>the sample values\<close>

lemmas sample_defs [samples] = sample_type_def sample_status_def sample_issue_def sample_item_def
  sample_sprint_def

end
