(* ===== verification/PlanWords.thy ===== *)
theory PlanWords
  imports Prelude
begin

text \<open>
  The planning view's strings, \<open>web/src/i18n/plan.en.ts\<close> and \<open>plan.de.ts\<close>, as far as the modelled
  functions read them. The binding \<open>t\<close> of the source is the catalogue of the language that is on;
  here it is an argument of every function that reads it, so what is proved holds in both
  languages.
\<close>

definition plural :: "int \<Rightarrow> string \<Rightarrow> string \<Rightarrow> string" where
  "plural n one many = int_str n @ '' '' @ (if n = 1 then one else many)"

definition article :: "string \<Rightarrow> string" where
  "article name =
     (if name \<noteq> [] \<and> lower_char (hd name) \<in> set ''aeiou'' then ''an '' else ''a '') @ name"

text \<open>
  The first unit in upper case. The sharp s has two capitals; the two letters whose capital lies
  beyond the modelled units are left as they are. The pattern's dot matches no line break.
\<close>

definition upper_first :: "char \<Rightarrow> string" where
  "upper_first c =
     (let n = (of_char c :: nat)
      in if 97 \<le> n \<and> n \<le> 122 \<or> 224 \<le> n \<and> n \<le> 254 \<and> n \<noteq> 247 then [char_of (n - 32)]
         else if n = 223 then ''SS'' else [c])"

definition capital :: "string \<Rightarrow> string" where
  "capital s = (case s of [] \<Rightarrow> []
     | c # r \<Rightarrow> (if (of_char c :: nat) \<in> {10, 13} then [c] else upper_first c) @ r)"

record plan_words =
  pw_management :: "string"
  pw_managementHint :: "string"
  pw_sprints :: "string"
  pw_sprintsHint :: "string"
  pw_dependencies :: "string"
  pw_dependenciesHint :: "string"
  pw_backlog :: "string"
  pw_addToPlan :: "string"
  pw_fit :: "string"
  pw_weeks :: "string"
  pw_months :: "string"
  pw_quarters :: "string"
  pw_monthNames :: "string list"
  pw_month :: "string \<Rightarrow> int \<Rightarrow> string"
  pw_week :: "int \<Rightarrow> string \<Rightarrow> string"
  pw_quarter :: "int \<Rightarrow> int \<Rightarrow> string"
  pw_halfDay :: "string \<Rightarrow> string"
  pw_needsParent :: "string \<Rightarrow> string"
  pw_ownParent :: "string"
  pw_underItself :: "string"
  pw_wrongParent :: "string \<Rightarrow> string \<Rightarrow> string \<Rightarrow> string"
  pw_group :: "string"
  pw_groupDetail :: "string"
  pw_perWeek :: "string \<Rightarrow> string"
  pw_noCapacity :: "string"
  pw_unscheduled :: "int \<Rightarrow> string"
  pw_points :: "string \<Rightarrow> string"
  pw_pointsOf :: "string \<Rightarrow> string \<Rightarrow> string"
  pw_unestimated :: "int \<Rightarrow> string"
  pw_weekOf :: "string \<Rightarrow> string \<Rightarrow> string \<Rightarrow> int \<Rightarrow> string \<Rightarrow> string"
  pw_shortBy :: "string \<Rightarrow> string \<Rightarrow> string \<Rightarrow> string \<Rightarrow> string"
  pw_daysAway :: "string \<Rightarrow> real \<Rightarrow> string"
  pw_holidays :: "int \<Rightarrow> string"
  pw_and :: "string"
  pw_sprintPoints :: "string \<Rightarrow> string"
  pw_sprintPointsOf :: "string \<Rightarrow> string \<Rightarrow> string"
  pw_teamHours :: "string \<Rightarrow> string \<Rightarrow> string"
  pw_workingDays :: "int \<Rightarrow> string"
  pw_after :: "string \<Rightarrow> string"
  pw_placedFrom :: "string \<Rightarrow> string \<Rightarrow> string \<Rightarrow> string"
  pw_movesFrom :: "string \<Rightarrow> string \<Rightarrow> string \<Rightarrow> string \<Rightarrow> string"
  pw_issues :: "int \<Rightarrow> string"
  pw_wouldMove :: "string \<Rightarrow> string"
  pw_wouldPlace :: "string \<Rightarrow> string"
  pw_nothingPlaceable :: "string"
  pw_alreadyAligned :: "string"
  pw_summary :: "string list \<Rightarrow> string"
  pw_undoChanged :: "string \<Rightarrow> string"
  pw_undoFailed :: "string"
  pw_followMessage :: "string \<Rightarrow> string \<Rightarrow> bool \<Rightarrow> string"
  pw_followAction :: "string \<Rightarrow> string"

definition planEn :: plan_words where
  "planEn = \<lparr>
    pw_management = ''Timeline'',
    pw_managementHint = ''Every issue in its hierarchy, with the milestones and the numbers.'',
    pw_sprints = ''Sprints'',
    pw_sprintsHint = ''The work by iteration: each sprint with what is committed to it, then the backlog.'',
    pw_dependencies = ''Dependencies'',
    pw_dependenciesHint = ''Which tickets wait on which, laid out left to right.'',
    pw_backlog = ''Backlog'',
    pw_addToPlan = ''plan'',
    pw_fit = ''Fit'',
    pw_weeks = ''Weeks'',
    pw_months = ''Months'',
    pw_quarters = ''Quarters'',
    pw_monthNames = [''Jan'', ''Feb'', ''Mar'', ''Apr'', ''May'', ''Jun'', ''Jul'', ''Aug'', ''Sep'', ''Oct'', ''Nov'', ''Dec''],
    pw_month = (\<lambda>m y. m @ '' '' @ int_str y),
    pw_week = (\<lambda>d m. int_str d @ '' '' @ m),
    pw_quarter = (\<lambda>q y. ''Q'' @ int_str q @ '' '' @ int_str y),
    pw_halfDay = (\<lambda>n. n @ '' (half day)''),
    pw_needsParent = (\<lambda>t. ''A '' @ toLowerCase t @ '' needs a parent issue.''),
    pw_ownParent = ''An issue cannot be its own parent.'',
    pw_underItself = ''That would put the issue underneath itself.'',
    pw_wrongParent = (\<lambda>k p c. k @ '' is '' @ article p @ '', which cannot be the parent of '' @ article c @ ''.''),
    pw_group = ''Load by team'',
    pw_groupDetail = ''points per week against capacity'',
    pw_perWeek = (\<lambda>p. p @ '' pts/week''),
    pw_noCapacity = ''no capacity set'',
    pw_unscheduled = (\<lambda>n. int_str n @ '' unscheduled''),
    pw_points = (\<lambda>p. p @ '' pts''),
    pw_pointsOf = (\<lambda>l c. l @ ''/'' @ c @ '' pts''),
    pw_unestimated = (\<lambda>n. '', '' @ int_str n @ '' unestimated''),
    pw_weekOf = (\<lambda>t s l i x. t @ '', week of '' @ s @ '': '' @ l @ '' over '' @ plural i ''issue'' ''issues'' @ x),
    pw_shortBy = (\<lambda>s n c w. s @ ''. Capacity '' @ n @ '' pts, '' @ c @ '' after '' @ w),
    pw_daysAway = (\<lambda>d n. d @ '' day'' @ (if n = 1 then [] else ''s'') @ '' away''),
    pw_holidays = (\<lambda>n. plural n ''holiday'' ''holidays''),
    pw_and = '' and '',
    pw_sprintPoints = (\<lambda>p. p @ '' pts''),
    pw_sprintPointsOf = (\<lambda>a c. a @ ''/'' @ c @ '' pts''),
    pw_teamHours = (\<lambda>a n. ''Team available '' @ a @ '' of '' @ n @ '' h in this sprint''),
    pw_workingDays = (\<lambda>n. plural n ''working day'' ''working days''),
    pw_after = (\<lambda>k. '', after '' @ k),
    pw_placedFrom = (\<lambda>t d a. ''is placed from '' @ t @ '', '' @ d @ a),
    pw_movesFrom = (\<lambda>f t d a. ''moves from '' @ f @ '' to '' @ t @ '', '' @ d @ a),
    pw_issues = (\<lambda>n. plural n ''issue'' ''issues''),
    pw_wouldMove = (\<lambda>i. i @ '' would move to start after the issues blocking them''),
    pw_wouldPlace = (\<lambda>i. i @ '' without dates would be placed''),
    pw_nothingPlaceable = ''Nothing can be placed or needs to move.'',
    pw_alreadyAligned = ''Every issue already starts after the issues blocking it.'',
    pw_summary = (\<lambda>ps. capital (join '', and '' ps @ ''. Nothing is saved until you apply.'')),
    pw_undoChanged = (\<lambda>k. k @ '' was changed after the auto plan, so nothing was undone. Move it back by hand or run auto plan again.''),
    pw_undoFailed = ''The auto plan could not be undone. Try again.'',
    pw_followMessage = (\<lambda>i k one. i @ '' that '' @ k @ '' blocks now '' @ (if one then ''starts'' else ''start'') @ '' before it ends.''),
    pw_followAction = (\<lambda>i. ''Move the '' @ i @ '' it blocks'')\<rparr>"

definition planDe :: plan_words where
  "planDe = \<lparr>
    pw_management = ''Zeitleiste'',
    pw_managementHint = ''Jeder Vorgang in seiner Hierarchie, mit den Meilensteinen und den Zahlen.'',
    pw_sprints = ''Sprints'',
    pw_sprintsHint = ''Die Arbeit nach Iterationen: jeder Sprint mit dem, was ihm zugesagt ist, dann der Backlog.'',
    pw_dependencies = ''Abh'' @ [CHR 0xE4] @ ''ngigkeiten'',
    pw_dependenciesHint = ''Welche Vorg'' @ [CHR 0xE4] @ ''nge auf welche warten, von links nach rechts angeordnet.'',
    pw_backlog = ''Backlog'',
    pw_addToPlan = ''Plan'',
    pw_fit = ''Einpassen'',
    pw_weeks = ''Wochen'',
    pw_months = ''Monate'',
    pw_quarters = ''Quartale'',
    pw_monthNames = [''Jan.'', ''Feb.'', ''M'' @ [CHR 0xE4] @ ''rz'', ''Apr.'', ''Mai'', ''Juni'', ''Juli'', ''Aug.'', ''Sept.'', ''Okt.'', ''Nov.'', ''Dez.''],
    pw_month = (\<lambda>m y. m @ '' '' @ int_str y),
    pw_week = (\<lambda>d m. int_str d @ ''. '' @ m),
    pw_quarter = (\<lambda>q y. int_str q @ ''. Quartal '' @ int_str y),
    pw_halfDay = (\<lambda>n. n @ '' (halber Tag)''),
    pw_needsParent = (\<lambda>t. ''Ein Vorgang vom Typ '' @ t @ '' braucht einen '' @ [CHR 0xFC] @ ''bergeordneten Vorgang.''),
    pw_ownParent = ''Ein Vorgang kann nicht sein eigener '' @ [CHR 0xFC] @ ''bergeordneter Vorgang sein.'',
    pw_underItself = ''Damit l'' @ [CHR 0xE4] @ ''ge der Vorgang unter sich selbst.'',
    pw_wrongParent = (\<lambda>k p c. k @ '' ist vom Typ '' @ p @ '' und kann keinem Vorgang vom Typ '' @ c @ '' '' @ [CHR 0xFC] @ ''bergeordnet sein.''),
    pw_group = ''Auslastung nach Team'',
    pw_groupDetail = ''Punkte pro Woche gegen die Kapazit'' @ [CHR 0xE4] @ ''t'',
    pw_perWeek = (\<lambda>p. p @ '' Pkt./Woche''),
    pw_noCapacity = ''keine Kapazit'' @ [CHR 0xE4] @ ''t festgelegt'',
    pw_unscheduled = (\<lambda>n. int_str n @ '' nicht eingeplant''),
    pw_points = (\<lambda>p. p @ '' Pkt.''),
    pw_pointsOf = (\<lambda>l c. l @ ''/'' @ c @ '' Pkt.''),
    pw_unestimated = (\<lambda>n. '', '' @ int_str n @ '' ohne Sch'' @ [CHR 0xE4] @ ''tzung''),
    pw_weekOf = (\<lambda>t s l i x. t @ '', Woche ab '' @ s @ '': '' @ l @ '' auf '' @ plural i ''Vorgang'' (''Vorg'' @ [CHR 0xE4] @ ''nge'') @ x),
    pw_shortBy = (\<lambda>s n c w. s @ ''. Kapazit'' @ [CHR 0xE4] @ ''t '' @ n @ '' Pkt., '' @ c @ '' nach '' @ w),
    pw_daysAway = (\<lambda>d n. d @ '' '' @ (if n = 1 then ''Tag'' else ''Tage'') @ '' abwesend''),
    pw_holidays = (\<lambda>n. plural n ''Feiertag'' ''Feiertage''),
    pw_and = '' und '',
    pw_sprintPoints = (\<lambda>p. p @ '' Pkt.''),
    pw_sprintPointsOf = (\<lambda>a c. a @ ''/'' @ c @ '' Pkt.''),
    pw_teamHours = (\<lambda>a n. ''Team verf'' @ [CHR 0xFC] @ ''gbar: '' @ a @ '' von '' @ n @ '' h in diesem Sprint''),
    pw_workingDays = (\<lambda>n. plural n ''Arbeitstag'' ''Arbeitstage''),
    pw_after = (\<lambda>k. '', nach '' @ k),
    pw_placedFrom = (\<lambda>t d a. ''wird ab '' @ t @ '' eingeplant, '' @ d @ a),
    pw_movesFrom = (\<lambda>f t d a. ''wird von '' @ f @ '' auf '' @ t @ '' verschoben, '' @ d @ a),
    pw_issues = (\<lambda>n. plural n ''Vorgang'' (''Vorg'' @ [CHR 0xE4] @ ''nge'')),
    pw_wouldMove = (\<lambda>i. i @ '' w'' @ [CHR 0xFC] @ ''rden verschoben, um nach den blockierenden Vorg'' @ [CHR 0xE4] @ ''ngen zu beginnen''),
    pw_wouldPlace = (\<lambda>i. i @ '' ohne Daten w'' @ [CHR 0xFC] @ ''rden eingeplant''),
    pw_nothingPlaceable = ''Nichts l'' @ [CHR 0xE4] @ ''sst sich einplanen oder muss verschoben werden.'',
    pw_alreadyAligned = ''Jeder Vorgang beginnt bereits nach den Vorg'' @ [CHR 0xE4] @ ''ngen, die ihn blockieren.'',
    pw_summary = (\<lambda>ps. capital (join '', und '' ps @ ''. Gespeichert wird erst, wenn Sie '' @ [CHR 0xFC] @ ''bernehmen.'')),
    pw_undoChanged = (\<lambda>k. k @ '' wurde nach der automatischen Planung ge'' @ [CHR 0xE4] @ ''ndert, daher wurde nichts r'' @ [CHR 0xFC] @ ''ckg'' @ [CHR 0xE4] @ ''ngig gemacht. Verschieben Sie ihn von Hand zur'' @ [CHR 0xFC] @ ''ck oder planen Sie erneut automatisch.''),
    pw_undoFailed = ''Die automatische Planung konnte nicht r'' @ [CHR 0xFC] @ ''ckg'' @ [CHR 0xE4] @ ''ngig gemacht werden. Versuchen Sie es erneut.'',
    pw_followMessage = (\<lambda>i k one. i @ '', die '' @ k @ '' blockiert, '' @ (if one then ''beginnt'' else ''beginnen'') @ '' jetzt, bevor er endet.''),
    pw_followAction = (\<lambda>i. ''Die '' @ i @ '' verschieben, die er blockiert'')\<rparr>"

lemma twelve_months:
  "length (pw_monthNames planEn) = 12" "length (pw_monthNames planDe) = 12"
  by (simp_all add: planEn_def planDe_def)

end
