(* ===== verification/PlanScale.thy ===== *)
theory PlanScale
  imports JsDate Config Api PlanWords
begin

text \<open>
  The mapping between dates and pixels, \<open>web/src/features/plan/scale.ts\<close>: zooms, the scale of the
  timeline, the rows of ticks above it, bars and drags. A \<open>Date\<close> is its time value. The methods of
  a \<open>Scale\<close> object are functions of the record. Where a division by a density of zero would make
  an invalid date the result is \<^const>\<open>None\<close>.
\<close>

section \<open>Whole days\<close>

definition DAYS_PER_WEEK :: int where
  "DAYS_PER_WEEK = 7"

definition day :: "int \<Rightarrow> int" where
  "day t = date_UTC (getUTCFullYear t) (getUTCMonth t) (getUTCDate t)"

definition addDays :: "int \<Rightarrow> int \<Rightarrow> int" where
  "addDays from days = from + days * MS_PER_DAY"

definition daysBetween :: "int \<Rightarrow> int \<Rightarrow> int" where
  "daysBetween from to = js_round (real_of_int (day to - day from) / real_of_int MS_PER_DAY)"

definition isoDay :: "int \<Rightarrow> string" where
  "isoDay date = take 10 (toISOString (day date))"

text \<open>
  A time value in a year \<open>Date.UTC\<close> does not read as a two digit one, and not before it: the years
  from 100 on.
\<close>

definition modern :: "int \<Rightarrow> bool" where
  "modern t \<longleftrightarrow> 100 \<le> getUTCFullYear t"

section \<open>Zooms\<close>

datatype zoom_id = Fit | Weeks | Months | Quarters

datatype tick_unit = Week | Month

record Zoom =
  zoom_id :: zoom_id
  zoom_label :: "plan_words \<Rightarrow> string"
  zoom_pxPerDay :: real
  zoom_ticks :: tick_unit

definition ZOOM_FIT :: Zoom where
  "ZOOM_FIT = \<lparr>zoom_id = Fit, zoom_label = pw_fit, zoom_pxPerDay = 0, zoom_ticks = Week\<rparr>"

definition ZOOM_WEEKS :: Zoom where
  "ZOOM_WEEKS = \<lparr>zoom_id = Weeks, zoom_label = pw_weeks, zoom_pxPerDay = 22, zoom_ticks = Week\<rparr>"

definition ZOOM_MONTHS :: Zoom where
  "ZOOM_MONTHS = \<lparr>zoom_id = Months, zoom_label = pw_months, zoom_pxPerDay = 7, zoom_ticks = Week\<rparr>"

definition ZOOM_QUARTERS :: Zoom where
  "ZOOM_QUARTERS = \<lparr>zoom_id = Quarters, zoom_label = pw_quarters, zoom_pxPerDay = 26 / 10,
     zoom_ticks = Month\<rparr>"

definition ZOOMS :: "Zoom list" where
  "ZOOMS = [ZOOM_FIT, ZOOM_WEEKS, ZOOM_MONTHS, ZOOM_QUARTERS]"

definition zoom_name :: "zoom_id \<Rightarrow> string" where
  "zoom_name z = (case z of Fit \<Rightarrow> ''fit'' | Weeks \<Rightarrow> ''weeks'' | Months \<Rightarrow> ''months''
     | Quarters \<Rightarrow> ''quarters'')"

definition zoomFor :: "string \<Rightarrow> Zoom" where
  "zoomFor i = (case js_find (\<lambda>z. zoom_name (zoom_id z) = i) ZOOMS of Some z \<Rightarrow> z | None \<Rightarrow> ZOOM_FIT)"

definition fitted :: "Zoom \<Rightarrow> int \<Rightarrow> int \<Rightarrow> real \<Rightarrow> Zoom" where
  "fitted zoom from to width =
     (if zoom_id zoom \<noteq> Fit then zoom
      else let days = max 1 (daysBetween (day from) (day to));
               px = max PLAN_MIN_PX_PER_DAY (width / real_of_int days)
           in zoom\<lparr>zoom_pxPerDay := px,
                zoom_ticks := if PLAN_WEEK_LABEL_MIN_PX_PER_DAY \<le> px then Week else Month\<rparr>)"

definition filled :: "int \<Rightarrow> int \<Rightarrow> real \<Rightarrow> real \<Rightarrow> int option" where
  "filled from to pxPerDay width =
     (if pxPerDay = 0 then (if width < 0 then Some (day to) else None)
      else let shown = daysBetween (day from) (day to); needed = \<lceil>width / pxPerDay\<rceil>
           in Some (if needed \<le> shown then day to else addDays (day from) needed))"

section \<open>The scale\<close>

record Scale =
  scale_from :: int
  scale_to :: int
  scale_pxPerDay :: real
  scale_width :: real

definition makeScale :: "int \<Rightarrow> int \<Rightarrow> real \<Rightarrow> Scale" where
  "makeScale from to pxPerDay =
     (let start = day from; end = day to
      in \<lparr>scale_from = start, scale_to = end, scale_pxPerDay = pxPerDay,
          scale_width = max 0 (real_of_int (daysBetween start end) * pxPerDay)\<rparr>)"

definition scale_x :: "Scale \<Rightarrow> int \<Rightarrow> real" where
  "scale_x sc date = real_of_int (daysBetween (scale_from sc) (day date)) * scale_pxPerDay sc"

definition scale_dateAt :: "Scale \<Rightarrow> real \<Rightarrow> int option" where
  "scale_dateAt sc x =
     (if scale_pxPerDay sc = 0 then None
      else Some (addDays (scale_from sc) (js_round (x / scale_pxPerDay sc))))"

definition scale_spanWidth :: "Scale \<Rightarrow> int \<Rightarrow> int \<Rightarrow> real" where
  "scale_spanWidth sc s d =
     max (scale_pxPerDay sc) (real_of_int (daysBetween (day s) (day d) + 1) * scale_pxPerDay sc)"

section \<open>Ticks\<close>

record Tick =
  tick_key :: string
  tick_label :: string
  tick_x :: real
  tick_width :: real
  tick_emphasis :: bool

definition monthName :: "plan_words \<Rightarrow> int \<Rightarrow> string" where
  "monthName t m = pw_monthNames t ! nat m"

text \<open>A tick from one cursor to the next, cut to the scale's two ends.\<close>

definition tick_span :: "Scale \<Rightarrow> int \<Rightarrow> int \<Rightarrow> string \<Rightarrow> string \<Rightarrow> bool \<Rightarrow> Tick" where
  "tick_span sc cursor nxt k l e =
     (let from = (if cursor < scale_from sc then scale_from sc else cursor);
          to = (if scale_to sc < nxt then scale_to sc else nxt)
      in \<lparr>tick_key = k, tick_label = l, tick_x = scale_x sc from,
          tick_width = real_of_int (daysBetween from to) * scale_pxPerDay sc, tick_emphasis = e\<rparr>)"

definition next_month :: "int \<Rightarrow> int \<Rightarrow> int" where
  "next_month n cursor = date_UTC (getUTCFullYear cursor) (getUTCMonth cursor + n) 1"

definition month_tick :: "plan_words \<Rightarrow> Scale \<Rightarrow> int \<Rightarrow> Tick" where
  "month_tick t sc cursor = tick_span sc cursor (next_month 1 cursor)
     (int_str (getUTCFullYear cursor) @ ''-'' @ int_str (getUTCMonth cursor))
     (pw_month t (monthName t (getUTCMonth cursor)) (getUTCFullYear cursor)) False"

definition week_tick :: "plan_words \<Rightarrow> Scale \<Rightarrow> int \<Rightarrow> Tick" where
  "week_tick t sc cursor = tick_span sc cursor (addDays cursor DAYS_PER_WEEK)
     (isoDay cursor) (pw_week t (getUTCDate cursor) (monthName t (getUTCMonth cursor)))
     (getUTCDate cursor \<le> DAYS_PER_WEEK)"

definition MONTHS_PER_QUARTER :: int where
  "MONTHS_PER_QUARTER = 3"

text \<open>
  The cursor of this row stands on the first month of a quarter, so the division is exact.
\<close>

definition quarter_tick :: "plan_words \<Rightarrow> Scale \<Rightarrow> int \<Rightarrow> Tick" where
  "quarter_tick t sc cursor = tick_span sc cursor (next_month MONTHS_PER_QUARTER cursor)
     (int_str (getUTCFullYear cursor) @ ''-q'' @ int_str (getUTCMonth cursor div MONTHS_PER_QUARTER))
     (pw_quarter t (getUTCMonth cursor div MONTHS_PER_QUARTER + 1) (getUTCFullYear cursor)) False"

text \<open>
  The three rows. Each loop moves its cursor forward, by a month, a week or a quarter, until it
  has passed the end of the scale.
\<close>

function month_ticks_from :: "plan_words \<Rightarrow> Scale \<Rightarrow> int \<Rightarrow> Tick list" where
  "month_ticks_from t sc cursor =
     (if cursor < scale_to sc then month_tick t sc cursor # month_ticks_from t sc (next_month 1 cursor)
      else [])"
  by pat_completeness auto
termination
proof (relation "measure (\<lambda>(t, sc, cursor). nat (scale_to sc - cursor))")
  fix t sc cursor
  assume "cursor < scale_to sc"
  moreover have "cursor < next_month 1 cursor" by (simp add: next_month_def date_UTC_next_month)
  ultimately show "((t, sc, next_month 1 cursor), t, sc, cursor)
      \<in> measure (\<lambda>(t, sc, cursor). nat (scale_to sc - cursor))" by simp
qed simp

function week_ticks_from :: "plan_words \<Rightarrow> Scale \<Rightarrow> int \<Rightarrow> Tick list" where
  "week_ticks_from t sc cursor =
     (if cursor < scale_to sc
      then week_tick t sc cursor # week_ticks_from t sc (addDays cursor DAYS_PER_WEEK) else [])"
  by pat_completeness auto
termination
  by (relation "measure (\<lambda>(t, sc, cursor). nat (scale_to sc - cursor))")
    (auto simp: addDays_def DAYS_PER_WEEK_def MS_PER_DAY_def)

function quarter_ticks_from :: "plan_words \<Rightarrow> Scale \<Rightarrow> int \<Rightarrow> Tick list" where
  "quarter_ticks_from t sc cursor =
     (if cursor < scale_to sc
      then quarter_tick t sc cursor # quarter_ticks_from t sc (next_month MONTHS_PER_QUARTER cursor)
      else [])"
  by pat_completeness auto
termination
proof (relation "measure (\<lambda>(t, sc, cursor). nat (scale_to sc - cursor))")
  fix t sc cursor
  assume "cursor < scale_to sc"
  moreover have "cursor < next_month MONTHS_PER_QUARTER cursor"
    by (simp add: next_month_def date_UTC_next_month MONTHS_PER_QUARTER_def)
  ultimately show "((t, sc, next_month MONTHS_PER_QUARTER cursor), t, sc, cursor)
      \<in> measure (\<lambda>(t, sc, cursor). nat (scale_to sc - cursor))" by simp
qed simp

declare month_ticks_from.simps [simp del] week_ticks_from.simps [simp del]
  quarter_ticks_from.simps [simp del]

definition monthTicks :: "plan_words \<Rightarrow> Scale \<Rightarrow> Tick list" where
  "monthTicks t sc =
     month_ticks_from t sc (date_UTC (getUTCFullYear (scale_from sc)) (getUTCMonth (scale_from sc)) 1)"

definition weekTicks :: "plan_words \<Rightarrow> Scale \<Rightarrow> Tick list" where
  "weekTicks t sc =
     (let offset = (getUTCDay (scale_from sc) + DAYS_PER_WEEK - 1) mod DAYS_PER_WEEK
      in week_ticks_from t sc (addDays (scale_from sc) (- offset)))"

definition quarterTicks :: "plan_words \<Rightarrow> Scale \<Rightarrow> Tick list" where
  "quarterTicks t sc =
     (let firstMonthOfQuarter = getUTCMonth (scale_from sc) div MONTHS_PER_QUARTER * MONTHS_PER_QUARTER
      in quarter_ticks_from t sc (date_UTC (getUTCFullYear (scale_from sc)) firstMonthOfQuarter 1))"

definition ticksFor :: "plan_words \<Rightarrow> Scale \<Rightarrow> Zoom \<Rightarrow> Tick list" where
  "ticksFor t sc zoom = (if zoom_ticks zoom = Month then monthTicks t sc else weekTicks t sc)"

definition headingTicks :: "plan_words \<Rightarrow> Scale \<Rightarrow> Zoom \<Rightarrow> Tick list" where
  "headingTicks t sc zoom = (if zoom_ticks zoom = Month then quarterTicks t sc else monthTicks t sc)"

section \<open>Bars, drags and days off\<close>

record Bar =
  bar_left :: num
  bar_width :: num

definition x_of_text :: "Scale \<Rightarrow> string \<Rightarrow> num" where
  "x_of_text sc s = map_option (scale_x sc) (date_value s)"

definition barFor :: "Scale \<Rightarrow> string option \<Rightarrow> string option \<Rightarrow> Bar option" where
  "barFor sc start due =
     (if \<not> truthy start \<or> \<not> truthy due then None
      else Some \<lparr>bar_left = x_of_text sc (the start),
        bar_width = (case (date_value (the start), date_value (the due)) of
          (Some s, Some d) \<Rightarrow> Some (scale_spanWidth sc s d) | _ \<Rightarrow> None)\<rparr>)"

datatype drag_mode = Move | Start | End

definition applyDrag :: "int \<Rightarrow> int \<Rightarrow> drag_mode \<Rightarrow> int \<Rightarrow> int \<times> int" where
  "applyDrag start due mode days =
     (if days = 0 then (start, due)
      else case mode of
        Move \<Rightarrow> (addDays start days, addDays due days)
      | Start \<Rightarrow> (let moved = addDays start days in (if due < moved then due else moved, due))
      | End \<Rightarrow> (let moved = addDays due days in (start, if moved < start then start else moved)))"

record HolidayBand =
  band_key :: string
  band_label :: string
  band_x :: num
  band_width :: real

definition holidayBands :: "plan_words \<Rightarrow> Scale \<Rightarrow> Holiday list \<Rightarrow> HolidayBand list" where
  "holidayBands t sc holidays = concat (map (\<lambda>h.
     let x = x_of_text sc (holiday_day h)
     in if num_less x (Some 0) \<or> num_le (Some (scale_width sc)) x then []
        else [\<lparr>band_key = holiday_day h,
               band_label = if holiday_halfDay h then pw_halfDay t (holiday_name h) else holiday_name h,
               band_x = x, band_width = scale_pxPerDay sc\<rparr>]) holidays)"

section \<open>Days\<close>

lemma day_eq: "getUTCFullYear t \<notin> {0..99} \<Longrightarrow> day t = ms_day t * MS_PER_DAY"
  by (auto simp: day_def date_UTC_def full_year_def getUTCFullYear_def getUTCMonth_def getUTCDate_def)

lemma day_modern: "modern t \<Longrightarrow> day t = ms_day t * MS_PER_DAY"
  by (rule day_eq) (simp add: modern_def)

lemma modern_mono: "modern s \<Longrightarrow> s \<le> t \<Longrightarrow> modern t"
  unfolding modern_def getUTCFullYear_def
  by (meson order_trans year_from_day_mono zdiv_mono1 MS_PER_DAY_pos(1))

lemma modern_ms_day: "modern (ms_day t * MS_PER_DAY) \<longleftrightarrow> modern t"
  by (simp add: modern_def getUTCFullYear_def)

lemma modern_day [simp]: "modern t \<Longrightarrow> modern (day t)"
  by (simp add: day_modern modern_ms_day)

lemma day_day [simp]: "modern t \<Longrightarrow> day (day t) = day t"
  by (simp add: day_modern modern_ms_day)

lemma daysBetween_modern: "modern s \<Longrightarrow> modern t \<Longrightarrow> daysBetween s t = ms_day t - ms_day s"
proof -
  assume "modern s" "modern t"
  then have "real_of_int (day t - day s) / real_of_int MS_PER_DAY = real_of_int (ms_day t - ms_day s)"
    by (simp add: day_modern left_diff_distrib [symmetric])
  then show ?thesis unfolding daysBetween_def by (simp only: js_round_of_int)
qed

lemma ms_day_addDays: "ms_day (addDays t n) = ms_day t + n"
  by (simp add: addDays_def)

lemma ms_day_day: "modern t \<Longrightarrow> ms_day (day t) = ms_day t"
  by (simp add: day_modern)

section \<open>Scales\<close>

text \<open>What \<open>makeScale\<close> makes of two modern ends.\<close>

definition good_scale :: "Scale \<Rightarrow> bool" where
  "good_scale sc \<longleftrightarrow> modern (scale_from sc) \<and> scale_from sc = day (scale_from sc)
     \<and> scale_to sc = day (scale_to sc) \<and> scale_from sc \<le> scale_to sc \<and> 0 < scale_pxPerDay sc
     \<and> scale_width sc = real_of_int (ms_day (scale_to sc) - ms_day (scale_from sc)) * scale_pxPerDay sc"

lemma day_mono: "modern s \<Longrightarrow> s \<le> t \<Longrightarrow> day s \<le> day t"
  using modern_mono [of s t] by (simp add: day_modern zdiv_mono1 mult_right_mono)

lemma good_makeScale:
  assumes "modern from" "from \<le> to" "0 < px"
  shows "good_scale (makeScale from to px)"
proof -
  have m: "modern to" using assms modern_mono by blast
  have le: "ms_day from \<le> ms_day to" using assms by (simp add: zdiv_mono1)
  show ?thesis
    using assms m le day_mono [of "from" to]
    by (simp add: good_scale_def makeScale_def Let_def daysBetween_modern ms_day_day max_def)
qed

lemma scale_x_modern:
  "good_scale sc \<Longrightarrow> modern t \<Longrightarrow>
    scale_x sc t = real_of_int (ms_day t - ms_day (scale_from sc)) * scale_pxPerDay sc"
  by (simp add: scale_x_def good_scale_def daysBetween_modern ms_day_day)

section \<open>The ticks cover the calendar\<close>

text \<open>Ticks that cover a stretch of the calendar from left to right, without a gap or an overlap.\<close>

fun tiles :: "real \<Rightarrow> real \<Rightarrow> Tick list \<Rightarrow> bool" where
  "tiles a b [] \<longleftrightarrow> a = b"
| "tiles a b (k # ks) \<longleftrightarrow> tick_x k = a \<and> 0 < tick_width k \<and> tiles (a + tick_width k) b ks"

text \<open>
  What the three rows have in common: a cursor on midnights that moves forward, and a tick per
  step, cut to the scale.
\<close>

locale tick_row =
  fixes nxt :: "int \<Rightarrow> int" and mk :: "Scale \<Rightarrow> int \<Rightarrow> Tick" and row :: "Scale \<Rightarrow> int \<Rightarrow> Tick list"
  assumes nxt_gt: "cursor < nxt cursor"
    and nxt_midnight: "ms_day cursor * MS_PER_DAY = cursor \<Longrightarrow> ms_day (nxt cursor) * MS_PER_DAY = nxt cursor"
    and mk_x: "tick_x (mk sc cursor) = scale_x sc (max (scale_from sc) cursor)"
    and mk_width: "tick_width (mk sc cursor) =
      real_of_int (daysBetween (max (scale_from sc) cursor) (min (scale_to sc) (nxt cursor)))
        * scale_pxPerDay sc"
    and row_unfold: "row sc cursor = (if cursor < scale_to sc then mk sc cursor # row sc (nxt cursor) else [])"
begin

lemma tiles_row:
  assumes "good_scale sc" "ms_day cursor * MS_PER_DAY = cursor"
    and "max (scale_from sc) cursor < scale_to sc" "scale_from sc < nxt cursor"
  shows "tiles (scale_x sc (max (scale_from sc) cursor)) (scale_width sc) (row sc cursor)"
  using assms(2-)
proof (induction "nat (scale_to sc - cursor)" arbitrary: cursor rule: less_induct)
  case less
  let ?f = "max (scale_from sc) cursor" and ?t = "min (scale_to sc) (nxt cursor)"
  note good = assms(1) [unfolded good_scale_def]
  have mid: "ms_day (scale_from sc) * MS_PER_DAY = scale_from sc"
    "ms_day (scale_to sc) * MS_PER_DAY = scale_to sc"
    using good modern_mono [of "scale_from sc" "scale_to sc"] by (auto simp: day_modern)
  have m: "modern ?f" "modern ?t" using good less.prems modern_mono by (metis max.cobounded1,
      metis less_imp_le min_def)
  have step: "?f < ?t" using less.prems nxt_gt [of cursor] by auto
  have mt: "ms_day ?f * MS_PER_DAY = ?f" "ms_day ?t * MS_PER_DAY = ?t"
    using mid less.prems(1) nxt_midnight [of cursor] by (auto simp: max_def min_def)
  then have dd: "ms_day ?f < ms_day ?t"
    using step by (metis MS_PER_DAY_pos(1) mult_less_cancel_right_pos)
  have w: "tick_width (mk sc cursor) = real_of_int (ms_day ?t - ms_day ?f) * scale_pxPerDay sc"
    using m by (simp add: mk_width daysBetween_modern)
  have x: "scale_x sc ?f + tick_width (mk sc cursor) = scale_x sc ?t"
    using m assms(1) by (simp add: w scale_x_modern algebra_simps)
  have pos: "0 < tick_width (mk sc cursor)" using w dd good by simp
  have "tiles (scale_x sc ?t) (scale_width sc) (row sc (nxt cursor))"
  proof (cases "nxt cursor < scale_to sc")
    case True
    then have "?t = max (scale_from sc) (nxt cursor)" using less.prems(3) by auto
    moreover have "scale_from sc < nxt (nxt cursor)"
      using less.prems(3) nxt_gt [of "nxt cursor"] by simp
    ultimately show ?thesis
      using less.hyps [of "nxt cursor"] True less.prems nxt_gt [of cursor] nxt_midnight [of cursor] by auto
  next
    case False
    then have "?t = scale_to sc" by simp
    then show ?thesis
      using False m(2) assms(1) good row_unfold [of sc "nxt cursor"] by (simp add: scale_x_modern)
  qed
  then show ?case
    using x pos less.prems(2) row_unfold [of sc cursor] by (simp add: mk_x)
qed

end

lemma tick_span_parts:
  "tick_x (tick_span sc cursor nxt k l e) = scale_x sc (max (scale_from sc) cursor)"
  "tick_width (tick_span sc cursor nxt k l e) =
    real_of_int (daysBetween (max (scale_from sc) cursor) (min (scale_to sc) nxt)) * scale_pxPerDay sc"
  by (simp_all add: tick_span_def Let_def max_def min_def)

lemma next_month_props:
  "1 \<le> n \<Longrightarrow> cursor < next_month n cursor" "ms_day (next_month n cursor) * MS_PER_DAY = next_month n cursor"
  by (simp_all add: next_month_def date_UTC_next_month) (simp add: date_UTC_def)

interpretation month_row: tick_row "next_month 1" "month_tick t" "month_ticks_from t" for t
  by unfold_locales (simp_all add: month_tick_def tick_span_parts next_month_props month_ticks_from.simps)

interpretation week_row: tick_row "\<lambda>c. addDays c DAYS_PER_WEEK" "week_tick t" "week_ticks_from t" for t
  by unfold_locales (simp_all add: week_tick_def tick_span_parts week_ticks_from.simps addDays_def
      DAYS_PER_WEEK_def distrib_right)

interpretation quarter_row: tick_row "next_month MONTHS_PER_QUARTER" "quarter_tick t" "quarter_ticks_from t" for t
  by unfold_locales (simp_all add: quarter_tick_def tick_span_parts next_month_props
      quarter_ticks_from.simps MONTHS_PER_QUARTER_def)

lemma getUTC_make_day:
  assumes "100 \<le> y" "0 \<le> m" "m \<le> 11"
  shows "getUTCFullYear (date_UTC y m 1) = y" "getUTCMonth (date_UTC y m 1) = m"
    "next_month n (date_UTC y m 1) = date_UTC y (m + n) 1"
proof -
  have "date_UTC y m 1 = make_day y m 1 * MS_PER_DAY"
    using assms by (simp add: date_UTC_def full_year_def)
  moreover have "1 \<le> month_length y m" using month_length_pos [of m y] assms by simp
  ultimately show p: "getUTCFullYear (date_UTC y m 1) = y" "getUTCMonth (date_UTC y m 1) = m"
    using assms parts_of_make_day [of m 1 y] by (simp_all add: getUTCFullYear_def getUTCMonth_def)
  show "next_month n (date_UTC y m 1) = date_UTC y (m + n) 1" by (simp add: next_month_def p)
qed

lemma getUTCMonth_range: "0 \<le> getUTCMonth t" "getUTCMonth t \<le> 11"
  by (simp_all add: getUTCMonth_def day_month_range)

lemma date_UTC_month_le:
  "m \<le> n \<Longrightarrow> date_UTC y m 1 \<le> date_UTC y n 1"
  unfolding date_UTC_def by (intro mult_right_mono make_day_month_mono) simp_all

lemma month_start_before:
  assumes "modern t" "m \<le> getUTCMonth t"
  shows "date_UTC (getUTCFullYear t) m 1 \<le> t"
proof -
  let ?d = "ms_day t"
  have "date_UTC (getUTCFullYear t) m 1 \<le> date_UTC (getUTCFullYear t) (getUTCMonth t) 1"
    using assms by (intro date_UTC_month_le)
  also have "\<dots> = make_day (year_from_day ?d) (day_month ?d) 1 * MS_PER_DAY"
    using assms(1) by (simp add: modern_def date_UTC_def full_year_def getUTCFullYear_def getUTCMonth_def)
  also have "\<dots> \<le> make_day (year_from_day ?d) (day_month ?d) (day_date ?d) * MS_PER_DAY"
    using day_date_range [of ?d] by (intro mult_right_mono) (auto simp: make_day_def Let_def)
  also have "\<dots> \<le> t" using div_bounds [of MS_PER_DAY t] by (simp add: mult.commute)
  finally show ?thesis .
qed

lemma date_UTC_midnight: "ms_day (date_UTC y m d) * MS_PER_DAY = date_UTC y m d"
  by (simp add: date_UTC_def)

lemma good_scale_x_start: "good_scale sc \<Longrightarrow> scale_x sc (scale_from sc) = 0"
  by (simp add: scale_x_modern good_scale_def)

lemma tiles_monthTicks:
  assumes "good_scale sc" "scale_from sc < scale_to sc"
  shows "tiles 0 (scale_width sc) (monthTicks t sc)"
proof -
  let ?c = "date_UTC (getUTCFullYear (scale_from sc)) (getUTCMonth (scale_from sc)) 1"
  have m: "modern (scale_from sc)" using assms(1) by (simp add: good_scale_def)
  have le: "?c \<le> scale_from sc" by (rule month_start_before [OF m]) simp
  have nx: "next_month 1 ?c = date_UTC (getUTCFullYear (scale_from sc)) (getUTCMonth (scale_from sc) + 1) 1"
    using m getUTCMonth_range by (intro getUTC_make_day) (auto simp: modern_def)
  have "tiles (scale_x sc (max (scale_from sc) ?c)) (scale_width sc) (month_ticks_from t sc ?c)"
    using le assms date_UTC_next_month [of 1 "scale_from sc"]
    by (intro month_row.tiles_row) (auto simp: date_UTC_midnight nx)
  then show ?thesis using le assms by (simp add: monthTicks_def max_absorb1 good_scale_x_start)
qed

lemma tiles_quarterTicks:
  assumes "good_scale sc" "scale_from sc < scale_to sc"
  shows "tiles 0 (scale_width sc) (quarterTicks t sc)"
proof -
  let ?y = "getUTCFullYear (scale_from sc)" and ?m = "getUTCMonth (scale_from sc)"
  let ?q = "?m div MONTHS_PER_QUARTER * MONTHS_PER_QUARTER"
  have m: "modern (scale_from sc)" using assms(1) by (simp add: good_scale_def)
  have q: "?q \<le> ?m" "?m + 1 \<le> ?q + MONTHS_PER_QUARTER" "0 \<le> ?q" "?q \<le> 11"
    using div_bounds [of MONTHS_PER_QUARTER ?m] getUTCMonth_range [of "scale_from sc"]
    by (auto simp: MONTHS_PER_QUARTER_def mult.commute)
  have le: "date_UTC ?y ?q 1 \<le> scale_from sc" by (rule month_start_before [OF m q(1)])
  have nx: "next_month MONTHS_PER_QUARTER (date_UTC ?y ?q 1) = date_UTC ?y (?q + MONTHS_PER_QUARTER) 1"
    using m q by (intro getUTC_make_day) (auto simp: modern_def)
  have "scale_from sc < date_UTC ?y (?q + MONTHS_PER_QUARTER) 1"
    using date_UTC_next_month [of 1 "scale_from sc"] date_UTC_month_le [OF q(2), of ?y] by simp
  then have "tiles (scale_x sc (max (scale_from sc) (date_UTC ?y ?q 1))) (scale_width sc)
      (quarter_ticks_from t sc (date_UTC ?y ?q 1))"
    using le assms by (intro quarter_row.tiles_row) (auto simp: date_UTC_midnight nx)
  then show ?thesis
    using le assms by (simp add: quarterTicks_def Let_def max_absorb1 good_scale_x_start)
qed

lemma tiles_weekTicks:
  assumes "good_scale sc" "scale_from sc < scale_to sc"
  shows "tiles 0 (scale_width sc) (weekTicks t sc)"
proof -
  let ?o = "(getUTCDay (scale_from sc) + DAYS_PER_WEEK - 1) mod DAYS_PER_WEEK"
  let ?c = "addDays (scale_from sc) (- ?o)"
  have mid: "ms_day (scale_from sc) * MS_PER_DAY = scale_from sc"
    using assms(1) by (metis good_scale_def day_modern)
  have o: "0 \<le> ?o" "?o < DAYS_PER_WEEK" by (simp_all add: DAYS_PER_WEEK_def)
  have le: "?c \<le> scale_from sc" using o by (simp add: addDays_def)
  have nx: "scale_from sc < addDays ?c DAYS_PER_WEEK"
    using o MS_PER_DAY_pos(1) unfolding addDays_def
    by (simp add: distrib_right [symmetric] add.assoc zero_less_mult_iff)
  have "ms_day ?c * MS_PER_DAY = ?c"
    using mid by (simp add: ms_day_addDays distrib_right) (simp add: addDays_def left_diff_distrib)
  then have "tiles (scale_x sc (max (scale_from sc) ?c)) (scale_width sc) (week_ticks_from t sc ?c)"
    using le nx assms by (intro week_row.tiles_row) auto
  then show ?thesis using le assms by (simp add: weekTicks_def Let_def max_absorb1 good_scale_x_start)
qed

section \<open>Properties\<close>

text \<open>
  C33: Both header rows of the timeline, the lower one and the coarser one above it, cover the
  calendar exactly: the first tick starts at its left edge, every tick starts where the one before
  it ends, every tick has a positive width, and the last ends at the calendar's right edge, at
  every zoom and in every language.
\<close>

theorem header_rows_tile:
  assumes "modern from" "modern to" "day from < day to" "0 < px"
  shows "tiles 0 (scale_width (makeScale from to px)) (ticksFor t (makeScale from to px) zoom)
    \<and> tiles 0 (scale_width (makeScale from to px)) (headingTicks t (makeScale from to px) zoom)"
proof -
  have "from \<le> to" using assms day_mono [of "to" "from"] by (cases "from \<le> to") auto
  then have g: "good_scale (makeScale from to px)" using assms by (intro good_makeScale)
  have "scale_from (makeScale from to px) < scale_to (makeScale from to px)"
    using assms by (simp add: makeScale_def Let_def)
  with g show ?thesis
    by (simp add: ticksFor_def headingTicks_def tiles_monthTicks tiles_weekTicks tiles_quarterTicks)
qed

theorem header_rows_tile_witness:
  "modern 1735689600000 \<and> modern 1740787200000 \<and> day 1735689600000 < day 1740787200000
    \<and> tiles 0 (scale_width (makeScale 1735689600000 1740787200000 7))
      (ticksFor planEn (makeScale 1735689600000 1740787200000 7) ZOOM_WEEKS)"
proof -
  have h: "modern 1735689600000" "modern 1740787200000" "day 1735689600000 < day 1740787200000"
    by code_simp+
  show ?thesis using h header_rows_tile [OF h, of 7 planEn ZOOM_WEEKS] by simp
qed

text \<open>
  C34: The scale's two directions agree: the date found at the left edge of a day is that day, at
  midnight, and any pixel within half a day of that edge finds the same day, so a drag snaps.
\<close>

theorem date_at_x:
  assumes "modern from" "from \<le> to" "0 < px" "modern t"
    and "- px / 2 \<le> dx" "dx < px / 2"
  shows "scale_dateAt (makeScale from to px) (scale_x (makeScale from to px) t + dx) = Some (day t)"
proof -
  let ?sc = "makeScale from to px"
  have g: "good_scale ?sc" using assms by (intro good_makeScale)
  have sc: "scale_pxPerDay ?sc = px" "scale_from ?sc = day from" by (simp_all add: makeScale_def Let_def)
  let ?n = "ms_day t - ms_day from"
  have x: "(scale_x ?sc t + dx) / px = real_of_int ?n + dx / px"
    using assms by (simp add: scale_x_modern [OF g] sc ms_day_day add_divide_distrib)
  have "js_round ((scale_x ?sc t + dx) / px) = ?n"
    unfolding x using assms by (intro js_round_unique) (auto simp: field_simps)
  then show ?thesis
    using assms by (simp add: scale_dateAt_def sc addDays_def day_modern left_diff_distrib)
qed

theorem date_at_x_witness:
  "scale_dateAt (makeScale 1735689600000 1740787200000 22)
     (scale_x (makeScale 1735689600000 1740787200000 22) 1738540800000 + 5) = Some (day 1738540800000)"
proof -
  have "modern 1735689600000" "modern 1738540800000" by code_simp+
  then show ?thesis
    using date_at_x [of 1735689600000 1740787200000 22 1738540800000 5] by simp
qed

text \<open>
  Wherever a drag lands, a range that ran forwards still does. Moving it keeps its length;
  dragging one end leaves the other where it was.
\<close>

lemma applyDrag_keeps_order:
  assumes "start \<le> due" "applyDrag start due mode days = (s, d)"
  shows "s \<le> d \<and> (mode = Move \<longrightarrow> d - s = due - start) \<and> (mode = Start \<longrightarrow> d = due)
    \<and> (mode = End \<longrightarrow> s = start)"
  using assms by (auto simp: applyDrag_def addDays_def Let_def split: if_splits drag_mode.splits)

lemma applyDrag_keeps_order_witness:
  "applyDrag 0 86400000 Start 5 = (86400000, 86400000) \<and> (86400000 :: int) \<le> 86400000"
proof -
  have a: "applyDrag 0 86400000 Start 5 = (86400000, 86400000)"
    by (simp add: applyDrag_def addDays_def MS_PER_DAY_def)
  show ?thesis using a applyDrag_keeps_order [OF _ a] by simp
qed

text \<open>
  The fitted zoom shows the whole range: drawn at its density, a range of at least one day is
  exactly as wide as the space on offer while the density is above its floor, and never narrower
  than it; and a week is labelled only from the density a label needs.
\<close>

lemma fitted_fills:
  assumes "modern from" "modern to" "day from < day to" "0 \<le> width"
    and "z = fitted ZOOM_FIT from to width"
  shows "width \<le> scale_width (makeScale from to (zoom_pxPerDay z))
    \<and> (PLAN_MIN_PX_PER_DAY < zoom_pxPerDay z \<longrightarrow>
        scale_width (makeScale from to (zoom_pxPerDay z)) = width)
    \<and> (zoom_ticks z = Week \<longleftrightarrow> PLAN_WEEK_LABEL_MIN_PX_PER_DAY \<le> zoom_pxPerDay z)"
proof -
  define n where "n = ms_day to - ms_day from"
  have n: "1 \<le> n" using assms(1-3)
    by (simp add: n_def day_modern mult_less_cancel_right_pos)
  have px: "zoom_pxPerDay z = max PLAN_MIN_PX_PER_DAY (width / real_of_int n)"
    "zoom_ticks z = (if PLAN_WEEK_LABEL_MIN_PX_PER_DAY \<le> zoom_pxPerDay z then Week else Month)"
    using n assms by (simp_all add: fitted_def ZOOM_FIT_def Let_def daysBetween_modern ms_day_day
        n_def [symmetric] max_absorb2)
  have w: "scale_width (makeScale from to p) = real_of_int n * p" if "0 \<le> p" for p
    using that n assms by (simp add: makeScale_def Let_def daysBetween_modern ms_day_day n_def)
  have pos: "0 < zoom_pxPerDay z" by (simp add: px(1) less_max_iff_disj PLAN_MIN_PX_PER_DAY_def)
  have "width = real_of_int n * (width / real_of_int n)" using n by simp
  also have "\<dots> \<le> real_of_int n * zoom_pxPerDay z" using n by (intro mult_left_mono) (auto simp: px(1))
  finally have "width \<le> real_of_int n * zoom_pxPerDay z" .
  moreover have "real_of_int n * zoom_pxPerDay z = width" if "PLAN_MIN_PX_PER_DAY < zoom_pxPerDay z"
    using that n by (auto simp: px(1) max_def split: if_splits)
  ultimately show ?thesis using pos w px(2) by simp
qed

lemma fitted_fills_witness:
  "(1000 :: real) \<le> scale_width (makeScale 1735689600000 1740787200000
     (zoom_pxPerDay (fitted ZOOM_FIT 1735689600000 1740787200000 1000)))"
proof -
  have h: "modern 1735689600000" "modern 1740787200000" "day 1735689600000 < day 1740787200000"
    by code_simp+
  show ?thesis using fitted_fills [OF h, of 1000, OF _ refl] by simp
qed

text \<open>
  A window widened to fill its pane is at least as wide as the pane at its density, never ends
  earlier than it did, and is left alone when it was wide enough.
\<close>

lemma filled_covers:
  assumes "modern from" "modern to" "from \<le> to" "0 < px" "filled from to px width = Some e"
  shows "width \<le> real_of_int (daysBetween from e) * px \<and> day to \<le> e
    \<and> (width \<le> real_of_int (daysBetween from to) * px \<longrightarrow> e = day to)"
proof -
  let ?shown = "ms_day to - ms_day from" and ?needed = "\<lceil>width / px\<rceil>"
  have e: "e = (if ?needed \<le> ?shown then day to else addDays (day from) ?needed)"
    using assms by (simp add: filled_def Let_def daysBetween_modern ms_day_day)
  have need: "width \<le> real_of_int k * px" if "?needed \<le> k" for k
  proof -
    have "width / px \<le> real_of_int k" using that by linarith
    then show ?thesis using assms(4) by (simp add: field_simps)
  qed
  have enough: "?needed \<le> ?shown" if "width \<le> real_of_int (daysBetween from to) * px"
  proof -
    have "width / px \<le> real_of_int ?shown"
      using that assms by (simp add: pos_divide_le_eq daysBetween_modern)
    then show ?thesis by (rule ceiling_le)
  qed
  show ?thesis
  proof (cases "?needed \<le> ?shown")
    case True
    then show ?thesis using e assms need [OF True] by (simp add: daysBetween_modern ms_day_day)
  next
    case False
    have le: "ms_day from \<le> ms_day to" using assms by (simp add: zdiv_mono1)
    have d: "e = (ms_day from + ?needed) * MS_PER_DAY"
      using False e assms(1) by (simp add: addDays_def day_modern distrib_right)
    have to: "day to \<le> e" using False d assms(2) by (simp add: day_modern mult_right_mono)
    then have "modern e" using modern_mono [of "day to" e] assms(2) by simp
    then show ?thesis
      using False need [OF order_refl] to d enough assms by (auto simp: daysBetween_modern)
  qed
qed

end
