(* ===== verification/PlanViews.thy ===== *)
theory PlanViews
  imports PlanScale
begin

text \<open>
  The plan read several ways, \<open>web/src/features/plan/views.ts\<close>: the cut, the filters, the meter and
  the rows of each view; and what dropping a lifted row would do, \<open>reparent.ts\<close>.
\<close>

section \<open>Views, filters and the cut\<close>

datatype PlanView = Management | Sprints | Dependencies

definition view_id :: "PlanView \<Rightarrow> string" where
  "view_id v = (case v of Management \<Rightarrow> ''management'' | Sprints \<Rightarrow> ''sprints''
     | Dependencies \<Rightarrow> ''dependencies'')"

record ViewEntry =
  ve_id :: PlanView
  ve_label :: "plan_words \<Rightarrow> string"
  ve_hint :: "plan_words \<Rightarrow> string"

definition PLAN_VIEWS :: "ViewEntry list" where
  "PLAN_VIEWS = [
     \<lparr>ve_id = Management, ve_label = pw_management, ve_hint = pw_managementHint\<rparr>,
     \<lparr>ve_id = Sprints, ve_label = pw_sprints, ve_hint = pw_sprintsHint\<rparr>,
     \<lparr>ve_id = Dependencies, ve_label = pw_dependencies, ve_hint = pw_dependenciesHint\<rparr>]"

definition viewFor :: "string option \<Rightarrow> PlanView" where
  "viewFor i = (case js_find (\<lambda>v. Some (view_id (ve_id v)) = i) PLAN_VIEWS of
     Some v \<Rightarrow> ve_id v | None \<Rightarrow> Management)"

record Filters =
  filter_types :: "string list"
  filter_milestoneId :: string
  filter_teamId :: string

definition NO_FILTERS :: Filters where
  "NO_FILTERS = \<lparr>filter_types = [], filter_milestoneId = [], filter_teamId = []\<rparr>"

record Cut =
  cut_closedForDays :: "int option"
  cut_matched :: "string list option"

definition NO_CUT :: Cut where
  "NO_CUT = \<lparr>cut_closedForDays = None, cut_matched = None\<rparr>"

text \<open>The date an issue was closed; the inner option is the date, which may be invalid.\<close>

definition closedAt :: "Issue \<Rightarrow> int option option" where
  "closedAt i =
     (if status_category (issue_status i) \<noteq> Done then None
      else Some (date_value (case issue_resolvedAt i of Some r \<Rightarrow> r | None \<Rightarrow> issue_updatedAt i)))"

definition survives :: "PlanItem \<Rightarrow> Cut \<Rightarrow> int \<Rightarrow> bool" where
  "survives item c now =
     (if (case cut_matched c of Some m \<Rightarrow> issue_key (item_issue item) \<notin> set m | None \<Rightarrow> False) then False
      else case cut_closedForDays c of
        None \<Rightarrow> True
      | Some days \<Rightarrow> (case closedAt (item_issue item) of
          None \<Rightarrow> True
        | Some None \<Rightarrow> False
        | Some (Some shut) \<Rightarrow> now - shut \<le> days * MS_PER_DAY))"

definition with_children :: "PlanItem \<Rightarrow> PlanItem list \<Rightarrow> PlanItem" where
  "with_children i ch = PlanItem (item_issue i) (item_depth i) (item_start i) (item_due i)
     (item_derived i) (item_estimate i) (item_estimateDerived i) (item_progress i) ch"

lemma with_children_sel [simp]:
  "item_issue (with_children i ch) = item_issue i" "item_children (with_children i ch) = ch"
  "with_children i (item_children i) = i"
  by (simp_all add: with_children_def)

lemma size_children [termination_simp]: "size_list size (item_children i) < Suc (size i + k)"
  by (cases i) simp

fun flatten :: "PlanItem list \<Rightarrow> PlanItem list" where
  "flatten [] = []"
| "flatten (i # is) = (i # flatten (item_children i)) @ flatten is"

fun keepWhere :: "PlanItem list \<Rightarrow> (PlanItem \<Rightarrow> bool) \<Rightarrow> PlanItem list" where
  "keepWhere [] keep = []"
| "keepWhere (i # is) keep =
     (let children = keepWhere (item_children i) keep; rest = keepWhere is keep
      in if keep i \<or> children \<noteq> [] then with_children i children # rest else rest)"

definition cutItems :: "PlanItem list \<Rightarrow> Cut \<Rightarrow> int \<Rightarrow> PlanItem list" where
  "cutItems items c now =
     (if cut_closedForDays c = None \<and> cut_matched c = None then items
      else keepWhere items (\<lambda>item. survives item c now))"

definition matches :: "PlanItem \<Rightarrow> Filters \<Rightarrow> bool" where
  "matches item filters =
     (if filter_types filters \<noteq> [] \<and> type_name (issue_type (item_issue item)) \<notin> set (filter_types filters)
      then False
      else if filter_milestoneId filters \<noteq> []
          \<and> issue_milestoneId (item_issue item) \<noteq> Some (filter_milestoneId filters) then False
      else if filter_teamId filters \<noteq> []
          \<and> issue_teamId (item_issue item) \<noteq> Some (filter_teamId filters) then False
      else True)"

text \<open>
  The source compares the filters with its constant by identity; filters that are merely equal to
  it go through \<^const>\<open>keepWhere\<close>, which then keeps every row (\<open>keepWhere_all\<close> below).
\<close>

definition filterItems :: "PlanItem list \<Rightarrow> Filters \<Rightarrow> PlanItem list" where
  "filterItems items filters =
     (if filters = NO_FILTERS then items else keepWhere items (\<lambda>item. matches item filters))"

section \<open>The meter\<close>

record TypeCount =
  tc_name :: string
  tc_icon :: string
  tc_count :: int

record Meter =
  meter_total :: int
  meter_scheduled :: int
  meter_done :: int
  meter_inProgress :: int
  meter_todo :: int
  meter_points :: real
  meter_donePercent :: int
  meter_byType :: "TypeCount list"

text \<open>One turn of the counting loop, on the numbers so far and the map of types so far.\<close>

definition count_type :: "TypeRef \<Rightarrow> (string \<times> TypeCount) list \<Rightarrow> (string \<times> TypeCount) list" where
  "count_type ty byType =
     (let tc = (case map_of byType (type_name ty) of Some c \<Rightarrow> c
        | None \<Rightarrow> \<lparr>tc_name = type_name ty, tc_icon = type_icon ty, tc_count = 0\<rparr>)
      in AList.update (type_name ty) (tc\<lparr>tc_count := tc_count tc + 1\<rparr>) byType)"

definition meter_step :: "Meter \<times> (string \<times> TypeCount) list \<Rightarrow> PlanItem \<Rightarrow> Meter \<times> (string \<times> TypeCount) list" where
  "meter_step acc item =
     (case acc of (out, byType) \<Rightarrow>
       let out = (if truthy (item_start item) \<and> truthy (item_due item)
             then out\<lparr>meter_scheduled := meter_scheduled out + 1\<rparr> else out);
           out = (case status_category (issue_status (item_issue item)) of
               Done \<Rightarrow> out\<lparr>meter_done := meter_done out + 1\<rparr>
             | In_progress \<Rightarrow> out\<lparr>meter_inProgress := meter_inProgress out + 1\<rparr>
             | Todo \<Rightarrow> out\<lparr>meter_todo := meter_todo out + 1\<rparr>);
           out = (case item_estimate item of
               Some e \<Rightarrow> if item_estimateDerived item = Some True then out
                 else out\<lparr>meter_points := meter_points out + e\<rparr>
             | None \<Rightarrow> out)
       in (out, count_type (issue_type (item_issue item)) byType))"

definition byType_order :: "(string \<Rightarrow> string \<Rightarrow> real) \<Rightarrow> TypeCount \<Rightarrow> TypeCount \<Rightarrow> real" where
  "byType_order lc = cmp_or (\<lambda>a b. real_of_int (tc_count b - tc_count a)) (\<lambda>a b. lc (tc_name a) (tc_name b))"

definition meter :: "(string \<Rightarrow> string \<Rightarrow> real) \<Rightarrow> PlanItem list \<Rightarrow> Meter" where
  "meter lc items =
     (let all = flatten items;
          start = \<lparr>meter_total = int (length all), meter_scheduled = 0, meter_done = 0,
            meter_inProgress = 0, meter_todo = 0, meter_points = 0, meter_donePercent = 0,
            meter_byType = []\<rparr>;
          (out, byType) = foldl meter_step (start, []) all
      in out\<lparr>meter_donePercent := if meter_total out = 0 then 0
             else \<lfloor>real_of_int (meter_done out) / real_of_int (meter_total out) * 100\<rfloor>,
           meter_byType := js_sort (byType_order lc) (map snd byType)\<rparr>)"

section \<open>Rows\<close>

record GroupRow =
  group_key :: string
  group_label :: string
  group_sprint :: "SprintPlan option"
  group_count :: int
  group_detail :: "string option"
  group_collapsed :: bool

datatype Row =
  IssueRow (row_key: string) (row_item: PlanItem) (row_hasChildren: bool) (row_collapsed: bool)
| Group GroupRow
| LoadRow string TeamLoad
| AddRow string string "GroupRow option"

definition BACKLOG_KEY :: string where
  "BACKLOG_KEY = ''sprint:backlog''"

definition PLAN_ADD_KEY :: string where
  "PLAN_ADD_KEY = ''add:plan''"

fun hierarchyRows :: "PlanItem list \<Rightarrow> string set \<Rightarrow> Row list" where
  "hierarchyRows [] collapsed = []"
| "hierarchyRows (i # is) collapsed =
     (let isCollapsed = issue_key (item_issue i) \<in> collapsed
      in IssueRow (issue_key (item_issue i)) i (item_children i \<noteq> []) isCollapsed
         # (if isCollapsed then [] else hierarchyRows (item_children i) collapsed)
         @ hierarchyRows is collapsed)"

text \<open>\<open>{ ...item, depth: 0, children: [] }\<close>\<close>

definition flat_item :: "PlanItem \<Rightarrow> PlanItem" where
  "flat_item i = PlanItem (item_issue i) 0 (item_start i) (item_due i) (item_derived i)
     (item_estimate i) (item_estimateDerived i) (item_progress i) []"

definition sprint_group :: "string set \<Rightarrow> string \<Rightarrow> string \<Rightarrow> SprintPlan option \<Rightarrow> PlanItem list \<Rightarrow> Row list" where
  "sprint_group collapsed key label sprint members =
     (let isCollapsed = key \<in> collapsed;
          head = \<lparr>group_key = key, group_label = label, group_sprint = sprint,
            group_count = int (length members), group_detail = None, group_collapsed = isCollapsed\<rparr>
      in Group head #
         (if isCollapsed then []
          else map (\<lambda>item. IssueRow (issue_key (item_issue item)) item False False) members
            @ [AddRow (''add:'' @ key) label (Some head)]))"

definition sprint_work :: "PlanItem list \<Rightarrow> PlanItem list" where
  "sprint_work items = map flat_item
     (filter (\<lambda>item. item_children item = [] \<or> truthy (issue_sprintId (item_issue item))) (flatten items))"

definition in_sprint :: "string \<Rightarrow> PlanItem \<Rightarrow> bool" where
  "in_sprint s item \<longleftrightarrow> issue_sprintId (item_issue item) = Some s"

definition in_backlog :: "SprintPlan list \<Rightarrow> PlanItem \<Rightarrow> bool" where
  "in_backlog sprints item \<longleftrightarrow> \<not> truthy (issue_sprintId (item_issue item))
     \<or> the (issue_sprintId (item_issue item)) \<notin> set (map (\<lambda>p. sprint_id (plan_sprint p)) sprints)"

definition sprintRows :: "plan_words \<Rightarrow> PlanItem list \<Rightarrow> SprintPlan list \<Rightarrow> string set \<Rightarrow> Row list" where
  "sprintRows t items sprints collapsed =
     (let all = sprint_work items
      in concat (map (\<lambda>p. sprint_group collapsed (''sprint:'' @ sprint_id (plan_sprint p))
             (sprint_name (plan_sprint p)) (Some p) (filter (in_sprint (sprint_id (plan_sprint p))) all)) sprints)
         @ sprint_group collapsed BACKLOG_KEY (pw_backlog t) None (filter (in_backlog sprints) all))"

definition rowsFor :: "plan_words \<Rightarrow> PlanView \<Rightarrow> PlanItem list \<Rightarrow> SprintPlan list \<Rightarrow> string set \<Rightarrow> Row list" where
  "rowsFor t view items sprints collapsed =
     (if view = Sprints then sprintRows t items sprints collapsed
      else hierarchyRows items collapsed @ [AddRow PLAN_ADD_KEY (pw_addToPlan t) None])"

section \<open>Dropping a lifted row\<close>

text \<open>Where a lifted row is held over, and what a drop would do or the sentence it is refused with.\<close>

datatype DropTarget = OverRow PlanItem | OverTop

datatype drop_kind = Into | Beside | Top

datatype Decision = Decided drop_kind "string option" | Refused string

definition rowAt :: "Row list \<Rightarrow> real \<Rightarrow> DropTarget option" where
  "rowAt rows y =
     (if y < 0 then Some OverTop
      else case nth_opt rows (nat \<lfloor>y / PLAN_ROW_HEIGHT\<rfloor>) of
        Some (IssueRow k item h c) \<Rightarrow> Some (OverRow item)
      | _ \<Rightarrow> None)"

definition decide :: "plan_words \<Rightarrow> PlanItem \<Rightarrow> DropTarget \<Rightarrow> Decision" where
  "decide t dragged target =
     (let type = issue_type (item_issue dragged)
      in case target of
        OverTop \<Rightarrow>
          if type_level type < LEVEL_STANDARD then Refused (pw_needsParent t (type_name type))
          else Decided Top None
      | OverRow over \<Rightarrow>
          if issue_key (item_issue over) = issue_key (item_issue dragged) then Refused (pw_ownParent t)
          else if \<exists>child \<in> set (flatten (item_children dragged)).
              issue_key (item_issue child) = issue_key (item_issue over)
            then Refused (pw_underItself t)
          else if type_level (issue_type (item_issue over)) = type_level type + 1
            then Decided Into (Some (issue_key (item_issue over)))
          else if type_level (issue_type (item_issue over)) = type_level type
            then if \<not> truthy (issue_parentKey (item_issue over)) \<and> type_level type < LEVEL_STANDARD
              then Refused (pw_needsParent t (type_name type))
              else Decided Beside (issue_parentKey (item_issue over))
          else Refused (pw_wrongParent t (issue_key (item_issue over))
            (type_name (issue_type (item_issue over))) (type_name type)))"

section \<open>Lemmas\<close>

lemma flatten_append [simp]: "flatten (xs @ ys) = flatten xs @ flatten ys"
  by (induction xs) auto

lemma self_in_flatten: "i \<in> set is \<Longrightarrow> i \<in> set (flatten is)"
  by (induction "is") auto

lemma keepWhere_empty: "keepWhere is keep = [] \<longleftrightarrow> (\<forall>j \<in> set (flatten is). \<not> keep j)"
  by (induction "is" keep rule: keepWhere.induct) (auto simp: Let_def)

definition has_match :: "(PlanItem \<Rightarrow> bool) \<Rightarrow> PlanItem \<Rightarrow> bool" where
  "has_match keep i \<longleftrightarrow> (\<exists>j \<in> set (flatten [i]). keep j)"

lemma keepWhere_rows:
  "map item_issue (flatten (keepWhere is keep)) = map item_issue (filter (has_match keep) (flatten is))"
proof (induction "is" keep rule: keepWhere.induct)
  case (2 i "is" keep)
  let ?ch = "keepWhere (item_children i) keep"
  have m: "has_match keep i \<longleftrightarrow> keep i \<or> ?ch \<noteq> []"
    by (auto simp: has_match_def keepWhere_empty)
  show ?case
  proof (cases "keep i \<or> ?ch \<noteq> []")
    case True
    with 2 m show ?thesis by (auto simp: Let_def)
  next
    case False
    then have "?ch = []" by simp
    with 2(1) have "filter (has_match keep) (flatten (item_children i)) = []" by simp
    with 2 False m show ?thesis by (simp add: Let_def)
  qed
qed simp

lemma keepWhere_all: "(\<forall>j \<in> set (flatten is). keep j) \<Longrightarrow> keepWhere is keep = is"
  by (induction "is" keep rule: keepWhere.induct) (auto simp: Let_def)

lemma matches_NO_FILTERS: "matches i NO_FILTERS"
  by (simp add: matches_def NO_FILTERS_def)

lemma survives_NO_CUT: "cut_closedForDays c = None \<Longrightarrow> cut_matched c = None \<Longrightarrow> survives i c now"
  by (simp add: survives_def)

lemma filter_all: "(\<And>x. x \<in> set xs \<Longrightarrow> P x) \<Longrightarrow> filter P xs = xs"
  by (induction xs) auto

lemma has_match_self: "keep i \<Longrightarrow> has_match keep i"
  by (auto simp: has_match_def)

subsection \<open>Counting\<close>

definition has_category :: "StatusCategory \<Rightarrow> PlanItem \<Rightarrow> bool" where
  "has_category c i \<longleftrightarrow> status_category (issue_status (item_issue i)) = c"

definition has_type :: "string \<Rightarrow> PlanItem \<Rightarrow> bool" where
  "has_type n i \<longleftrightarrow> type_name (issue_type (item_issue i)) = n"

definition own_points :: "PlanItem \<Rightarrow> real" where
  "own_points i = (case item_estimate i of Some e \<Rightarrow> if item_estimateDerived i = Some True then 0 else e
     | None \<Rightarrow> 0)"

definition on_calendar :: "PlanItem \<Rightarrow> bool" where
  "on_calendar i \<longleftrightarrow> truthy (item_start i) \<and> truthy (item_due i)"

definition how_many :: "('a \<Rightarrow> bool) \<Rightarrow> 'a list \<Rightarrow> int" where
  "how_many p xs = int (length (filter p xs))"

lemma how_many_simps [simp]:
  "how_many p [] = 0" "how_many p (x # xs) = (if p x then 1 else 0) + how_many p xs"
  "how_many p (xs @ ys) = how_many p xs + how_many p ys"
  by (simp_all add: how_many_def)

lemma how_many_bounds: "0 \<le> how_many p xs" "how_many p xs \<le> int (length xs)"
  by (simp_all add: how_many_def)

lemma how_many_pos: "0 < how_many p xs \<longleftrightarrow> (\<exists>x \<in> set xs. p x)"
  by (induction xs) (auto simp: how_many_bounds add_pos_nonneg)

lemma meter_fold:
  "foldl meter_step (m, bt) xs = (m', bt') \<Longrightarrow>
     m' = m\<lparr>meter_scheduled := meter_scheduled m + how_many on_calendar xs,
        meter_done := meter_done m + how_many (has_category Done) xs,
        meter_inProgress := meter_inProgress m + how_many (has_category In_progress) xs,
        meter_todo := meter_todo m + how_many (has_category Todo) xs,
        meter_points := meter_points m + sum_list (map own_points xs)\<rparr>"
proof (induction xs arbitrary: m bt)
  case (Cons x xs)
  obtain m1 bt1 where s: "meter_step (m, bt) x = (m1, bt1)" by (cases "meter_step (m, bt) x")
  then have "m1 = m\<lparr>meter_scheduled := meter_scheduled m + (if on_calendar x then 1 else 0),
        meter_done := meter_done m + (if has_category Done x then 1 else 0),
        meter_inProgress := meter_inProgress m + (if has_category In_progress x then 1 else 0),
        meter_todo := meter_todo m + (if has_category Todo x then 1 else 0),
        meter_points := meter_points m + own_points x\<rparr>"
    by (auto simp: meter_step_def Let_def on_calendar_def has_category_def own_points_def
        split: StatusCategory.splits option.splits)
  with Cons.IH [of m1 bt1] Cons.prems s show ?case by (simp add: add.assoc)
qed simp

definition counts :: "(string \<times> TypeCount) list \<Rightarrow> PlanItem list \<Rightarrow> bool" where
  "counts bt xs \<longleftrightarrow> distinct (map fst bt) \<and> fst ` set bt = (\<lambda>i. type_name (issue_type (item_issue i))) ` set xs
     \<and> (\<forall>(n, c) \<in> set bt. tc_name c = n \<and> tc_count c = how_many (has_type n) xs)"

lemma counts_step:
  assumes "counts bt xs"
  shows "counts (count_type (issue_type (item_issue x)) bt) (xs @ [x])"
proof -
  let ?n = "type_name (issue_type (item_issue x))"
  let ?bt = "count_type (issue_type (item_issue x)) bt"
  have m: "map_of bt n = Some c \<longleftrightarrow> (n, c) \<in> set bt" for n c
    using assms by (simp add: counts_def)
  have d: "distinct (map fst ?bt)"
    using assms by (simp add: counts_def count_type_def Let_def distinct_update)
  have f: "fst ` set ?bt = insert ?n (fst ` set bt)"
    by (simp add: count_type_def Let_def dom_update flip: dom_map_of_conv_image_fst)
  have none: "how_many (has_type ?n) xs = 0" if "map_of bt ?n = None"
  proof -
    have "?n \<notin> fst ` set bt" using that by (simp add: map_of_eq_None_iff)
    then have "\<forall>y \<in> set xs. \<not> has_type ?n y" using assms
      by (auto simp: counts_def has_type_def) (metis image_eqI)
    then show ?thesis using how_many_pos [of "has_type ?n" xs] how_many_bounds [of "has_type ?n" xs] by force
  qed
  have "tc_name c = n \<and> tc_count c = how_many (has_type n) (xs @ [x])" if "(n, c) \<in> set ?bt" for n c
  proof -
    from that d have "map_of ?bt n = Some c" by simp
    then show ?thesis using assms none m
      by (fastforce simp: count_type_def Let_def counts_def has_type_def split: if_splits option.splits)
  qed
  with d f assms show ?thesis by (auto simp: counts_def)
qed

lemma counts_fold: "counts (snd (foldl meter_step (m, []) xs)) xs"
proof (induction xs rule: rev_induct)
  case (snoc x xs)
  have "snd (meter_step s x) = count_type (issue_type (item_issue x)) (snd s)" for s
    by (cases s) (simp add: meter_step_def Let_def)
  with snoc show ?case by (simp add: counts_step)
qed (simp add: counts_def)

lemma categories_sum:
  "how_many (has_category Done) xs + how_many (has_category In_progress) xs
     + how_many (has_category Todo) xs = int (length xs)"
proof (induction xs)
  case (Cons x xs)
  then show ?case by (cases "status_category (issue_status (item_issue x))") (simp_all add: has_category_def)
qed simp

lemma percent_bounds:
  fixes d t :: int
  assumes "0 \<le> d" "d \<le> t" "0 < t"
  shows "0 \<le> \<lfloor>real_of_int d / real_of_int t * 100\<rfloor>" "\<lfloor>real_of_int d / real_of_int t * 100\<rfloor> \<le> 100"
    "\<lfloor>real_of_int d / real_of_int t * 100\<rfloor> = 100 \<longleftrightarrow> d = t"
proof -
  show "0 \<le> \<lfloor>real_of_int d / real_of_int t * 100\<rfloor>" using assms by simp
  have le: "real_of_int d / real_of_int t * 100 \<le> 100" using assms by (simp add: divide_simps)
  then show "\<lfloor>real_of_int d / real_of_int t * 100\<rfloor> \<le> 100" by linarith
  have "real_of_int d / real_of_int t * 100 < 100" if "d < t" using that assms by (simp add: divide_simps)
  then have "\<lfloor>real_of_int d / real_of_int t * 100\<rfloor> \<noteq> 100" if "d < t" using that by linarith
  then show "\<lfloor>real_of_int d / real_of_int t * 100\<rfloor> = 100 \<longleftrightarrow> d = t"
    using assms by (cases "d < t") auto
qed

lemma comparator_byType: "collation lc \<Longrightarrow> comparator (byType_order lc)"
  using comparator_cmp_or [OF comparator_cmp_by [of "\<lambda>c. - real_of_int (tc_count c)"]
      comparator_pull [of lc tc_name]]
  by (simp add: byType_order_def collation_def cmp_by_def [abs_def])

subsection \<open>Groups of a sprint view\<close>

definition row_items :: "Row list \<Rightarrow> PlanItem list" where
  "row_items rows = concat (map (\<lambda>r. case r of IssueRow k i h c \<Rightarrow> [i] | _ \<Rightarrow> []) rows)"

definition group_counts :: "Row list \<Rightarrow> int list" where
  "group_counts rows = concat (map (\<lambda>r. case r of Group g \<Rightarrow> [group_count g] | _ \<Rightarrow> []) rows)"

lemma row_items_simps [simp]:
  "row_items [] = []" "row_items (xs @ ys) = row_items xs @ row_items ys"
  "row_items (IssueRow k i h c # rows) = i # row_items rows"
  "row_items (Group g # rows) = row_items rows" "row_items (AddRow a l gr # rows) = row_items rows"
  by (simp_all add: row_items_def)

lemma group_counts_simps [simp]:
  "group_counts [] = []" "group_counts (xs @ ys) = group_counts xs @ group_counts ys"
  "group_counts (IssueRow k i h c # rows) = group_counts rows"
  "group_counts (Group g # rows) = group_count g # group_counts rows"
  "group_counts (AddRow a l gr # rows) = group_counts rows"
  by (simp_all add: group_counts_def)

lemma group_rows [simp]:
  "row_items (map (\<lambda>i. IssueRow (k i) i False False) xs) = xs"
  "group_counts (map (\<lambda>i. IssueRow (k i) i False False) xs) = []"
  by (induction xs) simp_all

lemma sprint_group_rows [simp]:
  "row_items (sprint_group collapsed k l s xs) = (if k \<in> collapsed then [] else xs)"
  "group_counts (sprint_group collapsed k l s xs) = [int (length xs)]"
  by (simp_all add: sprint_group_def Let_def)

lemma sprints_split:
  assumes "distinct ids"
  shows "mset (concat (map (\<lambda>s. filter (in_sprint s) xs) ids))
     + mset (filter (\<lambda>i. \<forall>s \<in> set ids. \<not> in_sprint s i) xs) = mset xs"
  using assms
proof (induction ids)
  case (Cons s ids)
  let ?none = "\<lambda>i. \<forall>s \<in> set ids. \<not> in_sprint s i"
  have "mset (filter ?none xs) = mset (filter (in_sprint s) (filter ?none xs))
      + mset (filter (\<lambda>i. \<not> in_sprint s i) (filter ?none xs))"
    using multiset_partition [of "mset (filter ?none xs)" "in_sprint s"] by (simp only: mset_filter)
  moreover have "filter (in_sprint s) (filter ?none xs) = filter (in_sprint s) xs"
    using Cons.prems by (auto simp: in_sprint_def intro!: filter_cong)
  moreover have "filter (\<lambda>i. \<not> in_sprint s i) (filter ?none xs)
      = filter (\<lambda>i. \<forall>u \<in> set (s # ids). \<not> in_sprint u i) xs"
    by (auto intro!: filter_cong)
  ultimately have "mset (filter ?none xs) = mset (filter (in_sprint s) xs)
      + mset (filter (\<lambda>i. \<forall>u \<in> set (s # ids). \<not> in_sprint u i) xs)" by (simp only:)
  with Cons show ?case
    by (simp only: list.map concat.simps mset_append distinct.simps ac_simps)
qed simp

lemma backlog_none:
  assumes "[] \<notin> set (map (\<lambda>p. sprint_id (plan_sprint p)) sprints)"
  shows "in_backlog sprints i
    \<longleftrightarrow> (\<forall>s \<in> set (map (\<lambda>p. sprint_id (plan_sprint p)) sprints). \<not> in_sprint s i)"
  using assms by (cases "issue_sprintId (item_issue i)") (force simp: in_backlog_def in_sprint_def)+

lemma rows_concat:
  "row_items (concat (map f xs)) = concat (map (\<lambda>x. row_items (f x)) xs)"
  "group_counts (concat (map f xs)) = concat (map (\<lambda>x. group_counts (f x)) xs)"
  by (induction xs) simp_all

lemma size_split: "sum_list (map (\<lambda>s. int (length (f s))) ids) = int (length (concat (map f ids)))"
  by (induction ids) simp_all

subsection \<open>Parents\<close>

text \<open>The plan's rows hang under the parents their issues name.\<close>

definition hangs :: "PlanItem list \<Rightarrow> bool" where
  "hangs items \<longleftrightarrow> (\<forall>i \<in> set (flatten items). \<forall>j \<in> set (flatten items).
     issue_parentKey (item_issue j) = Some (issue_key (item_issue i)) \<longleftrightarrow> j \<in> set (item_children i))"

lemma child_in_flatten: "n \<in> set (flatten xs) \<Longrightarrow> j \<in> set (item_children n) \<Longrightarrow> j \<in> set (flatten xs)"
  by (induction xs rule: flatten.induct) (auto intro: self_in_flatten)

lemma flatten_trans: "n \<in> set (flatten xs) \<Longrightarrow> set (flatten (item_children n)) \<subseteq> set (flatten xs)"
  by (induction xs rule: flatten.induct) auto

section \<open>Properties\<close>

text \<open>
  C31: Filtering the plan and cutting it keep exactly the rows that match or have a match somewhere
  beneath them, in the order they were drawn in.
\<close>

theorem filtered_rows:
  "map item_issue (flatten (filterItems items filters)) =
     map item_issue (filter (has_match (\<lambda>i. matches i filters)) (flatten items))
   \<and> map item_issue (flatten (cutItems items c now)) =
     map item_issue (filter (has_match (\<lambda>i. survives i c now)) (flatten items))"
proof
  show "map item_issue (flatten (filterItems items filters)) =
     map item_issue (filter (has_match (\<lambda>i. matches i filters)) (flatten items))"
    by (simp add: filterItems_def keepWhere_rows matches_NO_FILTERS has_match_self filter_all)
  show "map item_issue (flatten (cutItems items c now)) =
     map item_issue (filter (has_match (\<lambda>i. survives i c now)) (flatten items))"
    by (simp add: cutItems_def keepWhere_rows survives_NO_CUT has_match_self filter_all)
qed

text \<open>
  The meter's numbers are the plan's: the three states split the total, the points are those of
  the issues that carry their own estimate, every type on the plan is counted once and rightly, the
  types run from the most to the least used, and the percentage is a whole one from 0 to 100 which
  says 100 only when everything is done.
\<close>

lemma meter_counts:
  assumes "collation lc" "m = meter lc items" "all = flatten items"
  shows "meter_total m = int (length all)
    \<and> meter_total m = meter_done m + meter_inProgress m + meter_todo m
    \<and> meter_done m = how_many (has_category Done) all
    \<and> meter_inProgress m = how_many (has_category In_progress) all
    \<and> meter_scheduled m = how_many on_calendar all
    \<and> meter_points m = sum_list (map own_points all)
    \<and> distinct (map tc_name (meter_byType m))
    \<and> tc_name ` set (meter_byType m) = (\<lambda>i. type_name (issue_type (item_issue i))) ` set all
    \<and> (\<forall>c \<in> set (meter_byType m). tc_count c = how_many (has_type (tc_name c)) all)
    \<and> sorted_wrt (\<lambda>a b. tc_count b \<le> tc_count a) (meter_byType m)
    \<and> 0 \<le> meter_donePercent m \<and> meter_donePercent m \<le> 100
    \<and> (meter_donePercent m = 100 \<longleftrightarrow> meter_done m = meter_total m \<and> all \<noteq> [])"
proof -
  let ?start = "\<lparr>meter_total = int (length all), meter_scheduled = 0, meter_done = 0,
    meter_inProgress = 0, meter_todo = 0, meter_points = 0, meter_donePercent = 0, meter_byType = []\<rparr>"
  obtain out bt where fold: "foldl meter_step (?start, []) all = (out, bt)" by fastforce
  note nums = meter_fold [OF fold]
  have m: "m = out\<lparr>meter_donePercent := if meter_total out = 0 then 0
      else \<lfloor>real_of_int (meter_done out) / real_of_int (meter_total out) * 100\<rfloor>,
      meter_byType := js_sort (byType_order lc) (map snd bt)\<rparr>"
    using fold assms(2,3) by (simp add: meter_def Let_def)
  have c: "counts bt all" using counts_fold [of ?start all] fold by simp
  have snd_names: "map tc_name (map snd bt) = map fst bt" using c by (auto simp: counts_def)
  have bym: "meter_byType m = js_sort (byType_order lc) (map snd bt)" by (simp add: m)
  have names: "mset (map tc_name (meter_byType m)) = mset (map fst bt)"
    by (simp only: bym mset_map mset_js_sort flip: snd_names)
  have dist: "distinct (map tc_name (meter_byType m))"
    using mset_eq_imp_distinct_iff [OF names] c by (simp only: counts_def)
  have set: "tc_name ` set (meter_byType m) = (\<lambda>i. type_name (issue_type (item_issue i))) ` set all"
    using mset_eq_setD [OF names] c by (simp only: counts_def set_map)
  have sorted: "sorted_wrt (\<lambda>a b. byType_order lc a b \<le> 0) (meter_byType m)"
    using comparator.sorted_js_sort [OF comparator_byType [OF assms(1)]] by (simp add: m)
  have sorted': "sorted_wrt (\<lambda>a b. tc_count b \<le> tc_count a) (meter_byType m)"
    by (rule sorted_wrt_mono_rel [OF _ sorted]) (auto simp: byType_order_def cmp_or_def split: if_splits)
  have "0 \<le> meter_donePercent m \<and> meter_donePercent m \<le> 100
    \<and> (meter_donePercent m = 100 \<longleftrightarrow> meter_done m = meter_total m \<and> all \<noteq> [])"
    using percent_bounds [of "how_many (has_category Done) all" "int (length all)"]
      how_many_bounds [of "has_category Done" all] by (simp add: m nums)
  moreover have "\<forall>c \<in> set (meter_byType m). tc_count c = how_many (has_type (tc_name c)) all"
    using c by (auto simp: bym counts_def)
  ultimately show ?thesis
    using categories_sum [of all] dist set sorted' by (simp add: m nums)
qed

lemma meter_counts_witness:
  "let m = meter code_unit_compare
     [sample_item (sample_issue ''A'' (sample_type ''Story'' 0) Done)
        [sample_item (sample_issue ''B'' (sample_type ''Subtask'' (- 1)) Todo) []]]
   in meter_total m = 2 \<and> meter_done m = 1 \<and> distinct (map tc_name (meter_byType m))"
  using meter_counts [OF cu.collation_axioms refl refl, of "[sample_item (sample_issue ''A''
      (sample_type ''Story'' 0) Done) [sample_item (sample_issue ''B'' (sample_type ''Subtask'' (- 1)) Todo) []]]"]
  by (simp add: Let_def has_category_def samples)

text \<open>
  C32: The sprint view shows every piece of work exactly once: with the groups open, the rows are
  the work of the plan, each under its own sprint or in the backlog; and whatever is closed, the
  counts of the group headings add up to all of it.
\<close>

theorem sprint_rows_partition:
  assumes "distinct (map (\<lambda>p. sprint_id (plan_sprint p)) sprints)"
    and "[] \<notin> set (map (\<lambda>p. sprint_id (plan_sprint p)) sprints)"
  shows "mset (row_items (sprintRows t items sprints {})) = mset (sprint_work items)
    \<and> sum_list (group_counts (sprintRows t items sprints collapsed)) = int (length (sprint_work items))"
proof -
  let ?ids = "map (\<lambda>p. sprint_id (plan_sprint p)) sprints" and ?all = "sprint_work items"
  have split: "mset (concat (map (\<lambda>s. filter (in_sprint s) ?all) ?ids)) + mset (filter (in_backlog sprints) ?all)
      = mset ?all"
    using sprints_split [OF assms(1), of ?all] backlog_none [OF assms(2)] by simp
  have rows: "row_items (sprintRows t items sprints {})
      = concat (map (\<lambda>s. filter (in_sprint s) ?all) ?ids) @ filter (in_backlog sprints) ?all"
    by (simp add: sprintRows_def Let_def rows_concat comp_def)
  have "group_counts (sprintRows t items sprints collapsed)
      = map (\<lambda>s. int (length (filter (in_sprint s) ?all))) ?ids @ [int (length (filter (in_backlog sprints) ?all))]"
    by (simp add: sprintRows_def Let_def rows_concat comp_def)
  then have "sum_list (group_counts (sprintRows t items sprints collapsed))
      = int (size (mset (concat (map (\<lambda>s. filter (in_sprint s) ?all) ?ids)) + mset (filter (in_backlog sprints) ?all)))"
    using size_split [of "\<lambda>s. filter (in_sprint s) ?all" ?ids] by (simp flip: size_mset)
  with split rows show ?thesis by simp
qed

theorem sprint_rows_partition_witness:
  "mset (row_items (sprintRows planEn [sample_item (sample_issue ''A'' (sample_type ''Task'' 0) Todo) []]
      [sample_sprint ''1''] {})) =
    {#flat_item (sample_item (sample_issue ''A'' (sample_type ''Task'' 0) Todo) [])#}"
  using sprint_rows_partition [of "[sample_sprint ''1'']" planEn
      "[sample_item (sample_issue ''A'' (sample_type ''Task'' 0) Todo) []]" "{}"]
  by (simp add: samples sprint_work_def)

text \<open>
  C1: No drop on the plan makes a cycle or an issue of the wrong level. On a plan whose rows hang
  under the parents they name, an accepted drop, over a row or over the space above the rows, gives
  the lifted issue a parent outside its own branch: the row it is dropped into, which is one level
  above it, or the parent of the row it is dropped beside, which is on its own level. The space
  above the rows is the one place that makes it a root outright, and only an issue of a level that
  may stand alone ends up without a parent, there or beside a row that has none.
\<close>

theorem decide_sound:
  assumes "hangs items" "dragged \<in> set (flatten items)"
    and "\<forall>over. target = OverRow over \<longrightarrow> over \<in> set (flatten items)"
    and "decide t dragged target = Decided kind parent"
  shows "(\<forall>n \<in> set (flatten [dragged]). parent \<noteq> Some (issue_key (item_issue n)))
    \<and> (kind = Top \<longleftrightarrow> target = OverTop)
    \<and> (kind = Top \<longrightarrow> parent = None)
    \<and> (kind = Into \<longrightarrow> (\<exists>over. target = OverRow over \<and> parent = Some (issue_key (item_issue over)) \<and>
        type_level (issue_type (item_issue over)) = type_level (issue_type (item_issue dragged)) + 1))
    \<and> (kind = Beside \<longrightarrow> (\<exists>over. target = OverRow over \<and> parent = issue_parentKey (item_issue over) \<and>
        type_level (issue_type (item_issue over)) = type_level (issue_type (item_issue dragged))))
    \<and> (kind \<noteq> Into \<and> \<not> truthy parent \<longrightarrow> LEVEL_STANDARD \<le> type_level (issue_type (item_issue dragged)))"
proof (cases target)
  case OverTop
  with assms(4) show ?thesis by (auto simp: decide_def Let_def split: if_splits)
next
  case (OverRow over)
  note row = assms(4) [unfolded OverRow]
  have over: "over \<in> set (flatten items)" using assms(3) OverRow by blast
  have ok: "issue_key (item_issue over) \<noteq> issue_key (item_issue dragged)"
    "\<forall>c \<in> set (flatten (item_children dragged)). issue_key (item_issue c) \<noteq> issue_key (item_issue over)"
    using row by (auto simp: decide_def Let_def split: if_splits)
  have "parent \<noteq> Some (issue_key (item_issue n))" if n: "n \<in> set (flatten [dragged])" for n
  proof
    assume p: "parent = Some (issue_key (item_issue n))"
    have in_items: "n \<in> set (flatten items)" using n assms(2) flatten_trans by fastforce
    have "parent = issue_parentKey (item_issue over)"
      using row p ok n by (auto simp: decide_def Let_def split: if_splits)
    then have "over \<in> set (item_children n)" using p assms(1) over in_items by (metis hangs_def)
    then have "over \<in> set (flatten (item_children dragged))"
      using n by (auto intro: child_in_flatten self_in_flatten)
    then show False using ok by auto
  qed
  with row OverRow show ?thesis by (auto simp: decide_def Let_def split: if_splits)
qed

theorem decide_sound_witness:
  "let ep = sample_item (sample_issue ''E'' (sample_type ''Epic'' 1) Todo) [];
       st = sample_item (sample_issue ''S'' (sample_type ''Story'' 0) Todo) []
   in decide planEn st (OverRow ep) = Decided Into (Some ''E'')
     \<and> (\<forall>n \<in> set (flatten [st]). Some ''E'' \<noteq> Some (issue_key (item_issue n)))
     \<and> decide planEn st OverTop = Decided Top None \<and> LEVEL_STANDARD \<le> type_level (issue_type (item_issue st))"
proof -
  let ?ep = "sample_item (sample_issue ''E'' (sample_type ''Epic'' 1) Todo) []"
  let ?st = "sample_item (sample_issue ''S'' (sample_type ''Story'' 0) Todo) []"
  have d: "decide planEn ?st (OverRow ?ep) = Decided Into (Some ''E'')"
    and e: "decide planEn ?st OverTop = Decided Top None"
    by (simp_all add: decide_def samples LEVEL_STANDARD_def)
  have h: "hangs [?ep, ?st]" by (simp add: hangs_def samples)
  show ?thesis using decide_sound [OF h _ _ d] decide_sound [OF h _ _ e] d e by (simp add: Let_def)
qed

end
