(* ===== verification/JsNumber.thy ===== *)
theory JsNumber
  imports JsDate
begin

text \<open>
  Reading and writing numbers as ECMAScript does: \<open>Number(text)\<close> on any text, \<open>toFixed\<close>, and
  \<open>String(x)\<close> for an \<open>x\<close> that was rounded to a few decimals, below the size at which the engine
  turns to exponents.
\<close>

section \<open>Number(text)\<close>

datatype js_number = NaN | Infinite bool | Fin real

definition scale10 :: "real \<Rightarrow> int \<Rightarrow> real" where
  "scale10 x e = (if 0 \<le> e then x * 10 ^ nat e else x / 10 ^ nat (- e))"

definition span_digits :: "string \<Rightarrow> string \<times> string" where
  "span_digits s = (takeWhile is_digit s, dropWhile is_digit s)"

text \<open>The part of a numeral after its digits: nothing, or \<open>e\<close> with a signed integer.\<close>

definition read_exponent :: "string \<Rightarrow> int option" where
  "read_exponent s =
     (case s of [] \<Rightarrow> Some 0
      | c # r \<Rightarrow>
          if c \<noteq> CHR ''e'' \<and> c \<noteq> CHR ''E'' then None
          else let neg = (r \<noteq> [] \<and> hd r = CHR ''-'');
                   ds = (if r \<noteq> [] \<and> (hd r = CHR ''-'' \<or> hd r = CHR ''+'') then tl r else r)
               in if ds \<noteq> [] \<and> (\<forall>d \<in> set ds. is_digit d)
                  then Some (if neg then - int (str_nat ds) else int (str_nat ds)) else None)"

definition read_decimal :: "string \<Rightarrow> real option" where
  "read_decimal s =
     (let (ip, r) = span_digits s;
          (fp, r) = (case r of c # r' \<Rightarrow> if c = CHR ''.'' then span_digits r' else ([], r) | [] \<Rightarrow> ([], []))
      in if ip = [] \<and> fp = [] then None
         else map_option (\<lambda>e. scale10 (real (str_nat (ip @ fp))) (e - int (length fp))) (read_exponent r))"

definition radix_digit :: "nat \<Rightarrow> char \<Rightarrow> nat option" where
  "radix_digit b c =
     (let n = (of_char c :: nat);
          v = (if is_digit c then n - 48 else if 97 \<le> n \<and> n \<le> 102 then n - 87
               else if 65 \<le> n \<and> n \<le> 70 then n - 55 else b)
      in if v < b then Some v else None)"

definition read_radix :: "nat \<Rightarrow> string \<Rightarrow> js_number" where
  "read_radix b s =
     (if s \<noteq> [] \<and> (\<forall>c \<in> set s. radix_digit b c \<noteq> None)
      then Fin (real (foldl (\<lambda>n c. b * n + the (radix_digit b c)) 0 s)) else NaN)"

definition read_unsigned :: "bool \<Rightarrow> string \<Rightarrow> js_number" where
  "read_unsigned neg s =
     (if s = ''Infinity'' then Infinite neg
      else case read_decimal s of None \<Rightarrow> NaN | Some x \<Rightarrow> Fin (if neg then - x else x))"

definition read_number :: "string \<Rightarrow> js_number" where
  "read_number text =
     (case trim text of
        [] \<Rightarrow> Fin 0
      | c # r \<Rightarrow>
          if c = CHR ''0'' \<and> r \<noteq> [] \<and> toLowerCase [hd r] = ''x'' then read_radix 16 (tl r)
          else if c = CHR ''0'' \<and> r \<noteq> [] \<and> toLowerCase [hd r] = ''o'' then read_radix 8 (tl r)
          else if c = CHR ''0'' \<and> r \<noteq> [] \<and> toLowerCase [hd r] = ''b'' then read_radix 2 (tl r)
          else if c = CHR ''-'' then read_unsigned True r
          else if c = CHR ''+'' then read_unsigned False r
          else read_unsigned False (c # r))"

section \<open>Writing a number\<close>

text \<open>Zeros at the end of the decimals are not written.\<close>

definition strip_zeros :: "string \<Rightarrow> string" where
  "strip_zeros s = rev (dropWhile (\<lambda>c. c = CHR ''0'') (rev s))"

text \<open>\<open>String(n / 10 ** d)\<close> for a whole \<open>n\<close>.\<close>

definition scaled_str :: "nat \<Rightarrow> int \<Rightarrow> string" where
  "scaled_str d n =
     (let k = nat \<bar>n\<bar>; fp = strip_zeros (padStart d (nat_str (k mod 10 ^ d)))
      in (if n < 0 then ''-'' else []) @ nat_str (k div 10 ^ d) @ (if fp = [] then [] else CHR ''.'' # fp))"

text \<open>\<open>toFixed\<close> takes the nearest multiple, the larger of two, on the size of the number.\<close>

definition fixed_units :: "nat \<Rightarrow> real \<Rightarrow> int" where
  "fixed_units d x = (if x < 0 then - js_round (- x * 10 ^ d) else js_round (x * 10 ^ d))"

definition toFixed :: "nat \<Rightarrow> real \<Rightarrow> string" where
  "toFixed d x =
     (let k = nat \<bar>fixed_units d x\<bar>
      in (if x < 0 then ''-'' else []) @ nat_str (k div 10 ^ d)
         @ (if d = 0 then [] else CHR ''.'' # padStart d (nat_str (k mod 10 ^ d))))"

section \<open>Lemmas\<close>

lemma str_nat_append2: "str_nat (a @ b) = str_nat a * 10 ^ length b + str_nat b"
proof (induction b rule: rev_induct)
  case (snoc c b)
  then show ?case by (simp add: str_nat_append flip: append_assoc)
qed (simp add: str_nat_def)

lemma padStart_digits: "\<forall>c \<in> set (padStart d (nat_str m)). is_digit c"
  using nat_str_digits [of m] by (auto simp: padStart_def is_digit_def)

lemma strip_zeros_split: "\<exists>k. s = strip_zeros s @ replicate k (CHR ''0'')"
proof
  have "takeWhile (\<lambda>c. c = CHR ''0'') (rev s) = replicate (length (takeWhile (\<lambda>c. c = CHR ''0'') (rev s))) (CHR ''0'')"
    by (rule replicate_eqI [symmetric, THEN sym]) (auto dest: set_takeWhileD)
  then show "s = strip_zeros s @ replicate (length (takeWhile (\<lambda>c. c = CHR ''0'') (rev s))) (CHR ''0'')"
    unfolding strip_zeros_def
    by (metis rev_append rev_replicate rev_rev_ident takeWhile_dropWhile_id)
qed

lemma str_nat_end_zeros: "str_nat (s @ replicate k (CHR ''0'')) = str_nat s * 10 ^ k"
proof -
  have "str_nat (replicate k (CHR ''0'')) = 0" using str_nat_zeros [of k "[]"] by (simp add: str_nat_def)
  then show ?thesis by (simp add: str_nat_append2)
qed

lemma span_all: "(\<forall>c \<in> set s. is_digit c) \<Longrightarrow> span_digits s = (s, [])"
  by (simp add: span_digits_def)

lemma span_dot: "(\<forall>c \<in> set s. is_digit c) \<Longrightarrow> span_digits (s @ CHR ''.'' # r) = (s, CHR ''.'' # r)"
  by (simp add: span_digits_def takeWhile_append2 dropWhile_append2 is_digit_def)

lemma read_decimal_plain:
  assumes "\<forall>c \<in> set ip. is_digit c" "\<forall>c \<in> set fp. is_digit c" "ip \<noteq> []"
  shows "read_decimal (ip @ (if fp = [] then [] else CHR ''.'' # fp))
     = Some (real (str_nat (ip @ fp)) / 10 ^ length fp)"
  using assms
  by (auto simp: read_decimal_def span_all span_dot read_exponent_def scale10_def)

lemma not_space_digit: "is_digit c \<Longrightarrow> \<not> is_space c"
  by (auto simp: is_digit_def is_space_def)

lemma trim_idle:
  assumes "s \<noteq> []" "\<not> is_space (hd s)" "\<not> is_space (last s)"
  shows "trim s = s"
proof -
  have "trim_start s = s" using assms by (cases s) (auto simp: trim_start_def)
  moreover have "trim_start (rev s) = rev s"
    using assms by (cases s rule: rev_cases) (auto simp: trim_start_def)
  ultimately show ?thesis by (simp add: trim_def)
qed

lemma read_number_plain:
  assumes "\<forall>c \<in> set ip. is_digit c" "\<forall>c \<in> set fp. is_digit c" "ip \<noteq> []"
  defines "s \<equiv> ip @ (if fp = [] then [] else CHR ''.'' # fp)"
  shows "read_number s = Fin (real (str_nat (ip @ fp)) / 10 ^ length fp)"
    "read_number (CHR ''-'' # s) = Fin (- (real (str_nat (ip @ fp)) / 10 ^ length fp))"
proof -
  obtain c r where s: "s = c # r" and c: "is_digit c" and r: "r = [] \<or> is_digit (hd r) \<or> hd r = CHR ''.''"
    using assms by (cases ip; cases "tl ip") auto
  have last: "\<not> is_space (last s)"
    using assms not_space_digit last_in_set [of ip] last_in_set [of fp] by (auto simp: s_def)
  have d: "read_decimal s = Some (real (str_nat (ip @ fp)) / 10 ^ length fp)"
    unfolding s_def by (rule read_decimal_plain) (use assms in auto)
  have t: "trim s = s" using last c s not_space_digit by (intro trim_idle) simp_all
  have "\<not> is_space (CHR ''-'')" by (simp add: is_space_def)
  then have t': "trim (CHR ''-'' # s) = CHR ''-'' # s" using last s by (intro trim_idle) simp_all
  have inf: "s \<noteq> ''Infinity''" using s c by (auto simp: is_digit_def)
  have u: "read_unsigned neg s = Fin (if neg then - (real (str_nat (ip @ fp)) / 10 ^ length fp)
      else real (str_nat (ip @ fp)) / 10 ^ length fp)" for neg
    using inf d by (simp add: read_unsigned_def)
  have low: "toLowerCase [hd r] \<noteq> [x]" if "r \<noteq> []" "x \<in> {CHR ''x'', CHR ''o'', CHR ''b''}" for x
    using r that by (auto simp: toLowerCase_def lower_char_def is_digit_def Let_def)
  have cs: "c \<noteq> CHR ''-''" "c \<noteq> CHR ''+''" using c by (auto simp: is_digit_def)
  show "read_number s = Fin (real (str_nat (ip @ fp)) / 10 ^ length fp)"
    using u [of False] low [of "CHR ''x''"] low [of "CHR ''o''"] low [of "CHR ''b''"] cs t s
    by (auto simp: read_number_def)
  show "read_number (CHR ''-'' # s) = Fin (- (real (str_nat (ip @ fp)) / 10 ^ length fp))"
    using u [of True] t' by (simp add: read_number_def)
qed

text \<open>Reading back what was written gives the number.\<close>

lemma read_scaled_str: "read_number (scaled_str d n) = Fin (real_of_int n / 10 ^ d)"
proof -
  define k where "k = nat \<bar>n\<bar>"
  define ip where "ip = nat_str (k div 10 ^ d)"
  define pad where "pad = padStart d (nat_str (k mod 10 ^ d))"
  define fp where "fp = strip_zeros pad"
  obtain z where z: "pad = fp @ replicate z (CHR ''0'')" using strip_zeros_split fp_def by metis
  have fpd: "\<forall>c \<in> set fp. is_digit c" using padStart_digits [of d "k mod 10 ^ d"] z by (auto simp: pad_def)
  have ipd: "\<forall>c \<in> set ip. is_digit c" "ip \<noteq> []" by (simp_all add: ip_def nat_str_digits)
  have val: "real (str_nat (ip @ fp)) / 10 ^ length fp = real k / 10 ^ d"
  proof (cases "d = 0")
    case True
    have "digit_char 0 = CHR ''0''" by code_simp
    with True have "pad = ''0''" by (simp add: pad_def padStart_def nat_str.simps)
    then have "fp = []" by (simp add: fp_def strip_zeros_def)
    with True show ?thesis by (simp add: ip_def)
  next
    case False
    have "length pad = d" unfolding pad_def using False by (intro padStart_nat_str(1)) auto
    then have d: "length fp + z = d" using z by simp
    have "str_nat fp * 10 ^ z = k mod 10 ^ d" using z str_nat_end_zeros [of fp z] str_nat_padStart [of d "k mod 10 ^ d"] by (simp add: pad_def)
    moreover have "(10 :: nat) ^ d = 10 ^ length fp * 10 ^ z" using d by (simp flip: power_add)
    ultimately have "str_nat (ip @ fp) * 10 ^ z = k div 10 ^ d * 10 ^ d + k mod 10 ^ d"
      by (simp only: str_nat_append2 ip_def str_nat_nat_str add_mult_distrib mult.assoc)
    then have "str_nat (ip @ fp) * 10 ^ z = k" by (simp only: div_mult_mod_eq)
    then have "real (str_nat (ip @ fp)) * 10 ^ z = real k" by (metis of_nat_mult of_nat_numeral of_nat_power)
    moreover have "(10 :: real) ^ d = 10 ^ length fp * 10 ^ z" using d by (simp flip: power_add)
    ultimately show ?thesis by (simp add: divide_simps)
  qed
  have "scaled_str d n = (if n < 0 then ''-'' else []) @ ip @ (if fp = [] then [] else CHR ''.'' # fp)"
    by (simp add: scaled_str_def Let_def k_def ip_def pad_def fp_def)
  then show ?thesis
    using read_number_plain [OF ipd(1) fpd ipd(2)] val by (cases "n < 0") (simp_all add: k_def)
qed

text \<open>And so does reading back a number written with a fixed count of decimals.\<close>

lemma read_toFixed:
  assumes "0 < d"
  shows "read_number (toFixed d x) = Fin (real_of_int (fixed_units d x) / 10 ^ d)"
proof -
  define k where "k = nat \<bar>fixed_units d x\<bar>"
  define ip where "ip = nat_str (k div 10 ^ d)"
  define fp where "fp = padStart d (nat_str (k mod 10 ^ d))"
  have len: "length fp = d" "fp \<noteq> []"
    using padStart_nat_str(1) [OF assms, of "k mod 10 ^ d"] assms by (auto simp: fp_def)
  have dig: "\<forall>c \<in> set ip. is_digit c" "\<forall>c \<in> set fp. is_digit c" "ip \<noteq> []"
    by (simp_all add: ip_def fp_def nat_str_digits padStart_digits)
  have "str_nat fp = k mod 10 ^ d" unfolding fp_def by (rule str_nat_padStart)
  then have "str_nat (ip @ fp) = k div 10 ^ d * 10 ^ d + k mod 10 ^ d"
    by (simp only: str_nat_append2 len ip_def str_nat_nat_str)
  then have v: "str_nat (ip @ fp) = k" by (simp only: div_mult_mod_eq)
  have s: "toFixed d x = (if x < 0 then ''-'' else []) @ ip @ (if fp = [] then [] else CHR ''.'' # fp)"
    using assms len by (simp add: toFixed_def Let_def k_def ip_def fp_def)
  have sign: "fixed_units d x \<le> 0" if "x < 0" using that js_round_mono [of 0 "- x * 10 ^ d"]
    by (simp add: fixed_units_def mult_nonpos_nonneg)
  have sign': "0 \<le> fixed_units d x" if "\<not> x < 0" using that js_round_mono [of 0 "x * 10 ^ d"]
    by (simp add: fixed_units_def)
  show ?thesis
    using read_number_plain [OF dig] v len s sign sign' by (cases "x < 0") (simp_all add: k_def)
qed

lemma strip_zeros_subset: "set (strip_zeros s) \<subseteq> set s"
  by (auto simp: strip_zeros_def dest: set_dropWhileD)

lemma scaled_str_chars: "c \<in> set (scaled_str d n) \<Longrightarrow> is_digit c \<or> c = CHR ''-'' \<or> c = CHR ''.''"
  using strip_zeros_subset [of "padStart d (nat_str (nat \<bar>n\<bar> mod 10 ^ d))"]
  by (auto simp: scaled_str_def Let_def split: if_splits dest: bspec [OF nat_str_digits] bspec [OF padStart_digits])

lemma scaled_str_not_Nil [simp]: "scaled_str d n \<noteq> []"
  by (simp add: scaled_str_def Let_def)

lemma trim_no_space: "(\<forall>c \<in> set s. \<not> is_space c) \<Longrightarrow> trim s = s"
proof (cases "s = []")
  case False
  assume "\<forall>c \<in> set s. \<not> is_space c"
  with False show ?thesis by (intro trim_idle) auto
qed (simp add: trim_def trim_start_def)

lemma trim_scaled_str [simp]: "trim (scaled_str d n) = scaled_str d n"
  by (rule trim_no_space) (auto dest!: scaled_str_chars simp: is_digit_def is_space_def)

end
