(* ===== verification/Storage.thy ===== *)
theory Storage
  imports Prelude
begin

text \<open>
  The browser's key-value storage, which keeps the settings that are a way of looking rather than
  a fact about a project. Reading or writing it may raise: the browser may refuse access to it,
  and a write may find it full. The modelled callers catch both, so an access that raises
  is a value here: \<^const>\<open>None\<close>.
\<close>

record storage =
  st_readable :: bool
  st_writable :: bool
  st_items :: "string \<rightharpoonup> string"

definition getItem :: "storage \<Rightarrow> string \<Rightarrow> string option option" where
  "getItem st k = (if st_readable st then Some (st_items st k) else None)"

definition setItem :: "storage \<Rightarrow> string \<Rightarrow> string \<Rightarrow> storage option" where
  "setItem st k v = (if st_writable st then Some (st\<lparr>st_items := (st_items st)(k \<mapsto> v)\<rparr>) else None)"

definition removeItem :: "storage \<Rightarrow> string \<Rightarrow> storage option" where
  "removeItem st k = (if st_readable st then Some (st\<lparr>st_items := (st_items st)(k := None)\<rparr>) else None)"

text \<open>A write inside \<open>try\<close> with an empty \<open>catch\<close>: one that raises changes nothing.\<close>

definition attempt :: "storage \<Rightarrow> storage option \<Rightarrow> storage" where
  "attempt st r = (case r of Some st' \<Rightarrow> st' | None \<Rightarrow> st)"

definition empty_storage :: storage where
  "empty_storage = \<lparr>st_readable = True, st_writable = True, st_items = Map.empty\<rparr>"

lemma storage_flags [simp]:
  "st_readable (attempt st (setItem st k v)) = st_readable st"
  "st_writable (attempt st (setItem st k v)) = st_writable st"
  "st_readable (attempt st (removeItem st k)) = st_readable st"
  "st_writable (attempt st (removeItem st k)) = st_writable st"
  by (simp_all add: attempt_def setItem_def removeItem_def split: option.splits)

text \<open>
  A setting kept in storage under one key: what is read after a write is what was written, as the
  setting's own normal form has it, whenever storage works; and where it does not, reading answers
  the default and writing changes nothing.
\<close>

locale setting =
  fixes read :: "storage \<Rightarrow> 'a" and "write" :: "storage \<Rightarrow> 'b \<Rightarrow> storage"
    and norm :: "'b \<Rightarrow> 'a" and default :: 'a
  assumes read_write: "st_readable st \<Longrightarrow> st_writable st \<Longrightarrow> read (write st v) = norm v"
    and read_broken: "\<not> st_readable st \<Longrightarrow> read st = default"
    and write_readable: "st_readable (write st v) = st_readable st"
    and write_writable: "st_writable (write st v) = st_writable st"
    and write_broken: "\<not> st_readable st \<Longrightarrow> read (write st v) = default"
begin

lemma last_write: "st_readable st \<Longrightarrow> st_writable st \<Longrightarrow> read (write (write st v) w) = norm w"
  by (simp add: read_write write_readable write_writable)

lemma writes: "st_readable st \<Longrightarrow> st_writable st \<Longrightarrow> read (foldl write st (vs @ [v])) = norm v"
proof -
  assume "st_readable st" "st_writable st"
  then have "st_readable (foldl write st vs) \<and> st_writable (foldl write st vs)"
    by (induction vs arbitrary: st) (auto simp: write_readable write_writable)
  then show ?thesis by (simp add: read_write)
qed

end

end
