(* ===== verification/PlanDraw.thy ===== *)
theory PlanDraw
  imports PlanViews JsNumber Storage
begin

text \<open>
  What is drawn beside and over the plan's rows: a ticket dragged out of empty calendar
  (\<open>create.ts\<close>), the stack above the rows and its flags (\<open>layout.ts\<close>, \<open>markers.ts\<close>), the sprint
  bands' texts (\<open>SprintBands.tsx\<close>, \<open>api/sprints.ts\<close>), the load rows (\<open>load.ts\<close>), the severity of a
  warning (\<open>warnings.ts\<close>) and the stored setting of the cut (\<open>settings.ts\<close>), all of
  \<open>web/src/features/plan\<close>.
\<close>

section \<open>A ticket made by dragging\<close>

record Placement =
  placement_sprintId :: "string option"
  placement_teamId :: "string option"

text \<open>At a density of zero a pixel has no date, and neither has the range.\<close>

definition dragRange :: "Scale \<Rightarrow> real \<Rightarrow> real \<Rightarrow> (int \<times> int) option" where
  "dragRange sc anchorX x =
     (case (scale_dateAt sc (min anchorX x), scale_dateAt sc (max anchorX x)) of
        (Some a, Some b) \<Rightarrow>
          (let start = day a; due = (if daysBetween start (day b) < 0 then start else day b)
           in Some (start, if due < start then start else due))
      | _ \<Rightarrow> None)"

definition isRealDrag :: "real \<Rightarrow> real \<Rightarrow> real \<Rightarrow> bool" where
  "isRealDrag anchorX x least \<longleftrightarrow> least \<le> \<bar>x - anchorX\<bar>"

record DraftBox =
  draft_left :: real
  draft_width :: real

definition draftBox :: "Scale \<Rightarrow> int \<Rightarrow> int \<Rightarrow> real \<Rightarrow> DraftBox" where
  "draftBox sc start due canvasWidth =
     (let width = max PLAN_DRAFT_INPUT_MIN_PX (scale_spanWidth sc start due);
          left = max 0 (min (scale_x sc start) (max 0 (canvasWidth - width)))
      in \<lparr>draft_left = left, draft_width = min width (max PLAN_DRAFT_INPUT_MIN_PX canvasWidth)\<rparr>)"

definition placementFor :: "GroupRow option \<Rightarrow> Placement" where
  "placementFor row =
     (case row of
        Some g \<Rightarrow> (case group_sprint g of
            Some p \<Rightarrow> \<lparr>placement_sprintId = Some (sprint_id (plan_sprint p)),
              placement_teamId = sprint_teamId (plan_sprint p)\<rparr>
          | None \<Rightarrow> \<lparr>placement_sprintId = None, placement_teamId = None\<rparr>)
      | None \<Rightarrow> \<lparr>placement_sprintId = None, placement_teamId = None\<rparr>)"

definition defaultRange :: "int \<Rightarrow> int \<Rightarrow> int \<times> int" where
  "defaultRange today spanDays = (let start = day today in (start, addDays start spanDays))"

section \<open>The header and its flags\<close>

record HeaderLayout =
  layout_header :: real
  layout_sprintBand :: real
  layout_milestoneBand :: real
  layout_total :: real

definition headerLayout :: "bool \<Rightarrow> bool \<Rightarrow> HeaderLayout" where
  "headerLayout sprints milestones =
     (let header = 2 * PLAN_HEADER_ROW_HEIGHT;
          sprintBand = (if sprints then PLAN_SPRINT_BAND_HEIGHT else 0);
          milestoneBand = (if milestones then PLAN_MILESTONE_BAND_HEIGHT else 0)
      in \<lparr>layout_header = header, layout_sprintBand = sprintBand, layout_milestoneBand = milestoneBand,
          layout_total = header + sprintBand + milestoneBand\<rparr>)"

datatype side = RightSide | LeftSide

definition flagSide :: "real \<Rightarrow> real \<Rightarrow> side" where
  "flagSide x calendarWidth =
     (if calendarWidth < x + PLAN_MILESTONE_FLAG_WIDTH then LeftSide else RightSide)"

fun labelledFlags :: "real list \<Rightarrow> bool list" where
  "labelledFlags [] = []"
| "labelledFlags [x] = [True]"
| "labelledFlags (x # y # xs) = (PLAN_MILESTONE_FLAG_WIDTH \<le> y - x) # labelledFlags (y # xs)"

record Marker =
  marker_milestone :: Milestone
  marker_x :: num

text \<open>The comparator answers NaN next to a milestone whose day cannot be read, which sorts as zero.\<close>

definition marker_order :: "Marker \<Rightarrow> Marker \<Rightarrow> real" where
  "marker_order a b = (case (marker_x a, marker_x b) of (Some x, Some y) \<Rightarrow> x - y | _ \<Rightarrow> 0)"

definition markersFor :: "Scale \<Rightarrow> Milestone list \<Rightarrow> Marker list" where
  "markersFor sc milestones = js_sort marker_order (concat (map (\<lambda>m.
     if \<not> truthy (milestone_dueOn m) then []
     else let x = x_of_text sc (the (milestone_dueOn m))
          in if num_less x (Some 0) \<or> num_le (Some (scale_width sc)) x then []
             else [\<lparr>marker_milestone = m, marker_x = x\<rparr>]) milestones))"

section \<open>Sprints in words\<close>

definition number_str :: "real \<Rightarrow> string" where
  "number_str v = scaled_str 2 (js_round (v * 100))"

definition describe_sprint :: "plan_words \<Rightarrow> SprintPlan \<Rightarrow> string" where
  "describe_sprint t plan =
     (let committed = number_str (plan_committed plan)
      in case sprint_capacity (plan_sprint plan) of
        None \<Rightarrow> pw_sprintPoints t committed
      | Some c \<Rightarrow> pw_sprintPointsOf t committed (number_str c))"

definition teamHours :: "plan_words \<Rightarrow> SprintPlan \<Rightarrow> string option" where
  "teamHours t plan =
     (case (plan_availableHours plan, plan_nominalHours plan) of
        (Some a, Some n) \<Rightarrow> Some (pw_teamHours t (number_str a) (number_str n))
      | _ \<Rightarrow> None)"

definition overBy :: "SprintPlan \<Rightarrow> real" where
  "overBy plan = (case sprint_capacity (plan_sprint plan) of None \<Rightarrow> 0
     | Some c \<Rightarrow> max 0 (plan_committed plan - c))"

section \<open>The load rows\<close>

definition LOAD_GROUP_KEY :: string where
  "LOAD_GROUP_KEY = ''load''"

definition loadRows :: "plan_words \<Rightarrow> Load \<Rightarrow> Filters \<Rightarrow> string set \<Rightarrow> Row list" where
  "loadRows t load filters collapsed =
     (let rows = (if filter_teamId filters \<noteq> []
            then filter (\<lambda>row. load_teamId row = Some (filter_teamId filters)) (loads_rows load)
            else loads_rows load)
      in if rows = [] \<or> loads_weeks load = [] then []
         else let isCollapsed = LOAD_GROUP_KEY \<in> collapsed
              in Group \<lparr>group_key = LOAD_GROUP_KEY, group_label = pw_group t, group_sprint = None,
                   group_count = int (length rows), group_detail = Some (pw_groupDetail t),
                   group_collapsed = isCollapsed\<rparr>
                 # (if isCollapsed then []
                    else map (\<lambda>row. LoadRow (''load:'' @ load_team row) row) rows))"

datatype Utilisation = Unmeasured | Under | Full | Over

definition utilisation :: "real \<Rightarrow> real option \<Rightarrow> Utilisation" where
  "utilisation load capacity =
     (case capacity of
        None \<Rightarrow> Unmeasured
      | Some c \<Rightarrow>
          if c < load then Over
          else if c * PLAN_LOAD_FULL_RATIO \<le> load \<and> 0 < c then Full
          else Under)"

record WeekCell =
  cell_key :: string
  cell_x :: real
  cell_width :: real
  cell_week :: LoadWeek

text \<open>Writing the day of a week whose start cannot be read raises.\<close>

fun weekCells_from :: "Scale \<Rightarrow> LoadWeek list \<Rightarrow> WeekCell list option" where
  "weekCells_from sc [] = Some []"
| "weekCells_from sc (w # ws) =
     (case date_value (week_start w) of
        None \<Rightarrow> None
      | Some start \<Rightarrow>
          let rawX = scale_x sc start;
              x = max 0 rawX;
              right = min (scale_width sc) (rawX + real_of_int DAYS_PER_WEEK * scale_pxPerDay sc)
          in if right \<le> x then weekCells_from sc ws
             else map_option (\<lambda>cells. \<lparr>cell_key = isoDay start, cell_x = x, cell_width = right - x,
                    cell_week = w\<rparr> # cells) (weekCells_from sc ws))"

definition weekCells :: "Scale \<Rightarrow> TeamLoad \<Rightarrow> WeekCell list option" where
  "weekCells sc row = weekCells_from sc (load_weeks row)"

definition barShare :: "TeamLoad \<Rightarrow> LoadWeek \<Rightarrow> real" where
  "barShare row week =
     (let ceiling = (case week_capacity week of
          Some c \<Rightarrow> max c (week_load week)
        | None \<Rightarrow> foldl max 1 (map week_load (load_weeks row)))
      in if ceiling \<le> 0 then 0 else min 1 (week_load week / ceiling))"

definition describeLoad :: "plan_words \<Rightarrow> TeamLoad \<Rightarrow> string" where
  "describeLoad t row = join ('' '' @ [CHR 0xB7] @ '' '')
     ((case load_weeklyCapacity row of Some c \<Rightarrow> pw_perWeek t (number_str c) | None \<Rightarrow> pw_noCapacity t)
      # (if 0 < load_unscheduled row then [pw_unscheduled t (load_unscheduled row)] else []))"

definition daysOff :: "plan_words \<Rightarrow> LoadWeek \<Rightarrow> string" where
  "daysOff t week = join (pw_and t)
     ((case week_daysAway week of Some d \<Rightarrow> if d \<noteq> 0 then [pw_daysAway t (number_str d) d] else [] | None \<Rightarrow> [])
      @ (case week_holidays week of Some n \<Rightarrow> if n \<noteq> 0 then [pw_holidays t n] else [] | None \<Rightarrow> []))"

definition capitalised :: "string \<Rightarrow> string" where
  "capitalised text = (case text of [] \<Rightarrow> [] | c # r \<Rightarrow> upper_first c @ r)"

definition describeWeek :: "plan_words \<Rightarrow> TeamLoad \<Rightarrow> LoadWeek \<Rightarrow> string option" where
  "describeWeek t row week =
     (case date_value (week_start week) of
        None \<Rightarrow> None
      | Some start \<Rightarrow>
          let load = (case week_capacity week of
                Some c \<Rightarrow> pw_pointsOf t (number_str (week_load week)) (number_str c)
              | None \<Rightarrow> pw_points t (number_str (week_load week)));
              extra = (if 0 < week_unestimated week then pw_unestimated t (week_unestimated week) else []);
              said = pw_weekOf t (load_team row) (isoDay start) load (week_issues week) extra;
              why = daysOff t week
          in Some (if why = [] then said
             else case (week_nominalCapacity week, week_capacity week) of
               (Some n, Some c) \<Rightarrow> pw_shortBy t said (number_str n) (number_str c) why
             | _ \<Rightarrow> said @ ''. '' @ capitalised why))"

section \<open>Warnings\<close>

datatype Severity = Warning | Error

definition ERRORS :: "WarningKind list" where
  "ERRORS = [Blocked_too_early, Outside_parent, Past_milestone]"

definition severityOf :: "WarningKind \<Rightarrow> Severity" where
  "severityOf kind = (if kind \<in> set ERRORS then Error else Warning)"

definition worstOf :: "PlanWarning list \<Rightarrow> Severity option" where
  "worstOf warnings =
     (if warnings = [] then None
      else Some (if \<exists>w \<in> set warnings. severityOf (warning_kind w) = Error then Error else Warning))"

definition wordsOf :: "PlanWarning list \<Rightarrow> string" where
  "wordsOf warnings = join [CHR 0x0A] (map warning_message warnings)"

section \<open>The stored cut\<close>

definition CLOSED_STORAGE_KEY :: string where
  "CLOSED_STORAGE_KEY = ''armature.plan.closedForDays''"

definition EVERYTHING :: string where
  "EVERYTHING = ''all''"

definition readClosedForDays :: "storage \<Rightarrow> int option" where
  "readClosedForDays st =
     (case getItem st CLOSED_STORAGE_KEY of
        None \<Rightarrow> Some PLAN_DEFAULT_CLOSED_FOR_DAYS
      | Some value \<Rightarrow>
          if value = Some EVERYTHING then None
          else case value of
            Some v \<Rightarrow> if v \<noteq> [] \<and> (\<forall>c \<in> set v. is_digit c) then Some (int (str_nat v))
              else Some PLAN_DEFAULT_CLOSED_FOR_DAYS
          | None \<Rightarrow> Some PLAN_DEFAULT_CLOSED_FOR_DAYS)"

definition writeClosedForDays :: "storage \<Rightarrow> real option \<Rightarrow> storage" where
  "writeClosedForDays st days = attempt st (setItem st CLOSED_STORAGE_KEY
     (case days of None \<Rightarrow> EVERYTHING | Some d \<Rightarrow> int_str (max 0 \<lfloor>d\<rfloor>)))"

text \<open>The hook: the state starts as what is stored, and an update writes it through.\<close>

definition update_closedForDays :: "storage \<Rightarrow> real option \<Rightarrow> storage \<times> int option" where
  "update_closedForDays st next = (writeClosedForDays st next, map_option (\<lambda>d. max 0 \<lfloor>d\<rfloor>) next)"

section \<open>Lemmas\<close>

lemma labelledFlags_length: "length (labelledFlags xs) = length xs"
  by (induction xs rule: labelledFlags.induct) simp_all

lemma labelled_clear_of_next:
  "Suc i < length xs \<Longrightarrow> labelledFlags xs ! i \<longleftrightarrow> PLAN_MILESTONE_FLAG_WIDTH \<le> xs ! Suc i - xs ! i"
proof (induction xs arbitrary: i rule: labelledFlags.induct)
  case (3 x y xs)
  then show ?case by (cases i) auto
qed simp_all

lemma int_str_nonneg: "0 \<le> i \<Longrightarrow> int_str i = nat_str (nat i)"
  by (simp add: int_str_def)

lemma all_not_digits: "is_digit (CHR ''a'') = False"
  by (simp add: is_digit_def)

interpretation closed_setting: setting readClosedForDays writeClosedForDays
  "map_option (\<lambda>d. max 0 \<lfloor>d\<rfloor>)" "Some PLAN_DEFAULT_CLOSED_FOR_DAYS"
proof unfold_locales
  fix st :: storage and v :: "real option"
  show "readClosedForDays (writeClosedForDays st v) = map_option (\<lambda>d. max 0 \<lfloor>d\<rfloor>) v"
    if "st_readable st" "st_writable st"
  proof (cases v)
    case (Some d)
    have "nat_str n \<noteq> EVERYTHING" for n
      using nat_str_digits [of n] all_not_digits by (auto simp: EVERYTHING_def)
    with Some that nat_str_digits show ?thesis
      by (simp add: readClosedForDays_def writeClosedForDays_def getItem_def setItem_def attempt_def
          int_str_nonneg)
  qed (use that in \<open>simp add: readClosedForDays_def writeClosedForDays_def getItem_def setItem_def attempt_def\<close>)
qed (simp_all add: readClosedForDays_def writeClosedForDays_def getItem_def)

lemma weekCells_readable:
  "(\<forall>w \<in> set ws. date_value (week_start w) \<noteq> None) \<Longrightarrow> weekCells_from sc ws \<noteq> None"
  by (induction ws) (auto simp: Let_def)

lemma weekCells_inside:
  assumes "weekCells_from sc ws = Some cells" "c \<in> set cells"
  shows "0 \<le> cell_x c \<and> 0 < cell_width c \<and> cell_x c + cell_width c \<le> scale_width sc
    \<and> cell_width c \<le> real_of_int DAYS_PER_WEEK * scale_pxPerDay sc \<and> cell_week c \<in> set ws"
  using assms
  by (induction ws arbitrary: cells) (fastforce simp: Let_def split: option.splits if_splits)+

lemma weekCells_whole:
  assumes "weekCells_from sc ws = Some cells" "w \<in> set ws" "date_value (week_start w) = Some s"
    and "0 \<le> scale_x sc s" "scale_x sc s + real_of_int DAYS_PER_WEEK * scale_pxPerDay sc \<le> scale_width sc"
    and "0 < scale_pxPerDay sc"
  shows "\<lparr>cell_key = isoDay s, cell_x = scale_x sc s,
      cell_width = real_of_int DAYS_PER_WEEK * scale_pxPerDay sc, cell_week = w\<rparr> \<in> set cells"
  using assms
  by (induction ws arbitrary: cells)
    (auto simp: Let_def max_absorb2 min_absorb2 DAYS_PER_WEEK_def split: option.splits if_splits)

lemma draftBox_inside:
  assumes "PLAN_DRAFT_INPUT_MIN_PX \<le> canvas"
  shows "0 \<le> draft_left (draftBox sc p q canvas)"
    "draft_left (draftBox sc p q canvas) + draft_width (draftBox sc p q canvas) \<le> canvas"
    "PLAN_DRAFT_INPUT_MIN_PX \<le> draft_width (draftBox sc p q canvas)"
  using assms by (simp_all add: draftBox_def Let_def min_def max_def)

section \<open>Properties\<close>

text \<open>
  When every week of a load row has a readable start, its cells are made; each lies inside the
  canvas, is at least a sliver and at most a week wide, and a week that is wholly on the calendar
  gets a full cell at its own place.
\<close>

lemma week_cells_drawn:
  assumes "0 < scale_pxPerDay sc" "\<forall>w \<in> set (load_weeks row). date_value (week_start w) \<noteq> None"
  shows "\<exists>cells. weekCells sc row = Some cells
    \<and> (\<forall>c \<in> set cells. 0 \<le> cell_x c \<and> 0 < cell_width c \<and> cell_x c + cell_width c \<le> scale_width sc
        \<and> cell_width c \<le> real_of_int DAYS_PER_WEEK * scale_pxPerDay sc \<and> cell_week c \<in> set (load_weeks row))
    \<and> (\<forall>w \<in> set (load_weeks row). \<forall>s. date_value (week_start w) = Some s \<longrightarrow> 0 \<le> scale_x sc s
        \<longrightarrow> scale_x sc s + real_of_int DAYS_PER_WEEK * scale_pxPerDay sc \<le> scale_width sc
        \<longrightarrow> \<lparr>cell_key = isoDay s, cell_x = scale_x sc s,
              cell_width = real_of_int DAYS_PER_WEEK * scale_pxPerDay sc, cell_week = w\<rparr> \<in> set cells)"
proof -
  obtain cells where c: "weekCells_from sc (load_weeks row) = Some cells"
    using weekCells_readable [OF assms(2)] by blast
  show ?thesis
    using c weekCells_inside [OF c] weekCells_whole [OF c _ _ _ _ assms(1)] by (auto simp: weekCells_def)
qed

definition sample_week :: "string \<Rightarrow> LoadWeek" where
  "sample_week s = \<lparr>week_start = s, week_load = 5, week_capacity = Some 8, week_nominalCapacity = None,
     week_daysAway = None, week_holidays = None, week_issues = 2, week_unestimated = 0\<rparr>"

definition sample_load :: "LoadWeek list \<Rightarrow> TeamLoad" where
  "sample_load ws = \<lparr>load_teamId = None, load_team = ''Core'', load_kind = Team_load,
     load_weeklyCapacity = Some 8, load_weeks = ws, load_unscheduled = 0\<rparr>"

lemma week_cells_drawn_witness:
  "\<exists>cells. weekCells (makeScale 1767571200000 1769990400000 10) (sample_load [sample_week ''2026-01-05'']) = Some cells"
proof -
  let ?row = "sample_load [sample_week ''2026-01-05'']"
  have "date_value ''2026-01-05'' \<noteq> None" by code_simp
  then have "\<forall>w \<in> set (load_weeks ?row). date_value (week_start w) \<noteq> None"
    by (simp add: sample_load_def sample_week_def)
  moreover have "0 < scale_pxPerDay (makeScale 1767571200000 1769990400000 10)"
    by (simp add: makeScale_def Let_def)
  ultimately show ?thesis using week_cells_drawn by blast
qed

text \<open>
  Of milestone flags drawn from left to right, one that keeps its label has room for it: no
  later flag starts within the label's width.
\<close>

lemma labels_have_room:
  assumes "sorted xs" "i < j" "j < length xs" "labelledFlags xs ! i"
  shows "xs ! i + PLAN_MILESTONE_FLAG_WIDTH \<le> xs ! j"
proof -
  have "PLAN_MILESTONE_FLAG_WIDTH \<le> xs ! Suc i - xs ! i"
    using assms labelled_clear_of_next [of i xs] by simp
  moreover have "xs ! Suc i \<le> xs ! j" using assms by (intro sorted_nth_mono) auto
  ultimately show ?thesis by linarith
qed

text \<open>
  A drag across empty calendar means the same days whichever way it went: they run from the day
  at its left end to the day at its right end, in order; and the box that asks for the summary lies
  inside the canvas and is never too narrow to type in.
\<close>

lemma drag_makes_range:
  assumes "good_scale sc" "scale_dateAt sc (min a x) = Some p" "modern p" "PLAN_DRAFT_INPUT_MIN_PX \<le> canvas"
  shows "dragRange sc a x = dragRange sc x a
    \<and> (\<exists>q. scale_dateAt sc (max a x) = Some q \<and> p \<le> q \<and> dragRange sc a x = Some (p, q)
        \<and> 0 \<le> draft_left (draftBox sc p q canvas)
        \<and> draft_left (draftBox sc p q canvas) + draft_width (draftBox sc p q canvas) \<le> canvas
        \<and> PLAN_DRAFT_INPUT_MIN_PX \<le> draft_width (draftBox sc p q canvas))"
proof -
  have px: "0 < scale_pxPerDay sc" and f: "scale_from sc = day (scale_from sc)" "modern (scale_from sc)"
    using assms(1) by (auto simp: good_scale_def)
  let ?d = "\<lambda>u. addDays (scale_from sc) (js_round (u / scale_pxPerDay sc))"
  have p: "p = ?d (min a x)" using assms(2) px by (simp add: scale_dateAt_def)
  let ?q = "?d (max a x)"
  have le: "p \<le> ?q" unfolding p addDays_def using px MS_PER_DAY_pos(1)
    by (intro add_left_mono mult_right_mono js_round_mono) (auto simp: divide_right_mono)
  have whole: "day t = t" if "modern t" "t = addDays (scale_from sc) n" for t n
  proof -
    have "scale_from sc = ms_day (scale_from sc) * MS_PER_DAY" using f day_modern by metis
    then have "t = ms_day t * MS_PER_DAY" using that(2)
      by (metis addDays_def distrib_right ms_day_addDays)
    then show ?thesis using day_modern [OF that(1)] by simp
  qed
  have mq: "modern ?q" using modern_mono [OF assms(3) le] .
  have days: "day p = p" "day ?q = ?q" using whole assms(3) mq p by blast+
  have "\<not> daysBetween p ?q < 0"
    using assms(3) mq zdiv_mono1 [OF le MS_PER_DAY_pos(1)] by (simp add: daysBetween_modern)
  then have r: "dragRange sc a x = Some (p, ?q)"
    using assms(2) px days le by (simp add: dragRange_def scale_dateAt_def Let_def)
  have "dragRange sc x a = dragRange sc a x" by (simp add: dragRange_def min.commute max.commute)
  moreover have "scale_dateAt sc (max a x) = Some ?q" using px by (simp add: scale_dateAt_def)
  ultimately show ?thesis using r le draftBox_inside [OF assms(4)] by auto
qed

text \<open>
  The cut's setting survives a reload: after any run of changes with storage working, reading it
  back gives what the page shows, the last change as a whole number of days and not below zero, or
  everything; and without storage the page falls back to the default.
\<close>

lemma closed_for_days_roundtrip:
  assumes "st_readable st" "st_writable st"
  shows "readClosedForDays (fst (update_closedForDays (foldl writeClosedForDays st changes) d))
      = snd (update_closedForDays (foldl writeClosedForDays st changes) d)
    \<and> readClosedForDays (st\<lparr>st_readable := False\<rparr>) = Some PLAN_DEFAULT_CLOSED_FOR_DAYS"
  using closed_setting.writes [OF assms, of changes d] closed_setting.read_broken [of "st\<lparr>st_readable := False\<rparr>"]
  by (simp add: update_closedForDays_def)

lemma closed_for_days_roundtrip_witness:
  "readClosedForDays (writeClosedForDays (foldl writeClosedForDays empty_storage [None]) (Some 30)) = Some 30"
  using closed_for_days_roundtrip [of empty_storage "[None]" "Some 30"]
  by (simp add: empty_storage_def update_closedForDays_def)

end
