(* ===== verification/LocalTime.thy ===== *)
theory LocalTime
  imports JsDate
begin

text \<open>
  Dates in the reader's own time zone. The engine takes the zone from the operating system, so the
  zone is a parameter: \<open>local\<close> takes a time value to the clock on the wall, and \<open>utc\<close> takes a wall
  clock to the time value it names. What the calendar relies on is stated as the locale
  \<open>civil_zone\<close>, and every zone that keeps a fixed distance from UTC but for an hour of daylight
  saving is shown to have it.
\<close>

record zone =
  zone_local :: "int \<Rightarrow> int"
  zone_utc :: "int \<Rightarrow> int"

definition getFullYear :: "zone \<Rightarrow> int \<Rightarrow> int" where
  "getFullYear z t = getUTCFullYear (zone_local z t)"

definition getMonth :: "zone \<Rightarrow> int \<Rightarrow> int" where
  "getMonth z t = getUTCMonth (zone_local z t)"

definition getDate :: "zone \<Rightarrow> int \<Rightarrow> int" where
  "getDate z t = getUTCDate (zone_local z t)"

definition getDay :: "zone \<Rightarrow> int \<Rightarrow> int" where
  "getDay z t = getUTCDay (zone_local z t)"

text \<open>\<open>new Date(y, m, d)\<close>, which reads a year up to 99 as one of the twentieth century.\<close>

definition new_date :: "zone \<Rightarrow> int \<Rightarrow> int \<Rightarrow> int \<Rightarrow> int" where
  "new_date z y m d = zone_utc z (date_UTC y m d)"

text \<open>\<open>setDate\<close> keeps the time of day and does not read years that way.\<close>

definition setDate :: "zone \<Rightarrow> int \<Rightarrow> int \<Rightarrow> int" where
  "setDate z t d =
     (let l = zone_local z t
      in zone_utc z (make_day (getUTCFullYear l) (getUTCMonth l) d * MS_PER_DAY + l mod MS_PER_DAY))"

definition local_day :: "zone \<Rightarrow> int \<Rightarrow> int" where
  "local_day z t = ms_day (zone_local z t)"

text \<open>
  Where midnight is skipped by the clocks the engine takes the first moment after it, which is
  still on the same day; and no two midnights are further out of step than half a day. The second
  fails for a zone that has moved across the date line.
\<close>

locale civil_zone =
  fixes z :: zone and drift :: int
  assumes same_day: "local_day z (zone_utc z (d * MS_PER_DAY)) = d"
    and same_day_clock: "local_day z (zone_utc z (d * MS_PER_DAY + (zone_local z (zone_utc z (e * MS_PER_DAY))) mod MS_PER_DAY)) = d"
    and in_step: "4 * \<bar>d * MS_PER_DAY - zone_utc z (d * MS_PER_DAY) - drift\<bar> < MS_PER_DAY"
begin

lemma parts_new_date:
  assumes "y \<notin> {0..99}"
  shows "getFullYear z (new_date z y m d) = year_from_day (make_day y m d)"
    "getMonth z (new_date z y m d) = day_month (make_day y m d)"
    "getDate z (new_date z y m d) = day_date (make_day y m d)"
    "getDay z (new_date z y m d) = day_weekday (make_day y m d)"
  using same_day [of "make_day y m d"] assms
  by (auto simp: getFullYear_def getMonth_def getDate_def getDay_def new_date_def date_UTC_def
      full_year_def local_day_def getUTCFullYear_def getUTCMonth_def getUTCDate_def getUTCDay_def)

lemma setDate_midnight:
  assumes "t = zone_utc z (d * MS_PER_DAY)"
  shows "local_day z (setDate z t (getDate z t + n)) = d + n"
proof -
  have l: "ms_day (zone_local z t) = d" using same_day [of d] assms by (simp add: local_day_def)
  have "make_day (year_from_day d) (day_month d) (day_date d + n) = d + n"
    by (simp add: make_day_shift)
  then show ?thesis
    using l same_day_clock [of "d + n" d] assms
    by (simp add: setDate_def Let_def getDate_def getUTCFullYear_def getUTCMonth_def getUTCDate_def)
qed

lemma midnights_apart:
  "js_round (real_of_int (zone_utc z (e * MS_PER_DAY) - zone_utc z (d * MS_PER_DAY)) / real_of_int MS_PER_DAY)
     = e - d"
proof (rule js_round_unique)
  let ?u = "zone_utc z (e * MS_PER_DAY) - zone_utc z (d * MS_PER_DAY)"
  have "2 * \<bar>?u - (e - d) * MS_PER_DAY\<bar> < MS_PER_DAY"
    using in_step [of e] in_step [of d] by (simp add: left_diff_distrib abs_if split: if_splits)
  then have a: "\<bar>2 * ?u - 2 * ((e - d) * MS_PER_DAY)\<bar> < MS_PER_DAY"
    by (simp only: abs_mult_pos [of 2] right_diff_distrib [symmetric] abs_mult abs_numeral)
  have "2 * ?u < 2 * ((e - d) * MS_PER_DAY) + MS_PER_DAY" "2 * ((e - d) * MS_PER_DAY) - MS_PER_DAY < 2 * ?u"
    using a unfolding abs_less_iff by linarith+
  then have r: "real_of_int (2 * ?u) < real_of_int (2 * ((e - d) * MS_PER_DAY) + MS_PER_DAY)"
    "real_of_int (2 * ((e - d) * MS_PER_DAY) - MS_PER_DAY) < real_of_int (2 * ?u)"
    by (simp_all only: of_int_less_iff)
  have p: "0 < real_of_int MS_PER_DAY" by simp
  show "real_of_int (e - d) - 1 / 2 \<le> real_of_int ?u / real_of_int MS_PER_DAY"
    using r(2) p by (simp add: field_simps)
  show "real_of_int ?u / real_of_int MS_PER_DAY < real_of_int (e - d) + 1 / 2"
    using r(1) p by (simp add: field_simps)
qed

end

section \<open>Zones with an hour of daylight saving\<close>

text \<open>
  A zone \<open>std\<close> milliseconds ahead of UTC that is an hour further ahead whenever \<open>summer\<close> says so. A
  wall clock that is shown twice names its first showing, and one that is never shown is read as
  the time before the clocks moved.
\<close>

definition HOUR_MS :: int where
  "HOUR_MS = 3600000"

definition dst_zone :: "int \<Rightarrow> (int \<Rightarrow> bool) \<Rightarrow> zone" where
  "dst_zone std summer =
     \<lparr>zone_local = (\<lambda>t. t + std + (if summer t then HOUR_MS else 0)),
      zone_utc = (\<lambda>l. if summer (l - std - HOUR_MS) then l - std - HOUR_MS else l - std)\<rparr>"

lemma hour_of_day: "0 \<le> k \<Longrightarrow> k \<le> 2 \<Longrightarrow> ms_day (d * MS_PER_DAY + k * HOUR_MS) = d"
  by (rule int_div_pos_eq [where r = "k * HOUR_MS"]) (auto simp: MS_PER_DAY_def HOUR_MS_def)

lemma dst_local_utc:
  "\<exists>k \<in> {0, 1}. zone_local (dst_zone std summer) (zone_utc (dst_zone std summer) l) = l + k * HOUR_MS"
  by (auto simp: dst_zone_def)

interpretation dst: civil_zone "dst_zone std summer" std for std :: int and summer :: "int \<Rightarrow> bool"
proof unfold_locales
  fix d e :: int
  let ?z = "dst_zone std summer"
  show "local_day ?z (zone_utc ?z (d * MS_PER_DAY)) = d"
    using dst_local_utc [of std summer "d * MS_PER_DAY"] hour_of_day [of 0 d] hour_of_day [of 1 d]
    by (auto simp: local_day_def)
  obtain k where k: "k \<in> {0, 1}" "zone_local ?z (zone_utc ?z (e * MS_PER_DAY)) = e * MS_PER_DAY + k * HOUR_MS"
    using dst_local_utc by blast
  then have m: "zone_local ?z (zone_utc ?z (e * MS_PER_DAY)) mod MS_PER_DAY = k * HOUR_MS"
    by (auto simp: MS_PER_DAY_def HOUR_MS_def)
  obtain j where j: "j \<in> {0, 1}"
    "zone_local ?z (zone_utc ?z (d * MS_PER_DAY + k * HOUR_MS)) = d * MS_PER_DAY + k * HOUR_MS + j * HOUR_MS"
    using dst_local_utc by blast
  have "ms_day (d * MS_PER_DAY + (k + j) * HOUR_MS) = d" using k j by (intro hour_of_day) auto
  then show "local_day ?z (zone_utc ?z (d * MS_PER_DAY + zone_local ?z (zone_utc ?z (e * MS_PER_DAY)) mod MS_PER_DAY)) = d"
    using m j by (simp add: local_day_def algebra_simps)
  show "4 * \<bar>d * MS_PER_DAY - zone_utc ?z (d * MS_PER_DAY) - std\<bar> < MS_PER_DAY"
    by (simp add: dst_zone_def MS_PER_DAY_def HOUR_MS_def)
qed

end
