(* ===== verification/Week.thy ===== *)
theory Week
  imports LocalTime JsNumber Config
begin

text \<open>
  Working weeks, days and absences: \<open>web/src/lib/week.ts\<close>, with the strings of
  \<open>i18n/schedule.en.ts\<close> and \<open>schedule.de.ts\<close> it and the calendar read. How a date is written in a
  language is the engine's: \<open>Intl.DateTimeFormat\<close> is a parameter that takes the locale and the time
  value and answers \<^const>\<open>None\<close> where the constructor raises, for a locale it cannot read.
\<close>

section \<open>Strings\<close>

record schedule_words =
  sw_halfDay :: "string \<Rightarrow> string"
  sw_away :: "string \<Rightarrow> string"
  sw_awayHalfDay :: "string \<Rightarrow> string"
  sw_range :: "string \<Rightarrow> string \<Rightarrow> string"
  sw_halfOf :: "string \<Rightarrow> string"
  sw_noFirstDay :: string
  sw_lastBeforeFirst :: string
  sw_tooLong :: "int \<Rightarrow> string"
  sw_halfDayIsOneDay :: string

definition scheduleEn :: schedule_words where
  "scheduleEn = \<lparr>
    sw_halfDay = (\<lambda>t. t @ '' (half day)''),
    sw_away = (\<lambda>n. n @ '' away''),
    sw_awayHalfDay = (\<lambda>n. n @ '' away half the day''),
    sw_range = (\<lambda>f l. f @ '' to '' @ l),
    sw_halfOf = (\<lambda>d. d @ '', half the day''),
    sw_noFirstDay = ''Choose the first day away.'',
    sw_lastBeforeFirst = ''The last day is before the first. Swap them.'',
    sw_tooLong = (\<lambda>n. ''One absence runs at most '' @ int_str n @ '' days. Record a longer one in parts.''),
    sw_halfDayIsOneDay = ''Only a single day can be a half day. Make the last day the first, or untick half day.''\<rparr>"

definition scheduleDe :: schedule_words where
  "scheduleDe = \<lparr>
    sw_halfDay = (\<lambda>t. t @ '' (halber Tag)''),
    sw_away = (\<lambda>n. n @ '' abwesend''),
    sw_awayHalfDay = (\<lambda>n. n @ '' einen halben Tag abwesend''),
    sw_range = (\<lambda>f l. f @ '' bis '' @ l),
    sw_halfOf = (\<lambda>d. d @ '', halber Tag''),
    sw_noFirstDay = ''W'' @ [CHR 0xE4] @ ''hlen Sie den ersten abwesenden Tag.'',
    sw_lastBeforeFirst = ''Der letzte Tag liegt vor dem ersten. Tauschen Sie sie.'',
    sw_tooLong = (\<lambda>n. ''Eine Abwesenheit dauert h'' @ [CHR 0xF6] @ ''chstens '' @ int_str n @ '' Tage. Erfassen Sie eine l'' @ [CHR 0xE4] @ ''ngere in Teilen.''),
    sw_halfDayIsOneDay = ''Nur ein einzelner Tag kann ein halber Tag sein. Machen Sie den letzten Tag zum ersten oder entfernen Sie den halben Tag.''\<rparr>"

section \<open>Hours\<close>

text \<open>
  The text of \<open>toFixed\<close> is read as a number and that number written again; reading it gives a whole
  number of hundredths (\<open>read_toFixed\<close>), which \<^const>\<open>scaled_str\<close> writes.
\<close>

definition hoursText :: "int \<Rightarrow> string" where
  "hoursText minutes = scaled_str WORKING_HOURS_DECIMALS
     (fixed_units WORKING_HOURS_DECIMALS (real_of_int minutes / real_of_int MINUTES_PER_HOUR))"

fun replace_first :: "char \<Rightarrow> char \<Rightarrow> string \<Rightarrow> string" where
  "replace_first a b [] = []"
| "replace_first a b (c # s) = (if c = a then b # s else c # replace_first a b s)"

definition minutesFromHours :: "string \<Rightarrow> int option" where
  "minutesFromHours text =
     (let trimmed = replace_first (CHR '','') (CHR ''.'') (trim text)
      in if trimmed = [] then Some 0
         else case read_number trimmed of
           Fin hours \<Rightarrow> if hours < 0 \<or> real_of_int HOURS_PER_DAY < hours then None
             else Some (js_round (hours * real_of_int MINUTES_PER_HOUR))
         | _ \<Rightarrow> None)"

section \<open>Days of the week\<close>

datatype Weekday = Mon | Tue | Wed | Thu | Fri | Sat | Sun

definition WEEKDAYS :: "Weekday list" where
  "WEEKDAYS = [Mon, Tue, Wed, Thu, Fri, Sat, Sun]"

definition weekday_key :: "Weekday \<Rightarrow> string" where
  "weekday_key d = (case d of Mon \<Rightarrow> ''mon'' | Tue \<Rightarrow> ''tue'' | Wed \<Rightarrow> ''wed'' | Thu \<Rightarrow> ''thu''
     | Fri \<Rightarrow> ''fri'' | Sat \<Rightarrow> ''sat'' | Sun \<Rightarrow> ''sun'')"

definition weekTotal :: "(string \<rightharpoonup> int) \<Rightarrow> int" where
  "weekTotal minutes = foldl (\<lambda>sum d. sum + (case minutes (weekday_key d) of Some m \<Rightarrow> m | None \<Rightarrow> 0)) 0 WEEKDAYS"

fun index_of :: "'a \<Rightarrow> 'a list \<Rightarrow> int" where
  "index_of x [] = - 1"
| "index_of x (y # ys) = (if x = y then 0 else let i = index_of x ys in if i < 0 then - 1 else i + 1)"

text \<open>\<open>date.setUTCDate(date.getUTCDate() + n)\<close>.\<close>

definition setUTCDate :: "int \<Rightarrow> int \<Rightarrow> int" where
  "setUTCDate t d = make_day (getUTCFullYear t) (getUTCMonth t) d * MS_PER_DAY + t mod MS_PER_DAY"

definition weekday_date :: "Weekday \<Rightarrow> int" where
  "weekday_date d = (let date = the (date_value (WEEKDAY_REFERENCE_MONDAY @ ''T00:00:00Z''))
     in setUTCDate date (getUTCDate date + index_of d WEEKDAYS))"

definition weekdayName :: "(string \<Rightarrow> int \<Rightarrow> string option) \<Rightarrow> Weekday \<Rightarrow> string \<Rightarrow> string" where
  "weekdayName intl d locale =
     (case intl locale (weekday_date d) of Some s \<Rightarrow> s | None \<Rightarrow> weekday_key d)"

definition formatDay :: "(string \<Rightarrow> int \<Rightarrow> string option) \<Rightarrow> string \<Rightarrow> string \<Rightarrow> string" where
  "formatDay intl d locale =
     (case date_value (d @ ''T00:00:00Z'') of
        None \<Rightarrow> d
      | Some date \<Rightarrow> (case intl locale date of Some s \<Rightarrow> s | None \<Rightarrow> d))"

definition today :: "zone \<Rightarrow> int \<Rightarrow> string" where
  "today z now = int_str (getFullYear z now) @ ''-'' @ two_digits (getMonth z now + 1) @ ''-''
     @ two_digits (getDate z now)"

section \<open>Absences\<close>

definition absencesListedFrom :: "zone \<Rightarrow> int \<Rightarrow> string" where
  "absencesListedFrom z now = today z (setDate z now (getDate z now - ABSENCES_LISTED_DAYS_BEHIND))"

record Absence =
  absence_id :: string
  absence_userId :: string
  absence_userName :: string
  absence_startsOn :: string
  absence_endsOn :: string
  absence_halfDay :: bool

text \<open>Days that cannot be read make the count NaN, which is not at or above the bound.\<close>

definition absenceProblem :: "schedule_words \<Rightarrow> string \<Rightarrow> string \<Rightarrow> bool \<Rightarrow> string option" where
  "absenceProblem t startsOn endsOn halfDay =
     (if startsOn = [] then Some (sw_noFirstDay t)
      else if endsOn < startsOn then Some (sw_lastBeforeFirst t)
      else if (case (date_value (endsOn @ ''T00:00:00Z''), date_value (startsOn @ ''T00:00:00Z'')) of
            (Some e, Some s) \<Rightarrow> real_of_int ABSENCE_MAX_DAYS \<le> real_of_int (e - s) / real_of_int MS_PER_DAY
          | _ \<Rightarrow> False)
        then Some (sw_tooLong t ABSENCE_MAX_DAYS)
      else if halfDay \<and> endsOn \<noteq> startsOn then Some (sw_halfDayIsOneDay t)
      else None)"

definition formatAbsence :: "(string \<Rightarrow> int \<Rightarrow> string option) \<Rightarrow> schedule_words \<Rightarrow> Absence \<Rightarrow> string \<Rightarrow> string" where
  "formatAbsence intl t a locale =
     (let first = formatDay intl (absence_startsOn a) locale
      in if absence_startsOn a \<noteq> absence_endsOn a
         then sw_range t first (formatDay intl (absence_endsOn a) locale)
         else if absence_halfDay a then sw_halfOf t first else first)"

section \<open>Lemmas\<close>

lemma replace_first_idle: "a \<notin> set s \<Longrightarrow> replace_first a b s = s"
  by (induction s) auto

lemma midnight_clock: "read_clock ''00:00:00Z'' = Some 0"
  by code_simp

lemma date_value_midnight:
  "plain_day d \<Longrightarrow> date_value (iso_date d @ ''T00:00:00Z'') = Some (d * MS_PER_DAY)"
  by (simp add: date_value_def length_iso_date read_iso_date read_sep_def midnight_clock)

lemma iso_date_not_Nil: "plain_day d \<Longrightarrow> iso_date d \<noteq> []"
  using length_iso_date [of d] by auto

lemma hundredths_back:
  assumes "0 \<le> m"
  shows "js_round (real_of_int (fixed_units 2 (real_of_int m / 60)) / 10 ^ 2 * 60) = m"
proof (rule js_round_unique)
  let ?h = "js_round (real_of_int m / 60 * 100)"
  have h: "fixed_units 2 (real_of_int m / 60) = ?h" using assms by (simp add: fixed_units_def)
  note n = js_round_near [of "real_of_int m / 60 * 100"]
  show "real_of_int m - 1 / 2 \<le> real_of_int (fixed_units 2 (real_of_int m / 60)) / 10 ^ 2 * 60"
    using n unfolding h by (simp add: field_simps)
  show "real_of_int (fixed_units 2 (real_of_int m / 60)) / 10 ^ 2 * 60 < real_of_int m + 1 / 2"
    using n unfolding h by (simp add: field_simps)
qed

lemma hundredths_bounds:
  assumes "0 \<le> m" "m \<le> 1440"
  shows "0 \<le> fixed_units 2 (real_of_int m / 60)" "fixed_units 2 (real_of_int m / 60) \<le> 2400"
proof -
  have h: "fixed_units 2 (real_of_int m / 60) = js_round (real_of_int m / 60 * 100)"
    using assms by (simp add: fixed_units_def)
  show "0 \<le> fixed_units 2 (real_of_int m / 60)"
    unfolding h using assms js_round_mono [of 0 "real_of_int m / 60 * 100"] by simp
  have "js_round (real_of_int m / 60 * 100) \<le> js_round 2400"
    using assms by (intro js_round_mono) simp
  then show "fixed_units 2 (real_of_int m / 60) \<le> 2400" unfolding h by simp
qed

section \<open>Properties\<close>

text \<open>
  A day's minutes written as hours and typed back are the same minutes, for every length a day
  can have, although the hours are written to two decimals only.
\<close>

lemma hours_roundtrip:
  assumes "0 \<le> m" "m \<le> HOURS_PER_DAY * MINUTES_PER_HOUR"
  shows "minutesFromHours (hoursText m) = Some m"
proof -
  let ?n = "fixed_units 2 (real_of_int m / 60)"
  have m: "m \<le> 1440" using assms by (simp add: config)
  have "CHR '','' \<notin> set (scaled_str 2 ?n)" by (auto dest!: scaled_str_chars simp: is_digit_def)
  then have t: "replace_first (CHR '','') (CHR ''.'') (trim (hoursText m)) = scaled_str 2 ?n"
    by (simp add: hoursText_def config replace_first_idle)
  have b: "\<not> real_of_int ?n / 10 ^ 2 < 0" "\<not> 24 < real_of_int ?n / 10 ^ 2"
    using hundredths_bounds [OF assms(1) m] by (simp_all add: divide_simps)
  show ?thesis
    using b hundredths_back [OF assms(1)]
    unfolding minutesFromHours_def t Let_def read_scaled_str by (simp add: config)
qed

lemma hours_roundtrip_witness: "minutesFromHours (hoursText 455) = Some 455"
  using hours_roundtrip [of 455] by (simp add: config)

text \<open>
  An absence is let through exactly when it is one the server holds: it ends no earlier than it
  starts, runs at most the allowed days with both ends counted, and is half a day only when it is
  one day.
\<close>

lemma absence_problem_free:
  assumes "plain_day s" "plain_day e"
  shows "absenceProblem t (iso_date s) (iso_date e) half = None
    \<longleftrightarrow> s \<le> e \<and> e - s + 1 \<le> ABSENCE_MAX_DAYS \<and> (half \<longrightarrow> s = e)"
proof -
  have q: "(real_of_int e * real_of_int MS_PER_DAY - real_of_int s * real_of_int MS_PER_DAY) / real_of_int MS_PER_DAY
      = real_of_int (e - s)"
    by (simp flip: left_diff_distrib)
  show ?thesis
    using assms iso_date_less_iff [of e s] iso_date_eq_iff [of e s]
    by (auto simp: absenceProblem_def date_value_midnight iso_date_not_Nil q)
qed

lemma absence_problem_free_witness:
  "absenceProblem scheduleEn (iso_date 20500) (iso_date 20503) False = None"
proof -
  have "plain_day 20500" "plain_day 20503" by code_simp+
  from absence_problem_free [OF this, of scheduleEn False] show ?thesis by (simp add: config)
qed

end
