(* ===== verification/AutoPlan.thy ===== *)
theory AutoPlan
  imports PlanDraw Week
begin

text \<open>
  The auto plan: what a proposal becomes when it is saved and when it is taken back,
  \<open>web/src/features/plan/autoplan.ts\<close>; and the endpoint it is saved through,
  \<open>backend/internal/issue/schedule_many.go\<close>, as far as the dates go.
\<close>

section \<open>The proposal\<close>

definition dayOf :: "string \<Rightarrow> string" where
  "dayOf value = take 10 value"

definition movesToSave :: "Alignment \<Rightarrow> ScheduleMoveInput list" where
  "movesToSave alignment = map (\<lambda>move.
     \<lparr>smi_key = move_issueKey move,
      smi_expected_startDate = map_option (\<lambda>f. dayOf (span_startDate f)) (move_from move),
      smi_expected_dueDate = map_option (\<lambda>f. dayOf (span_dueDate f)) (move_from move),
      smi_startDate = Some (dayOf (span_startDate (move_to move))),
      smi_dueDate = Some (dayOf (span_dueDate (move_to move)))\<rparr>) (align_moves alignment)"

text \<open>The map of the ghost bars: a later move of an issue replaces an earlier one.\<close>

definition proposedBars :: "Alignment option \<Rightarrow> (string \<times> (string \<times> string)) list option" where
  "proposedBars alignment = map_option (\<lambda>a. foldl (\<lambda>m move.
     AList.update (move_issueKey move) (dayOf (span_startDate (move_to move)), dayOf (span_dueDate (move_to move))) m)
     [] (align_moves a)) alignment"

definition describeMove :: "(string \<Rightarrow> int \<Rightarrow> string option) \<Rightarrow> plan_words \<Rightarrow> PlanMove \<Rightarrow> string \<Rightarrow> string" where
  "describeMove intl t move locale =
     (let days = pw_workingDays t (move_workingDays move);
          to = formatDay intl (dayOf (span_startDate (move_to move))) locale;
          after = (if move_after move \<noteq> [] then pw_after t (move_after move) else [])
      in case move_from move of
        None \<Rightarrow> pw_placedFrom t to days after
      | Some f \<Rightarrow> pw_movesFrom t (formatDay intl (dayOf (span_startDate f)) locale) to days after)"

definition summarise :: "plan_words \<Rightarrow> Alignment \<Rightarrow> string" where
  "summarise t alignment =
     (let placed = int (length (filter (\<lambda>move. move_from move = None) (align_moves alignment)));
          moved = int (length (align_moves alignment)) - placed;
          parts = (if 0 < moved then [pw_wouldMove t (pw_issues t moved)] else [])
            @ (if 0 < placed then [pw_wouldPlace t (pw_issues t placed)] else []);
          parts = filter (\<lambda>part. part \<noteq> []) parts
      in if parts = [] then (if align_unplaced alignment \<noteq> [] then pw_nothingPlaceable t else pw_alreadyAligned t)
         else pw_summary t parts)"

definition move_back :: "ScheduleMoveInput \<Rightarrow> ScheduleMoveInput" where
  "move_back move = \<lparr>smi_key = smi_key move,
     smi_expected_startDate = smi_startDate move, smi_expected_dueDate = smi_dueDate move,
     smi_startDate = smi_expected_startDate move, smi_dueDate = smi_expected_dueDate move\<rparr>"

definition movesBack :: "ScheduleMoveInput list \<Rightarrow> ScheduleMoveInput list" where
  "movesBack applied = map move_back applied"

text \<open>What a failed request throws: an error of the API, another error, or something else.\<close>

datatype thrown =
  ThrownApiError (thrown_code: string) (thrown_fields: "(string \<times> string) list") (thrown_message: string)
| ThrownError string
| ThrownOther

definition undoRefusal :: "plan_words \<Rightarrow> thrown \<Rightarrow> string" where
  "undoRefusal t error =
     (let key = (case error of
          ThrownApiError code flds m \<Rightarrow> if code = ''moved_since'' then map_of flds ''issueKey'' else None
        | _ \<Rightarrow> None)
      in if truthy key then pw_undoChanged t (the key)
         else case error of ThrownApiError c f m \<Rightarrow> m | ThrownError m \<Rightarrow> m | ThrownOther \<Rightarrow> pw_undoFailed t)"

definition followOffer :: "plan_words \<Rightarrow> string \<Rightarrow> int \<Rightarrow> (string \<times> string) option" where
  "followOffer t key moves =
     (if moves = 0 then None
      else let issues = pw_issues t moves
           in Some (pw_followMessage t issues key (moves = 1), pw_followAction t issues))"

section \<open>Saving a set of moves\<close>

text \<open>
  The issues of a project as the endpoint locks them, in the order of their numbers, each with its
  two days. Days are texts of the form \<open>YYYY-MM-DD\<close>, whose order is that of the days. The reading of a
  key and the two ends of the allowed years are parameters.
\<close>

record sched_row =
  row_num :: int
  row_start :: "string option"
  row_due :: "string option"

datatype sched_error = InvalidKey string | NotInProject string | MovedTwice string
  | MovedSince int | DateOutOfRange int | BackwardsRange int

fun read_moves :: "(string \<Rightarrow> (string \<times> int) option) \<Rightarrow> string \<Rightarrow> ScheduleMoveInput list
    \<Rightarrow> (int \<times> ScheduleMoveInput) list \<Rightarrow> sched_error + (int \<times> ScheduleMoveInput) list" where
  "read_moves parseKey project [] byNum = Inr byNum"
| "read_moves parseKey project (m # ms) byNum =
     (case parseKey (smi_key m) of
        None \<Rightarrow> Inl (InvalidKey (smi_key m))
      | Some (key, num) \<Rightarrow>
          if key \<noteq> project then Inl (NotInProject (smi_key m))
          else if num \<in> fst ` set byNum then Inl (MovedTwice (smi_key m))
          else read_moves parseKey project ms (byNum @ [(num, m)]))"

definition check_dates :: "string \<Rightarrow> string \<Rightarrow> int \<Rightarrow> string option \<Rightarrow> string option \<Rightarrow> sched_error option" where
  "check_dates earliest latest num start due =
     (if \<exists>d \<in> set_option start \<union> set_option due. d < earliest \<or> latest < d then Some (DateOutOfRange num)
      else if start \<noteq> None \<and> due \<noteq> None \<and> the due < the start then Some (BackwardsRange num)
      else None)"

definition check_row :: "string \<Rightarrow> string \<Rightarrow> (int \<times> ScheduleMoveInput) list \<Rightarrow> sched_row \<Rightarrow> sched_error option" where
  "check_row earliest latest byNum r =
     (case map_of byNum (row_num r) of
        None \<Rightarrow> None
      | Some m \<Rightarrow>
          if row_start r \<noteq> smi_expected_startDate m \<or> row_due r \<noteq> smi_expected_dueDate m
          then Some (MovedSince (row_num r))
          else check_dates earliest latest (row_num r) (smi_startDate m) (smi_dueDate m))"

definition move_row :: "(int \<times> ScheduleMoveInput) list \<Rightarrow> sched_row \<Rightarrow> sched_row" where
  "move_row byNum r = (case map_of byNum (row_num r) of None \<Rightarrow> r
     | Some m \<Rightarrow> r\<lparr>row_start := smi_startDate m, row_due := smi_dueDate m\<rparr>)"

definition schedule_many :: "(string \<Rightarrow> (string \<times> int) option) \<Rightarrow> string \<Rightarrow> string \<Rightarrow> string
    \<Rightarrow> sched_row list \<Rightarrow> ScheduleMoveInput list \<Rightarrow> sched_error + sched_row list" where
  "schedule_many parseKey earliest latest project rows moves =
     (case read_moves parseKey project moves [] of
        Inl e \<Rightarrow> Inl e
      | Inr byNum \<Rightarrow>
          (case js_find (\<lambda>(num, m). num \<notin> set (map row_num rows)) byNum of
             Some (num, m) \<Rightarrow> Inl (NotInProject (smi_key m))
           | None \<Rightarrow> (case List.map_filter (check_row earliest latest byNum) rows of
                 e # es \<Rightarrow> Inl e
               | [] \<Rightarrow> Inr (map (move_row byNum) rows))))"

section \<open>Lemmas\<close>

lemma movesBack_back [simp]: "move_back (move_back m) = m"
  by (simp add: move_back_def)

lemma read_moves_back:
  "read_moves parseKey project ms acc = Inr byNum \<Longrightarrow>
   read_moves parseKey project (map move_back ms) (map (apsnd move_back) acc) = Inr (map (apsnd move_back) byNum)"
proof (induction parseKey project ms acc rule: read_moves.induct)
  case (2 parseKey project m ms acc)
  then obtain num where p: "parseKey (smi_key m) = Some (project, num)" "num \<notin> fst ` set acc"
    by (auto split: option.splits if_splits)
  have "num \<notin> fst ` set (map (apsnd move_back) acc)" using p by (force simp: apsnd_def map_prod_def)
  moreover have "smi_key (move_back m) = smi_key m" by (simp add: move_back_def)
  ultimately show ?case using 2 p by simp
qed simp

lemma map_of_back: "map_of (map (apsnd f) xs) k = map_option f (map_of xs k)"
  by (induction xs) auto

lemma map_filter_Nil: "List.map_filter f xs = [] \<longleftrightarrow> (\<forall>x \<in> set xs. f x = None)"
  by (induction xs) (auto simp: List.map_filter_def split: option.splits)

lemma row_num_move_row [simp]: "row_num (move_row byNum r) = row_num r"
  by (simp add: move_row_def split: option.splits)

lemma move_row_back:
  assumes "check_row earliest latest byNum r = None"
  shows "move_row (map (apsnd move_back) byNum) (move_row byNum r) = r"
  using assms
  by (cases r) (auto simp: move_row_def map_of_back check_row_def move_back_def split: option.splits if_splits)

lemma check_row_back:
  assumes "check_row earliest latest byNum r = None"
    and "check_dates earliest latest (row_num r) (row_start r) (row_due r) = None"
  shows "check_row earliest latest (map (apsnd move_back) byNum) (move_row byNum r) = None"
  using assms
  by (auto simp: check_row_def move_row_def map_of_back move_back_def split: option.splits if_splits)

lemma find_back: "js_find (\<lambda>(num, m). num \<notin> A) xs = None
    \<Longrightarrow> js_find (\<lambda>(num, m). num \<notin> A) (map (apsnd f) xs) = None"
  by (auto simp: find_None_iff)

section \<open>Properties\<close>

text \<open>
  C2: Undo puts the plan back: when a proposal was saved, sending the moves back is accepted and
  leaves every issue with the dates it had, whatever the issues' dates were as long as they were
  ones the server holds.
\<close>

theorem undo_restores:
  assumes "schedule_many parseKey earliest latest project rows (movesToSave alignment) = Inr saved"
    and "\<forall>r \<in> set rows. check_dates earliest latest (row_num r) (row_start r) (row_due r) = None"
  shows "schedule_many parseKey earliest latest project saved (movesBack (movesToSave alignment)) = Inr rows"
proof -
  let ?ms = "movesToSave alignment"
  obtain byNum where read: "read_moves parseKey project ?ms [] = Inr byNum"
    and known: "js_find (\<lambda>(num, m). num \<notin> set (map row_num rows)) byNum = None"
    and ok: "List.map_filter (check_row earliest latest byNum) rows = []"
    and saved: "saved = map (move_row byNum) rows"
    using assms(1) by (auto simp: schedule_many_def split: sum.splits option.splits list.splits)
  let ?undone = "map (apsnd move_back) byNum"
  have r: "read_moves parseKey project (movesBack ?ms) [] = Inr ?undone"
    using read_moves_back [OF read] by (simp add: movesBack_def)
  have nums: "map row_num saved = map row_num rows" by (simp add: saved)
  have "List.map_filter (check_row earliest latest ?undone) saved = []"
    using ok assms(2) by (auto simp: map_filter_Nil saved check_row_back)
  moreover have "map (move_row ?undone) saved = rows"
    using ok move_row_back by (auto simp: map_filter_Nil saved intro!: map_idI)
  ultimately show ?thesis using r find_back [OF known, of move_back] by (simp add: schedule_many_def nums)
qed

definition sample_alignment :: Alignment where
  "sample_alignment = \<lparr>align_projectKey = ''P'', align_moves = [\<lparr>move_issueKey = ''P-2'',
     move_from = Some \<lparr>span_startDate = ''2026-01-05'', span_dueDate = ''2026-01-06''\<rparr>,
     move_to = \<lparr>span_startDate = ''2026-01-07'', span_dueDate = ''2026-01-08''\<rparr>, move_placed = None,
     move_workingDays = 2, move_after = ''P-1''\<rparr>], align_unplaced = [], align_warnings = []\<rparr>"

definition sample_parse :: "string \<Rightarrow> (string \<times> int) option" where
  "sample_parse k = (if k = ''P-2'' then Some (''P'', 2) else None)"

theorem undo_restores_witness:
  "\<exists>saved. schedule_many sample_parse ''1900-01-01'' ''2200-12-31'' ''P''
      [\<lparr>row_num = 2, row_start = Some ''2026-01-05'', row_due = Some ''2026-01-06''\<rparr>]
      (movesToSave sample_alignment) = Inr saved
    \<and> schedule_many sample_parse ''1900-01-01'' ''2200-12-31'' ''P'' saved (movesBack (movesToSave sample_alignment))
      = Inr [\<lparr>row_num = 2, row_start = Some ''2026-01-05'', row_due = Some ''2026-01-06''\<rparr>]"
proof -
  let ?rows = "[\<lparr>row_num = 2, row_start = Some ''2026-01-05'', row_due = Some ''2026-01-06''\<rparr>]"
  have s: "schedule_many sample_parse ''1900-01-01'' ''2200-12-31'' ''P'' ?rows (movesToSave sample_alignment)
      = Inr [\<lparr>row_num = 2, row_start = Some ''2026-01-07'', row_due = Some ''2026-01-08''\<rparr>]"
    by code_simp
  have c: "\<forall>r \<in> set ?rows. check_dates ''1900-01-01'' ''2200-12-31'' (row_num r) (row_start r) (row_due r) = None"
    by code_simp
  show ?thesis using s undo_restores [OF s c] by blast
qed

text \<open>
  The ghost bars show exactly what would be saved: the days drawn for an issue are the days of
  its move, when no issue is moved twice.
\<close>

lemma ghosts_are_moves:
  assumes "distinct (map move_issueKey (align_moves a))" "m \<in> set (movesToSave a)"
  shows "\<exists>bars. proposedBars (Some a) = Some bars
    \<and> map_of bars (smi_key m) = Some (the (smi_startDate m), the (smi_dueDate m))"
proof -
  let ?f = "\<lambda>bars move. AList.update (move_issueKey move)
    (dayOf (span_startDate (move_to move)), dayOf (span_dueDate (move_to move))) bars"
  have keep: "map_of (foldl ?f bars ms) k = map_of bars k" if "k \<notin> move_issueKey ` set ms" for bars ms k
    using that by (induction ms arbitrary: bars) auto
  have "map_of (foldl ?f bars ms) (move_issueKey mv)
      = Some (dayOf (span_startDate (move_to mv)), dayOf (span_dueDate (move_to mv)))"
    if "distinct (map move_issueKey ms)" "mv \<in> set ms" for bars ms mv
    using that by (induction ms arbitrary: bars) (auto simp: keep)
  with assms show ?thesis by (auto simp: proposedBars_def movesToSave_def)
qed

lemma ghosts_are_moves_witness:
  "\<exists>bars. proposedBars (Some sample_alignment) = Some bars \<and> map_of bars ''P-2'' = Some (''2026-01-07'', ''2026-01-08'')"
  using ghosts_are_moves [of sample_alignment "hd (movesToSave sample_alignment)"]
  by (simp add: sample_alignment_def movesToSave_def dayOf_def)

end
