(* ===== verification/Calendar.thy ===== *)
theory Calendar
  imports Week Storage
begin

text \<open>
  The month calendar: \<open>web/src/features/calendar/grid.ts\<close>, which days the grid shows and what lies
  on each, and \<open>settings.ts\<close>, whether the days off are shown. Days are the texts the API writes;
  going from one to another passes through a date in the reader's zone, and what is proved holds
  in every zone that keeps the laws of \<^const>\<open>civil_zone\<close>.
\<close>

section \<open>Days\<close>

datatype CalendarKind = Issue_kind | Sprint_kind | Milestone_kind | Version_kind | Holiday_kind | Absence_kind

record CalendarItem =
  ci_kind :: CalendarKind
  ci_id :: string
  ci_key :: "string option"
  ci_title :: string
  ci_from :: string
  ci_to :: string
  ci_category :: "string option"
  ci_done :: "bool option"
  ci_calendar :: "string option"
  ci_halfDay :: "bool option"

text \<open>A date may be invalid; its parts are then all NaN.\<close>

definition calendar_isoDay :: "zone \<Rightarrow> int option \<Rightarrow> string" where
  "calendar_isoDay z date = (case date of
      Some d \<Rightarrow> int_str (getFullYear z d) @ ''-'' @ two_digits (getMonth z d + 1) @ ''-'' @ two_digits (getDate z d)
    | None \<Rightarrow> ''NaN-NaN-NaN'')"

text \<open>A component of a date is cut to a whole number; one that is no number makes the date invalid.\<close>

definition trunc :: "real \<Rightarrow> int" where
  "trunc x = (if x < 0 then \<lceil>x\<rceil> else \<lfloor>x\<rfloor>)"

fun date_part :: "js_number \<Rightarrow> real \<Rightarrow> int option" where
  "date_part (Fin x) k = Some (trunc (x - k))"
| "date_part _ k = None"

definition parseDay :: "zone \<Rightarrow> string \<Rightarrow> int option" where
  "parseDay z s =
     (let ps = map read_number (split_on (CHR ''-'') s);
          y = date_part (hd ps) 0;
          m = (if 1 < length ps then date_part (ps ! 1) 1 else Some 0);
          d = (if 2 < length ps then date_part (ps ! 2) 0 else Some 1)
      in case (y, m, d) of (Some y, Some m, Some d) \<Rightarrow> Some (new_date z y m d) | _ \<Rightarrow> None)"

definition shiftDay :: "zone \<Rightarrow> string \<Rightarrow> int \<Rightarrow> string" where
  "shiftDay z s days = calendar_isoDay z (map_option (\<lambda>d. setDate z d (getDate z d + days)) (parseDay z s))"

definition calendar_daysBetween :: "zone \<Rightarrow> string \<Rightarrow> string \<Rightarrow> int option" where
  "calendar_daysBetween z a b =
     (case (parseDay z b, parseDay z a) of
        (Some tb, Some ta) \<Rightarrow> Some (js_round (real_of_int (tb - ta) / 86400000))
      | _ \<Rightarrow> None)"

section \<open>The grid\<close>

record Cell =
  cell_day :: string
  cell_inMonth :: bool
  cell_weekend :: bool
  cell_holiday :: "string option"

definition grid_cell :: "zone \<Rightarrow> int \<Rightarrow> int \<Rightarrow> Cell" where
  "grid_cell z month d = \<lparr>cell_day = calendar_isoDay z (Some d), cell_inMonth = (getMonth z d = month - 1),
     cell_weekend = (getDay z d = 0 \<or> getDay z d = 6), cell_holiday = None\<rparr>"

definition monthGrid :: "zone \<Rightarrow> int \<Rightarrow> int \<Rightarrow> Cell list" where
  "monthGrid z year month =
     (let first = new_date z year (month - 1) 1;
          lead = (getDay z first + 6) mod 7;
          start = new_date z year (month - 1) (1 - lead)
      in map (\<lambda>i. grid_cell z month (new_date z (getFullYear z start) (getMonth z start) (getDate z start + int i)))
           [0..<CALENDAR_GRID_DAYS])"

definition shiftMonth :: "zone \<Rightarrow> int \<Rightarrow> int \<Rightarrow> int \<Rightarrow> int \<times> int" where
  "shiftMonth z year month by = (let d = new_date z year (month - 1 + by) 1 in (getFullYear z d, getMonth z d + 1))"

record Placed =
  placed_item :: CalendarItem
  placed_starts :: bool
  placed_ends :: bool

record DayItems =
  day_shown :: "Placed list"
  day_more :: nat

text \<open>Spans that are NaN are unequal and subtract to NaN, which sorts as zero.\<close>

definition item_order :: "zone \<Rightarrow> (string \<Rightarrow> string \<Rightarrow> real) \<Rightarrow> CalendarItem \<Rightarrow> CalendarItem \<Rightarrow> real" where
  "item_order z lc a b =
     (case (calendar_daysBetween z (ci_from a) (ci_to a), calendar_daysBetween z (ci_from b) (ci_to b)) of
        (Some spanA, Some spanB) \<Rightarrow>
          if spanA \<noteq> spanB then real_of_int (spanB - spanA)
          else if ci_from a \<noteq> ci_from b then lc (ci_from a) (ci_from b)
          else lc (ci_title a) (ci_title b)
      | _ \<Rightarrow> 0)"

definition lies_on :: "string \<Rightarrow> CalendarItem \<Rightarrow> bool" where
  "lies_on d it \<longleftrightarrow> ci_from it \<le> d \<and> d \<le> ci_to it"

definition day_items :: "CalendarItem list \<Rightarrow> nat \<Rightarrow> string \<Rightarrow> DayItems" where
  "day_items ordered most d =
     (let placed = map (\<lambda>it. \<lparr>placed_item = it, placed_starts = (ci_from it = d), placed_ends = (ci_to it = d)\<rparr>)
            (filter (lies_on d) ordered)
      in \<lparr>day_shown = take most placed, day_more = length placed - most\<rparr>)"

definition placeItems :: "zone \<Rightarrow> (string \<Rightarrow> string \<Rightarrow> real) \<Rightarrow> Cell list \<Rightarrow> CalendarItem list \<Rightarrow> nat
    \<Rightarrow> (string \<times> DayItems) list" where
  "placeItems z lc cells items most =
     (let ordered = js_sort (item_order z lc) items
      in foldl (\<lambda>byDay cell. AList.update (cell_day cell) (day_items ordered most (cell_day cell)) byDay) [] cells)"

text \<open>Both ends move by the days between the cell grabbed and the cell dropped on.\<close>

definition draggedSchedule :: "zone \<Rightarrow> CalendarItem \<Rightarrow> string \<Rightarrow> string \<Rightarrow> (string \<times> string) option" where
  "draggedSchedule z item toDay grabbedDay =
     map_option (\<lambda>by. (shiftDay z (ci_from item) by, shiftDay z (ci_to item) by))
       (calendar_daysBetween z grabbedDay toDay)"

section \<open>Days off\<close>

definition isDefaultHoliday :: "CalendarItem \<Rightarrow> bool" where
  "isDefaultHoliday item \<longleftrightarrow> ci_kind item = Holiday_kind \<and> \<not> truthy (ci_calendar item)"

definition withHolidays :: "schedule_words \<Rightarrow> Cell list \<Rightarrow> CalendarItem list \<Rightarrow> Cell list" where
  "withHolidays t cells items =
     (let names = foldl (\<lambda>m item. if isDefaultHoliday item
            then m(ci_from item \<mapsto> (if ci_halfDay item = Some True then sw_halfDay t (ci_title item) else ci_title item))
            else m) Map.empty items
      in map (\<lambda>cell. case names (cell_day cell) of Some n \<Rightarrow> cell\<lparr>cell_holiday := Some n\<rparr> | None \<Rightarrow> cell) cells)"

definition listedItems :: "CalendarItem list \<Rightarrow> bool \<Rightarrow> CalendarItem list" where
  "listedItems items showDaysOff = filter (\<lambda>item.
     if ci_kind item \<noteq> Holiday_kind \<and> ci_kind item \<noteq> Absence_kind then True
     else showDaysOff \<and> \<not> isDefaultHoliday item) items"

definition labelOf :: "schedule_words \<Rightarrow> CalendarItem \<Rightarrow> string" where
  "labelOf t item =
     (if ci_kind item = Absence_kind
      then if ci_halfDay item = Some True then sw_awayHalfDay t (ci_title item) else sw_away t (ci_title item)
      else if ci_kind item = Holiday_kind \<and> ci_halfDay item = Some True then sw_halfDay t (ci_title item)
      else if truthy (ci_key item) then the (ci_key item) @ '' '' @ ci_title item else ci_title item)"

definition DAYS_OFF_KEY :: string where
  "DAYS_OFF_KEY = ''armature.calendar.daysOff''"

definition HIDDEN :: string where
  "HIDDEN = ''hidden''"

definition readShowDaysOff :: "storage \<Rightarrow> bool" where
  "readShowDaysOff st = (case getItem st DAYS_OFF_KEY of Some v \<Rightarrow> v \<noteq> Some HIDDEN | None \<Rightarrow> True)"

definition writeShowDaysOff :: "storage \<Rightarrow> bool \<Rightarrow> storage" where
  "writeShowDaysOff st show = attempt st
     (if show then removeItem st DAYS_OFF_KEY else setItem st DAYS_OFF_KEY HIDDEN)"

definition update_showDaysOff :: "storage \<Rightarrow> bool \<Rightarrow> storage \<times> bool" where
  "update_showDaysOff st next = (writeShowDaysOff st next, next)"

interpretation days_off: setting readShowDaysOff writeShowDaysOff "\<lambda>b. b" True
  by unfold_locales
    (auto simp: readShowDaysOff_def writeShowDaysOff_def getItem_def setItem_def removeItem_def attempt_def
      split: option.splits)

section \<open>Lemmas\<close>

text \<open>A day of a year that is written with four figures.\<close>

definition civil :: "int \<Rightarrow> bool" where
  "civil d \<longleftrightarrow> 1000 \<le> year_from_day d \<and> year_from_day d \<le> 9999"

lemma civil_plain: "civil d \<Longrightarrow> plain_day d"
  by (simp add: civil_def plain_day_def)

lemma four_figures: "1000 \<le> n \<Longrightarrow> n \<le> 9999 \<Longrightarrow> length (nat_str n) = 4"
proof -
  assume n: "1000 \<le> n" "n \<le> 9999"
  have d: "10 \<le> n" "10 \<le> n div 10" "10 \<le> n div 10 div 10" "n div 10 div 10 div 10 < 10"
    using n by (simp_all flip: div_mult2_eq add: less_mult_imp_div_less div_le_mono [of 1000 n 100, simplified]
      div_le_mono [of 1000 n 10, simplified] le_div_geq)
  then show ?thesis
    by (simp add: nat_str.simps [of n] nat_str.simps [of "n div 10"] nat_str.simps [of "n div 10 div 10"]
        nat_str.simps [of "n div 10 div 10 div 10"])
qed

lemma int_str_year:
  assumes "1000 \<le> y" "y \<le> 9999"
  shows "int_str y = iso_year y"
proof -
  have "length (nat_str (nat y)) = 4" using assms by (intro four_figures) auto
  then show ?thesis using assms by (simp add: int_str_def iso_year_def padStart_def)
qed

lemma isoDay_local:
  assumes "civil (local_day z t)"
  shows "calendar_isoDay z (Some t) = iso_date (local_day z t)"
  using assms int_str_year [of "year_from_day (local_day z t)"]
  by (simp add: calendar_isoDay_def iso_date_def getFullYear_def getMonth_def getDate_def local_day_def
      getUTCFullYear_def getUTCMonth_def getUTCDate_def civil_def)

lemma read_number_digits:
  "list_all is_digit s \<Longrightarrow> s \<noteq> [] \<Longrightarrow> read_number s = Fin (real (str_nat s))"
  using read_number_plain(1) [of s "[]"] by (simp add: list_all_iff)

lemma parts_iso_date:
  assumes "civil d"
  shows "map read_number (split_on (CHR ''-'') (iso_date d))
    = [Fin (real_of_int (year_from_day d)), Fin (real_of_int (day_month d + 1)), Fin (real_of_int (day_date d))]"
proof -
  have y: "0 \<le> year_from_day d" "year_from_day d \<le> 9999" using assms by (auto simp: civil_def)
  have m: "0 \<le> day_month d + 1" "day_month d + 1 \<le> 99" "0 \<le> day_date d" "day_date d \<le> 99"
    using day_month_range [of d] day_date_range [of d] by auto
  note yy = iso_year [OF y] and mm = two_digits [OF m(1,2)] and dd = two_digits [OF m(3,4)]
  have no: "\<forall>c \<in> set t. c \<noteq> CHR ''-''" if "list_all is_digit t" for t
    using that by (auto simp: list_all_iff is_digit_def)
  have "split_on (CHR ''-'') (iso_date d) = [iso_year (year_from_day d), two_digits (day_month d + 1), two_digits (day_date d)]"
    unfolding iso_date_def
    using no [OF yy(2)] no [OF mm(2)] no [OF dd(2)] by (simp add: split_at_append_sep split_at_no_sep)
  moreover have "iso_year (year_from_day d) \<noteq> []" "two_digits (day_month d + 1) \<noteq> []" "two_digits (day_date d) \<noteq> []"
    using yy(1) mm(1) dd(1) by auto
  ultimately show ?thesis using yy mm dd y m by (simp add: read_number_digits)
qed

lemma trunc_of_int [simp]: "trunc (real_of_int k) = k" "trunc (real_of_int k - 1) = k - 1"
  by (simp_all add: trunc_def)

lemma parseDay_iso_date:
  assumes "civil d"
  shows "parseDay z (iso_date d) = Some (zone_utc z (d * MS_PER_DAY))"
  using assms unfolding parseDay_def Let_def parts_iso_date [OF assms]
  by (simp add: new_date_def date_UTC_def full_year_def civil_def)

lemma shiftDay_iso_date:
  assumes "civil_zone z drift" "civil d" "civil (d + n)"
  shows "shiftDay z (iso_date d) n = iso_date (d + n)"
proof -
  have "local_day z (setDate z (zone_utc z (d * MS_PER_DAY)) (getDate z (zone_utc z (d * MS_PER_DAY)) + n)) = d + n"
    by (rule civil_zone.setDate_midnight [OF assms(1) refl])
  then show ?thesis using assms(2,3) by (simp add: shiftDay_def parseDay_iso_date isoDay_local)
qed

lemma daysBetween_iso_date:
  assumes "civil_zone z drift" "civil d" "civil e"
  shows "calendar_daysBetween z (iso_date d) (iso_date e) = Some (e - d)"
  using assms(2,3) civil_zone.midnights_apart [OF assms(1), of e d]
  by (simp add: calendar_daysBetween_def parseDay_iso_date MS_PER_DAY_def)

subsection \<open>Months\<close>

lemma first_of_month: "0 \<le> m \<Longrightarrow> m \<le> 11 \<Longrightarrow> make_day y m 1 = day_from_year y + month_start (leap y) m"
  by (simp add: make_day_def div_pos_pos_trivial)

lemma next_first: "0 \<le> m \<Longrightarrow> m \<le> 11 \<Longrightarrow> make_day y (m + 1) 1 = make_day y m 1 + month_length y m"
proof (cases "m = 11")
  case True
  have "make_day y 12 1 = day_from_year (y + 1)" by (simp add: make_day_def month_start_def)
  then show ?thesis using True
    by (simp add: first_of_month day_from_year_Suc days_in_year_def month_length_def month_start_def Let_def)
next
  case False
  assume "0 \<le> m" "m \<le> 11"
  with False show ?thesis by (simp add: first_of_month month_length_def)
qed

lemma month_length_le: "0 \<le> m \<Longrightarrow> m \<le> 11 \<Longrightarrow> month_length y m \<le> 31"
  using month_at_most_31 [of m "leap y"] by (simp add: month_length_def)

lemma day_in_month:
  assumes "0 \<le> m" "m \<le> 11" "make_day y m 1 \<le> x" "x < make_day y (m + 1) 1"
  shows "day_month x = m" "year_from_day x = y"
proof -
  have x: "x = make_day y m (x - make_day y m 1 + 1)" using make_day_shift [of y m 1 "x - make_day y m 1"] by (simp add: add.commute)
  have "x - make_day y m 1 + 1 \<le> month_length y m" using assms next_first [of m y] by simp
  then show "day_month x = m" "year_from_day x = y"
    using parts_of_make_day [OF assms(1,2), of "x - make_day y m 1 + 1" y] assms(3) x by auto
qed

lemma month_start_leap: "0 \<le> m \<Longrightarrow> m \<le> 11 \<Longrightarrow> \<bar>month_start a m - month_start b m\<bar> \<le> 1"
  by (cases a; cases b; simp add: month_start_def Let_def)

lemma month_in_window:
  assumes "0 \<le> m" "m \<le> 11" "day_month x = m" "make_day y m 1 - 300 < x" "x < make_day y m 1 + 300"
  shows "make_day y m 1 \<le> x \<and> x < make_day y (m + 1) 1"
proof -
  let ?y = "year_from_day x"
  have x: "x = make_day ?y m 1 + day_date x - 1"
    using make_day_of_parts [of x] assms(3) make_day_shift [of ?y m 1 "day_date x - 1"] by simp
  have dd: "1 \<le> day_date x" "day_date x \<le> 31" by (rule day_date_range)+
  note f = first_of_month [OF assms(1,2)]
  have ms: "\<bar>month_start (leap ?y) m - month_start (leap y) m\<bar> \<le> 1" by (rule month_start_leap [OF assms(1,2)])
  have "?y = y"
    using day_from_year_mono [of ?y y] day_from_year_mono [of y ?y] x dd ms assms(4,5) f [of y] f [of ?y]
    by linarith
  then show ?thesis
    using x dd next_first [OF assms(1,2), of y] day_before_next_month [of x] assms(3) by simp
qed

lemma civil_near:
  assumes "1001 \<le> y" "y \<le> 9998" "0 \<le> m" "m \<le> 11" "\<bar>x - make_day y m 1\<bar> < 300"
  shows "civil x"
proof -
  note f = first_of_month [OF assms(3,4), of y]
  note ms = month_start_mono [OF assms(3,4), of "leap y"]
  have a: "day_from_year (y - 1) \<le> x"
    using day_from_year_Suc [of "y - 1"] days_in_year_bounds [of "y - 1"] assms(5) f ms by simp
  have b: "x < day_from_year (y + 2)"
    using day_from_year_Suc [of y] day_from_year_Suc [of "y + 1", unfolded add.assoc one_add_one] days_in_year_bounds [of y]
      days_in_year_bounds [of "y + 1"] assms(5) f ms by (auto split: if_splits)
  have "y - 1 \<le> year_from_day x"
    using a year_from_day(2) [of x] day_from_year_le [of "year_from_day x + 1" "y - 1"] by linarith
  moreover have "year_from_day x \<le> y + 1"
    using b year_from_day(1) [of x] day_from_year_le [of "y + 2" "year_from_day x"] by linarith
  ultimately show ?thesis using assms(1,2) by (simp add: civil_def)
qed

text \<open>The Monday a month's grid starts with.\<close>

definition grid_monday :: "int \<Rightarrow> int \<Rightarrow> int" where
  "grid_monday y m = (let f = make_day y m 1 in f - (f + 3) mod 7)"

lemma grid_monday: "day_weekday (grid_monday y m) = 1" "grid_monday y m \<le> make_day y m 1"
  "make_day y m 1 \<le> grid_monday y m + 6"
proof -
  let ?f = "make_day y m 1"
  have "(?f - (?f + 3) mod 7 + 4) mod 7 = 1" by presburger
  then show "day_weekday (grid_monday y m) = 1" by (simp add: grid_monday_def Let_def day_weekday_def)
  show "grid_monday y m \<le> ?f" "?f \<le> grid_monday y m + 6"
    using pos_mod_sign [of 7 "?f + 3"] pos_mod_bound [of 7 "?f + 3"] by (simp_all add: grid_monday_def Let_def)
qed

lemma local_day_new_date: "civil_zone z drift \<Longrightarrow> y \<notin> {0..99} \<Longrightarrow> local_day z (new_date z y m d) = make_day y m d"
  using civil_zone.same_day [of z drift "make_day y m d"]
  by (auto simp: new_date_def date_UTC_def full_year_def)

lemma monthGrid_cells:
  assumes "civil_zone z drift" "1001 \<le> y" "y \<le> 9998" "0 \<le> m" "m \<le> 11"
  shows "monthGrid z y (m + 1) = map (\<lambda>i. let d = grid_monday y m + int i in
     \<lparr>cell_day = iso_date d, cell_inMonth = (day_month d = m), cell_weekend = (day_weekday d \<in> {0, 6}),
      cell_holiday = None\<rparr>) [0..<42]"
proof -
  let ?f = "make_day y m 1" and ?b = "grid_monday y m"
  note parts = civil_zone.parts_new_date [OF assms(1)] and loc = local_day_new_date [OF assms(1)]
  have y: "y \<notin> {0..99}" using assms by auto
  have lead: "(getDay z (new_date z y m 1) + 6) mod 7 = (?f + 3) mod 7"
  proof -
    have "(getDay z (new_date z y m 1) + 6) mod 7 = ((?f + 3) + 7) mod 7"
      unfolding parts(4) [OF y] day_weekday_def mod_add_left_eq by (simp add: add.commute)
    then show ?thesis by (simp only: mod_add_self2)
  qed
  let ?start = "new_date z y m (1 - (?f + 3) mod 7)"
  have b: "make_day y m (1 - (?f + 3) mod 7) = ?b"
    using make_day_shift [of y m 1 "- ((?f + 3) mod 7)"] by (simp add: grid_monday_def Let_def)
  have near: "civil (?b + int i)" if "i < 42" for i
    using that grid_monday(2,3) [of y m] by (intro civil_near [OF assms(2-5)]) auto
  have yb: "year_from_day ?b \<notin> {0..99}" using near [of 0] by (auto simp: civil_def)
  have start: "getFullYear z ?start = year_from_day ?b" "getMonth z ?start = day_month ?b" "getDate z ?start = day_date ?b"
    using parts [OF y, of m "1 - (?f + 3) mod 7"] b by simp_all
  have shift: "make_day (year_from_day ?b) (day_month ?b) (day_date ?b + int i) = ?b + int i" for i
    by (simp add: make_day_shift)
  have "grid_cell z (m + 1) (new_date z (year_from_day ?b) (day_month ?b) (day_date ?b + int i))
      = (let d = ?b + int i in \<lparr>cell_day = iso_date d, cell_inMonth = (day_month d = m),
          cell_weekend = (day_weekday d \<in> {0, 6}), cell_holiday = None\<rparr>)" if "i < 42" for i
    using parts [OF yb, of "day_month ?b" "day_date ?b + int i"] isoDay_local loc [OF yb] near [OF that]
    by (simp add: grid_cell_def shift Let_def)
  then show ?thesis
    by (simp add: monthGrid_def Let_def lead start config cong: map_cong)
qed

lemma placeItems_fold:
  assumes "d \<in> cell_day ` set cells"
  shows "map_of (foldl (\<lambda>byDay cell. AList.update (cell_day cell) (f (cell_day cell)) byDay) acc cells) d = Some (f d)"
  using assms
proof (induction cells rule: rev_induct)
  case (snoc c cells)
  then show ?case by auto
qed simp

section \<open>Properties\<close>

text \<open>A zone an hour ahead of UTC, and two in the summer of 2026.\<close>

definition sample_zone :: zone where
  "sample_zone = dst_zone 3600000 (\<lambda>t. 1774746000000 \<le> t \<and> t < 1792890000000)"

text \<open>
  C35: A month's grid is six whole weeks, Monday first, of consecutive days; every day of the month is
  on it and only those days are marked as the month's; and the weekend marks are on the Saturdays
  and Sundays. Daylight saving in the reader's zone neither skips a day nor shows one twice.
\<close>

theorem month_grid_days:
  assumes "civil_zone z drift" "1001 \<le> y" "y \<le> 9998" "1 \<le> month" "month \<le> 12"
  shows "\<exists>b. day_weekday b = 1 \<and> b \<le> make_day y (month - 1) 1 \<and> make_day y month 1 \<le> b + 42
    \<and> map cell_day (monthGrid z y month) = map (\<lambda>i. iso_date (b + int i)) [0..<42]
    \<and> (\<forall>i < 42. (cell_inMonth (monthGrid z y month ! i)
          \<longleftrightarrow> make_day y (month - 1) 1 \<le> b + int i \<and> b + int i < make_day y month 1)
        \<and> (cell_weekend (monthGrid z y month ! i) \<longleftrightarrow> day_weekday (b + int i) \<in> {0, 6}))"
proof -
  let ?m = "month - 1"
  have m: "0 \<le> ?m" "?m \<le> 11" using assms by auto
  note b = grid_monday [of y ?m]
  note grid = monthGrid_cells [OF assms(1-3) m]
  have "make_day y month 1 \<le> grid_monday y ?m + 42"
    using next_first [OF m, of y] month_length_le [OF m, of y] b by simp
  moreover have "day_month (grid_monday y ?m + int i) = ?m
      \<longleftrightarrow> make_day y ?m 1 \<le> grid_monday y ?m + int i \<and> grid_monday y ?m + int i < make_day y month 1"
    if "i < 42" for i
    using month_in_window [OF m, of "grid_monday y ?m + int i" y] day_in_month(1) [OF m, of y "grid_monday y ?m + int i"]
      that b by auto
  ultimately show ?thesis
    using grid b by (intro exI [of _ "grid_monday y ?m"]) (simp add: Let_def)
qed

theorem month_grid_days_witness:
  "\<exists>b. day_weekday b = 1 \<and> map cell_day (monthGrid sample_zone 2026 3) = map (\<lambda>i. iso_date (b + int i)) [0..<42]"
  using month_grid_days [OF dst.civil_zone_axioms, of 2026 3 3600000 "\<lambda>t. 1774746000000 \<le> t \<and> t < 1792890000000"]
  unfolding sample_zone_def by auto

text \<open>
  C36: Counting and moving days is exact in every such zone, daylight saving or not: the days between
  two days are their distance, moving a day by some days lands on that day, and a bar dragged from
  one cell to another moves both its ends by the distance between the cells, so it keeps its length.
\<close>

theorem calendar_days_exact:
  assumes "civil_zone z drift" "civil d" "civil e" "civil (d + n)"
    and "ci_from it = iso_date a" "ci_to it = iso_date b" "civil a" "civil b"
    and "civil (a + (e - d))" "civil (b + (e - d))"
  shows "shiftDay z (iso_date d) n = iso_date (d + n)
    \<and> calendar_daysBetween z (iso_date d) (iso_date e) = Some (e - d)
    \<and> draggedSchedule z it (iso_date e) (iso_date d) = Some (iso_date (a + (e - d)), iso_date (b + (e - d)))"
  using shiftDay_iso_date [OF assms(1)] daysBetween_iso_date [OF assms(1)] assms
  by (simp add: draggedSchedule_def)

definition sample_bar :: CalendarItem where
  "sample_bar = \<lparr>ci_kind = Issue_kind, ci_id = ''1'', ci_key = Some ''P-1'', ci_title = ''Build'',
     ci_from = iso_date 20538, ci_to = iso_date 20540, ci_category = None, ci_done = None,
     ci_calendar = None, ci_halfDay = None\<rparr>"

theorem calendar_days_exact_witness:
  "draggedSchedule sample_zone sample_bar (iso_date 20545) (iso_date 20539) = Some (iso_date 20544, iso_date 20546)"
proof -
  have c: "civil 20538" "civil 20539" "civil 20540" "civil 20544" "civil 20545" "civil 20546" by code_simp+
  show ?thesis
    using calendar_days_exact [OF dst.civil_zone_axioms, of 20539 20545 1 sample_bar 20538 20540 3600000
        "\<lambda>t. 1774746000000 \<le> t \<and> t < 1792890000000"] c
    by (simp add: sample_zone_def sample_bar_def)
qed

text \<open>
  What the order of the bars comes to: the longer before the shorter, then the one that starts earlier,
  then by title.
\<close>

definition bar_before :: "(string \<Rightarrow> string \<Rightarrow> real) \<Rightarrow> (CalendarItem \<Rightarrow> int) \<Rightarrow> (CalendarItem \<Rightarrow> int) \<Rightarrow> CalendarItem \<Rightarrow> CalendarItem \<Rightarrow> bool" where
  "bar_before lc first final a b \<longleftrightarrow> final b - first b < final a - first a
     \<or> final b - first b = final a - first a \<and> (first a < first b \<or> first a = first b \<and> lc (ci_title a) (ci_title b) \<le> 0)"

text \<open>The language's order of text puts the written days of the calendar in their order.\<close>

definition orders_days :: "(string \<Rightarrow> string \<Rightarrow> real) \<Rightarrow> bool" where
  "orders_days lc \<longleftrightarrow> (\<forall>a b. civil a \<and> civil b \<longrightarrow> (lc (iso_date a) (iso_date b) \<le> 0 \<longleftrightarrow> a \<le> b))"

lemma orders_days_cu: "orders_days code_unit_compare"
  unfolding orders_days_def code_unit_compare_def
  using iso_date_less_iff iso_date_eq_iff civil_plain by (auto simp: not_le)

lemma bars_sorted:
  assumes "civil_zone z drift" "collation lc" "orders_days lc"
    and days: "\<forall>it \<in> set items. ci_from it = iso_date (first it) \<and> ci_to it = iso_date (final it) \<and> civil (first it) \<and> civil (final it)"
  shows "sorted_wrt (bar_before lc first final) (js_sort (item_order z lc) items)"
proof -
  let ?ord = "cmp_or (cmp_by (\<lambda>it. real_of_int (first it - final it)))
      (cmp_or (cmp_by (\<lambda>it. real_of_int (first it))) (\<lambda>a b. lc (ci_title a) (ci_title b)))"
  have ord: "?ord a b \<le> 0 \<longleftrightarrow> bar_before lc first final a b" for a b
    by (auto simp: cmp_or_def cmp_by_def bar_before_def)
  have "item_order z lc a b \<le> 0 \<longleftrightarrow> ?ord a b \<le> 0" if "a \<in> set items" "b \<in> set items" for a b
  proof -
    note A = bspec [OF days that(1)] and B = bspec [OF days that(2)]
    have "iso_date (first a) = iso_date (first b) \<longleftrightarrow> first a = first b" using A B iso_date_eq_iff civil_plain by blast
    moreover have "lc (iso_date (first a)) (iso_date (first b)) \<le> 0 \<longleftrightarrow> first a \<le> first b"
      using A B assms(3) by (simp add: orders_days_def)
    ultimately show ?thesis unfolding ord
      using A B daysBetween_iso_date [OF assms(1)] by (auto simp: item_order_def bar_before_def)
  qed
  then have "js_sort (item_order z lc) items = js_sort ?ord items" by (rule js_sort_cong)
  moreover have "comparator ?ord"
    using assms(2) by (intro comparator_cmp_or comparator_cmp_by) (rule comparator_pull [of lc ci_title], simp add: collation_def)
  ultimately show ?thesis using comparator.sorted_js_sort [of ?ord items] by (simp only: ord)
qed

text \<open>
  C37: Nothing on a day is lost. For a calendar whose items run from one day to another, a cell shows the
  items whose first day is not after the cell's day and whose last day is not before it, the first and
  the last day among them, the longer before the shorter, then those that start earlier, then by title;
  no more of them than there is room for, each marked as starting and as ending there exactly when the
  day is its first and its last; and those left out are counted. The zone may have daylight saving, and
  the language's order of text is any that puts written days in their order.
\<close>

theorem items_placed:
  assumes "civil_zone z drift" "collation lc" "orders_days lc"
    and "\<forall>it \<in> set items. ci_from it = iso_date (first it) \<and> ci_to it = iso_date (final it) \<and> civil (first it) \<and> civil (final it)"
    and "cell \<in> set cells" "cell_day cell = iso_date k" "civil k"
  shows "\<exists>on_day. mset on_day = {#it \<in># mset items. first it \<le> k \<and> k \<le> final it#}
    \<and> sorted_wrt (\<lambda>a b. final b - first b < final a - first a \<or> final b - first b = final a - first a
        \<and> (first a < first b \<or> first a = first b \<and> lc (ci_title a) (ci_title b) \<le> 0)) on_day
    \<and> map_of (placeItems z lc cells items most) (iso_date k) = Some
        \<lparr>day_shown = map (\<lambda>it. \<lparr>placed_item = it, placed_starts = (first it = k), placed_ends = (final it = k)\<rparr>) (take most on_day),
         day_more = length on_day - most\<rparr>"
proof (intro exI conjI)
  let ?all = "js_sort (item_order z lc) items"
  let ?on = "filter (\<lambda>it. first it \<le> k \<and> k \<le> final it) ?all"
  have all: "set ?all = set items" by simp
  have day: "lies_on (iso_date k) it \<longleftrightarrow> first it \<le> k \<and> k \<le> final it"
    "ci_from it = iso_date k \<longleftrightarrow> first it = k" "ci_to it = iso_date k \<longleftrightarrow> final it = k" if "it \<in> set items" for it
    using bspec [OF assms(4) that] civil_plain assms(7)
    by (simp_all add: lies_on_def iso_date_le_iff iso_date_eq_iff)
  show "mset ?on = {#it \<in># mset items. first it \<le> k \<and> k \<le> final it#}" by simp
  show "sorted_wrt (\<lambda>a b. final b - first b < final a - first a \<or> final b - first b = final a - first a
        \<and> (first a < first b \<or> first a = first b \<and> lc (ci_title a) (ci_title b) \<le> 0)) ?on"
    unfolding bar_before_def [symmetric] by (rule sorted_wrt_filter [OF bars_sorted [OF assms(1-4)]])
  have "map_of (placeItems z lc cells items most) (iso_date k) = Some (day_items ?all most (iso_date k))"
    using assms(5,6) unfolding placeItems_def Let_def by (intro placeItems_fold) (metis image_eqI)
  moreover have "filter (lies_on (iso_date k)) ?all = ?on" using day(1) all by (intro filter_cong) auto
  moreover have "map (\<lambda>it. \<lparr>placed_item = it, placed_starts = (ci_from it = iso_date k), placed_ends = (ci_to it = iso_date k)\<rparr>) (take most ?on)
      = map (\<lambda>it. \<lparr>placed_item = it, placed_starts = (first it = k), placed_ends = (final it = k)\<rparr>) (take most ?on)"
  proof (intro map_cong refl)
    fix it assume "it \<in> set (take most ?on)"
    then have "it \<in> set items" using all by (auto dest: in_set_takeD)
    from day(2,3) [OF this] show "\<lparr>placed_item = it, placed_starts = (ci_from it = iso_date k), placed_ends = (ci_to it = iso_date k)\<rparr>
      = \<lparr>placed_item = it, placed_starts = (first it = k), placed_ends = (final it = k)\<rparr>" by (simp only:)
  qed
  ultimately show "map_of (placeItems z lc cells items most) (iso_date k) = Some
      \<lparr>day_shown = map (\<lambda>it. \<lparr>placed_item = it, placed_starts = (first it = k), placed_ends = (final it = k)\<rparr>) (take most ?on),
       day_more = length ?on - most\<rparr>"
    by (simp only: day_items_def Let_def take_map length_map)
qed

text \<open>A bar of three days and a single day on its last day, where the longer one comes first.\<close>

definition sample_day :: CalendarItem where
  "sample_day = sample_bar\<lparr>ci_title := ''Alarm'', ci_from := iso_date 20540\<rparr>"

theorem items_placed_witness:
  "map_of (placeItems sample_zone code_unit_compare [\<lparr>cell_day = iso_date 20540, cell_inMonth = True,
      cell_weekend = False, cell_holiday = None\<rparr>] [sample_day, sample_bar] 1) (iso_date 20540)
   = Some \<lparr>day_shown = [\<lparr>placed_item = sample_bar, placed_starts = False, placed_ends = True\<rparr>], day_more = 1\<rparr>"
proof -
  define first :: "CalendarItem \<Rightarrow> int" where "first it = (if ci_title it = ''Alarm'' then 20540 else 20538)" for it
  define final :: "CalendarItem \<Rightarrow> int" where "final it = 20540" for it
  let ?cell = "\<lparr>cell_day = iso_date 20540, cell_inMonth = True, cell_weekend = False, cell_holiday = None\<rparr>"
  have c: "civil 20538" "civil 20540" by code_simp+
  have days: "\<forall>it \<in> set [sample_day, sample_bar]. ci_from it = iso_date (first it) \<and> ci_to it = iso_date (final it)
      \<and> civil (first it) \<and> civil (final it)" by (simp add: sample_day_def sample_bar_def first_def final_def c)
  obtain on_day where on: "mset on_day = {#it \<in># mset [sample_day, sample_bar]. first it \<le> 20540 \<and> 20540 \<le> final it#}"
      "sorted_wrt (\<lambda>a b. final b - first b < final a - first a \<or> final b - first b = final a - first a
        \<and> (first a < first b \<or> first a = first b \<and> code_unit_compare (ci_title a) (ci_title b) \<le> 0)) on_day"
      "map_of (placeItems sample_zone code_unit_compare [?cell] [sample_day, sample_bar] 1) (iso_date 20540) = Some
        \<lparr>day_shown = map (\<lambda>it. \<lparr>placed_item = it, placed_starts = (first it = 20540), placed_ends = (final it = 20540)\<rparr>) (take 1 on_day),
         day_more = length on_day - 1\<rparr>"
    using items_placed [OF dst.civil_zone_axioms cu.collation_axioms orders_days_cu days list.set_intros(1) _ c(2), of ?cell 3600000
        "\<lambda>t. 1774746000000 \<le> t \<and> t < 1792890000000" "[]" 1] unfolding sample_zone_def Cell.simps by blast
  have at: "first sample_day = 20540" "first sample_bar = 20538" "final sample_day = 20540" "final sample_bar = 20540"
    by (simp_all add: first_def final_def sample_day_def sample_bar_def)
  then have two: "mset on_day = {#sample_day, sample_bar#}" using on(1) by simp
  then have "length on_day = 2" by (simp flip: size_mset)
  then obtain x y where "on_day = [x, y]" by (auto simp: numeral_2_eq_2 length_Suc_conv)
  then have "on_day = [sample_day, sample_bar] \<or> on_day = [sample_bar, sample_day]" using two by (auto simp: add_eq_conv_ex)
  then have "on_day = [sample_bar, sample_day]" using on(2) at by auto
  then show ?thesis using on(3) at by simp
qed

end
