(* ===== verification/LibGraph.thy ===== *)
theory LibGraph
  imports JsNumber
begin

text \<open>
  The geometry shared by the graphs the application draws by hand, \<open>web/src/lib/graph.ts\<close>: how far
  the edges between two boxes bow out, and the curve of an edge.
\<close>

section \<open>Boxes, points and edges\<close>

record Rect =
  rect_x :: real
  rect_y :: real
  rect_width :: real
  rect_height :: real

record Point =
  point_x :: real
  point_y :: real

record Connection =
  conn_key :: string
  conn_from :: string
  conn_to :: string

section \<open>Bends\<close>

definition pair_key :: "Connection \<Rightarrow> string" where
  "pair_key e = join ''|'' (if conn_to e < conn_from e then [conn_to e, conn_from e] else [conn_from e, conn_to e])"

definition edge_groups :: "Connection list \<Rightarrow> (string \<times> Connection list) list" where
  "edge_groups edges = foldl (\<lambda>groups e. AList.update (pair_key e)
     ((case map_of groups (pair_key e) of Some g \<Rightarrow> g | None \<Rightarrow> []) @ [e]) groups) [] edges"

text \<open>How many steps an edge bows out, by its place among those that run the same way.\<close>

definition bend_of :: "bool \<Rightarrow> nat \<Rightarrow> int" where
  "bend_of twoWay index =
     (if twoWay then int index + 1
      else \<lceil>real index / 2\<rceil> * (if index mod 2 = 0 then - 1 else 1))"

definition spread :: "bool \<Rightarrow> real \<Rightarrow> Connection list \<Rightarrow> (string \<times> real) list \<Rightarrow> (string \<times> real) list" where
  "spread twoWay step xs out =
     foldl (\<lambda>out (index, edge). AList.update (conn_key edge) (real_of_int (bend_of twoWay index) * step) out)
       out (List.enumerate 0 xs)"

definition forward_of :: "Connection list \<Rightarrow> Connection list" where
  "forward_of grp = filter (\<lambda>e. conn_from e \<le> conn_to e) grp"

definition backward_of :: "Connection list \<Rightarrow> Connection list" where
  "backward_of grp = filter (\<lambda>e. conn_to e < conn_from e) grp"

definition bends :: "Connection list \<Rightarrow> real \<Rightarrow> (string \<times> real) list" where
  "bends edges step =
     foldl (\<lambda>out (pair, grp).
       let forward = forward_of grp; backward = backward_of grp;
           twoWay = (forward \<noteq> [] \<and> backward \<noteq> [])
       in spread twoWay step backward (spread twoWay step forward out)) [] (edge_groups edges)"

section \<open>Curves\<close>

record EdgeShape =
  shape_path :: string
  shape_label :: Point

definition centre :: "Rect \<Rightarrow> Point" where
  "centre r = \<lparr>point_x = rect_x r + rect_width r / 2, point_y = rect_y r + rect_height r / 2\<rparr>"

text \<open>With one of the two differences zero the other alone decides; infinity never is the smaller.\<close>

definition clipToRect :: "Rect \<Rightarrow> Point \<Rightarrow> Point" where
  "clipToRect r towards =
     (let c = centre r; dx = point_x towards - point_x c; dy = point_y towards - point_y c
      in if dx = 0 \<and> dy = 0 then c
         else let k = (if dx = 0 then rect_height r / 2 / \<bar>dy\<bar>
                       else if dy = 0 then rect_width r / 2 / \<bar>dx\<bar>
                       else min (rect_width r / 2 / \<bar>dx\<bar>) (rect_height r / 2 / \<bar>dy\<bar>))
              in \<lparr>point_x = point_x c + dx * k, point_y = point_y c + dy * k\<rparr>)"

text \<open>\<open>Math.round(n * 10) / 10\<close> in a template string.\<close>

definition tenth_str :: "real \<Rightarrow> string" where
  "tenth_str n = scaled_str 1 (js_round (n * 10))"

definition control_point :: "Rect \<Rightarrow> Rect \<Rightarrow> real \<Rightarrow> Point" where
  "control_point from to bend =
     (let a = centre from; b = centre to;
          len = sqrt ((point_x b - point_x a)\<^sup>2 + (point_y b - point_y a)\<^sup>2);
          len = (if len = 0 then 1 else len)
      in \<lparr>point_x = (point_x a + point_x b) / 2 + (- (point_y b - point_y a) / len) * bend,
          point_y = (point_y a + point_y b) / 2 + ((point_x b - point_x a) / len) * bend\<rparr>)"

definition path_str :: "Point \<Rightarrow> Point \<Rightarrow> Point \<Rightarrow> string" where
  "path_str start control finish =
     ''M '' @ tenth_str (point_x start) @ '' '' @ tenth_str (point_y start)
     @ '' Q '' @ tenth_str (point_x control) @ '' '' @ tenth_str (point_y control)
     @ '' '' @ tenth_str (point_x finish) @ '' '' @ tenth_str (point_y finish)"

definition edgeShape :: "Rect \<Rightarrow> Rect \<Rightarrow> real \<Rightarrow> EdgeShape" where
  "edgeShape from to bend =
     (let control = control_point from to bend;
          start = clipToRect from control; finish = clipToRect to control
      in \<lparr>shape_path = path_str start control finish,
          shape_label = \<lparr>point_x = 1 / 4 * point_x start + 1 / 2 * point_x control + 1 / 4 * point_x finish,
            point_y = 1 / 4 * point_y start + 1 / 2 * point_y control + 1 / 4 * point_y finish\<rparr>\<rparr>)"

section \<open>Lemmas on the bends\<close>

definition group_bends :: "real \<Rightarrow> Connection list \<Rightarrow> (string \<times> real) list" where
  "group_bends step grp =
     (let twoWay = (forward_of grp \<noteq> [] \<and> backward_of grp \<noteq> []);
          bent = map (\<lambda>(i, e). (conn_key e, real_of_int (bend_of twoWay i) * step))
      in bent (List.enumerate 0 (forward_of grp)) @ bent (List.enumerate 0 (backward_of grp)))"

lemma spread_put_all:
  "spread tw step xs out = put_all out (map (\<lambda>(i, e). (conn_key e, real_of_int (bend_of tw i) * step)) (List.enumerate 0 xs))"
  by (simp add: spread_def put_all_def foldl_map case_prod_unfold)

lemma bends_put_all: "bends edges step = put_all [] (concat (map (\<lambda>(p, g). group_bends step g) (edge_groups edges)))"
proof -
  have "foldl (\<lambda>out (pair, grp). put_all out (group_bends step grp)) acc gs
      = put_all acc (concat (map (\<lambda>(p, g). group_bends step g) gs))" for acc gs
    by (induction gs arbitrary: acc) auto
  then show ?thesis
    by (simp add: bends_def group_bends_def Let_def spread_put_all)
qed

lemma edge_groups_spec:
  "distinct (map fst (edge_groups edges)) \<and>
   (\<forall>p. map_of (edge_groups edges) p =
      (let g = filter (\<lambda>e. pair_key e = p) edges in if g = [] then None else Some g))"
proof (induction edges rule: rev_induct)
  case (snoc e es)
  have step: "edge_groups (es @ [e]) = AList.update (pair_key e)
     ((case map_of (edge_groups es) (pair_key e) of Some g \<Rightarrow> g | None \<Rightarrow> []) @ [e]) (edge_groups es)"
    by (simp add: edge_groups_def)
  show ?case using snoc unfolding step by (auto simp: distinct_update Let_def)
qed (simp add: edge_groups_def)

lemma forward_backward: "mset (forward_of g) + mset (backward_of g) = mset g"
proof -
  have "backward_of g = filter (\<lambda>e. \<not> conn_from e \<le> conn_to e) g"
    by (simp add: backward_of_def not_le)
  then show ?thesis by (simp add: forward_of_def multiset_partition [symmetric])
qed

lemma enumerate_keys: "map (\<lambda>(i, e). conn_key e) (List.enumerate n xs) = map conn_key xs"
  by (induction xs arbitrary: n) auto

lemma group_bends_keys: "mset (map fst (group_bends step g)) = image_mset conn_key (mset g)"
  by (simp add: group_bends_def Let_def comp_def split_beta flip: forward_backward [of g])
    (simp add: enumerate_keys [unfolded split_beta, simplified] flip: mset_map)

lemma concat_update:
  "mset (concat (map snd (AList.update k ((case map_of m k of Some g \<Rightarrow> g | None \<Rightarrow> []) @ [e]) m)))
     = add_mset e (mset (concat (map snd m)))"
  by (induction m) (auto split: option.splits)

lemma edge_groups_all: "mset (concat (map snd (edge_groups edges))) = mset edges"
proof (induction edges rule: rev_induct)
  case (snoc e es)
  have "edge_groups (es @ [e]) = AList.update (pair_key e)
     ((case map_of (edge_groups es) (pair_key e) of Some g \<Rightarrow> g | None \<Rightarrow> []) @ [e]) (edge_groups es)"
    by (simp add: edge_groups_def)
  with snoc show ?case by (simp only: concat_update) simp
qed (simp add: edge_groups_def)

lemma bends_keys:
  "mset (map fst (concat (map (\<lambda>(p, g). group_bends step g) gs))) = image_mset conn_key (mset (concat (map snd gs)))"
  by (induction gs) (auto simp: group_bends_keys simp flip: mset_map)

lemma bend_of_alone: "bend_of False i = (if even i then - int (i div 2) else int (i div 2) + 1)"
proof (cases "even i")
  case True
  then obtain j where "i = 2 * j" by (elim evenE)
  then show ?thesis by (simp add: bend_of_def)
next
  case False
  then obtain j where j: "i = 2 * j + 1" by (elim oddE)
  have "\<lceil>real (2 * j + 1) / 2\<rceil> = int j + 1" by (rule ceiling_unique) (simp_all add: field_simps)
  then show ?thesis using j by (simp add: bend_of_def)
qed

lemma bend_of_inj: "bend_of tw i = bend_of tw j \<Longrightarrow> i = j"
proof (cases tw)
  case False
  assume "bend_of tw i = bend_of tw j"
  with False show ?thesis by (auto simp: bend_of_alone split: if_splits elim!: evenE oddE)
qed (simp add: bend_of_def)

text \<open>The bend of an edge, by its place among the edges of its pair that run its way.\<close>

definition same_way :: "Connection list \<Rightarrow> Connection \<Rightarrow> Connection list" where
  "same_way edges e = (let g = filter (\<lambda>f. pair_key f = pair_key e) edges
     in if conn_from e \<le> conn_to e then forward_of g else backward_of g)"

definition pair_two_way :: "Connection list \<Rightarrow> Connection \<Rightarrow> bool" where
  "pair_two_way edges e = (let g = filter (\<lambda>f. pair_key f = pair_key e) edges
     in forward_of g \<noteq> [] \<and> backward_of g \<noteq> [])"

lemma bends_at:
  assumes "distinct (map conn_key edges)" "i < length (same_way edges e)" "same_way edges e ! i = e" "e \<in> set edges"
  shows "map_of (bends edges step) (conn_key e) = Some (real_of_int (bend_of (pair_two_way edges e) i) * step)"
proof -
  let ?g = "filter (\<lambda>f. pair_key f = pair_key e) edges"
  let ?all = "concat (map (\<lambda>(p, g). group_bends step g) (edge_groups edges))"
  have d: "distinct (map fst ?all)"
    using assms(1) bends_keys [of step "edge_groups edges"] edge_groups_all [of edges]
    by (metis mset_eq_imp_distinct_iff mset_map)
  have "map_of (edge_groups edges) (pair_key e) = Some ?g"
    using edge_groups_spec [of edges] assms(4) by (auto simp: Let_def filter_empty_conv)
  then have g: "(pair_key e, ?g) \<in> set (edge_groups edges)" by (rule map_of_SomeD)
  have "(i, e) \<in> set (List.enumerate 0 (same_way edges e))"
    using assms(2,3) by (auto simp: in_set_enumerate_eq)
  then have "(conn_key e, real_of_int (bend_of (pair_two_way edges e) i) * step) \<in> set (group_bends step ?g)"
    by (force simp: group_bends_def same_way_def pair_two_way_def Let_def split: if_splits)
  then have "(conn_key e, real_of_int (bend_of (pair_two_way edges e) i) * step) \<in> set ?all" using g by force
  then show ?thesis unfolding bends_put_all by (rule put_all_distinct [OF d])
qed

lemma in_same_way: "e \<in> set edges \<Longrightarrow> \<exists>i < length (same_way edges e). same_way edges e ! i = e"
  by (simp add: same_way_def Let_def forward_of_def backward_of_def not_le flip: in_set_conv_nth)

section \<open>Properties\<close>

text \<open>
  No edge hides another: every edge gets a bend; two edges that run the same way between the same
  boxes never get the same one; and where edges run both ways, each bows out by at least one step to
  the right of its own direction, so the two directions are on different sides of the line.
\<close>

lemma bends_apart:
  assumes "distinct (map conn_key edges)" "0 < step" "e \<in> set edges" "f \<in> set edges"
  shows "\<exists>b c. map_of (bends edges step) (conn_key e) = Some b \<and> map_of (bends edges step) (conn_key f) = Some c
    \<and> (e \<noteq> f \<and> conn_from e = conn_from f \<and> conn_to e = conn_to f \<longrightarrow> b \<noteq> c)
    \<and> (conn_from e \<noteq> conn_to e \<and> conn_from f = conn_to e \<and> conn_to f = conn_from e \<longrightarrow> step \<le> b \<and> step \<le> c)"
proof -
  obtain i where i: "i < length (same_way edges e)" "same_way edges e ! i = e"
    using in_same_way [OF assms(3)] by blast
  obtain j where j: "j < length (same_way edges f)" "same_way edges f ! j = f"
    using in_same_way [OF assms(4)] by blast
  note b = bends_at [OF assms(1) i assms(3), of step] and c = bends_at [OF assms(1) j assms(4), of step]
  have "bend_of (pair_two_way edges e) i \<noteq> bend_of (pair_two_way edges f) j"
    if "e \<noteq> f" "conn_from e = conn_from f" "conn_to e = conn_to f"
  proof -
    have "pair_key e = pair_key f" using that by (simp add: pair_key_def)
    then have "same_way edges e = same_way edges f" "pair_two_way edges e = pair_two_way edges f"
      using that by (simp_all add: same_way_def pair_two_way_def)
    then show ?thesis using i j that(1) bend_of_inj [of "pair_two_way edges f" i j] by auto
  qed
  moreover have "pair_two_way edges e \<and> pair_two_way edges f"
    if "conn_from e \<noteq> conn_to e" "conn_from f = conn_to e" "conn_to f = conn_from e"
  proof -
    have "pair_key e = pair_key f" using that by (auto simp: pair_key_def)
    then show ?thesis using that assms(3,4)
      by (cases "conn_from e < conn_to e")
        (force simp: pair_two_way_def Let_def forward_of_def backward_of_def filter_empty_conv)+
  qed
  ultimately show ?thesis
    using b c assms(2) by (auto simp: bend_of_def mult_le_cancel_right1)
qed

lemma bends_apart_witness:
  "\<exists>b c. map_of (bends [\<lparr>conn_key = ''1'', conn_from = ''A'', conn_to = ''B''\<rparr>,
        \<lparr>conn_key = ''2'', conn_from = ''B'', conn_to = ''A''\<rparr>] 32) ''1'' = Some b
    \<and> map_of (bends [\<lparr>conn_key = ''1'', conn_from = ''A'', conn_to = ''B''\<rparr>,
        \<lparr>conn_key = ''2'', conn_from = ''B'', conn_to = ''A''\<rparr>] 32) ''2'' = Some c \<and> 32 \<le> b \<and> 32 \<le> c"
  using bends_apart [of "[\<lparr>conn_key = ''1'', conn_from = ''A'', conn_to = ''B''\<rparr>,
        \<lparr>conn_key = ''2'', conn_from = ''B'', conn_to = ''A''\<rparr>]" 32
      "\<lparr>conn_key = ''1'', conn_from = ''A'', conn_to = ''B''\<rparr>" "\<lparr>conn_key = ''2'', conn_from = ''B'', conn_to = ''A''\<rparr>"]
  by simp

text \<open>
  The point an edge is cut at lies on the border of its box: inside the box and on one of its
  four sides, in the direction of the target.
\<close>

lemma clip_on_border:
  assumes "0 < rect_width r" "0 < rect_height r" "towards \<noteq> centre r" "p = clipToRect r towards"
  shows "\<bar>point_x p - point_x (centre r)\<bar> \<le> rect_width r / 2
    \<and> \<bar>point_y p - point_y (centre r)\<bar> \<le> rect_height r / 2
    \<and> (\<bar>point_x p - point_x (centre r)\<bar> = rect_width r / 2 \<or> \<bar>point_y p - point_y (centre r)\<bar> = rect_height r / 2)
    \<and> (\<exists>k > 0. point_x p - point_x (centre r) = k * (point_x towards - point_x (centre r))
          \<and> point_y p - point_y (centre r) = k * (point_y towards - point_y (centre r)))"
proof -
  define dx dy where "dx = point_x towards - point_x (centre r)" and "dy = point_y towards - point_y (centre r)"
  define w h where "w = rect_width r / 2" and "h = rect_height r / 2"
  have pos: "0 < w" "0 < h" using assms(1,2) by (simp_all add: w_def h_def)
  have nz: "dx \<noteq> 0 \<or> dy \<noteq> 0" using assms(3) by (cases towards; cases "centre r") (auto simp: dx_def dy_def)
  define k where "k = (if dx = 0 then h / \<bar>dy\<bar> else if dy = 0 then w / \<bar>dx\<bar> else min (w / \<bar>dx\<bar>) (h / \<bar>dy\<bar>))"
  have p: "point_x p - point_x (centre r) = k * dx" "point_y p - point_y (centre r) = k * dy"
    using nz by (auto simp: assms(4) clipToRect_def Let_def k_def dx_def dy_def w_def h_def mult.commute)
  have k: "0 < k" using pos nz by (auto simp: k_def)
  have kx: "k * \<bar>dx\<bar> \<le> w" if "dx \<noteq> 0" using that pos by (auto simp: k_def min_def field_simps)
  have ky: "k * \<bar>dy\<bar> \<le> h" if "dy \<noteq> 0" using that pos by (auto simp: k_def min_def field_simps)
  have "k * \<bar>dx\<bar> = w \<or> k * \<bar>dy\<bar> = h" using nz by (auto simp: k_def min_def field_simps)
  moreover have "\<bar>k * dx\<bar> \<le> w" "\<bar>k * dy\<bar> \<le> h" using kx ky k pos
    by (cases "dx = 0"; cases "dy = 0"; simp add: abs_mult)+
  ultimately show ?thesis using p k by (auto simp: abs_mult w_def h_def dx_def dy_def)
qed

end
