(* ===== verification/PlanGraph.thy ===== *)
theory PlanGraph
  imports LibGraph Config
begin

text \<open>
  The dependency view of the plan, \<open>web/src/features/plan/graph.ts\<close>: the edges that close a circle,
  the column of each ticket by longest path, the rows within a column, and the whole layout. The two
  loops of the source are functions with a proof that they end. A lookup the source asserts to be
  there with \<open>!\<close> answers \<^const>\<open>None\<close> for the whole function where it is not, since using it raises.
\<close>

section \<open>Keys\<close>

record GraphEdge =
  ge_id :: string
  ge_from :: string
  ge_to :: string

record LaidEdge =
  laid_edge :: GraphEdge
  laid_path :: string
  laid_handle :: Point
  laid_cycle :: bool

record GraphLayout =
  layout_nodes :: "(string \<times> Rect) list"
  layout_edges :: "LaidEdge list"
  layout_width :: real
  layout_height :: real
  layout_unlinkedTop :: "real option"

text \<open>The text before the last hyphen and the number after it; a key without one loses its last unit.\<close>

definition split_key :: "string \<Rightarrow> string \<times> real" where
  "split_key key =
     (let num = rev (takeWhile (\<lambda>c. c \<noteq> CHR ''-'') (rev key));
          project = (if CHR ''-'' \<in> set key then take (length key - length num - 1) key else butlast key)
      in (project, case read_number num of Fin n \<Rightarrow> n | _ \<Rightarrow> 0))"

definition keyOrder :: "(string \<Rightarrow> string \<Rightarrow> real) \<Rightarrow> string \<Rightarrow> string \<Rightarrow> real" where
  "keyOrder lc = cmp_or (\<lambda>a b. lc (fst (split_key a)) (fst (split_key b)))
     (cmp_or (\<lambda>a b. snd (split_key a) - snd (split_key b)) lc)"

section \<open>Edges that close a circle\<close>

datatype mark = OpenMark | DoneMark

text \<open>One unvisited ticket weighs more than it adds to the stack, which is why the walk ends.\<close>

definition entry_weight :: "(string \<times> GraphEdge list) list \<Rightarrow> string \<times> nat \<Rightarrow> nat" where
  "entry_weight out en = (case map_of out (fst en) of None \<Rightarrow> 1 | Some es \<Rightarrow> 2 * (length es - snd en) + 1)"

definition fresh_weight :: "(string \<times> GraphEdge list) list \<Rightarrow> (string \<times> mark) list \<Rightarrow> nat" where
  "fresh_weight out st = sum_list (map (\<lambda>(k, es). if map_of st k = None then 2 * length es + 2 else 0) out)"

lemma fresh_weight_mono: "fresh_weight out (AList.update k v st) \<le> fresh_weight out st"
  unfolding fresh_weight_def by (induction out) auto

lemma fresh_weight_drop:
  "map_of out k = Some es \<Longrightarrow> map_of st k = None \<Longrightarrow>
   fresh_weight out (AList.update k v st) + (2 * length es + 2) \<le> fresh_weight out st"
  using fresh_weight_mono [of _ k v st]
  by (induction out) (auto simp: fresh_weight_def split: if_splits)

function dfs :: "(string \<times> GraphEdge list) list \<Rightarrow> (string \<times> mark) list \<Rightarrow> string set \<Rightarrow> (string \<times> nat) list
    \<Rightarrow> ((string \<times> mark) list \<times> string set) option" where
  "dfs out st back [] = Some (st, back)"
| "dfs out st back ((k, n) # stack) =
     (case map_of out k of
        None \<Rightarrow> None
      | Some es \<Rightarrow>
          if length es \<le> n then dfs out (AList.update k DoneMark st) back stack
          else let e = es ! n in
            (case map_of st (ge_to e) of
               Some OpenMark \<Rightarrow> dfs out st (insert (ge_id e) back) ((k, n + 1) # stack)
             | Some DoneMark \<Rightarrow> dfs out st back ((k, n + 1) # stack)
             | None \<Rightarrow> dfs out (AList.update (ge_to e) OpenMark st) back ((ge_to e, 0) # (k, n + 1) # stack)))"
  by pat_completeness auto

lemma dfs_push_lighter:
  assumes "map_of out k = Some es" "\<not> length es \<le> n" "map_of st t = None"
  shows "fresh_weight out (AList.update t OpenMark st) + (entry_weight out (t, 0) + entry_weight out (k, Suc n))
    < fresh_weight out st + entry_weight out (k, n)"
proof -
  have top: "entry_weight out (k, Suc n) + 2 = entry_weight out (k, n)"
    using assms(1,2) by (simp add: entry_weight_def)
  show ?thesis
  proof (cases "map_of out t")
    case None
    then show ?thesis using top fresh_weight_mono [of out t OpenMark st] by (simp add: entry_weight_def)
  next
    case (Some ts)
    then show ?thesis using top fresh_weight_drop [OF Some assms(3), of OpenMark] by (simp add: entry_weight_def)
  qed
qed

termination dfs
proof (relation "measure (\<lambda>(out, st, back, stack). fresh_weight out st + sum_list (map (entry_weight out) stack))",
    goal_cases)
  case (2 out st bk k n stack es)
  then show ?case using fresh_weight_mono [of out k DoneMark st] by (simp add: entry_weight_def)
next
  case (4 out st bk k n stack es e)
  then show ?case by (simp add: entry_weight_def)
next
  case (5 out st bk k n stack es e)
  then show ?case by (simp add: entry_weight_def)
next
  case (3 out st bk k n stack es e)
  then show ?case using dfs_push_lighter [of out k es n st "ge_to e"] by simp
qed simp_all

definition mark_from :: "(string \<times> GraphEdge list) list \<Rightarrow> ((string \<times> mark) list \<times> string set) option \<Rightarrow> string
    \<Rightarrow> ((string \<times> mark) list \<times> string set) option" where
  "mark_from out acc start = (case acc of
      None \<Rightarrow> None
    | Some (st, back) \<Rightarrow>
        if map_of st start \<noteq> None then Some (st, back)
        else dfs out (AList.update start OpenMark st) back [(start, 0)])"

definition markBackEdges :: "string list \<Rightarrow> (string \<times> GraphEdge list) list \<Rightarrow> string set option" where
  "markBackEdges keys out = map_option snd (foldl (mark_from out) (Some ([], {})) keys)"

section \<open>Columns\<close>

definition indegrees :: "string list \<Rightarrow> GraphEdge list \<Rightarrow> (string \<times> int) list" where
  "indegrees keys forward =
     foldl (\<lambda>ind e. AList.update (ge_to e) ((case map_of ind (ge_to e) of Some i \<Rightarrow> i | None \<Rightarrow> 0) + 1) ind)
       (map (\<lambda>k. (k, 0)) keys) forward"

definition targets :: "string list \<Rightarrow> GraphEdge list \<Rightarrow> (string \<times> string list) list" where
  "targets keys forward = map (\<lambda>k. (k, map ge_to (filter (\<lambda>e. ge_from e = k) forward))) keys"

definition layer_of :: "(string \<times> nat) list \<Rightarrow> string \<Rightarrow> nat" where
  "layer_of lay k = (case map_of lay k of Some l \<Rightarrow> l | None \<Rightarrow> 0)"

text \<open>
  One turn of the inner loop. An in-degree that is not there would become NaN, which is never zero.
\<close>

definition relax :: "string \<Rightarrow> (string \<times> int) list \<times> (string \<times> nat) list \<times> string list \<Rightarrow> string
    \<Rightarrow> (string \<times> int) list \<times> (string \<times> nat) list \<times> string list" where
  "relax k acc t = (case acc of (ind, lay, queue) \<Rightarrow>
     let lay = AList.update t (max (layer_of lay t) (layer_of lay k + 1)) lay
     in case map_of ind t of
        None \<Rightarrow> (ind, lay, queue)
      | Some i \<Rightarrow> (AList.update t (i - 1) ind, lay, if i - 1 = 0 then queue @ [t] else queue))"

definition work_left :: "(string \<times> int) list \<Rightarrow> nat" where
  "work_left ind = sum_list (map (\<lambda>(k, i). nat i) ind)"

lemma work_left_update:
  "map_of ind t = Some i \<Longrightarrow> work_left (AList.update t j ind) + nat i = work_left ind + nat j"
  by (induction ind) (auto simp: work_left_def)

lemma relax_work:
  "relax k (ind, lay, queue) t = (ind', lay', queue') \<Longrightarrow>
   work_left ind' + length queue' \<le> work_left ind + length queue"
  using work_left_update [of ind t _ "the (map_of ind t) - 1"]
  by (auto simp: relax_def Let_def split: option.splits if_splits)

lemma relaxes_work:
  "foldl (relax k) (ind, lay, queue) ts = (ind', lay', queue') \<Longrightarrow>
   work_left ind' + length queue' \<le> work_left ind + length queue"
proof (induction ts arbitrary: ind lay queue)
  case (Cons t ts)
  obtain i l q where r: "relax k (ind, lay, queue) t = (i, l, q)" by (cases "relax k (ind, lay, queue) t") auto
  with Cons.IH [of i l q] Cons.prems relax_work [OF r] show ?case by simp
qed simp

function kahn :: "(string \<times> string list) list \<Rightarrow> (string \<times> int) list \<Rightarrow> (string \<times> nat) list \<Rightarrow> string list
    \<Rightarrow> (string \<times> nat) list option" where
  "kahn out ind lay [] = Some lay"
| "kahn out ind lay (k # queue) =
     (case map_of out k of
        None \<Rightarrow> None
      | Some ts \<Rightarrow>
          let r = foldl (relax k) (ind, lay, queue) ts
          in kahn out (fst r) (fst (snd r)) (snd (snd r)))"
  by pat_completeness auto

termination kahn
proof (relation "measure (\<lambda>(out, ind, lay, queue). work_left ind + length queue)", goal_cases)
  case (2 out ind lay k queue ts r)
  then show ?case
    using relaxes_work [of k ind lay queue ts "fst r" "fst (snd r)" "snd (snd r)"]
    by (simp add: case_prod_unfold)
qed simp

definition layers :: "string list \<Rightarrow> GraphEdge list \<Rightarrow> (string \<times> nat) list option" where
  "layers keys forward =
     (if \<exists>e \<in> set forward. ge_from e \<notin> set keys then None
      else let ind = indegrees keys forward; queue = filter (\<lambda>k. map_of ind k = Some 0) keys
           in kahn (targets keys forward) ind (foldl (\<lambda>lay k. AList.update k 0 lay) [] queue) queue)"

section \<open>Rows\<close>

definition settle :: "(string \<times> nat) list \<Rightarrow> string list \<Rightarrow> (string \<times> nat) list" where
  "settle rowOf xs = foldl (\<lambda>m (row, key). AList.update key row m) rowOf (List.enumerate 0 xs)"

definition columns_of :: "(string \<Rightarrow> string \<Rightarrow> real) \<Rightarrow> (string \<times> nat) list \<Rightarrow> (nat \<times> string list) list" where
  "columns_of lc layer =
     map (\<lambda>(c, xs). (c, js_sort (keyOrder lc) xs))
       (foldl (\<lambda>cols (key, c). AList.update c ((case map_of cols c of Some xs \<Rightarrow> xs | None \<Rightarrow> []) @ [key]) cols) [] layer)"

definition row_at :: "(string \<times> nat) list \<Rightarrow> string \<Rightarrow> real" where
  "row_at rowOf k = (case map_of rowOf k of Some r \<Rightarrow> real r | None \<Rightarrow> 0)"

definition row_centre :: "GraphEdge list \<Rightarrow> (string \<times> nat) list \<Rightarrow> string \<Rightarrow> real" where
  "row_centre forward rowOf key =
     (let above = map ge_from (filter (\<lambda>e. ge_to e = key) forward)
      in if above = [] then row_at rowOf key
         else foldl (\<lambda>sum p. sum + row_at rowOf p) 0 above / real (length above))"

definition sweep_column :: "(string \<Rightarrow> string \<Rightarrow> real) \<Rightarrow> GraphEdge list
    \<Rightarrow> (nat \<times> string list) list \<times> (string \<times> nat) list \<Rightarrow> nat \<Rightarrow> (nat \<times> string list) list \<times> (string \<times> nat) list" where
  "sweep_column lc forward acc column = (case acc of (cols, rowOf) \<Rightarrow>
     case map_of cols column of
       None \<Rightarrow> (cols, rowOf)
     | Some xs \<Rightarrow>
         let ys = js_sort (cmp_or (\<lambda>a b. row_centre forward rowOf a - row_centre forward rowOf b) (keyOrder lc)) xs
         in (AList.update column ys cols, settle rowOf ys))"

definition order_rows :: "(string \<Rightarrow> string \<Rightarrow> real) \<Rightarrow> (string \<times> nat) list \<Rightarrow> GraphEdge list
    \<Rightarrow> (string \<times> (nat \<times> nat)) list" where
  "order_rows lc layer forward =
     (let cols = columns_of lc layer;
          rowOf = foldl settle [] (map snd cols);
          depth = foldl max 0 (map fst cols);
          sweep = (\<lambda>acc. foldl (sweep_column lc forward) acc [1..<depth + 1]);
          cols = fst (sweep (sweep (cols, rowOf)))
      in put_all [] (concat (map (\<lambda>(c, xs). map (\<lambda>(row, key). (key, (c, row))) (List.enumerate 0 xs)) cols)))"

section \<open>The layout\<close>

definition linked_rect :: "nat \<times> nat \<Rightarrow> Rect" where
  "linked_rect cr = \<lparr>rect_x = GRAPH_ORIGIN + real (fst cr) * (GRAPH_NODE_WIDTH + GRAPH_COLUMN_GAP),
     rect_y = GRAPH_ORIGIN + real (snd cr) * (GRAPH_NODE_HEIGHT + GRAPH_ROW_GAP),
     rect_width = GRAPH_NODE_WIDTH, rect_height = GRAPH_NODE_HEIGHT\<rparr>"

definition grid_rect :: "real \<Rightarrow> nat \<Rightarrow> nat \<Rightarrow> Rect" where
  "grid_rect utop perRow i = \<lparr>rect_x = GRAPH_ORIGIN + real (i mod perRow) * (GRAPH_NODE_WIDTH + GRAPH_ROW_GAP),
     rect_y = utop + GRAPH_SECTION_GAP / 2 + real (i div perRow) * (GRAPH_NODE_HEIGHT + GRAPH_ROW_GAP),
     rect_width = GRAPH_NODE_WIDTH, rect_height = GRAPH_NODE_HEIGHT\<rparr>"

definition graph_keys :: "(string \<Rightarrow> string \<Rightarrow> real) \<Rightarrow> string list \<Rightarrow> string list" where
  "graph_keys lc nodes = js_sort (keyOrder lc) (uniq nodes)"

definition usable_edges :: "string list \<Rightarrow> GraphEdge list \<Rightarrow> GraphEdge list" where
  "usable_edges keys edges =
     filter (\<lambda>e. ge_from e \<in> set keys \<and> ge_to e \<in> set keys \<and> ge_from e \<noteq> ge_to e) edges"

definition out_edges :: "(string \<Rightarrow> string \<Rightarrow> real) \<Rightarrow> string list \<Rightarrow> GraphEdge list \<Rightarrow> (string \<times> GraphEdge list) list" where
  "out_edges lc keys usable =
     map (\<lambda>k. (k, js_sort (\<lambda>a b. keyOrder lc (ge_to a) (ge_to b)) (filter (\<lambda>e. ge_from e = k) usable))) keys"

definition linked_keys :: "string list \<Rightarrow> GraphEdge list \<Rightarrow> string list" where
  "linked_keys keys usable = filter (\<lambda>k. \<exists>e \<in> set usable. ge_from e = k \<or> ge_to e = k) keys"

definition lay_edge :: "(string \<times> Rect) list \<Rightarrow> (string \<times> real) list \<Rightarrow> string set \<Rightarrow> GraphEdge \<Rightarrow> LaidEdge option" where
  "lay_edge rects bent back e =
     (case (map_of rects (ge_from e), map_of rects (ge_to e)) of
        (Some a, Some b) \<Rightarrow>
          let shape = edgeShape a b (case map_of bent (ge_id e) of Some x \<Rightarrow> x | None \<Rightarrow> 0)
          in Some \<lparr>laid_edge = e, laid_path = shape_path shape, laid_handle = shape_label shape,
               laid_cycle = (ge_id e \<in> back)\<rparr>
      | _ \<Rightarrow> None)"

definition layoutGraph :: "(string \<Rightarrow> string \<Rightarrow> real) \<Rightarrow> string list \<Rightarrow> GraphEdge list \<Rightarrow> nat \<Rightarrow> GraphLayout option" where
  "layoutGraph lc nodes edges columns =
     (let keys = graph_keys lc nodes;
          usable = usable_edges keys edges;
          out = out_edges lc keys usable
      in Option.bind (markBackEdges keys out) (\<lambda>back.
         let forward = filter (\<lambda>e. ge_id e \<notin> back) usable;
             linked = linked_keys keys usable
         in Option.bind (layers linked forward) (\<lambda>layer.
            let rows = order_rows lc layer forward;
                rects = put_all [] (map (\<lambda>(key, cr). (key, linked_rect cr)) rows);
                rowsUsed = foldl (\<lambda>m (key, cr). max m (snd cr + 1)) 0 rows;
                unlinked = filter (\<lambda>k. k \<notin> set linked) keys;
                perRow = max GRAPH_MIN_GRID_COLUMNS columns;
                utop = (if 0 < rowsUsed
                       then GRAPH_ORIGIN + real rowsUsed * (GRAPH_NODE_HEIGHT + GRAPH_ROW_GAP) + GRAPH_SECTION_GAP
                       else GRAPH_ORIGIN);
                rects = put_all rects (map (\<lambda>(i, key). (key, grid_rect utop perRow i)) (List.enumerate 0 unlinked));
                bent = bends (map (\<lambda>e. \<lparr>conn_key = ge_id e, conn_from = ge_from e, conn_to = ge_to e\<rparr>) usable) GRAPH_EDGE_BEND;
                right = foldl max GRAPH_ORIGIN (map (\<lambda>(k, r). rect_x r + rect_width r) rects);
                bottom = foldl max GRAPH_ORIGIN (map (\<lambda>(k, r). rect_y r + rect_height r) rects)
            in map_option (\<lambda>laid. \<lparr>layout_nodes = rects, layout_edges = laid, layout_width = right + GRAPH_ORIGIN,
                 layout_height = bottom + GRAPH_ORIGIN,
                 layout_unlinkedTop = (if unlinked = [] then None else Some utop)\<rparr>)
               (those (map (lay_edge rects bent back) usable)))))"

end
