(* ===== verification/GraphWalk.thy ===== *)
theory GraphWalk
  imports PlanGraph
begin

text \<open>
  The two walks of the dependency view do what they are for: the depth-first one of
  \<^const>\<open>markBackEdges\<close> ends with an order in which every edge that is left leads to something finished
  earlier, so what is left has no circle, and it leaves out only edges that close one; the
  breadth-first one of \<^const>\<open>layers\<close> reaches every ticket and puts each one column past the furthest
  thing it waits on.
\<close>

section \<open>The depth-first walk\<close>

definition outs :: "(string \<times> GraphEdge list) list \<Rightarrow> string \<Rightarrow> GraphEdge list" where
  "outs out k = (case map_of out k of Some es \<Rightarrow> es | None \<Rightarrow> [])"

text \<open>The finished tickets, the last one first.\<close>

fun topo :: "(string \<times> GraphEdge list) list \<Rightarrow> string set \<Rightarrow> string list \<Rightarrow> bool" where
  "topo out bk [] = True"
| "topo out bk (u # fin) = ((\<forall>e \<in> set (outs out u). ge_id e \<in> bk \<or> ge_to e \<in> set fin)
     \<and> u \<notin> set fin \<and> topo out bk fin)"

fun stack_ok :: "(string \<times> GraphEdge list) list \<Rightarrow> string set \<Rightarrow> string set \<Rightarrow> string option \<Rightarrow> (string \<times> nat) list \<Rightarrow> bool" where
  "stack_ok out bk D up [] = True"
| "stack_ok out bk D up ((k, n) # stack) =
     (n \<le> length (outs out k)
      \<and> (\<forall>e \<in> set (take n (outs out k)). ge_id e \<in> bk \<or> ge_to e \<in> D \<or> Some (ge_to e) = up)
      \<and> (\<forall>a. up = Some a \<longrightarrow> (\<exists>e \<in> set (outs out k). ge_to e = a))
      \<and> stack_ok out bk D (Some k) stack)"

definition walk_inv :: "(string \<times> GraphEdge list) list \<Rightarrow> (string \<times> mark) list \<Rightarrow> string set \<Rightarrow> (string \<times> nat) list \<Rightarrow> bool" where
  "walk_inv out st bk stack \<longleftrightarrow> (\<exists>fin. topo out bk fin
     \<and> (\<forall>k. map_of st k = Some DoneMark \<longleftrightarrow> k \<in> set fin)
     \<and> (\<forall>k. map_of st k = Some OpenMark \<longleftrightarrow> k \<in> fst ` set stack)
     \<and> distinct (map fst stack) \<and> stack_ok out bk (set fin) None stack)"

lemma walk_invI:
  assumes "topo out bk fin" "\<And>k. map_of st k = Some DoneMark \<longleftrightarrow> k \<in> set fin"
    "\<And>k. map_of st k = Some OpenMark \<longleftrightarrow> k \<in> fst ` set stack" "distinct (map fst stack)"
    "stack_ok out bk (set fin) None stack"
  shows "walk_inv out st bk stack"
  unfolding walk_inv_def using assms by blast

lemma walk_invE:
  assumes "walk_inv out st bk stack"
  obtains fin where "topo out bk fin" "\<And>k. map_of st k = Some DoneMark \<longleftrightarrow> k \<in> set fin"
    "\<And>k. map_of st k = Some OpenMark \<longleftrightarrow> k \<in> fst ` set stack" "distinct (map fst stack)"
    "stack_ok out bk (set fin) None stack"
  using assms unfolding walk_inv_def by blast

definition edge_rel :: "(string \<times> GraphEdge list) list \<Rightarrow> (string \<times> string) set" where
  "edge_rel out = {(k, ge_to e) | k e. e \<in> set (outs out k)}"

definition closes :: "(string \<times> GraphEdge list) list \<Rightarrow> string set \<Rightarrow> bool" where
  "closes out bk \<longleftrightarrow> (\<forall>i \<in> bk. \<exists>k e. e \<in> set (outs out k) \<and> ge_id e = i \<and> (ge_to e, k) \<in> (edge_rel out)\<^sup>*)"

lemma topo_mono: "topo out bk fin \<Longrightarrow> bk \<subseteq> bk' \<Longrightarrow> topo out bk' fin"
  by (induction fin) auto

lemma stack_ok_mono:
  "stack_ok out bk D up stack \<Longrightarrow> bk \<subseteq> bk' \<Longrightarrow> D \<subseteq> D' \<Longrightarrow> stack_ok out bk' D' up stack"
  by (induction out bk D up stack rule: stack_ok.induct) auto

text \<open>When the ticket above is finished, the one below it needs it no more.\<close>

lemma stack_ok_done:
  "stack_ok out bk D (Some a) stack \<Longrightarrow> stack_ok out bk (insert a D) None stack"
proof (cases stack)
  case (Cons kn stack')
  assume "stack_ok out bk D (Some a) stack"
  then show ?thesis using Cons stack_ok_mono [of out bk D _ stack' bk "insert a D"] by (cases kn) auto
qed simp

lemma stack_reaches:
  "stack_ok out bk D (Some a) stack \<Longrightarrow> k \<in> fst ` set stack \<Longrightarrow> (k, a) \<in> (edge_rel out)\<^sup>*"
proof (induction stack arbitrary: a)
  case (Cons kn stack)
  obtain j n where kn: "kn = (j, n)" by (cases kn)
  then have ja: "(j, a) \<in> edge_rel out" using Cons.prems(1) by (auto simp: edge_rel_def)
  show ?case
  proof (cases "k = j")
    case True
    then show ?thesis using ja by auto
  next
    case False
    then have "(k, j) \<in> (edge_rel out)\<^sup>*" using Cons kn by auto
    then show ?thesis using ja by (rule rtrancl_into_rtrancl)
  qed
qed simp

lemma take_Suc_set: "n < length xs \<Longrightarrow> set (take (Suc n) xs) = insert (xs ! n) (set (take n xs))"
  by (simp add: take_Suc_conv_app_nth)

lemma walk_pop:
  assumes "walk_inv out st bk ((k, n) # stack)" "length (outs out k) \<le> n"
  shows "walk_inv out (AList.update k DoneMark st) bk stack"
proof -
  from assms(1) obtain fin where fin: "topo out bk fin" "\<And>j. map_of st j = Some DoneMark \<longleftrightarrow> j \<in> set fin"
    "\<And>j. map_of st j = Some OpenMark \<longleftrightarrow> j \<in> fst ` set ((k, n) # stack)"
    "distinct (map fst ((k, n) # stack))" "stack_ok out bk (set fin) None ((k, n) # stack)"
    by (rule walk_invE) blast
  have "k \<notin> set fin" using fin(2) [of k] fin(3) [of k] by simp
  then have "topo out bk (k # fin)" using fin(1,5) assms(2) by auto
  moreover have "stack_ok out bk (set (k # fin)) None stack" using fin(5) stack_ok_done by simp
  moreover have "k \<notin> fst ` set stack" using fin(4) by simp
  ultimately show ?thesis using fin(2-4) by (intro walk_invI [of out bk "k # fin"]) auto
qed

lemma walk_push:
  assumes "walk_inv out st bk ((k, n) # stack)" "n < length (outs out k)" "t = ge_to (outs out k ! n)" "map_of st t = None"
  shows "walk_inv out (AList.update t OpenMark st) bk ((t, 0) # (k, Suc n) # stack)"
proof -
  from assms(1) obtain fin where fin: "topo out bk fin" "\<And>j. map_of st j = Some DoneMark \<longleftrightarrow> j \<in> set fin"
    "\<And>j. map_of st j = Some OpenMark \<longleftrightarrow> j \<in> fst ` set ((k, n) # stack)"
    "distinct (map fst ((k, n) # stack))" "stack_ok out bk (set fin) None ((k, n) # stack)"
    by (rule walk_invE) blast
  have "t \<notin> set fin" "t \<notin> fst ` set ((k, n) # stack)"
    using fin(2) [of t] fin(3) [of t] assms(4) by simp_all
  moreover have "\<exists>e \<in> set (outs out k). ge_to e = t" using assms(2,3) by auto
  moreover have "\<forall>e \<in> set (take (Suc n) (outs out k)). ge_id e \<in> bk \<or> ge_to e \<in> set fin \<or> Some (ge_to e) = Some t"
    using fin(5) assms(2,3) by (auto simp: take_Suc_set)
  ultimately show ?thesis using fin assms(2) by (intro walk_invI [of out bk fin]) auto
qed

lemma walk_next:
  assumes "walk_inv out st bk ((k, n) # stack)" "n < length (outs out k)" "bk \<subseteq> bk'"
    and "ge_id (outs out k ! n) \<in> bk' \<or> map_of st (ge_to (outs out k ! n)) = Some DoneMark"
  shows "walk_inv out st bk' ((k, Suc n) # stack)"
proof -
  from assms(1) obtain fin where fin: "topo out bk fin" "\<And>j. map_of st j = Some DoneMark \<longleftrightarrow> j \<in> set fin"
    "\<And>j. map_of st j = Some OpenMark \<longleftrightarrow> j \<in> fst ` set ((k, n) # stack)"
    "distinct (map fst ((k, n) # stack))" "stack_ok out bk (set fin) None ((k, n) # stack)"
    by (rule walk_invE) blast
  have "stack_ok out bk' (set fin) None ((k, Suc n) # stack)"
    using fin(5,2) assms(2-4) stack_ok_mono [of out bk "set fin" "Some k" stack bk' "set fin"]
    by (auto simp: take_Suc_set)
  then show ?thesis using fin(2-4) topo_mono [OF fin(1) assms(3)] by (intro walk_invI [of out bk' fin]) auto
qed

lemma open_on_stack: "walk_inv out st bk stack \<Longrightarrow> map_of st t = Some OpenMark \<Longrightarrow> t \<in> fst ` set stack"
  by (auto simp: walk_inv_def)

lemma closes_insert:
  assumes "walk_inv out st bk ((k, n) # stack)" "closes out bk" "n < length (outs out k)"
    "map_of st (ge_to (outs out k ! n)) = Some OpenMark"
  shows "closes out (insert (ge_id (outs out k ! n)) bk)"
proof -
  let ?e = "outs out k ! n"
  have "(ge_to ?e, k) \<in> (edge_rel out)\<^sup>*"
    using assms(1) open_on_stack [OF assms(1,4)] stack_reaches [of out bk _ k stack "ge_to ?e"]
    by (auto simp: walk_inv_def)
  moreover have "?e \<in> set (outs out k)" using assms(3) by simp
  ultimately show ?thesis using assms(2) unfolding closes_def by blast
qed

lemma dfs_steps:
  assumes "map_of out k = Some es" "\<not> length es \<le> n"
  shows "map_of st (ge_to (es ! n)) = Some OpenMark \<Longrightarrow>
      dfs out st bk ((k, n) # stack) = dfs out st (insert (ge_id (es ! n)) bk) ((k, n + 1) # stack)"
    "map_of st (ge_to (es ! n)) = Some DoneMark \<Longrightarrow>
      dfs out st bk ((k, n) # stack) = dfs out st bk ((k, n + 1) # stack)"
  using assms by (simp_all only: dfs.simps(2) [of out st bk k n] option.case mark.case if_False Let_def)

lemma dfs_correct:
  assumes "\<forall>k. \<forall>e \<in> set (outs out k). map_of out (ge_to e) \<noteq> None"
    and "walk_inv out st bk stack" "closes out bk" "\<forall>k \<in> fst ` set stack. map_of out k \<noteq> None"
  shows "\<exists>st' bk'. dfs out st bk stack = Some (st', bk') \<and> walk_inv out st' bk' [] \<and> closes out bk'
    \<and> (\<forall>k. map_of st k \<noteq> None \<longrightarrow> map_of st' k \<noteq> None)"
  using assms
proof (induction out st bk stack rule: dfs.induct)
  case (2 out st bk k n stack)
  then obtain es where es: "map_of out k = Some es" by auto
  then have o: "outs out k = es" by (simp add: outs_def)
  show ?case
  proof (cases "length es \<le> n")
    case True
    have "walk_inv out (AList.update k DoneMark st) bk stack" using walk_pop 2(6) True o by blast
    from 2(1) [OF es True 2(5) this 2(7)] 2(8)
    obtain st' bk' where r: "dfs out (AList.update k DoneMark st) bk stack = Some (st', bk')" "walk_inv out st' bk' []"
      "closes out bk'" "\<And>j. map_of (AList.update k DoneMark st) j \<noteq> None \<Longrightarrow> map_of st' j \<noteq> None" by auto
    have "dfs out st bk ((k, n) # stack) = Some (st', bk')" using r(1) es True by simp
    moreover have "map_of st' j \<noteq> None" if "map_of st j \<noteq> None" for j using r(4) [of j] that by simp
    ultimately show ?thesis using r(2,3) by blast
  next
    case False
    let ?e = "es ! n"
    have t: "map_of out (ge_to ?e) \<noteq> None" using 2(5) False o by (metis not_le nth_mem)
    show ?thesis
    proof (cases "map_of st (ge_to ?e)")
      case None
      have "walk_inv out (AList.update (ge_to ?e) OpenMark st) bk ((ge_to ?e, 0) # (k, n + 1) # stack)"
        using walk_push [OF 2(6), of "ge_to ?e"] False None o by simp
      from 2(2) [OF es False refl None 2(5) this 2(7)] 2(8) t
      obtain st' bk' where r: "dfs out (AList.update (ge_to ?e) OpenMark st) bk ((ge_to ?e, 0) # (k, n + 1) # stack)
          = Some (st', bk')" "walk_inv out st' bk' []" "closes out bk'"
        "\<And>j. map_of (AList.update (ge_to ?e) OpenMark st) j \<noteq> None \<Longrightarrow> map_of st' j \<noteq> None" by auto
      have "dfs out st bk ((k, n) # stack) = Some (st', bk')" using r(1) es False None by simp
      moreover have "map_of st' j \<noteq> None" if "map_of st j \<noteq> None" for j using r(4) [of j] that by simp
      ultimately show ?thesis using r(2,3) by blast
    next
      case (Some m)
      show ?thesis
      proof (cases m)
        case OpenMark
        have "walk_inv out st (insert (ge_id ?e) bk) ((k, n + 1) # stack)"
          using walk_next [OF 2(6), of "insert (ge_id ?e) bk"] False o by auto
        moreover have "closes out (insert (ge_id ?e) bk)"
          using closes_insert [OF 2(6,7)] False Some OpenMark o by simp
        moreover have "\<forall>j \<in> fst ` set ((k, n + 1) # stack). map_of out j \<noteq> None" using 2(8) by simp
        ultimately show ?thesis
          unfolding dfs_steps(1) [OF es False Some [unfolded OpenMark]]
          using 2(3) [OF es False refl Some OpenMark 2(5)] by blast
      next
        case DoneMark
        have "walk_inv out st bk ((k, n + 1) # stack)"
          using walk_next [OF 2(6), of bk] False Some DoneMark o by auto
        moreover have "\<forall>j \<in> fst ` set ((k, n + 1) # stack). map_of out j \<noteq> None" using 2(8) by simp
        ultimately show ?thesis
          unfolding dfs_steps(2) [OF es False Some [unfolded DoneMark]]
          using 2(4) [OF es False refl Some DoneMark 2(5) _ 2(7)] by blast
      qed
    qed
  qed
qed auto

lemma marks_fold:
  assumes "\<forall>k. \<forall>e \<in> set (outs out k). map_of out (ge_to e) \<noteq> None" "\<forall>k \<in> set keys. map_of out k \<noteq> None"
  shows "\<exists>st bk. foldl (mark_from out) (Some ([], {})) keys = Some (st, bk) \<and> walk_inv out st bk [] \<and> closes out bk
    \<and> (\<forall>k \<in> set keys. map_of st k \<noteq> None)"
  using assms(2)
proof (induction keys rule: rev_induct)
  case Nil
  show ?case by (auto simp: walk_inv_def closes_def intro: exI [of _ "[]"])
next
  case (snoc s keys)
  then obtain st bk where r: "foldl (mark_from out) (Some ([], {})) keys = Some (st, bk)" "walk_inv out st bk []"
    "closes out bk" "\<forall>k \<in> set keys. map_of st k \<noteq> None" by auto
  show ?case
  proof (cases "map_of st s")
    case None
    from r(2) obtain fin where "topo out bk fin" "\<And>k. map_of st k = Some DoneMark \<longleftrightarrow> k \<in> set fin"
      "\<And>k. map_of st k = Some OpenMark \<longleftrightarrow> k \<in> fst ` set ([] :: (string \<times> nat) list)" by (rule walk_invE) blast
    moreover from this None have "s \<notin> set fin" by (metis option.distinct(1))
    ultimately have w: "walk_inv out (AList.update s OpenMark st) bk [(s, 0)]"
      by (intro walk_invI [of out bk fin]) auto
    have "\<forall>k \<in> fst ` set [(s, 0 :: nat)]. map_of out k \<noteq> None" using snoc.prems by simp
    from dfs_correct [OF assms(1) w r(3) this]
    obtain st' bk' where d: "dfs out (AList.update s OpenMark st) bk [(s, 0)] = Some (st', bk')" "walk_inv out st' bk' []"
      "closes out bk'" "\<And>k. map_of (AList.update s OpenMark st) k \<noteq> None \<Longrightarrow> map_of st' k \<noteq> None" by blast
    have f: "foldl (mark_from out) (Some ([], {})) (keys @ [s]) = Some (st', bk')"
      using r(1) None d(1) by (simp add: mark_from_def del: dfs.simps)
    have "map_of st' k \<noteq> None" if "k \<in> set (keys @ [s])" for k
      using that r(4) d(4) [of k] by auto
    then show ?thesis using f d(2,3) by blast
  next
    case (Some m)
    have "foldl (mark_from out) (Some ([], {})) (keys @ [s]) = Some (st, bk)" using r(1) Some by (simp add: mark_from_def)
    then show ?thesis using r Some by auto
  qed
qed

lemma marks_correct:
  assumes "\<forall>k. \<forall>e \<in> set (outs out k). map_of out (ge_to e) \<noteq> None" "\<forall>k \<in> set keys. map_of out k \<noteq> None"
  shows "\<exists>bk fin. markBackEdges keys out = Some bk \<and> topo out bk fin \<and> set keys \<subseteq> set fin \<and> closes out bk"
proof -
  obtain st bk where r: "foldl (mark_from out) (Some ([], {})) keys = Some (st, bk)" "walk_inv out st bk []"
    "closes out bk" "\<forall>k \<in> set keys. map_of st k \<noteq> None" using marks_fold [OF assms] by blast
  from r(2) obtain fin where fin: "topo out bk fin" "\<And>k. map_of st k = Some DoneMark \<longleftrightarrow> k \<in> set fin"
    "\<And>k. map_of st k = Some OpenMark \<longleftrightarrow> k \<in> fst ` set ([] :: (string \<times> nat) list)" by (rule walk_invE) blast
  have "k \<in> set fin" if k: "k \<in> set keys" for k
  proof -
    obtain m where "map_of st k = Some m" using r(4) k by auto
    then show ?thesis using fin(2,3) [of k] by (cases m) auto
  qed
  then show ?thesis using r fin(1) by (auto simp: markBackEdges_def)
qed

text \<open>The place of a ticket in the order of finishing, counted from the first that finished.\<close>

definition place :: "string list \<Rightarrow> string \<Rightarrow> nat" where
  "place fin k = length (dropWhile (\<lambda>x. x \<noteq> k) fin)"

lemma place_le: "place fin k \<le> length fin"
  by (simp add: place_def length_dropWhile_le)

lemma topo_target:
  "topo out bk fin \<Longrightarrow> u \<in> set fin \<Longrightarrow> e \<in> set (outs out u) \<Longrightarrow> ge_id e \<notin> bk \<Longrightarrow> ge_to e \<in> set fin"
  by (induction fin) auto

lemma topo_place:
  "topo out bk fin \<Longrightarrow> u \<in> set fin \<Longrightarrow> e \<in> set (outs out u) \<Longrightarrow> ge_id e \<notin> bk \<Longrightarrow> place fin (ge_to e) < place fin u"
proof (induction fin)
  case (Cons v fin)
  show ?case
  proof (cases "u = v")
    case True
    then have t: "ge_to e \<in> set fin" "ge_to e \<noteq> v" using Cons.prems by auto
    then have "place (v # fin) (ge_to e) = place fin (ge_to e)" by (auto simp: place_def)
    then show ?thesis using True place_le [of fin "ge_to e"] by (simp add: place_def)
  next
    case False
    then have u: "u \<in> set fin" using Cons.prems by simp
    then have IH: "place fin (ge_to e) < place fin u" using Cons by simp
    have "ge_to e \<noteq> v"
    proof
      assume v: "ge_to e = v"
      have "v \<notin> set fin" using Cons.prems(1) by simp
      moreover have "ge_to e \<in> set fin" using topo_target [of out bk fin u e] Cons.prems u by simp
      ultimately show False using v by simp
    qed
    then show ?thesis using IH False by (simp add: place_def)
  qed
qed simp

section \<open>The breadth-first walk\<close>

text \<open>The edges into a ticket that come from outside a set.\<close>

definition waits :: "GraphEdge list \<Rightarrow> string set \<Rightarrow> string \<Rightarrow> nat" where
  "waits F P k = length (filter (\<lambda>e. ge_to e = k \<and> ge_from e \<notin> P) F)"

definition into :: "GraphEdge list \<Rightarrow> string \<Rightarrow> nat" where
  "into es k = length (filter (\<lambda>e. ge_to e = k) es)"

text \<open>
  What holds while the edges of one ticket are gone through: \<open>P\<close> has been taken off the queue, \<open>es\<close> is
  still to be gone through, and \<open>D\<close> are the edges that were.
\<close>

definition kahn_inv :: "string list \<Rightarrow> GraphEdge list \<Rightarrow> string set \<Rightarrow> GraphEdge list \<Rightarrow> GraphEdge set
    \<Rightarrow> (string \<times> int) list \<Rightarrow> (string \<times> nat) list \<Rightarrow> string list \<Rightarrow> bool" where
  "kahn_inv K F P es D ind lay q \<longleftrightarrow>
     (\<forall>j \<in> set K. map_of ind j = Some (int (waits F P j + into es j)))
     \<and> distinct q \<and> set q \<subseteq> set K \<and> P \<subseteq> set K \<and> P \<inter> set q = {}
     \<and> (\<forall>j \<in> set K. j \<in> P \<union> set q \<longleftrightarrow> waits F P j + into es j = 0)
     \<and> fst ` set lay \<subseteq> set K \<and> distinct (map fst lay) \<and> P \<union> set q \<subseteq> fst ` set lay
     \<and> (\<forall>e \<in> D. layer_of lay (ge_from e) + 1 \<le> layer_of lay (ge_to e))
     \<and> (\<forall>j \<in> set K. layer_of lay j = 0 \<or> (\<exists>e \<in> D. ge_to e = j \<and> layer_of lay j = layer_of lay (ge_from e) + 1))
     \<and> {e \<in> set F. ge_from e \<in> P} \<subseteq> D \<union> set es \<and> D \<subseteq> {e \<in> set F. ge_from e \<in> P}
     \<and> set es \<subseteq> {e \<in> set F. ge_from e \<in> P}"

lemma kahn_invD:
  assumes "kahn_inv K F P es D ind lay q"
  shows "\<forall>j \<in> set K. map_of ind j = Some (int (waits F P j + into es j))"
    "distinct q" "set q \<subseteq> set K" "P \<subseteq> set K" "P \<inter> set q = {}"
    "\<forall>j \<in> set K. j \<in> P \<union> set q \<longleftrightarrow> waits F P j + into es j = 0"
    "fst ` set lay \<subseteq> set K" "distinct (map fst lay)" "P \<union> set q \<subseteq> fst ` set lay"
    "\<forall>e \<in> D. layer_of lay (ge_from e) + 1 \<le> layer_of lay (ge_to e)"
    "\<forall>j \<in> set K. layer_of lay j = 0 \<or> (\<exists>e \<in> D. ge_to e = j \<and> layer_of lay j = layer_of lay (ge_from e) + 1)"
    "{e \<in> set F. ge_from e \<in> P} \<subseteq> D \<union> set es" "D \<subseteq> {e \<in> set F. ge_from e \<in> P}"
    "set es \<subseteq> {e \<in> set F. ge_from e \<in> P}"
  using assms unfolding kahn_inv_def by - (elim conjE, assumption)+

lemma layer_of_update [simp]:
  "layer_of (AList.update t v lay) j = (if j = t then v else layer_of lay j)"
  by (simp add: layer_of_def)

lemma relax_inv:
  assumes inv: "kahn_inv K F P (e # es) D ind lay q" and k: "ge_from e = k" "ge_to e \<in> set K" "k \<in> P"
    and r: "relax k (ind, lay, q) (ge_to e) = (ind', lay', q')"
  shows "kahn_inv K F P es (insert e D) ind' lay' q'"
proof -
  let ?t = "ge_to e"
  note I = kahn_invD [OF inv]
  have w: "waits F P ?t + into (e # es) ?t = Suc (waits F P ?t + into es ?t)" by (simp add: into_def)
  have fresh: "?t \<notin> P" "?t \<notin> set q" using I(6) k(2) w by auto
  have it: "map_of ind ?t = Some (int (waits F P ?t + into es ?t) + 1)" using I(1) k(2) w by auto
  have lay': "lay' = AList.update ?t (max (layer_of lay ?t) (layer_of lay k + 1)) lay"
    and ind': "ind' = AList.update ?t (int (waits F P ?t + into es ?t)) ind"
    and q': "q' = (if waits F P ?t + into es ?t = 0 then q @ [?t] else q)"
    using r it by (auto simp: relax_def Let_def)
  have kt: "k \<noteq> ?t" using k(3) fresh by auto
  have D: "ge_from d \<noteq> ?t" if "d \<in> insert e D" for d using that I(13) fresh k kt by auto
  have ind: "\<forall>j \<in> set K. map_of ind' j = Some (int (waits F P j + into es j))"
    using I(1) by (auto simp: ind' into_def)
  have mem: "\<forall>j \<in> set K. j \<in> P \<union> set q' \<longleftrightarrow> waits F P j + into es j = 0"
  proof
    fix j assume "j \<in> set K"
    then have "j \<in> P \<union> set q \<longleftrightarrow> waits F P j + into (e # es) j = 0" by (rule bspec [OF I(6)])
    then show "j \<in> P \<union> set q' \<longleftrightarrow> waits F P j + into es j = 0"
      using fresh by (cases "j = ?t") (auto simp: q' into_def)
  qed
  have up: "\<forall>d \<in> insert e D. layer_of lay' (ge_from d) + 1 \<le> layer_of lay' (ge_to d)"
    using I(10) D kt k(1) by (auto simp: lay' max_def)
  have at: "\<forall>j \<in> set K. layer_of lay' j = 0 \<or> (\<exists>d \<in> insert e D. ge_to d = j \<and> layer_of lay' j = layer_of lay' (ge_from d) + 1)"
  proof
    fix j assume j: "j \<in> set K"
    have old: "layer_of lay j = 0 \<or> (\<exists>d \<in> D. ge_to d = j \<and> layer_of lay j = layer_of lay (ge_from d) + 1)" using j by (rule bspec [OF I(11)])
    show "layer_of lay' j = 0 \<or> (\<exists>d \<in> insert e D. ge_to d = j \<and> layer_of lay' j = layer_of lay' (ge_from d) + 1)"
    proof (cases "j = ?t \<and> layer_of lay ?t < layer_of lay k + 1")
      case True
      then show ?thesis using k(1) kt by (auto simp: lay' max_def)
    next
      case False
      then have "layer_of lay' j = layer_of lay j" by (auto simp: lay')
      moreover have "layer_of lay' (ge_from d) = layer_of lay (ge_from d)" if "d \<in> D" for d using D that by (simp add: lay')
      ultimately show ?thesis using old by auto
    qed
  qed
  have doms: "fst ` set lay' \<subseteq> set K" "distinct (map fst lay')" "P \<union> set q' \<subseteq> fst ` set lay'"
    using I(3,4,7-9) k(2) by (auto simp: lay' q' dom_AList_update distinct_update)
  have q2: "distinct q'" "set q' \<subseteq> set K" "P \<inter> set q' = {}" using I(2-5) fresh k(2) by (auto simp: q')
  have sets: "{d \<in> set F. ge_from d \<in> P} \<subseteq> insert e D \<union> set es"
    "insert e D \<subseteq> {d \<in> set F. ge_from d \<in> P}" "set es \<subseteq> {d \<in> set F. ge_from d \<in> P}"
    using I(12-14) by auto
  show ?thesis unfolding kahn_inv_def
    by (intro conjI ind q2 mem doms up at sets I(4))
qed

lemma relaxes_inv:
  assumes "kahn_inv K F P es D ind lay q" "\<forall>e \<in> set es. ge_from e = k \<and> ge_to e \<in> set K" "k \<in> P"
    and "foldl (relax k) (ind, lay, q) (map ge_to es) = (ind', lay', q')"
  shows "kahn_inv K F P [] (D \<union> set es) ind' lay' q'"
  using assms
proof (induction es arbitrary: D ind lay q)
  case (Cons e es)
  obtain i l p where r: "relax k (ind, lay, q) (ge_to e) = (i, l, p)" by (cases "relax k (ind, lay, q) (ge_to e)") auto
  have "kahn_inv K F P es (insert e D) i l p" using relax_inv [OF Cons.prems(1) _ _ Cons.prems(3) r] Cons.prems(2) by simp
  from Cons.IH [OF this] Cons.prems(2-4) r show ?case by simp
qed simp

lemma waits_insert:
  "k \<notin> P \<Longrightarrow> waits F P j = waits F (insert k P) j + into (filter (\<lambda>e. ge_from e = k) F) j"
  by (induction F) (auto simp: waits_def into_def)

lemma map_of_targets: "k \<in> set K \<Longrightarrow> map_of (targets K F) k = Some (map ge_to (filter (\<lambda>e. ge_from e = k) F))"
  by (simp add: targets_def map_of_map_restrict)

lemma kahn_take:
  assumes inv: "kahn_inv K F P [] D ind lay (k # q)"
  shows "kahn_inv K F (insert k P) (filter (\<lambda>e. ge_from e = k) F) D ind lay q"
proof -
  note I = kahn_invD [OF inv]
  have k: "k \<notin> P" "k \<in> set K" using I(3,5) by auto
  have w: "waits F P j + into [] j = waits F (insert k P) j + into (filter (\<lambda>e. ge_from e = k) F) j" for j
    using waits_insert [OF k(1), of F j] by (simp add: into_def)
  show ?thesis unfolding kahn_inv_def
  proof (intro conjI)
    show "\<forall>j \<in> set K. map_of ind j = Some (int (waits F (insert k P) j + into (filter (\<lambda>e. ge_from e = k) F) j))"
      using I(1) by (simp only: w)
    show "\<forall>j \<in> set K. j \<in> insert k P \<union> set q \<longleftrightarrow> waits F (insert k P) j + into (filter (\<lambda>e. ge_from e = k) F) j = 0"
      using I(6) unfolding w by auto
  qed (use I k in auto)
qed

lemma kahn_correct:
  assumes "\<forall>e \<in> set F. ge_from e \<in> set K \<and> ge_to e \<in> set K" "kahn_inv K F P [] D ind lay q"
  shows "\<exists>P' D' ind' lay'. kahn (targets K F) ind lay q = Some lay' \<and> kahn_inv K F P' [] D' ind' lay' []"
  using assms(2)
proof (induction "targets K F" ind lay q arbitrary: P D rule: kahn.induct)
  case (2 ind lay k q)
  let ?es = "filter (\<lambda>e. ge_from e = k) F"
  have k: "k \<in> set K" using kahn_invD(3) [OF 2(2)] by simp
  note t = map_of_targets [OF k, of F]
  let ?r = "foldl (relax k) (ind, lay, q) (map ge_to ?es)"
  have "kahn_inv K F (insert k P) [] (D \<union> set ?es) (fst ?r) (fst (snd ?r)) (snd (snd ?r))"
    by (rule relaxes_inv [OF kahn_take [OF 2(2)], where k = k]) (use assms(1) in auto)
  from 2(1) [OF t refl this] t show ?case by (simp add: Let_def)
qed auto

lemma indegrees_of: "j \<in> set K \<Longrightarrow> map_of (indegrees K F) j = Some (int (into F j))"
proof -
  assume j: "j \<in> set K"
  have "map_of (foldl (\<lambda>ind e. AList.update (ge_to e) ((case map_of ind (ge_to e) of Some i \<Rightarrow> i | None \<Rightarrow> 0) + 1) ind) ind F) j
      = Some (i + int (into F j))" if "map_of ind j = Some i" for ind i
    using that by (induction F arbitrary: ind i) (auto simp: into_def)
  moreover have "map_of (map (\<lambda>k. (k, 0 :: int)) K) j = Some 0" using j by (simp add: map_of_map_restrict)
  ultimately show ?thesis by (simp add: indegrees_def)
qed

lemma zero_layers:
  "fst ` set (foldl (\<lambda>lay k. AList.update k 0 lay) m q) = fst ` set m \<union> set q"
  "distinct (map fst m) \<Longrightarrow> distinct (map fst (foldl (\<lambda>lay k. AList.update k 0 lay) m q))"
  "\<forall>j. layer_of m j = 0 \<Longrightarrow> layer_of (foldl (\<lambda>lay k. AList.update k 0 lay) m q) j = 0"
  by (induction q arbitrary: m) (auto simp: dom_AList_update distinct_update)

lemma layers_correct:
  assumes "distinct K" "\<forall>e \<in> set F. ge_from e \<in> set K \<and> ge_to e \<in> set K"
    and "\<And>e. e \<in> set F \<Longrightarrow> (r (ge_to e) :: nat) < r (ge_from e)"
  shows "\<exists>lay. layers K F = Some lay \<and> distinct (map fst lay) \<and> fst ` set lay = set K
    \<and> (\<forall>e \<in> set F. layer_of lay (ge_from e) < layer_of lay (ge_to e))
    \<and> (\<forall>k \<in> set K. layer_of lay k = 0 \<or> (\<exists>e \<in> set F. ge_to e = k \<and> layer_of lay k = layer_of lay (ge_from e) + 1))"
proof -
  let ?ind = "indegrees K F"
  let ?q = "filter (\<lambda>k. map_of ?ind k = Some 0) K"
  let ?lay = "foldl (\<lambda>lay k. AList.update k 0 lay) [] ?q"
  have w: "waits F {} j + into [] j = into F j" for j by (simp add: waits_def into_def)
  have "kahn_inv K F {} [] {} ?ind ?lay ?q"
    unfolding kahn_inv_def w using assms(1) zero_layers [of "[]" ?q]
    by (simp add: indegrees_of layer_of_def)
  from kahn_correct [OF assms(2) this] obtain P D ind lay where
    run: "kahn (targets K F) ?ind ?lay ?q = Some lay" and inv: "kahn_inv K F P [] D ind lay []" by blast
  note I = kahn_invD [OF inv]
  have all: "P = set K"
  proof (rule ccontr)
    assume "P \<noteq> set K"
    then have ne: "set K - P \<noteq> {}" using I(4) by auto
    have "Max (r ` (set K - P)) \<in> r ` (set K - P)" using ne by (intro Max_in) auto
    then obtain k where k: "k \<in> set K - P" "r k = Max (r ` (set K - P))" by auto
    have top: "r j \<le> r k" if "j \<in> set K - P" for j unfolding k(2) using that by (intro Max_ge) auto
    have "k \<in> P \<union> set [] \<longleftrightarrow> waits F P k + into [] k = 0" using k(1) by (intro bspec [OF I(6)]) simp
    then have "waits F P k + into [] k \<noteq> 0" using k(1) by simp
    then obtain e where "e \<in> set F" "ge_to e = k" "ge_from e \<notin> P"
      by (auto simp: waits_def into_def filter_empty_conv)
    then show False using assms(2) assms(3) [of e] top [of "ge_from e"] by auto
  qed
  have D: "D = set F" using I(12,13) all assms(2) by auto
  have "layers K F = Some lay" using run assms(2) by (auto simp: layers_def Let_def)
  moreover have "fst ` set lay = set K" using I(7,9) all by auto
  ultimately show ?thesis using I(8,10,11) D by (intro exI [of _ lay]) (simp add: Suc_le_eq)
qed

end
