(* ===== verification/PlanLayout.thy ===== *)
theory PlanLayout
  imports GraphWalk
begin

text \<open>
  The whole layout of the dependency view, \<^const>\<open>layoutGraph\<close>: every ticket is on the page, no two
  boxes overlap, dependencies run to the right, and only those that close a circle are marked.
\<close>

section \<open>Rows within columns\<close>

definition cols_ok :: "(string \<times> nat) list \<Rightarrow> (nat \<times> string list) list \<Rightarrow> bool" where
  "cols_ok lay cols \<longleftrightarrow> distinct (map fst cols)
     \<and> (\<forall>c xs. (c, xs) \<in> set cols \<longrightarrow> distinct xs \<and> set xs = {k \<in> fst ` set lay. layer_of lay k = c})
     \<and> (\<forall>k \<in> fst ` set lay. layer_of lay k \<in> fst ` set cols)"

lemma cols_okD:
  assumes "cols_ok lay cols"
  shows "distinct (map fst cols)"
    "(c, xs) \<in> set cols \<Longrightarrow> distinct xs \<and> set xs = {k \<in> fst ` set lay. layer_of lay k = c}"
    "k \<in> fst ` set lay \<Longrightarrow> layer_of lay k \<in> fst ` set cols"
  using assms unfolding cols_ok_def by blast+

lemma cols_ok_perm:
  assumes ok: "cols_ok lay cols" and c: "map_of cols c = Some xs" and p: "mset ys = mset xs"
  shows "cols_ok lay (AList.update c ys cols)"
proof -
  have xs: "distinct xs" "set xs = {k \<in> fst ` set lay. layer_of lay k = c}"
    using cols_okD(2) [OF ok map_of_SomeD [OF c]] by auto
  have ys: "distinct ys" "set ys = set xs" using p xs(1) mset_eq_imp_distinct_iff mset_eq_setD by blast+
  have d: "distinct (map fst (AList.update c ys cols))" using cols_okD(1) [OF ok] by (rule distinct_update)
  have "distinct zs \<and> set zs = {k \<in> fst ` set lay. layer_of lay k = b}" if "(b, zs) \<in> set (AList.update c ys cols)" for b zs
  proof -
    have "map_of (AList.update c ys cols) b = Some zs" using d that by (rule map_of_is_SomeI)
    then show ?thesis using xs ys cols_okD(2) [OF ok, of b zs] cols_okD(1) [OF ok]
      by (cases "b = c") (auto dest: map_of_SomeD)
  qed
  moreover have "\<forall>k \<in> fst ` set lay. layer_of lay k \<in> fst ` set (AList.update c ys cols)"
    using cols_okD(3) [OF ok] by (auto simp: dom_AList_update)
  ultimately show ?thesis using d unfolding cols_ok_def by blast
qed

lemma cols_ok_start:
  assumes "distinct (map fst lay)"
  shows "cols_ok lay (columns_of lc lay)"
proof -
  let ?f = "\<lambda>cols (key, c). AList.update c ((case map_of cols c of Some xs \<Rightarrow> xs | None \<Rightarrow> []) @ [key]) cols"
  have "distinct (map fst (foldl ?f [] ls)) \<and>
      (\<forall>c xs. map_of (foldl ?f [] ls) c = Some xs \<longleftrightarrow> xs \<noteq> [] \<and> xs = map fst (filter (\<lambda>(k, b). b = c) ls))" for ls :: "(string \<times> nat) list"
  proof (induction ls rule: rev_induct)
    case (snoc kc ls)
    obtain k c where "kc = (k, c)" by (cases kc)
    moreover have "map_of (foldl ?f [] ls) c = None \<longleftrightarrow> filter (\<lambda>(k, b). b = c) ls = []"
      using snoc by (metis (no_types, lifting) map_is_Nil_conv not_None_eq)
    ultimately show ?case using snoc
      by (auto simp: distinct_update split: option.splits)
  qed simp
  then have base: "distinct (map fst (foldl ?f [] lay))"
    "\<And>c xs. map_of (foldl ?f [] lay) c = Some xs \<longleftrightarrow> xs \<noteq> [] \<and> xs = map fst (filter (\<lambda>(k, b). b = c) lay)" by auto
  have lo: "layer_of lay k = b" if "(k, b) \<in> set lay" for k b using that assms by (simp add: layer_of_def)
  have cols: "columns_of lc lay = map (\<lambda>(c, xs). (c, js_sort (keyOrder lc) xs)) (foldl ?f [] lay)"
    by (simp add: columns_of_def)
  have "distinct xs \<and> set xs = {k \<in> fst ` set lay. layer_of lay k = c}" if m: "(c, xs) \<in> set (columns_of lc lay)" for c xs
  proof -
    from m obtain zs where z: "(c, zs) \<in> set (foldl ?f [] lay)" "xs = js_sort (keyOrder lc) zs" by (auto simp: cols)
    then have zs: "zs = map fst (filter (\<lambda>(k, b). b = c) lay)" using base(2) map_of_is_SomeI [OF base(1) z(1)] by blast
    have "distinct zs" using assms unfolding zs by (induction lay) auto
    moreover have "set zs = {k \<in> fst ` set lay. layer_of lay k = c}" using lo by (force simp: zs)
    ultimately show ?thesis using z(2) by simp
  qed
  moreover have "layer_of lay k \<in> fst ` set (columns_of lc lay)" if k: "k \<in> fst ` set lay" for k
  proof -
    obtain b where b: "(k, b) \<in> set lay" using k by auto
    then have "map fst (filter (\<lambda>(k, d). d = b) lay) \<noteq> []" by (auto simp: filter_empty_conv)
    then have "map_of (foldl ?f [] lay) b \<noteq> None" using base(2) by blast
    then show ?thesis using lo [OF b] by (force simp: cols dest: map_of_SomeD)
  qed
  moreover have "map fst (columns_of lc lay) = map fst (foldl ?f [] lay)" by (simp add: cols case_prod_unfold)
  ultimately show ?thesis using base(1) unfolding cols_ok_def by simp
qed

lemma sweep_ok: "cols_ok lay (fst acc) \<Longrightarrow> cols_ok lay (fst (sweep_column lc F acc c))"
  by (cases acc) (auto simp: sweep_column_def Let_def cols_ok_perm split: option.splits)

lemma sweeps_ok: "cols_ok lay (fst acc) \<Longrightarrow> cols_ok lay (fst (foldl (sweep_column lc F) acc cs))"
  by (induction cs arbitrary: acc) (auto simp: sweep_ok)

definition placed_pairs :: "(nat \<times> string list) list \<Rightarrow> (string \<times> (nat \<times> nat)) list" where
  "placed_pairs cols = concat (map (\<lambda>(c, xs). map (\<lambda>(row, key). (key, (c, row))) (List.enumerate 0 xs)) cols)"

lemma placed_pairs_iff:
  "(k, (c, i)) \<in> set (placed_pairs cols) \<longleftrightarrow> (\<exists>xs. (c, xs) \<in> set cols \<and> i < length xs \<and> xs ! i = k)"
  by (force simp: placed_pairs_def in_set_enumerate_eq)

lemma placed_pairs_keys: "map fst (placed_pairs cols) = concat (map snd cols)"
proof -
  have "map fst (map (\<lambda>(row, key). (key, (c, row))) (List.enumerate n xs)) = xs" for c :: nat and n and xs :: "string list"
    by (induction xs arbitrary: n) auto
  then show ?thesis by (induction cols) (auto simp: placed_pairs_def)
qed

lemma distinct_columns:
  assumes "distinct (map fst cols)" "\<forall>(c, xs) \<in> set cols. distinct xs \<and> (\<forall>k \<in> set xs. f k = c)"
  shows "distinct (concat (map snd cols))"
  using assms by (induction cols) (force simp: image_iff)+

lemma order_rows_ok:
  assumes "distinct (map fst lay)"
  shows "\<exists>cols. cols_ok lay cols \<and> order_rows lc lay F = put_all [] (placed_pairs cols)"
proof -
  let ?acc = "(columns_of lc lay, foldl settle [] (map snd (columns_of lc lay)))"
  let ?cs = "[1..<foldl max 0 (map fst (columns_of lc lay)) + 1]"
  let ?r = "fst (foldl (sweep_column lc F) (foldl (sweep_column lc F) ?acc ?cs) ?cs)"
  have "cols_ok lay ?r" using cols_ok_start [OF assms] by (intro sweeps_ok) simp
  moreover have "order_rows lc lay F = put_all [] (placed_pairs ?r)"
    unfolding order_rows_def Let_def placed_pairs_def ..
  ultimately show ?thesis by blast
qed

lemma order_rows_correct:
  assumes "distinct (map fst lay)"
  shows "fst ` set (order_rows lc lay F) = fst ` set lay"
    "distinct (map fst (order_rows lc lay F))"
    "(k, cr) \<in> set (order_rows lc lay F) \<Longrightarrow> fst cr = layer_of lay k"
    "(k, cr) \<in> set (order_rows lc lay F) \<Longrightarrow> (j, cr) \<in> set (order_rows lc lay F) \<Longrightarrow> k = j"
proof -
  obtain cols where ok: "cols_ok lay cols" and o: "order_rows lc lay F = put_all [] (placed_pairs cols)"
    using order_rows_ok [OF assms] by blast
  have d: "distinct (map fst (placed_pairs cols))"
    unfolding placed_pairs_keys by (rule distinct_columns [where f = "layer_of lay"]) (use ok in \<open>auto simp: cols_ok_def\<close>)
  show dd: "distinct (map fst (order_rows lc lay F))" unfolding o by (rule put_all_keys_distinct) simp
  have mem: "(k, cr) \<in> set (placed_pairs cols)" if m: "(k, cr) \<in> set (order_rows lc lay F)" for k cr
  proof -
    have "map_of (put_all [] (placed_pairs cols)) k = Some cr" using m dd by (simp add: o)
    moreover have "k \<in> fst ` set (placed_pairs cols)" using m put_all_dom [of "[]" "placed_pairs cols"] by (force simp: o)
    ultimately show ?thesis using put_all_distinct [OF d] by fastforce
  qed
  show "fst ` set (order_rows lc lay F) = fst ` set lay"
  proof -
    have "fst ` set (order_rows lc lay F) = set (concat (map snd cols))"
      unfolding o put_all_dom by (simp flip: placed_pairs_keys set_map)
    also have "\<dots> = fst ` set lay"
    proof
      show "set (concat (map snd cols)) \<subseteq> fst ` set lay" using ok by (auto simp: cols_ok_def)
      show "fst ` set lay \<subseteq> set (concat (map snd cols))"
      proof
        fix k assume k: "k \<in> fst ` set lay"
        then obtain xs where "(layer_of lay k, xs) \<in> set cols" using cols_okD(3) [OF ok k] by auto
        moreover from this k have "k \<in> set xs" using cols_okD(2) [OF ok] by blast
        ultimately show "k \<in> set (concat (map snd cols))" by force
      qed
    qed
    finally show ?thesis .
  qed
  show "fst cr = layer_of lay k" if m: "(k, cr) \<in> set (order_rows lc lay F)" for k cr
  proof -
    obtain c i where cr: "cr = (c, i)" by (cases cr)
    then obtain xs where "(c, xs) \<in> set cols" "i < length xs" "xs ! i = k" using mem [OF m] by (auto simp: placed_pairs_iff)
    then show ?thesis using cols_okD(2) [OF ok, of c xs] nth_mem [of i xs] cr by simp
  qed
  show "k = j" if "(k, cr) \<in> set (order_rows lc lay F)" "(j, cr) \<in> set (order_rows lc lay F)" for k j cr
    using mem [OF that(1)] mem [OF that(2)] cols_okD(1) [OF ok]
    by (cases cr) (metis eq_key_imp_eq_value placed_pairs_iff)
qed

section \<open>Boxes\<close>

text \<open>Two boxes that do not overlap.\<close>

definition apart :: "Rect \<Rightarrow> Rect \<Rightarrow> bool" where
  "apart a b \<longleftrightarrow> rect_x a + rect_width a \<le> rect_x b \<or> rect_x b + rect_width b \<le> rect_x a
     \<or> rect_y a + rect_height a \<le> rect_y b \<or> rect_y b + rect_height b \<le> rect_y a"

lemma apart_sym: "apart a b \<longleftrightarrow> apart b a"
  by (auto simp: apart_def)

lemma steps_apart:
  fixes w step :: real and i j :: nat
  assumes "w \<le> step" "i < j" "0 \<le> step"
  shows "real i * step + w \<le> real j * step"
proof -
  have "real (Suc i) * step \<le> real j * step" using assms(2,3) by (intro mult_right_mono) auto
  then show ?thesis using assms(1) by (simp add: distrib_right)
qed

lemma linked_apart:
  assumes "cr \<noteq> dr"
  shows "apart (linked_rect cr) (linked_rect dr)"
proof -
  consider "fst cr < fst dr" | "fst dr < fst cr" | "snd cr < snd dr" | "snd dr < snd cr"
    using assms by (cases cr; cases dr) (auto simp: nat_neq_iff)
  then show ?thesis
    using steps_apart [of GRAPH_NODE_WIDTH "GRAPH_NODE_WIDTH + GRAPH_COLUMN_GAP"]
      steps_apart [of GRAPH_NODE_HEIGHT "GRAPH_NODE_HEIGHT + GRAPH_ROW_GAP"]
    by cases (simp_all add: apart_def linked_rect_def config)
qed

lemma grid_apart:
  assumes "i \<noteq> j"
  shows "apart (grid_rect t p i) (grid_rect t p j)"
proof -
  have "i mod p \<noteq> j mod p \<or> i div p \<noteq> j div p" using assms by (metis div_mult_mod_eq)
  then consider "i mod p < j mod p" | "j mod p < i mod p" | "i div p < j div p" | "j div p < i div p"
    by (auto simp: nat_neq_iff)
  then show ?thesis
    using steps_apart [of GRAPH_NODE_WIDTH "GRAPH_NODE_WIDTH + GRAPH_ROW_GAP"]
      steps_apart [of GRAPH_NODE_HEIGHT "GRAPH_NODE_HEIGHT + GRAPH_ROW_GAP"]
    by cases (simp_all add: apart_def grid_rect_def config)
qed

lemma linked_above_grid:
  assumes "snd cr < n" "t = GRAPH_ORIGIN + real n * (GRAPH_NODE_HEIGHT + GRAPH_ROW_GAP) + GRAPH_SECTION_GAP"
  shows "apart (linked_rect cr) (grid_rect t p i)"
  using steps_apart [of GRAPH_NODE_HEIGHT "GRAPH_NODE_HEIGHT + GRAPH_ROW_GAP", OF _ assms(1)]
  by (simp add: apart_def linked_rect_def grid_rect_def config assms(2))

lemma linked_runs_right:
  assumes "fst cr < fst dr"
  shows "rect_x (linked_rect cr) + rect_width (linked_rect cr) < rect_x (linked_rect dr)"
  using steps_apart [of "GRAPH_NODE_WIDTH + GRAPH_COLUMN_GAP" "GRAPH_NODE_WIDTH + GRAPH_COLUMN_GAP", OF _ assms]
  by (simp add: linked_rect_def config)

section \<open>The pieces of the layout\<close>

lemma rows_used:
  "(k, cr) \<in> set rows \<Longrightarrow> snd cr < foldl (\<lambda>m (key, cr). max m (snd cr + 1)) (m :: nat) rows"
proof -
  have ge: "m \<le> foldl (\<lambda>m (key, cr). max m (snd cr + 1)) m rows" for m and rows :: "('a \<times> ('b \<times> nat)) list"
    by (induction rows arbitrary: m) (auto, meson dual_order.trans max.cobounded1)
  show "(k, cr) \<in> set rows \<Longrightarrow> snd cr < foldl (\<lambda>m (key, cr). max m (snd cr + 1)) m rows"
  proof (induction rows arbitrary: m)
    case (Cons a rows)
    then show ?case
      using ge [of "max m (snd cr + 1)" rows] by (cases "a = (k, cr)") auto
  qed simp
qed

lemma outs_out_edges:
  "set (outs (out_edges lc keys U) k) = (if k \<in> set keys then {e \<in> set U. ge_from e = k} else {})"
  by (simp add: outs_def out_edges_def map_of_map_restrict restrict_map_def)

lemma map_of_out_edges: "map_of (out_edges lc keys U) k \<noteq> None \<longleftrightarrow> k \<in> set keys"
  by (simp add: out_edges_def map_of_map_restrict restrict_map_def)

lemma edge_rel_out_edges:
  "\<forall>e \<in> set U. ge_from e \<in> set keys \<Longrightarrow> edge_rel (out_edges lc keys U) = {(ge_from e, ge_to e) | e. e \<in> set U}"
  by (auto simp: edge_rel_def outs_out_edges)

lemma those_map_Some: "(\<forall>x \<in> set xs. f x \<noteq> None) \<Longrightarrow> those (map f xs) = Some (map (\<lambda>x. the (f x)) xs)"
  by (induction xs) auto

lemma max_fold_ge: "(x :: real) \<in> set xs \<Longrightarrow> x \<le> foldl max m xs"
proof -
  have ge: "m \<le> foldl max m xs" for m and xs :: "real list"
    by (induction xs arbitrary: m) (auto, meson dual_order.trans max.cobounded1)
  show "x \<in> set xs \<Longrightarrow> x \<le> foldl max m xs"
  proof (induction xs arbitrary: m)
    case (Cons a xs)
    then show ?case using ge [of "max m a" xs] by auto
  qed simp
qed

text \<open>The boxes of a layout: those of the linked tickets, then the grid of the others.\<close>

definition boxes :: "(string \<times> (nat \<times> nat)) list \<Rightarrow> real \<Rightarrow> nat \<Rightarrow> string list \<Rightarrow> (string \<times> Rect) list" where
  "boxes rows t p unlinked = put_all (put_all [] (map (\<lambda>(key, cr). (key, linked_rect cr)) rows))
     (map (\<lambda>(i, key). (key, grid_rect t p i)) (List.enumerate 0 unlinked))"

lemma enumerate_fst: "map fst (map (\<lambda>(i, k). (k, f i)) (List.enumerate n xs)) = xs"
  by (induction xs arbitrary: n) auto

lemma boxes_dom: "fst ` set (boxes rows t p unlinked) = fst ` set rows \<union> set unlinked"
proof -
  have "fst ` set (map (\<lambda>(i, key). (key, grid_rect t p i)) (List.enumerate 0 unlinked)) = set unlinked"
    using enumerate_fst [of "grid_rect t p" 0 unlinked] by (metis set_map)
  moreover have "fst ` set (map (\<lambda>(key, cr). (key, linked_rect cr)) rows) = fst ` set rows" by force
  ultimately show ?thesis unfolding boxes_def put_all_dom by simp
qed

lemma box_linked:
  assumes "distinct (map fst rows)" "(k, cr) \<in> set rows" "k \<notin> set unlinked"
  shows "map_of (boxes rows t p unlinked) k = Some (linked_rect cr)"
proof -
  have u: "k \<notin> fst ` set (map (\<lambda>(i, key). (key, grid_rect t p i)) (List.enumerate 0 unlinked))"
    using enumerate_fst [of "grid_rect t p" 0 unlinked] assms(3) by (metis set_map)
  have keys: "map fst (map (\<lambda>(key, cr). (key, linked_rect cr)) rows) = map fst rows" by (induction rows) auto
  have "(k, linked_rect cr) \<in> set (map (\<lambda>(key, cr). (key, linked_rect cr)) rows)"
    unfolding set_map by (rule image_eqI [OF _ assms(2)]) simp
  then have "map_of (put_all [] (map (\<lambda>(key, cr). (key, linked_rect cr)) rows)) k = Some (linked_rect cr)"
    using assms(1) unfolding keys [symmetric] by (rule put_all_distinct [rotated])
  then show ?thesis unfolding boxes_def put_all_other [OF u] .
qed

lemma box_unlinked:
  assumes "distinct unlinked" "i < length unlinked"
  shows "map_of (boxes rows t p unlinked) (unlinked ! i) = Some (grid_rect t p i)"
  unfolding boxes_def
proof (rule put_all_distinct)
  show "distinct (map fst (map (\<lambda>(i, key). (key, grid_rect t p i)) (List.enumerate 0 unlinked)))"
    unfolding enumerate_fst by (rule assms(1))
  have "(i, unlinked ! i) \<in> set (List.enumerate 0 unlinked)" using assms(2) by (simp add: in_set_enumerate_eq)
  then show "(unlinked ! i, grid_rect t p i) \<in> set (map (\<lambda>(i, key). (key, grid_rect t p i)) (List.enumerate 0 unlinked))"
    unfolding set_map by (rule image_eqI [rotated]) simp
qed

lemma boxes_apart:
  assumes rows: "distinct (map fst rows)" "\<And>k j cr. (k, cr) \<in> set rows \<Longrightarrow> (j, cr) \<in> set rows \<Longrightarrow> k = j"
    and un: "distinct unlinked" "fst ` set rows \<inter> set unlinked = {}"
    and t: "\<And>k cr. (k, cr) \<in> set rows \<Longrightarrow> \<exists>n. snd cr < n \<and>
      t = GRAPH_ORIGIN + real n * (GRAPH_NODE_HEIGHT + GRAPH_ROW_GAP) + GRAPH_SECTION_GAP"
    and ab: "map_of (boxes rows t p unlinked) a = Some ra" "map_of (boxes rows t p unlinked) b = Some rb" "a \<noteq> b"
  shows "apart ra rb"
proof -
  have box: "(\<exists>cr. (k, cr) \<in> set rows \<and> r = linked_rect cr) \<or> (\<exists>i < length unlinked. unlinked ! i = k \<and> r = grid_rect t p i)"
    if m: "map_of (boxes rows t p unlinked) k = Some r" for k r
  proof -
    have "k \<in> fst ` set rows \<union> set unlinked" using map_of_SomeD [OF m] boxes_dom by force
    then show ?thesis
    proof
      assume "k \<in> fst ` set rows"
      then obtain cr where cr: "(k, cr) \<in> set rows" by auto
      then have "k \<notin> set unlinked" using un(2) by force
      then have "r = linked_rect cr" using box_linked [OF rows(1) cr, of unlinked t p] m by (metis option.inject)
      then show ?thesis using cr by blast
    next
      assume "k \<in> set unlinked"
      then obtain i where "i < length unlinked" "unlinked ! i = k" by (auto simp: in_set_conv_nth)
      then show ?thesis using box_unlinked [OF un(1), of i rows t p] m by auto
    qed
  qed
  have mixed: "apart (linked_rect cr) (grid_rect t p i)" if "(k, cr) \<in> set rows" for k cr i
    using t [OF that] linked_above_grid by blast
  from box [OF ab(1)] box [OF ab(2)] show ?thesis
    using ab(3) rows(2) linked_apart grid_apart mixed apart_sym by metis
qed

section \<open>The layout as a whole\<close>

text \<open>What a layout of \<^const>\<open>layoutGraph\<close> is made of, with what the two walks promise of it.\<close>

definition layout_of :: "(string \<Rightarrow> string \<Rightarrow> real) \<Rightarrow> string list \<Rightarrow> GraphEdge list \<Rightarrow> nat \<Rightarrow> string set
    \<Rightarrow> (string \<times> nat) list \<Rightarrow> real \<Rightarrow> GraphLayout \<Rightarrow> bool" where
  "layout_of lc nodes edges columns bk lay t g \<longleftrightarrow>
     (let keys = graph_keys lc nodes; U = usable_edges keys edges; F = filter (\<lambda>e. ge_id e \<notin> bk) U;
          L = linked_keys keys U; rows = order_rows lc lay F
      in closes (out_edges lc keys U) bk \<and> distinct (map fst lay) \<and> fst ` set lay = set L
       \<and> (\<forall>e \<in> set F. layer_of lay (ge_from e) < layer_of lay (ge_to e))
       \<and> (\<forall>k cr. (k, cr) \<in> set rows \<longrightarrow> (\<exists>n. snd cr < n \<and>
            t = GRAPH_ORIGIN + real n * (GRAPH_NODE_HEIGHT + GRAPH_ROW_GAP) + GRAPH_SECTION_GAP))
       \<and> layout_nodes g = boxes rows t (max GRAPH_MIN_GRID_COLUMNS columns) (filter (\<lambda>k. k \<notin> set L) keys)
       \<and> layout_width g = foldl max GRAPH_ORIGIN (map (\<lambda>(k, r). rect_x r + rect_width r) (layout_nodes g)) + GRAPH_ORIGIN
       \<and> layout_height g = foldl max GRAPH_ORIGIN (map (\<lambda>(k, r). rect_y r + rect_height r) (layout_nodes g)) + GRAPH_ORIGIN
       \<and> map (\<lambda>l. Some (laid_edge l, laid_cycle l)) (layout_edges g) = map (\<lambda>e. Some (e, ge_id e \<in> bk)) U)"

lemma walks_end:
  fixes lc nodes edges
  defines "keys \<equiv> graph_keys lc nodes"
  defines "U \<equiv> usable_edges keys edges"
  obtains bk lay where "markBackEdges keys (out_edges lc keys U) = Some bk" "closes (out_edges lc keys U) bk"
    "layers (linked_keys keys U) (filter (\<lambda>e. ge_id e \<notin> bk) U) = Some lay"
    "distinct (map fst lay)" "fst ` set lay = set (linked_keys keys U)"
    "\<forall>e \<in> set (filter (\<lambda>e. ge_id e \<notin> bk) U). layer_of lay (ge_from e) < layer_of lay (ge_to e)"
proof -
  let ?out = "out_edges lc keys U"
  have U: "ge_from e \<in> set keys" "ge_to e \<in> set keys" if "e \<in> set U" for e
    using that by (auto simp: U_def usable_edges_def)
  have "\<forall>k. \<forall>e \<in> set (outs ?out k). map_of ?out (ge_to e) \<noteq> None" "\<forall>k \<in> set keys. map_of ?out k \<noteq> None"
    unfolding map_of_out_edges outs_out_edges using U by simp_all
  from marks_correct [OF this] obtain bk fin where
    m: "markBackEdges keys ?out = Some bk" "topo ?out bk fin" "set keys \<subseteq> set fin" "closes ?out bk" by blast
  let ?F = "filter (\<lambda>e. ge_id e \<notin> bk) U"
  have d: "distinct (linked_keys keys U)" by (simp add: linked_keys_def keys_def graph_keys_def)
  have i: "\<forall>e \<in> set ?F. ge_from e \<in> set (linked_keys keys U) \<and> ge_to e \<in> set (linked_keys keys U)"
    using U by (auto simp: linked_keys_def)
  have r: "place fin (ge_to e) < place fin (ge_from e)" if e: "e \<in> set ?F" for e
    using topo_place [OF m(2), of "ge_from e" e] m(3) U e by (auto simp: outs_out_edges)
  from layers_correct [where r = "place fin", OF d i r] show thesis using m(1,4) that by blast
qed

lemma usable_boxed:
  assumes "fst ` set nodes = set keys" "e \<in> set (usable_edges keys edges)"
  shows "lay_edge nodes bent bk e \<noteq> None"
    and "laid_edge (the (lay_edge nodes bent bk e)) = e \<and> laid_cycle (the (lay_edge nodes bent bk e)) = (ge_id e \<in> bk)"
proof -
  have "ge_from e \<in> fst ` set nodes" "ge_to e \<in> fst ` set nodes" using assms by (auto simp: usable_edges_def)
  then obtain a b where "map_of nodes (ge_from e) = Some a" "map_of nodes (ge_to e) = Some b"
    by (metis map_of_eq_None_iff not_None_eq)
  then show "lay_edge nodes bent bk e \<noteq> None"
    and "laid_edge (the (lay_edge nodes bent bk e)) = e \<and> laid_cycle (the (lay_edge nodes bent bk e)) = (ge_id e \<in> bk)"
    by (simp_all add: lay_edge_def Let_def)
qed

lemma linked_subset: "set (linked_keys keys U) \<subseteq> set keys"
  by (auto simp: linked_keys_def)

lemma layout_exists: "\<exists>g bk lay t. layoutGraph lc nodes edges columns = Some g \<and> layout_of lc nodes edges columns bk lay t g"
proof -
  let ?keys = "graph_keys lc nodes"
  let ?U = "usable_edges ?keys edges"
  obtain bk lay where w: "markBackEdges ?keys (out_edges lc ?keys ?U) = Some bk" "closes (out_edges lc ?keys ?U) bk"
    "layers (linked_keys ?keys ?U) (filter (\<lambda>e. ge_id e \<notin> bk) ?U) = Some lay"
    "distinct (map fst lay)" "fst ` set lay = set (linked_keys ?keys ?U)"
    "\<forall>e \<in> set (filter (\<lambda>e. ge_id e \<notin> bk) ?U). layer_of lay (ge_from e) < layer_of lay (ge_to e)"
    by (rule walks_end)
  let ?rows = "order_rows lc lay (filter (\<lambda>e. ge_id e \<notin> bk) ?U)"
  let ?n = "foldl (\<lambda>m (key, cr). max m (snd cr + 1)) 0 ?rows"
  let ?t = "if 0 < ?n then GRAPH_ORIGIN + real ?n * (GRAPH_NODE_HEIGHT + GRAPH_ROW_GAP) + GRAPH_SECTION_GAP else GRAPH_ORIGIN"
  let ?un = "filter (\<lambda>k. k \<notin> set (linked_keys ?keys ?U)) ?keys"
  let ?b = "boxes ?rows ?t (max GRAPH_MIN_GRID_COLUMNS columns) ?un"
  let ?bent = "bends (map (\<lambda>e. \<lparr>conn_key = ge_id e, conn_from = ge_from e, conn_to = ge_to e\<rparr>) ?U) GRAPH_EDGE_BEND"
  have "fst ` set ?b = fst ` set lay \<union> set ?un" using order_rows_correct(1) [OF w(4)] by (simp add: boxes_dom)
  then have dom: "fst ` set ?b = set ?keys" using w(5) linked_subset [of ?keys ?U] by auto
  note edge = usable_boxed [OF dom, of _ edges ?bent bk]
  have laid: "those (map (lay_edge ?b ?bent bk) ?U) = Some (map (\<lambda>e. the (lay_edge ?b ?bent bk e)) ?U)"
    using edge(1) by (intro those_map_Some) blast
  have t: "\<forall>k cr. (k, cr) \<in> set ?rows \<longrightarrow> (\<exists>n. snd cr < n \<and>
            ?t = GRAPH_ORIGIN + real n * (GRAPH_NODE_HEIGHT + GRAPH_ROW_GAP) + GRAPH_SECTION_GAP)"
  proof (intro allI impI)
    fix k cr assume "(k, cr) \<in> set ?rows"
    then have "snd cr < ?n" by (rule rows_used)
    then show "\<exists>n. snd cr < n \<and> ?t = GRAPH_ORIGIN + real n * (GRAPH_NODE_HEIGHT + GRAPH_ROW_GAP) + GRAPH_SECTION_GAP"
      by (intro exI [of _ ?n]) simp
  qed
  have marks: "map (\<lambda>l. Some (laid_edge l, laid_cycle l)) (map (\<lambda>e. the (lay_edge ?b ?bent bk e)) ?U)
      = map (\<lambda>e. Some (e, ge_id e \<in> bk)) ?U" using edge(2) by simp
  let ?g = "\<lparr>layout_nodes = ?b, layout_edges = map (\<lambda>e. the (lay_edge ?b ?bent bk e)) ?U,
     layout_width = foldl max GRAPH_ORIGIN (map (\<lambda>(k, r). rect_x r + rect_width r) ?b) + GRAPH_ORIGIN,
     layout_height = foldl max GRAPH_ORIGIN (map (\<lambda>(k, r). rect_y r + rect_height r) ?b) + GRAPH_ORIGIN,
     layout_unlinkedTop = (if ?un = [] then None else Some ?t)\<rparr>"
  have "layoutGraph lc nodes edges columns = Some ?g"
    unfolding layoutGraph_def Let_def w(1) w(3) bind.bind_lunit boxes_def [symmetric] laid by simp
  moreover have "layout_of lc nodes edges columns bk lay ?t ?g"
    unfolding layout_of_def Let_def using w t marks by (intro conjI) (simp_all only: GraphLayout.simps)
  ultimately show ?thesis by blast
qed

lemma graph_keys_set: "set (graph_keys lc nodes) = set nodes" "distinct (graph_keys lc nodes)"
  by (simp_all add: graph_keys_def)

lemma layout_ofD:
  assumes "layout_of lc nodes edges columns bk lay t g"
  shows "fst ` set (layout_nodes g) = set nodes"
    and "map_of (layout_nodes g) a = Some ra \<Longrightarrow> map_of (layout_nodes g) b = Some rb \<Longrightarrow> a \<noteq> b \<Longrightarrow> apart ra rb"
    and "map laid_edge (layout_edges g) = usable_edges (graph_keys lc nodes) edges"
    and "l \<in> set (layout_edges g) \<Longrightarrow> laid_cycle l \<longleftrightarrow> ge_id (laid_edge l) \<in> bk"
    and "map_of (layout_nodes g) a = Some ra \<Longrightarrow> rect_x ra + rect_width ra < layout_width g \<and> rect_y ra + rect_height ra < layout_height g"
proof -
  let ?keys = "graph_keys lc nodes"
  let ?U = "usable_edges ?keys edges"
  let ?rows = "order_rows lc lay (filter (\<lambda>e. ge_id e \<notin> bk) ?U)"
  let ?un = "filter (\<lambda>k. k \<notin> set (linked_keys ?keys ?U)) ?keys"
  note L = assms [unfolded layout_of_def Let_def]
  have nodes: "layout_nodes g = boxes ?rows t (max GRAPH_MIN_GRID_COLUMNS columns) ?un" using L by blast
  have lay: "distinct (map fst lay)" "fst ` set lay = set (linked_keys ?keys ?U)" using L by blast+
  note rows = order_rows_correct [OF lay(1)]
  show "fst ` set (layout_nodes g) = set nodes"
    unfolding nodes boxes_dom rows(1) lay(2) using linked_subset [of ?keys ?U] by (auto simp: graph_keys_set)
  show "apart ra rb" if "map_of (layout_nodes g) a = Some ra" "map_of (layout_nodes g) b = Some rb" "a \<noteq> b"
  proof (rule boxes_apart [OF rows(2,4)])
    show "distinct ?un" by (simp add: graph_keys_set)
    show "fst ` set ?rows \<inter> set ?un = {}" unfolding rows(1) lay(2) by auto
    show "\<exists>n. snd cr < n \<and> t = GRAPH_ORIGIN + real n * (GRAPH_NODE_HEIGHT + GRAPH_ROW_GAP) + GRAPH_SECTION_GAP"
      if "(k, cr) \<in> set ?rows" for k cr using L that by blast
  qed (use that nodes in simp_all)
  have m: "map (\<lambda>l. Some (laid_edge l, laid_cycle l)) (layout_edges g) = map (\<lambda>e. Some (e, ge_id e \<in> bk)) ?U" using L by blast
  have "map (fst \<circ> the) (map (\<lambda>l. Some (laid_edge l, laid_cycle l)) (layout_edges g)) = ?U" unfolding m by (simp add: comp_def)
  then show "map laid_edge (layout_edges g) = ?U" by (simp add: comp_def)
  show "laid_cycle l \<longleftrightarrow> ge_id (laid_edge l) \<in> bk" if "l \<in> set (layout_edges g)"
  proof -
    have "Some (laid_edge l, laid_cycle l) \<in> set (map (\<lambda>e. Some (e, ge_id e \<in> bk)) ?U)" using that by (simp flip: m)
    then show ?thesis by auto
  qed
  show "rect_x ra + rect_width ra < layout_width g \<and> rect_y ra + rect_height ra < layout_height g"
    if r: "map_of (layout_nodes g) a = Some ra"
  proof -
    have "rect_x ra + rect_width ra \<in> set (map (\<lambda>(k, r). rect_x r + rect_width r) (layout_nodes g))"
      "rect_y ra + rect_height ra \<in> set (map (\<lambda>(k, r). rect_y r + rect_height r) (layout_nodes g))"
      using map_of_SomeD [OF r] by force+
    then have "rect_x ra + rect_width ra \<le> foldl max GRAPH_ORIGIN (map (\<lambda>(k, r). rect_x r + rect_width r) (layout_nodes g))"
      "rect_y ra + rect_height ra \<le> foldl max GRAPH_ORIGIN (map (\<lambda>(k, r). rect_y r + rect_height r) (layout_nodes g))"
      by (simp_all only: max_fold_ge)
    moreover have "(0 :: real) < GRAPH_ORIGIN" by (simp add: config)
    moreover have "layout_width g = foldl max GRAPH_ORIGIN (map (\<lambda>(k, r). rect_x r + rect_width r) (layout_nodes g)) + GRAPH_ORIGIN"
      "layout_height g = foldl max GRAPH_ORIGIN (map (\<lambda>(k, r). rect_y r + rect_height r) (layout_nodes g)) + GRAPH_ORIGIN"
      using L by blast+
    ultimately show ?thesis by linarith
  qed
qed

lemma layout_of_right:
  assumes "layout_of lc nodes edges columns bk lay t g" "e \<in> set (usable_edges (graph_keys lc nodes) edges)" "ge_id e \<notin> bk"
  shows "\<exists>a b. map_of (layout_nodes g) (ge_from e) = Some a \<and> map_of (layout_nodes g) (ge_to e) = Some b
    \<and> rect_x a + rect_width a < rect_x b"
proof -
  let ?keys = "graph_keys lc nodes"
  let ?U = "usable_edges ?keys edges"
  let ?rows = "order_rows lc lay (filter (\<lambda>e. ge_id e \<notin> bk) ?U)"
  let ?un = "filter (\<lambda>k. k \<notin> set (linked_keys ?keys ?U)) ?keys"
  note L = assms(1) [unfolded layout_of_def Let_def]
  have nodes: "layout_nodes g = boxes ?rows t (max GRAPH_MIN_GRID_COLUMNS columns) ?un" using L by blast
  have lay: "distinct (map fst lay)" "fst ` set lay = set (linked_keys ?keys ?U)" using L by blast+
  note rows = order_rows_correct [OF lay(1)]
  have ends: "ge_from e \<in> set (linked_keys ?keys ?U)" "ge_to e \<in> set (linked_keys ?keys ?U)"
    using assms(2) by (auto simp: linked_keys_def usable_edges_def)
  then have "ge_from e \<in> fst ` set ?rows" "ge_to e \<in> fst ` set ?rows" unfolding rows(1) lay(2) .
  then obtain cr dr where cd: "(ge_from e, cr) \<in> set ?rows" "(ge_to e, dr) \<in> set ?rows" by auto
  have "layer_of lay (ge_from e) < layer_of lay (ge_to e)" using L assms(2,3) by simp
  then have "fst cr < fst dr" using rows(3) [OF cd(1)] rows(3) [OF cd(2)] by simp
  moreover have "ge_from e \<notin> set ?un" "ge_to e \<notin> set ?un" using ends by auto
  ultimately show ?thesis
    unfolding nodes using box_linked [OF rows(2) cd(1)] box_linked [OF rows(2) cd(2)] linked_runs_right by simp
qed

lemma layout_of_circle:
  assumes "layout_of lc nodes edges columns bk lay t g" "ge_id e \<in> bk" "e \<in> set (usable_edges (graph_keys lc nodes) edges)"
    and ids: "distinct (map ge_id edges)"
  shows "(ge_to e, ge_from e) \<in> {(ge_from d, ge_to d) | d. d \<in> set (usable_edges (graph_keys lc nodes) edges)}\<^sup>*"
proof -
  let ?keys = "graph_keys lc nodes"
  let ?U = "usable_edges ?keys edges"
  have rel: "edge_rel (out_edges lc ?keys ?U) = {(ge_from d, ge_to d) | d. d \<in> set ?U}"
    by (rule edge_rel_out_edges) (auto simp: usable_edges_def)
  have "closes (out_edges lc ?keys ?U) bk" using assms(1) unfolding layout_of_def Let_def by blast
  then obtain k d where d: "d \<in> set (outs (out_edges lc ?keys ?U) k)" "ge_id d = ge_id e"
    "(ge_to d, k) \<in> (edge_rel (out_edges lc ?keys ?U))\<^sup>*" using assms(2) unfolding closes_def by blast
  then have k: "d \<in> set ?U" "k = ge_from d" by (auto simp: outs_out_edges split: if_splits)
  have "d \<in> set edges" "e \<in> set edges" using k(1) assms(3) by (simp_all add: usable_edges_def)
  then have "d = e" using ids d(2) by (auto simp: distinct_map inj_on_def)
  then show ?thesis using d(3) k(2) by (simp add: rel)
qed



text \<open>C20: The layout draws exactly the links between two different tickets on the page, in their
  order. One that is not marked as a circle runs to the right: its ticket ends before the one that
  waits for it begins. Where ids are distinct, one is marked only when it really closes a circle.\<close>
theorem layout_runs_right:
  assumes "layoutGraph lc nodes edges columns = Some g" "distinct (map ge_id edges)"
  shows "map laid_edge (layout_edges g) = usable_edges (graph_keys lc nodes) edges
    \<and> (\<forall>l \<in> set (layout_edges g). if laid_cycle l
      then (ge_to (laid_edge l), ge_from (laid_edge l)) \<in> {(ge_from d, ge_to d) | d. d \<in> set (usable_edges (graph_keys lc nodes) edges)}\<^sup>*
      else \<exists>a b. map_of (layout_nodes g) (ge_from (laid_edge l)) = Some a
        \<and> map_of (layout_nodes g) (ge_to (laid_edge l)) = Some b \<and> rect_x a + rect_width a < rect_x b)"
proof -
  obtain bk lay t where g: "layout_of lc nodes edges columns bk lay t g"
    using layout_exists [of lc nodes edges columns] assms(1) by auto
  note dr = layout_ofD(3) [OF g]
  have "laid_edge l \<in> set (usable_edges (graph_keys lc nodes) edges)" if "l \<in> set (layout_edges g)" for l
    using that by (simp flip: dr)
  then show ?thesis
    using dr layout_ofD(4) [OF g] layout_of_right [OF g] layout_of_circle [OF g _ _ assms(2)] by simp
qed

text \<open>A circle of three tickets and one outside it.\<close>

definition circle_edges :: "GraphEdge list" where
  "circle_edges = [\<lparr>ge_id = ''1'', ge_from = ''A-1'', ge_to = ''A-2''\<rparr>, \<lparr>ge_id = ''2'', ge_from = ''A-2'', ge_to = ''A-3''\<rparr>,
     \<lparr>ge_id = ''3'', ge_from = ''A-3'', ge_to = ''A-1''\<rparr>, \<lparr>ge_id = ''4'', ge_from = ''A-3'', ge_to = ''B-9''\<rparr>]"

theorem layout_runs_right_witness:
  "\<exists>g. layoutGraph (\<lambda>a b. 0) [''A-1'', ''A-2'', ''A-3''] circle_edges 2 = Some g
    \<and> map laid_edge (layout_edges g) = take 3 circle_edges"
proof -
  obtain g where g: "layoutGraph (\<lambda>a b. 0) [''A-1'', ''A-2'', ''A-3''] circle_edges 2 = Some g"
    using layout_exists by blast
  moreover have "distinct (map ge_id circle_edges)" by (simp add: circle_edges_def)
  moreover have "usable_edges (graph_keys (\<lambda>a b. 0) [''A-1'', ''A-2'', ''A-3'']) circle_edges = take 3 circle_edges"
    by (simp add: usable_edges_def graph_keys_set(1) circle_edges_def)
  ultimately show ?thesis using layout_runs_right [of "\<lambda>a b. 0" "[''A-1'', ''A-2'', ''A-3'']" circle_edges 2 g] by auto
qed

end
