(* ===== verification/WorkflowDesign.thy ===== *)
theory WorkflowDesign
  imports LibGraph Config Api
begin

text \<open>
  The workflow designer's picture of a workflow, \<open>web/src/features/workflows/designer/graph.ts\<close>: the
  statuses placed on a canvas, the transitions drawn between them, what each edit of the picture
  does, what is sent to be saved and what would stop it from being saved. The shapes the server
  sends are those of \<open>web/src/api/workflows.ts\<close>; the strings are those of \<open>web/src/i18n/workflows\<close>.
  The keys of new transitions come from a counter of the module, which is an argument here.
\<close>

section \<open>What the server sends and takes\<close>

datatype RuleKind = Condition | Validator | Postfunction

record Rule =
  rule_id :: string
  rule_kind :: RuleKind
  rule_type :: string
  rule_config :: "(string \<times> json) list option"
  rule_position :: int

datatype OptionKind = TextOption | RolesOption

record RuleOption =
  option_name :: string
  option_label :: string
  option_kind :: OptionKind
  option_required :: bool
  option_choices :: "string list"

record RuleType =
  ruletype_kind :: RuleKind
  ruletype_type :: string
  ruletype_label :: string
  ruletype_description :: string
  ruletype_options :: "RuleOption list"

record Step =
  step_id :: string
  step_status :: Status
  step_isInitial :: bool
  step_position :: int
  step_layout :: "Point option"

record Transition =
  transition_id :: string
  transition_name :: string
  transition_description :: "string option"
  transition_fromStepId :: "string option"
  transition_toStepId :: string
  transition_position :: int

record Workflow =
  workflow_id :: string
  workflow_name :: string
  workflow_description :: "string option"
  workflow_steps :: "Step list"
  workflow_transitions :: "Transition list"

record WorkflowDetail =
  detail_workflow :: Workflow
  detail_rules :: "(string \<times> Rule list) list"

record RuleInput =
  draft_kind :: RuleKind
  draft_type :: string
  draft_config :: "(string \<times> json) list"

record StepInput =
  stepin_statusId :: string
  stepin_isInitial :: bool
  stepin_layout :: "Point option"

record TransitionInput =
  transin_id :: "string option"
  transin_name :: string
  transin_description :: "string option"
  transin_fromStatusId :: "string option"
  transin_toStatusId :: string
  transin_rules :: "RuleInput list option"

record GraphInput =
  input_name :: string
  input_description :: "string option"
  input_steps :: "StepInput list"
  input_transitions :: "TransitionInput list"

section \<open>Words\<close>

record workflow_words =
  ww_noName :: string
  ww_noStatus :: string
  ww_noInitial :: string
  ww_unnamedTransition :: string
  ww_twice :: "string \<Rightarrow> string \<Rightarrow> string"
  ww_anyStatus :: string
  ww_sameStatus :: string
  canvas_anyStatus :: string
  canvas_initial :: string
  canvas_transition :: "string \<Rightarrow> string"
  canvas_unnamedTransition :: string

definition workflowsEn :: workflow_words where
  "workflowsEn = \<lparr>ww_noName = ''The workflow needs a name.'', ww_noStatus = ''Put at least one status on the canvas.'',
     ww_noInitial = ''Choose the status new issues open in.'', ww_unnamedTransition = ''Every transition needs a name.'',
     ww_twice = (\<lambda>name from. ''Two transitions called '' @ name @ '' leave '' @ from @ ''.''),
     ww_anyStatus = ''any status'', ww_sameStatus = ''the same status'', canvas_anyStatus = ''Any status'',
     canvas_initial = '', where new issues open'', canvas_transition = (\<lambda>name. ''Transition '' @ name),
     canvas_unnamedTransition = ''(unnamed)''\<rparr>"

definition workflowsDe :: workflow_words where
  "workflowsDe = \<lparr>ww_noName = ''Der Workflow braucht einen Namen.'',
     ww_noStatus = ''Setzen Sie mindestens einen Status auf die Fl'' @ [CHR 0xE4] @ ''che.'',
     ww_noInitial = ''W'' @ [CHR 0xE4] @ ''hlen Sie den Status, in dem neue Vorg'' @ [CHR 0xE4] @ ''nge beginnen.'',
     ww_unnamedTransition = ''Jeder '' @ [CHR 0xDC] @ ''bergang braucht einen Namen.'',
     ww_twice = (\<lambda>name from. ''Zwei '' @ [CHR 0xDC] @ ''berg'' @ [CHR 0xE4] @ ''nge namens '' @ name @ '' verlassen '' @ from @ ''.''),
     ww_anyStatus = ''einen beliebigen Status'', ww_sameStatus = ''denselben Status'', canvas_anyStatus = ''Beliebiger Status'',
     canvas_initial = '', wo neue Vorg'' @ [CHR 0xE4] @ ''nge beginnen'',
     canvas_transition = (\<lambda>name. [CHR 0xDC] @ ''bergang '' @ name), canvas_unnamedTransition = ''(ohne Namen)''\<rparr>"

section \<open>The design\<close>

record Node =
  dn_statusId :: string
  dn_x :: real
  dn_y :: real

record Edge =
  edge_key :: string
  edge_id :: "string option"
  edge_name :: string
  edge_description :: string
  edge_from :: string
  edge_to :: string
  edge_rules :: "RuleInput list"

record Design =
  design_name :: string
  design_description :: string
  design_nodes :: "Node list"
  design_initialId :: string
  design_edges :: "Edge list"

text \<open>The source of a transition that leaves every status.\<close>

definition ANYWHERE :: string where "ANYWHERE = []"

definition emptyDesign :: Design where
  "emptyDesign = \<lparr>design_name = [], design_description = [], design_nodes = [], design_initialId = [], design_edges = []\<rparr>"

definition nodeRect :: "Point \<Rightarrow> Rect" where
  "nodeRect n = \<lparr>rect_x = point_x n, rect_y = point_y n, rect_width = WORKFLOW_NODE_WIDTH, rect_height = WORKFLOW_NODE_HEIGHT\<rparr>"

definition node_point :: "Node \<Rightarrow> Point" where
  "node_point n = \<lparr>point_x = dn_x n, point_y = dn_y n\<rparr>"

definition anywhereRect :: Rect where
  "anywhereRect = \<lparr>rect_x = WORKFLOW_ANYWHERE_X, rect_y = WORKFLOW_ANYWHERE_Y,
     rect_width = WORKFLOW_NODE_WIDTH, rect_height = WORKFLOW_NODE_HEIGHT\<rparr>"

section \<open>A free place\<close>

fun columnOf :: "StatusCategory \<Rightarrow> real" where
  "columnOf Todo = 0"
| "columnOf In_progress = 1"
| "columnOf Done = 2"

definition slot_x :: "StatusCategory \<Rightarrow> real" where
  "slot_x category = WORKFLOW_LAYOUT_ORIGIN_X + columnOf category * WORKFLOW_COLUMN_GAP"

definition slot_y :: "nat \<Rightarrow> real" where
  "slot_y row = WORKFLOW_LAYOUT_ORIGIN_Y + real row * WORKFLOW_ROW_GAP"

definition occupied :: "Node list \<Rightarrow> Point list" where
  "occupied nodes = \<lparr>point_x = rect_x anywhereRect, point_y = rect_y anywhereRect\<rparr> # map node_point nodes"

definition taken :: "Point list \<Rightarrow> real \<Rightarrow> nat \<Rightarrow> bool" where
  "taken occ x row \<longleftrightarrow> (\<exists>each \<in> set occ. \<bar>point_x each - x\<bar> < WORKFLOW_NODE_WIDTH
     \<and> \<bar>point_y each - slot_y row\<bar> < WORKFLOW_NODE_HEIGHT)"

text \<open>A box is in the way of two rows at most, so only finitely many rows are taken.\<close>

definition rows_near :: "Point \<Rightarrow> nat set" where
  "rows_near p = {row. \<bar>point_y p - slot_y row\<bar> < WORKFLOW_NODE_HEIGHT}"

lemma rows_near_two: "\<exists>r. rows_near p \<subseteq> {r, Suc r}"
proof (cases "rows_near p = {}")
  case False
  define r where "r = (LEAST i. i \<in> rows_near p)"
  have r: "r \<in> rows_near p" unfolding r_def using False LeastI_ex [of "\<lambda>i. i \<in> rows_near p"] by blast
  have "i \<le> Suc r" "r \<le> i" if i: "i \<in> rows_near p" for i
  proof -
    show "r \<le> i" unfolding r_def using i by (rule Least_le)
    have "\<bar>point_y p - slot_y i\<bar> < 72" "\<bar>point_y p - slot_y r\<bar> < 72"
      using i r unfolding rows_near_def WORKFLOW_NODE_HEIGHT_def by blast+
    then have "slot_y i - slot_y r < 144" by linarith
    then have "real i * 104 - real r * 104 < 144"
      unfolding slot_y_def WORKFLOW_ROW_GAP_def by linarith
    then show "i \<le> Suc r" by linarith
  qed
  then show ?thesis by (intro exI [of _ r]) (auto simp: le_Suc_eq intro: le_antisym)
qed simp

lemma rows_near_card: "finite (rows_near p)" "card (rows_near p) \<le> 2"
proof -
  obtain r where r: "rows_near p \<subseteq> {r, Suc r}" using rows_near_two by blast
  then show "finite (rows_near p)" by (rule finite_subset) simp
  have "card (rows_near p) \<le> card {r, Suc r}" using r by (intro card_mono) auto
  then show "card (rows_near p) \<le> 2" by simp
qed

lemma taken_rows: "{row. taken occ x row} \<subseteq> \<Union> (rows_near ` set occ)"
  by (auto simp: taken_def rows_near_def)

lemma finite_taken: "finite {row. taken occ x row}"
  by (rule finite_subset [OF taken_rows]) (simp add: rows_near_card)

lemma card_taken: "card {row. taken occ x row} \<le> 2 * length occ"
proof -
  have "card {row. taken occ x row} \<le> card (\<Union> (rows_near ` set occ))"
    by (intro card_mono taken_rows) (simp add: rows_near_card)
  also have "\<dots> \<le> (\<Sum>p \<in> set occ. card (rows_near p))" by (intro card_UN_le) simp
  also have "\<dots> \<le> (\<Sum>p \<in> set occ. 2)" by (intro sum_mono rows_near_card)
  also have "\<dots> \<le> 2 * length occ" using card_length [of occ] by simp
  finally show ?thesis .
qed

function slot_row :: "Point list \<Rightarrow> real \<Rightarrow> nat \<Rightarrow> nat" where
  "slot_row occ x row = (if taken occ x row then slot_row occ x (row + 1) else row)"
  by pat_completeness auto

termination slot_row
proof (relation "measure (\<lambda>(occ, x, row). card {r. taken occ x r \<and> row \<le> r})", goal_cases)
  case (2 occ x row)
  have "{r. taken occ x r \<and> row + 1 \<le> r} \<subseteq> {r. taken occ x r \<and> row \<le> r}" by auto
  moreover have "row \<in> {r. taken occ x r \<and> row \<le> r}" "row \<notin> {r. taken occ x r \<and> row + 1 \<le> r}" using 2 by simp_all
  ultimately have "{r. taken occ x r \<and> row + 1 \<le> r} \<subset> {r. taken occ x r \<and> row \<le> r}" by blast
  moreover have "finite {r. taken occ x r \<and> row \<le> r}" by (rule finite_subset [OF _ finite_taken [of occ x]]) blast
  ultimately have "card {r. taken occ x r \<and> row + 1 \<le> r} < card {r. taken occ x r \<and> row \<le> r}"
    by (intro psubset_card_mono)
  then show ?case by simp
qed simp

declare slot_row.simps [simp del]

definition slotFor :: "Node list \<Rightarrow> StatusCategory \<Rightarrow> Point" where
  "slotFor nodes category =
     \<lparr>point_x = slot_x category, point_y = slot_y (slot_row (occupied nodes) (slot_x category) 0)\<rparr>"

definition place_node :: "Node list \<Rightarrow> Status \<Rightarrow> Node" where
  "place_node nodes status = (let p = slotFor nodes (status_category status)
     in \<lparr>dn_statusId = status_id status, dn_x = point_x p, dn_y = point_y p\<rparr>)"

section \<open>Loading and saving\<close>

definition statusOfStep :: "Workflow \<Rightarrow> (string \<times> Status) list" where
  "statusOfStep w = put_all [] (map (\<lambda>step. (step_id step, step_status step)) (workflow_steps w))"

definition edge_of_transition :: "WorkflowDetail \<Rightarrow> Transition \<Rightarrow> Edge" where
  "edge_of_transition d tr =
     (let steps = statusOfStep (detail_workflow d);
          from = (case transition_fromStepId tr of
              None \<Rightarrow> ANYWHERE
            | Some i \<Rightarrow> if i = [] then ANYWHERE
                else (case map_of steps i of Some s \<Rightarrow> status_id s | None \<Rightarrow> ANYWHERE));
          to = (case map_of steps (transition_toStepId tr) of Some s \<Rightarrow> status_id s | None \<Rightarrow> [])
      in \<lparr>edge_key = transition_id tr, edge_id = Some (transition_id tr), edge_name = transition_name tr,
          edge_description = (case transition_description tr of Some t \<Rightarrow> t | None \<Rightarrow> []),
          edge_from = from, edge_to = to,
          edge_rules = map (\<lambda>r. \<lparr>draft_kind = rule_kind r, draft_type = rule_type r,
              draft_config = (case rule_config r of Some c \<Rightarrow> c | None \<Rightarrow> [])\<rparr>)
            (case map_of (detail_rules d) (transition_id tr) of Some rs \<Rightarrow> rs | None \<Rightarrow> [])\<rparr>)"

definition placed_nodes :: "Workflow \<Rightarrow> Node list" where
  "placed_nodes w = map (\<lambda>step. \<lparr>dn_statusId = status_id (step_status step), dn_x = point_x (the (step_layout step)),
       dn_y = point_y (the (step_layout step))\<rparr>) (filter (\<lambda>step. step_layout step \<noteq> None) (workflow_steps w))"

definition fromWorkflow :: "WorkflowDetail \<Rightarrow> Design" where
  "fromWorkflow d =
     (let w = detail_workflow d;
          design = \<lparr>design_name = workflow_name w,
            design_description = (case workflow_description w of Some t \<Rightarrow> t | None \<Rightarrow> []),
            design_nodes = placed_nodes w,
            design_initialId = (case js_find step_isInitial (workflow_steps w) of
                Some step \<Rightarrow> status_id (step_status step) | None \<Rightarrow> []),
            design_edges = map (edge_of_transition d) (workflow_transitions w)\<rparr>
      in foldl (\<lambda>design step. if step_layout step = None
            then design\<lparr>design_nodes := design_nodes design @ [place_node (design_nodes design) (step_status step)]\<rparr>
            else design) design (workflow_steps w))"

definition toInput :: "Design \<Rightarrow> GraphInput" where
  "toInput d = \<lparr>input_name = design_name d, input_description = Some (design_description d),
     input_steps = map (\<lambda>n. \<lparr>stepin_statusId = dn_statusId n, stepin_isInitial = (dn_statusId n = design_initialId d),
       stepin_layout = Some (node_point n)\<rparr>) (design_nodes d),
     input_transitions = map (\<lambda>e. \<lparr>transin_id = edge_id e, transin_name = edge_name e,
       transin_description = Some (edge_description e),
       transin_fromStatusId = (if edge_from e = ANYWHERE then None else Some (edge_from e)),
       transin_toStatusId = edge_to e, transin_rules = Some (edge_rules e)\<rparr>) (design_edges d)\<rparr>"

section \<open>Edits\<close>

definition on_canvas :: "Design \<Rightarrow> string \<Rightarrow> bool" where
  "on_canvas d i \<longleftrightarrow> (\<exists>n \<in> set (design_nodes d). dn_statusId n = i)"

definition addStatus :: "Design \<Rightarrow> Status \<Rightarrow> Design" where
  "addStatus d status = (if on_canvas d (status_id status) then d
     else d\<lparr>design_nodes := design_nodes d @ [place_node (design_nodes d) status],
            design_initialId := (if design_initialId d \<noteq> [] then design_initialId d else status_id status)\<rparr>)"

definition removeStatus :: "Design \<Rightarrow> string \<Rightarrow> Design" where
  "removeStatus d i = d\<lparr>design_nodes := filter (\<lambda>n. dn_statusId n \<noteq> i) (design_nodes d),
     design_initialId := (if design_initialId d = i then [] else design_initialId d),
     design_edges := filter (\<lambda>e. edge_from e \<noteq> i \<and> edge_to e \<noteq> i) (design_edges d)\<rparr>"

definition setInitial :: "Design \<Rightarrow> string \<Rightarrow> Design" where
  "setInitial d i = d\<lparr>design_initialId := i\<rparr>"

definition snap :: "real \<Rightarrow> real" where
  "snap v = max 0 (of_int (js_round (v / WORKFLOW_GRID)) * WORKFLOW_GRID)"

definition moveNode :: "Design \<Rightarrow> string \<Rightarrow> real \<Rightarrow> real \<Rightarrow> Design" where
  "moveNode d i x y = d\<lparr>design_nodes := map (\<lambda>n. if dn_statusId n = i then n\<lparr>dn_x := snap x, dn_y := snap y\<rparr> else n) (design_nodes d)\<rparr>"

definition new_key :: "nat \<Rightarrow> string" where
  "new_key k = ''new-'' @ nat_str k"

text \<open>The design, the key and the counter's new value, or nothing and the counter as it was.\<close>

definition connect :: "nat \<Rightarrow> Design \<Rightarrow> string \<Rightarrow> string \<Rightarrow> string \<Rightarrow> (Design \<times> string \<times> nat) option" where
  "connect nextKey d from to name =
     (if from = to \<or> to = ANYWHERE then None
      else if \<not> (from = ANYWHERE \<or> on_canvas d from) \<or> \<not> (to = ANYWHERE \<or> on_canvas d to) then None
      else let nextKey = nextKey + 1; key = new_key nextKey;
               e = \<lparr>edge_key = key, edge_id = None, edge_name = name, edge_description = [], edge_from = from,
                 edge_to = to, edge_rules = []\<rparr>
           in Some (d\<lparr>design_edges := design_edges d @ [e]\<rparr>, key, nextKey))"

text \<open>The part of a patch that the caller gives; a field left out stays.\<close>

record edge_patch =
  patch_name :: "string option"
  patch_description :: "string option"
  patch_from :: "string option"
  patch_to :: "string option"
  patch_rules :: "RuleInput list option"

definition keep :: "'a option \<Rightarrow> 'a \<Rightarrow> 'a" where
  "keep p v = (case p of Some w \<Rightarrow> w | None \<Rightarrow> v)"

definition patched :: "edge_patch \<Rightarrow> Edge \<Rightarrow> Edge" where
  "patched p e = e\<lparr>edge_name := keep (patch_name p) (edge_name e),
     edge_description := keep (patch_description p) (edge_description e), edge_from := keep (patch_from p) (edge_from e),
     edge_to := keep (patch_to p) (edge_to e), edge_rules := keep (patch_rules p) (edge_rules e)\<rparr>"

definition updateEdge :: "Design \<Rightarrow> string \<Rightarrow> edge_patch \<Rightarrow> Design" where
  "updateEdge d key p = d\<lparr>design_edges := map (\<lambda>e. if edge_key e = key then patched p e else e) (design_edges d)\<rparr>"

definition removeEdge :: "Design \<Rightarrow> string \<Rightarrow> Design" where
  "removeEdge d key = d\<lparr>design_edges := filter (\<lambda>e. edge_key e \<noteq> key) (design_edges d)\<rparr>"

section \<open>Geometry\<close>

definition rectOf :: "Design \<Rightarrow> string \<Rightarrow> Rect option" where
  "rectOf d i = (if i = ANYWHERE then Some anywhereRect
     else map_option (\<lambda>n. nodeRect (node_point n)) (js_find (\<lambda>n. dn_statusId n = i) (design_nodes d)))"

definition edge_bends :: "Edge list \<Rightarrow> (string \<times> real) list" where
  "edge_bends edges = bends (map (\<lambda>e. \<lparr>conn_key = edge_key e, conn_from = edge_from e, conn_to = edge_to e\<rparr>) edges) WORKFLOW_EDGE_BEND"

definition CURVE_SAMPLES :: nat where "CURVE_SAMPLES = 9"

definition CLEARANCE :: real where "CLEARANCE = 6"

text \<open>One match of the pattern for a number at the start of a text: the text matched and the rest.\<close>

definition match_number :: "string \<Rightarrow> (string \<times> string) option" where
  "match_number s =
     (let sign = (if s \<noteq> [] \<and> hd s = CHR ''-'' then ''-'' else []);
          body = drop (length sign) s; ip = takeWhile is_digit body; r = dropWhile is_digit body;
          fp = (if r \<noteq> [] \<and> hd r = CHR ''.'' then takeWhile is_digit (tl r) else [])
      in if ip = [] then None
         else if fp = [] then Some (sign @ ip, r)
         else Some (sign @ ip @ CHR ''.'' # fp, drop (1 + length fp) r))"

lemma match_number_shorter: "match_number s = Some (m, r) \<Longrightarrow> length r < length s"
proof -
  assume m: "match_number s = Some (m, r)"
  let ?body = "drop (if s \<noteq> [] \<and> hd s = CHR ''-'' then 1 else 0) s"
  have "takeWhile is_digit ?body \<noteq> []" "length r \<le> length (dropWhile is_digit ?body)"
    using m by (auto simp: match_number_def Let_def split: if_splits)
  moreover have "length ?body = length (takeWhile is_digit ?body) + length (dropWhile is_digit ?body)"
    by (metis length_append takeWhile_dropWhile_id)
  ultimately show "length r < length s" by (cases "takeWhile is_digit ?body") (auto split: if_splits)
qed

text \<open>All matches, from left to right.\<close>

function scan_numbers :: "string \<Rightarrow> string list" where
  "scan_numbers s =
     (case s of [] \<Rightarrow> []
      | c # r \<Rightarrow> (case match_number s of
            Some (m, rest) \<Rightarrow> m # scan_numbers rest
          | None \<Rightarrow> scan_numbers r))"
  by pat_completeness auto

termination scan_numbers
  by (relation "measure length") (auto dest: match_number_shorter)

declare scan_numbers.simps [simp del]

definition number_value :: "string \<Rightarrow> real" where
  "number_value s = (case read_number s of Fin x \<Rightarrow> x | _ \<Rightarrow> 0)"

definition curve_point :: "real \<Rightarrow> real \<Rightarrow> real \<Rightarrow> real \<Rightarrow> real" where
  "curve_point t a c b = (1 - t) * (1 - t) * a + 2 * (1 - t) * t * c + t * t * b"

definition inside :: "real \<Rightarrow> real \<Rightarrow> Rect \<Rightarrow> bool" where
  "inside x y r \<longleftrightarrow> x > rect_x r + CLEARANCE \<and> x < rect_x r + rect_width r - CLEARANCE
     \<and> y > rect_y r + CLEARANCE \<and> y < rect_y r + rect_height r - CLEARANCE"

definition crossesAny :: "string \<Rightarrow> Rect list \<Rightarrow> bool" where
  "crossesAny path obstacles =
     (case map number_value (scan_numbers path) of
        x0 # y0 # cx # cy # x1 # y1 # _ \<Rightarrow>
          (\<exists>i \<in> set [1..<CURVE_SAMPLES]. let t = real i / real CURVE_SAMPLES
             in \<exists>r \<in> set obstacles. inside (curve_point t x0 cx x1) (curve_point t y0 cy y1) r)
      | _ \<Rightarrow> False)"

definition bend_candidates :: "real \<Rightarrow> real \<Rightarrow> real list" where
  "bend_candidates base step = [base, base + step, base - step, base + 2 * step, base - 2 * step]"

definition bendClearOf :: "Rect \<Rightarrow> Rect \<Rightarrow> Rect list \<Rightarrow> real \<Rightarrow> real \<Rightarrow> real" where
  "bendClearOf from to obstacles base step =
     (case js_find (\<lambda>bend. \<not> crossesAny (shape_path (edgeShape from to bend)) obstacles) (bend_candidates base step) of
        Some bend \<Rightarrow> bend | None \<Rightarrow> base)"

record Size =
  size_width :: real
  size_height :: real

definition design_rects :: "Design \<Rightarrow> Rect list" where
  "design_rects d = anywhereRect # map (\<lambda>n. nodeRect (node_point n)) (design_nodes d)"

text \<open>\<open>Math.max\<close> of a list that is never empty.\<close>

definition canvasSize :: "Design \<Rightarrow> Size" where
  "canvasSize d =
     (let right = Max (set (map (\<lambda>r. rect_x r + rect_width r) (design_rects d)));
          bottom = Max (set (map (\<lambda>r. rect_y r + rect_height r) (design_rects d)))
      in \<lparr>size_width = max WORKFLOW_CANVAS_MIN_WIDTH (right + WORKFLOW_CANVAS_MARGIN),
          size_height = max WORKFLOW_CANVAS_MIN_HEIGHT (bottom + WORKFLOW_CANVAS_MARGIN)\<rparr>)"

section \<open>What stops a design from saving\<close>

definition twice_key :: "Edge \<Rightarrow> string" where
  "twice_key e = edge_from e @ ''|'' @ toLowerCase (trim (edge_name e))"

fun twice_problems :: "workflow_words \<Rightarrow> (string \<times> Status) list \<Rightarrow> string set \<Rightarrow> Edge list \<Rightarrow> string list" where
  "twice_problems w statuses seen [] = []"
| "twice_problems w statuses seen (e # es) =
     (let key = twice_key e;
          from = (if edge_from e = ANYWHERE then ww_anyStatus w
                  else case map_of statuses (edge_from e) of Some s \<Rightarrow> status_name s | None \<Rightarrow> ww_sameStatus w)
      in (if trim (edge_name e) \<noteq> [] \<and> key \<in> seen then [ww_twice w (trim (edge_name e)) from] else [])
         @ twice_problems w statuses (insert key seen) es)"

definition problems :: "workflow_words \<Rightarrow> Design \<Rightarrow> (string \<times> Status) list \<Rightarrow> string list" where
  "problems w d statuses =
     (if trim (design_name d) = [] then [ww_noName w] else [])
     @ (if design_nodes d = [] then [ww_noStatus w] else if design_initialId d = [] then [ww_noInitial w] else [])
     @ (if \<exists>e \<in> set (design_edges d). trim (edge_name e) = [] then [ww_unnamedTransition w] else [])
     @ twice_problems w statuses {} (design_edges d)"

section \<open>A rule as one line\<close>

definition option_part :: "(real \<Rightarrow> string) \<Rightarrow> RuleInput \<Rightarrow> RuleOption \<Rightarrow> string" where
  "option_part num rule opt =
     (case map_of (draft_config rule) (option_name opt) of
        None \<Rightarrow> []
      | Some (JArr vs) \<Rightarrow> if vs \<noteq> [] then option_label opt @ '': '' @ join '', '' (json_items num vs) else []
      | Some v \<Rightarrow> if json_truthy v then option_label opt @ '': '' @ json_text num v else [])"

definition describeRule :: "(real \<Rightarrow> string) \<Rightarrow> RuleInput \<Rightarrow> RuleType list \<Rightarrow> string" where
  "describeRule num rule catalogue =
     (case js_find (\<lambda>ty. ruletype_type ty = draft_type rule) catalogue of
        None \<Rightarrow> draft_type rule
      | Some ty \<Rightarrow>
          let parts = filter (\<lambda>p. p \<noteq> []) (map (option_part num rule) (ruletype_options ty))
          in if parts \<noteq> [] then ruletype_label ty @ '' ('' @ join ''; '' parts @ '')'' else ruletype_label ty)"

end
