(* ===== verification/WorkflowProofs.thy ===== *)
theory WorkflowProofs
  imports WorkflowDesign
begin

text \<open>
  What the functions of the workflow designer promise: a status is laid out on free ground, a curve
  drawn round the cards misses them, a design with no problems is one the server's rules accept, and
  a workflow that is loaded and saved unchanged is the same workflow.
\<close>

section \<open>A free place\<close>

lemma slot_row_least:
  "row \<le> slot_row occ x row \<and> \<not> taken occ x (slot_row occ x row) \<and> (\<forall>r. row \<le> r \<and> r < slot_row occ x row \<longrightarrow> taken occ x r)"
proof (induction occ x row rule: slot_row.induct)
  case (1 occ x row)
  show ?case
  proof (cases "taken occ x row")
    case True
    with 1 have IH: "row + 1 \<le> slot_row occ x (row + 1)" "\<not> taken occ x (slot_row occ x (row + 1))"
      "\<And>r. row + 1 \<le> r \<Longrightarrow> r < slot_row occ x (row + 1) \<Longrightarrow> taken occ x r" by auto
    have "taken occ x r" if "row \<le> r" "r < slot_row occ x (row + 1)" for r
      using that True IH(3) [of r] by (cases "r = row") auto
    then show ?thesis using True IH(1,2) by (simp add: slot_row.simps [of occ x row])
  next
    case False
    then show ?thesis by (auto simp: slot_row.simps [of occ x row])
  qed
qed

text \<open>C11: Looking for a place for a status ends: within two rows for each box on the canvas it comes
  to the first row of the status's column in which the new box would overlap neither the box for any
  status nor any card already placed.\<close>
theorem slot_for_free:
  "\<exists>row. row \<le> 2 * (length nodes + 1) \<and> slotFor nodes category = \<lparr>point_x = slot_x category, point_y = slot_y row\<rparr>
    \<and> (\<forall>r \<in> set (anywhereRect # map (\<lambda>n. nodeRect (node_point n)) nodes).
         \<not> (\<bar>rect_x r - slot_x category\<bar> < WORKFLOW_NODE_WIDTH \<and> \<bar>rect_y r - slot_y row\<bar> < WORKFLOW_NODE_HEIGHT))
    \<and> (\<forall>earlier < row. taken (occupied nodes) (slot_x category) earlier)"
proof -
  let ?row = "slot_row (occupied nodes) (slot_x category) 0"
  note least = slot_row_least [of 0 "occupied nodes" "slot_x category"]
  have "{r. r < ?row} \<subseteq> {r. taken (occupied nodes) (slot_x category) r}" using least by auto
  then have "card {r. r < ?row} \<le> card {r. taken (occupied nodes) (slot_x category) r}" by (intro card_mono finite_taken)
  also have "\<dots> \<le> 2 * length (occupied nodes)" by (rule card_taken)
  finally have "?row \<le> 2 * (length nodes + 1)" by (simp add: occupied_def)
  moreover have "\<not> (\<bar>rect_x r - slot_x category\<bar> < WORKFLOW_NODE_WIDTH \<and> \<bar>rect_y r - slot_y ?row\<bar> < WORKFLOW_NODE_HEIGHT)"
    if "r \<in> set (anywhereRect # map (\<lambda>n. nodeRect (node_point n)) nodes)" for r
    using least that by (auto simp: taken_def occupied_def nodeRect_def node_point_def)
  ultimately show ?thesis using least by (intro exI [of _ ?row]) (auto simp: slotFor_def)
qed

text \<open>Four cards stacked in the first column push the next one past the box for any status.\<close>

definition stacked_nodes :: "Node list" where
  "stacked_nodes = [\<lparr>dn_statusId = ''a'', dn_x = 32, dn_y = 40\<rparr>, \<lparr>dn_statusId = ''b'', dn_x = 32, dn_y = 144\<rparr>]"

theorem slot_for_free_witness:
  "\<exists>row \<le> 6. slotFor stacked_nodes Todo = \<lparr>point_x = slot_x Todo, point_y = slot_y row\<rparr> \<and> row \<noteq> 0"
proof -
  obtain row where "row \<le> 6" "slotFor stacked_nodes Todo = \<lparr>point_x = slot_x Todo, point_y = slot_y row\<rparr>"
    "\<forall>r \<in> set (anywhereRect # map (\<lambda>n. nodeRect (node_point n)) stacked_nodes).
       \<not> (\<bar>rect_x r - slot_x Todo\<bar> < WORKFLOW_NODE_WIDTH \<and> \<bar>rect_y r - slot_y row\<bar> < WORKFLOW_NODE_HEIGHT)"
    using slot_for_free [of stacked_nodes Todo] by (auto simp: stacked_nodes_def)
  moreover from this(3) have "row \<noteq> 0"
    by (auto simp: stacked_nodes_def nodeRect_def node_point_def slot_x_def slot_y_def config)
  ultimately show ?thesis by blast
qed

section \<open>Problems\<close>

lemma distinct_less: "distinct xs \<longleftrightarrow> (\<forall>i j. i < j \<and> j < length xs \<longrightarrow> xs ! i \<noteq> xs ! j)"
proof
  assume "\<forall>i j. i < j \<and> j < length xs \<longrightarrow> xs ! i \<noteq> xs ! j"
  then show "distinct xs" unfolding distinct_conv_nth by (metis linorder_neqE_nat)
qed (auto simp: distinct_conv_nth)

lemma twice_problems_none:
  "twice_problems w statuses seen es = [] \<longleftrightarrow>
    (\<forall>e \<in> set es. trim (edge_name e) \<noteq> [] \<longrightarrow> twice_key e \<notin> seen)
    \<and> (\<forall>i j. i < j \<and> j < length es \<and> trim (edge_name (es ! j)) \<noteq> [] \<longrightarrow> twice_key (es ! i) \<noteq> twice_key (es ! j))"
proof (induction es arbitrary: seen)
  case (Cons e es)
  have split: "(\<forall>i j. i < j \<and> j < length (e # es) \<and> trim (edge_name ((e # es) ! j)) \<noteq> [] \<longrightarrow> twice_key ((e # es) ! i) \<noteq> twice_key ((e # es) ! j))
    \<longleftrightarrow> (\<forall>f \<in> set es. trim (edge_name f) \<noteq> [] \<longrightarrow> twice_key f \<noteq> twice_key e)
      \<and> (\<forall>i j. i < j \<and> j < length es \<and> trim (edge_name (es ! j)) \<noteq> [] \<longrightarrow> twice_key (es ! i) \<noteq> twice_key (es ! j))"
    (is "?l \<longleftrightarrow> ?m \<and> ?r")
  proof
    assume l: ?l
    have ?m
    proof (intro ballI impI)
      fix f assume "f \<in> set es" "trim (edge_name f) \<noteq> []"
      then obtain j where "j < length es" "es ! j = f" by (auto simp: in_set_conv_nth)
      then show "twice_key f \<noteq> twice_key e" using l [rule_format, of 0 "Suc j"] \<open>trim (edge_name f) \<noteq> []\<close> by auto
    qed
    moreover have ?r using l [rule_format, of "Suc _" "Suc _"] by simp
    ultimately show "?m \<and> ?r" ..
  next
    assume mr: "?m \<and> ?r"
    show ?l
    proof (intro allI impI)
      fix i j assume ij: "i < j \<and> j < length (e # es) \<and> trim (edge_name ((e # es) ! j)) \<noteq> []"
      then obtain j' where j: "j = Suc j'" by (cases j) auto
      show "twice_key ((e # es) ! i) \<noteq> twice_key ((e # es) ! j)"
        using mr ij by (cases i) (auto simp: j)
    qed
  qed
  show ?case unfolding split by (auto simp: Let_def Cons.IH)
qed simp

text \<open>
  A design has no problems exactly when it has a name, a status and one that issues open in, every
  transition has a name, and no two that leave the same place have the same name, however it is
  spaced or capitalised.
\<close>

lemma problems_none:
  assumes "\<forall>e \<in> set (design_edges d). CHR ''|'' \<notin> set (edge_from e)"
  shows "problems w d statuses = [] \<longleftrightarrow>
    trim (design_name d) \<noteq> [] \<and> design_nodes d \<noteq> [] \<and> design_initialId d \<noteq> []
    \<and> (\<forall>e \<in> set (design_edges d). trim (edge_name e) \<noteq> [])
    \<and> distinct (map (\<lambda>e. (edge_from e, toLowerCase (trim (edge_name e)))) (design_edges d))"
proof -
  have key: "twice_key e = twice_key f \<longleftrightarrow> edge_from e = edge_from f \<and> toLowerCase (trim (edge_name e)) = toLowerCase (trim (edge_name f))"
    if "e \<in> set (design_edges d)" "f \<in> set (design_edges d)" for e f
  proof -
    have "takeWhile (\<lambda>c. c \<noteq> CHR ''|'') (twice_key g) = edge_from g" if "g \<in> set (design_edges d)" for g
      unfolding twice_key_def using assms that by (subst takeWhile_append2) auto
    then have "edge_from e = edge_from f" if "twice_key e = twice_key f" using that \<open>e \<in> _\<close> \<open>f \<in> _\<close> by metis
    then show ?thesis by (auto simp: twice_key_def)
  qed
  have "twice_problems w statuses {} (design_edges d) = [] \<longleftrightarrow>
      distinct (map (\<lambda>e. (edge_from e, toLowerCase (trim (edge_name e)))) (design_edges d))"
    if named: "\<forall>e \<in> set (design_edges d). trim (edge_name e) \<noteq> []"
  proof -
    have "(\<forall>i j. i < j \<and> j < length (design_edges d) \<longrightarrow> twice_key (design_edges d ! i) \<noteq> twice_key (design_edges d ! j))
      \<longleftrightarrow> distinct (map (\<lambda>e. (edge_from e, toLowerCase (trim (edge_name e)))) (design_edges d))"
      by (simp add: distinct_less key)
    then show ?thesis using named by (auto simp: twice_problems_none)
  qed
  then show ?thesis by (auto simp: problems_def)
qed

definition sample_edge :: "string \<Rightarrow> string \<Rightarrow> string \<Rightarrow> string \<Rightarrow> Edge" where
  "sample_edge key name from to = \<lparr>edge_key = key, edge_id = None, edge_name = name, edge_description = [],
     edge_from = from, edge_to = to, edge_rules = []\<rparr>"

section \<open>Curves round the cards\<close>

lemma match_scaled:
  assumes "rest = [] \<or> \<not> is_digit (hd rest) \<and> hd rest \<noteq> CHR ''.''"
  shows "match_number (scaled_str d n @ rest) = Some (scaled_str d n, rest)"
proof -
  let ?k = "nat \<bar>n\<bar>"
  let ?fp = "strip_zeros (padStart d (nat_str (?k mod 10 ^ d)))"
  let ?ip = "nat_str (?k div 10 ^ d)"
  have ip: "\<forall>c \<in> set ?ip. is_digit c" by (rule nat_str_digits)
  have fp: "\<forall>c \<in> set ?fp. is_digit c" using strip_zeros_subset padStart_digits by blast
  have sep: "\<not> is_digit (CHR ''.'')" "\<not> is_digit (CHR ''-'')" by (simp_all add: is_digit_def)
  have hd: "hd ?ip \<noteq> CHR ''-''" using ip sep(2) nat_str_not_Nil [of "?k div 10 ^ d"] by (metis list.set_sel(1))
  have rest: "takeWhile is_digit rest = []" "dropWhile is_digit rest = rest" using assms by (cases rest; auto)+
  have tip: "takeWhile is_digit (?ip @ r) = ?ip @ takeWhile is_digit r" "dropWhile is_digit (?ip @ r) = dropWhile is_digit r" for r
    using ip by (simp_all add: takeWhile_append2 dropWhile_append2)
  have tfp: "takeWhile is_digit (?fp @ r) = ?fp @ takeWhile is_digit r" "dropWhile is_digit (?fp @ r) = dropWhile is_digit r" for r
    using fp by (simp_all add: takeWhile_append2 dropWhile_append2)
  have body: "takeWhile is_digit (?ip @ (if ?fp = [] then [] else CHR ''.'' # ?fp) @ rest) = ?ip"
    "dropWhile is_digit (?ip @ (if ?fp = [] then [] else CHR ''.'' # ?fp) @ rest) = (if ?fp = [] then [] else CHR ''.'' # ?fp) @ rest"
    unfolding tip using rest sep(1) by simp_all
  have sign: "(s :: string) = (if n < 0 then ''-'' else []) @ ?ip @ u \<Longrightarrow>
      (if s \<noteq> [] \<and> hd s = CHR ''-'' then ''-'' else []) = (if n < 0 then ''-'' else [])" for s u
    using hd nat_str_not_Nil [of "?k div 10 ^ d"] by (cases "n < 0") (simp_all add: hd_append)
  define u where "u = (if ?fp = [] then [] else CHR ''.'' # ?fp)"
  have s: "scaled_str d n = (if n < 0 then ''-'' else []) @ ?ip @ u" by (simp add: scaled_str_def Let_def u_def)
  have fpart: "(if u @ rest \<noteq> [] \<and> hd (u @ rest) = CHR ''.'' then takeWhile is_digit (tl (u @ rest)) else []) = ?fp"
    using assms rest by (cases "?fp = []") (auto simp: u_def tfp)
  have rem: "drop (length a) (a @ b) = b" for a b :: string by simp
  have tail: "(if ?fp = [] then Some (a @ ?ip, u @ rest) else Some (a @ ?ip @ CHR ''.'' # ?fp, drop (1 + length ?fp) (u @ rest)))
      = Some (a @ ?ip @ u, rest)" for a
    by (simp add: u_def)
  show ?thesis
    unfolding match_number_def s append_assoc Let_def sign [OF refl] rem body [folded u_def] fpart tail
    using nat_str_not_Nil by simp
qed

lemma scan_scaled:
  assumes "rest = [] \<or> \<not> is_digit (hd rest) \<and> hd rest \<noteq> CHR ''.''"
  shows "scan_numbers (scaled_str d n @ rest) = scaled_str d n # scan_numbers rest"
proof -
  have "scaled_str d n \<noteq> []" by (simp add: scaled_str_def Let_def)
  then obtain c r where "scaled_str d n @ rest = c # r" by (cases "scaled_str d n @ rest") auto
  then show ?thesis using match_scaled [OF assms, of d n] by (subst scan_numbers.simps) simp
qed

lemma scan_skip: "\<not> is_digit c \<Longrightarrow> c \<noteq> CHR ''-'' \<Longrightarrow> scan_numbers (c # r) = scan_numbers r"
  by (subst scan_numbers.simps) (simp add: match_number_def)

lemma scan_Nil: "scan_numbers [] = []"
  by (subst scan_numbers.simps) simp

text \<open>The numbers read from a path are those it was written with, to a tenth.\<close>

definition tenth :: "real \<Rightarrow> real" where
  "tenth n = of_int (js_round (n * 10)) / 10"

lemma number_tenth: "number_value (tenth_str x) = tenth x"
  using read_scaled_str [of 1 "js_round (x * 10)"] by (simp add: number_value_def tenth_str_def tenth_def)

lemma path_numbers:
  "map number_value (scan_numbers (path_str a c b))
    = map tenth [point_x a, point_y a, point_x c, point_y c, point_x b, point_y b]"
proof -
  have last: "scan_numbers (tenth_str x) = [tenth_str x]" for x
    using scan_scaled [of "[]" 1 "js_round (x * 10)"] by (simp add: tenth_str_def scan_Nil)
  have sep: "scan_numbers (tenth_str x @ CHR '' '' # r) = tenth_str x # scan_numbers r" for x r
    unfolding tenth_str_def by (subst scan_scaled) (simp_all add: is_digit_def scan_skip)
  have skip: "\<not> is_digit (CHR '' '')" "\<not> is_digit (CHR ''M'')" "\<not> is_digit (CHR ''Q'')" by (simp_all add: is_digit_def)
  show ?thesis by (simp add: path_str_def last sep scan_skip skip number_tenth)
qed

text \<open>A curve with ends and control point to a tenth, at one of the points the code looks at, over a card.\<close>

definition sample_hits :: "Rect \<Rightarrow> Rect \<Rightarrow> real \<Rightarrow> nat \<Rightarrow> Rect \<Rightarrow> bool" where
  "sample_hits from to bend i r =
     (let c = control_point from to bend; a = clipToRect from c; b = clipToRect to c; t = real i / real CURVE_SAMPLES
      in inside (curve_point t (tenth (point_x a)) (tenth (point_x c)) (tenth (point_x b)))
           (curve_point t (tenth (point_y a)) (tenth (point_y c)) (tenth (point_y b))) r)"

definition clear_of :: "Rect \<Rightarrow> Rect \<Rightarrow> Rect list \<Rightarrow> real \<Rightarrow> bool" where
  "clear_of from to obstacles bend \<longleftrightarrow>
     (\<forall>i \<in> set [1..<CURVE_SAMPLES]. \<forall>r \<in> set obstacles. \<not> sample_hits from to bend i r)"

lemma crossesAny_shape: "crossesAny (shape_path (edgeShape from to bend)) obstacles \<longleftrightarrow> \<not> clear_of from to obstacles bend"
  by (simp add: crossesAny_def edgeShape_def Let_def path_numbers sample_hits_def clear_of_def)

text \<open>C12: An arrow's bend is one of five, and its curve, read back from the path it is drawn with,
  enters none of the other cards at the points that are looked at. When all five do, and only then,
  the bend given is kept although it does; an earlier choice is never passed over.\<close>
theorem bend_clear_of:
  "if \<exists>bend \<in> set (bend_candidates base step). clear_of from to obstacles bend
   then clear_of from to obstacles (bendClearOf from to obstacles base step)
     \<and> (\<exists>earlier later. bend_candidates base step = earlier @ bendClearOf from to obstacles base step # later
          \<and> (\<forall>bend \<in> set earlier. \<not> clear_of from to obstacles bend))
   else bendClearOf from to obstacles base step = base"
proof (cases "js_find (clear_of from to obstacles) (bend_candidates base step)")
  case None
  then have "\<not> (\<exists>bend \<in> set (bend_candidates base step). clear_of from to obstacles bend)" by (auto simp: find_None_iff)
  then show ?thesis using None by (simp add: bendClearOf_def crossesAny_shape)
next
  case (Some bend)
  then obtain i where i: "i < length (bend_candidates base step)" "clear_of from to obstacles bend"
    "bend = bend_candidates base step ! i" "\<forall>j < i. \<not> clear_of from to obstacles (bend_candidates base step ! j)"
    by (auto simp: find_Some_iff)
  have b: "bendClearOf from to obstacles base step = bend" by (simp add: bendClearOf_def crossesAny_shape Some)
  have "bend_candidates base step = take i (bend_candidates base step) @ bend # drop (Suc i) (bend_candidates base step)"
    using i(1,3) id_take_nth_drop by metis
  moreover have "\<forall>x \<in> set (take i (bend_candidates base step)). \<not> clear_of from to obstacles x"
    using i(4) by (auto simp: in_set_conv_nth)
  moreover have "bend \<in> set (bend_candidates base step)" using i(1,3) by simp
  ultimately show ?thesis using i(2) unfolding b by auto
qed

theorem bend_clear_of_witness:
  "clear_of (nodeRect \<lparr>point_x = 0, point_y = 0\<rparr>) (nodeRect \<lparr>point_x = 600, point_y = 0\<rparr>) []
     (bendClearOf (nodeRect \<lparr>point_x = 0, point_y = 0\<rparr>) (nodeRect \<lparr>point_x = 600, point_y = 0\<rparr>) [] 0 64)"
  using bend_clear_of [of 0 64 "nodeRect \<lparr>point_x = 0, point_y = 0\<rparr>" "nodeRect \<lparr>point_x = 600, point_y = 0\<rparr>" "[]"]
  by (auto simp: clear_of_def bend_candidates_def)

section \<open>Loading and saving\<close>

definition lay_step :: "Design \<Rightarrow> Step \<Rightarrow> Design" where
  "lay_step d step = (if step_layout step = None
     then d\<lparr>design_nodes := design_nodes d @ [place_node (design_nodes d) (step_status step)]\<rparr> else d)"

definition loaded :: "WorkflowDetail \<Rightarrow> Design" where
  "loaded d = \<lparr>design_name = workflow_name (detail_workflow d),
     design_description = keep (workflow_description (detail_workflow d)) [],
     design_nodes = placed_nodes (detail_workflow d),
     design_initialId = (case js_find step_isInitial (workflow_steps (detail_workflow d)) of
         Some step \<Rightarrow> status_id (step_status step) | None \<Rightarrow> []),
     design_edges = map (edge_of_transition d) (workflow_transitions (detail_workflow d))\<rparr>"

lemma fromWorkflow_eq: "fromWorkflow d = foldl lay_step (loaded d) (workflow_steps (detail_workflow d))"
  unfolding fromWorkflow_def loaded_def lay_step_def keep_def Let_def by (rule refl)

lemma lay_steps_rest:
  "design_name (foldl lay_step d steps) = design_name d" "design_description (foldl lay_step d steps) = design_description d"
  "design_initialId (foldl lay_step d steps) = design_initialId d" "design_edges (foldl lay_step d steps) = design_edges d"
  by (induction steps arbitrary: d) (simp_all add: lay_step_def)

lemma lay_steps_nodes:
  "map dn_statusId (design_nodes (foldl lay_step d steps)) = map dn_statusId (design_nodes d)
     @ map (\<lambda>s. status_id (step_status s)) (filter (\<lambda>s. step_layout s = None) steps)"
  "set (design_nodes d) \<subseteq> set (design_nodes (foldl lay_step d steps))"
proof -
  show "map dn_statusId (design_nodes (foldl lay_step d steps)) = map dn_statusId (design_nodes d)
     @ map (\<lambda>s. status_id (step_status s)) (filter (\<lambda>s. step_layout s = None) steps)"
    by (induction steps arbitrary: d) (simp_all add: lay_step_def place_node_def Let_def)
  have "set (design_nodes d) \<subseteq> set (design_nodes (lay_step d s))" for d s by (auto simp: lay_step_def)
  then show "set (design_nodes d) \<subseteq> set (design_nodes (foldl lay_step d steps))"
    by (induction steps arbitrary: d) (simp, metis foldl_Cons order_trans)
qed

text \<open>The statuses of a workflow as its canvas holds them: those placed, then those laid out.\<close>

lemma fromWorkflow_ids:
  "map dn_statusId (design_nodes (fromWorkflow d)) = map (\<lambda>s. status_id (step_status s))
     (filter (\<lambda>s. step_layout s \<noteq> None) (workflow_steps (detail_workflow d)) @ filter (\<lambda>s. step_layout s = None) (workflow_steps (detail_workflow d)))"
  by (simp add: fromWorkflow_eq lay_steps_nodes(1) loaded_def placed_nodes_def)

lemma fromWorkflow_on_canvas:
  "on_canvas (fromWorkflow d) i \<longleftrightarrow> (\<exists>s \<in> set (workflow_steps (detail_workflow d)). status_id (step_status s) = i)"
proof -
  have "on_canvas (fromWorkflow d) i \<longleftrightarrow> i \<in> set (map dn_statusId (design_nodes (fromWorkflow d)))"
    by (auto simp: on_canvas_def)
  moreover have "set (filter P xs @ filter (\<lambda>x. \<not> P x) xs) = set xs" for P and xs :: "Step list" by auto
  from this [of "\<lambda>s. step_layout s \<noteq> None"]
  have "set (map dn_statusId (design_nodes (fromWorkflow d))) = (\<lambda>s. status_id (step_status s)) ` set (workflow_steps (detail_workflow d))"
    unfolding fromWorkflow_ids set_map by simp
  ultimately show ?thesis by auto
qed

text \<open>What the server keeps of a workflow: steps and statuses told apart, transitions between steps it has.\<close>

definition detail_ok :: "WorkflowDetail \<Rightarrow> bool" where
  "detail_ok d \<longleftrightarrow> (let steps = workflow_steps (detail_workflow d) in
     distinct (map step_id steps) \<and> distinct (map (\<lambda>s. status_id (step_status s)) steps)
     \<and> (\<forall>s \<in> set steps. step_id s \<noteq> [] \<and> status_id (step_status s) \<noteq> [])
     \<and> length (filter step_isInitial steps) \<le> 1
     \<and> distinct (map transition_id (workflow_transitions (detail_workflow d)))
     \<and> (\<forall>tr \<in> set (workflow_transitions (detail_workflow d)). transition_toStepId tr \<in> step_id ` set steps
          \<and> (\<forall>i. transition_fromStepId tr = Some i \<longrightarrow> i \<in> step_id ` set steps \<and> i \<noteq> transition_toStepId tr)))"

lemma detail_okD:
  assumes "detail_ok d" and "steps = workflow_steps (detail_workflow d)"
  shows "distinct (map step_id steps)" "distinct (map (\<lambda>s. status_id (step_status s)) steps)"
    "s \<in> set steps \<Longrightarrow> step_id s \<noteq> [] \<and> status_id (step_status s) \<noteq> []"
    "length (filter step_isInitial steps) \<le> 1"
    "distinct (map transition_id (workflow_transitions (detail_workflow d)))"
    "tr \<in> set (workflow_transitions (detail_workflow d)) \<Longrightarrow> transition_toStepId tr \<in> step_id ` set steps"
    "tr \<in> set (workflow_transitions (detail_workflow d)) \<Longrightarrow> transition_fromStepId tr = Some i \<Longrightarrow>
       i \<in> step_id ` set steps \<and> i \<noteq> transition_toStepId tr"
  using assms unfolding detail_ok_def Let_def by blast+

definition status_at :: "Workflow \<Rightarrow> string \<Rightarrow> string" where
  "status_at w i = (case js_find (\<lambda>s. step_id s = i) (workflow_steps w) of Some s \<Rightarrow> status_id (step_status s) | None \<Rightarrow> [])"

lemma status_at_step:
  assumes "distinct (map step_id (workflow_steps w))" "s \<in> set (workflow_steps w)"
  shows "status_at w (step_id s) = status_id (step_status s)" "map_of (statusOfStep w) (step_id s) = Some (step_status s)"
proof -
  have "js_find (\<lambda>t. step_id t = step_id s) (workflow_steps w) = Some s"
  proof -
    obtain i where "i < length (workflow_steps w)" "workflow_steps w ! i = s" using assms(2) by (auto simp: in_set_conv_nth)
    moreover from this have "step_id (workflow_steps w ! j) \<noteq> step_id s" if "j < i" for j
      using assms(1) that by (auto simp: distinct_conv_nth)
    ultimately show ?thesis unfolding find_Some_iff by auto
  qed
  then show "status_at w (step_id s) = status_id (step_status s)" by (simp add: status_at_def)
  show "map_of (statusOfStep w) (step_id s) = Some (step_status s)"
    unfolding statusOfStep_def using assms by (intro put_all_distinct) (auto simp: comp_def)
qed

lemma edge_of_transition_ends:
  assumes "detail_ok d" "tr \<in> set (workflow_transitions (detail_workflow d))"
  shows "edge_from (edge_of_transition d tr) = (case transition_fromStepId tr of None \<Rightarrow> ANYWHERE | Some i \<Rightarrow> status_at (detail_workflow d) i)"
    "edge_to (edge_of_transition d tr) = status_at (detail_workflow d) (transition_toStepId tr)"
proof -
  note ok = detail_okD [OF assms(1) refl]
  note at_step = status_at_step [OF ok(1)]
  show "edge_to (edge_of_transition d tr) = status_at (detail_workflow d) (transition_toStepId tr)"
    using ok(6) [OF assms(2)] at_step by (auto simp: edge_of_transition_def Let_def)
  show "edge_from (edge_of_transition d tr) = (case transition_fromStepId tr of None \<Rightarrow> ANYWHERE | Some i \<Rightarrow> status_at (detail_workflow d) i)"
  proof (cases "transition_fromStepId tr")
    case (Some i)
    then obtain s where s: "s \<in> set (workflow_steps (detail_workflow d))" "i = step_id s" using ok(7) [OF assms(2)] by blast
    then show ?thesis using Some at_step [OF s(1)] ok(3) [OF s(1)] by (simp add: edge_of_transition_def Let_def)
  qed (simp add: edge_of_transition_def Let_def)
qed

lemma status_at_not_Nil: "detail_ok d \<Longrightarrow> i \<in> step_id ` set (workflow_steps (detail_workflow d)) \<Longrightarrow> status_at (detail_workflow d) i \<noteq> []"
  using detail_okD(1,3) [OF _ refl] status_at_step(1) by fastforce

lemma initial_loaded:
  assumes "detail_ok d" "s \<in> set (workflow_steps (detail_workflow d))"
  shows "status_id (step_status s) = design_initialId (fromWorkflow d) \<longleftrightarrow> step_isInitial s"
proof -
  note ok = detail_okD [OF assms(1) refl]
  let ?steps = "workflow_steps (detail_workflow d)"
  have one: "s = r" if "r \<in> set ?steps" "step_isInitial r" "step_isInitial s" for r
  proof -
    have "s \<in> set (filter step_isInitial ?steps)" "r \<in> set (filter step_isInitial ?steps)" using that assms(2) by simp_all
    then show ?thesis using ok(4) by (cases "filter step_isInitial ?steps"; cases "tl (filter step_isInitial ?steps)") auto
  qed
  have same: "s = r" if "r \<in> set ?steps" "status_id (step_status s) = status_id (step_status r)" for r
    using ok(2) assms(2) that by (auto simp: distinct_map inj_on_def)
  have init: "design_initialId (fromWorkflow d) = (case js_find step_isInitial ?steps of Some r \<Rightarrow> status_id (step_status r) | None \<Rightarrow> [])"
    by (simp add: fromWorkflow_eq lay_steps_rest loaded_def)
  show ?thesis
  proof (cases "js_find step_isInitial ?steps")
    case None
    then have "\<not> step_isInitial s" using assms(2) by (auto simp: find_None_iff)
    then show ?thesis using ok(3) [OF assms(2)] None by (simp add: init)
  next
    case (Some r)
    then have r: "r \<in> set ?steps" "step_isInitial r" by (auto simp: find_Some_iff)
    then show ?thesis using one [OF r] same [OF r(1)] Some by (auto simp: init)
  qed
qed

lemma saved_steps:
  "map stepin_statusId (input_steps (toInput d)) = map dn_statusId (design_nodes d)"
  "map (\<lambda>s. (stepin_statusId s, stepin_isInitial s)) (input_steps (toInput d))
     = map (\<lambda>i. (i, i = design_initialId d)) (map dn_statusId (design_nodes d))"
  by (simp_all add: toInput_def)

text \<open>C8: A workflow that is opened in the designer and saved as it is keeps its name, its statuses
  and the one that issues open in, the place of every status that had one, and every transition with
  its id, its two ends and its rules in their order.\<close>
theorem save_unchanged:
  assumes "detail_ok d"
  shows "input_name (toInput (fromWorkflow d)) = workflow_name (detail_workflow d)
    \<and> mset (map (\<lambda>s. (stepin_statusId s, stepin_isInitial s)) (input_steps (toInput (fromWorkflow d))))
      = mset (map (\<lambda>s. (status_id (step_status s), step_isInitial s)) (workflow_steps (detail_workflow d)))
    \<and> (\<forall>s \<in> set (workflow_steps (detail_workflow d)). \<forall>p. step_layout s = Some p \<longrightarrow>
         (\<exists>i \<in> set (input_steps (toInput (fromWorkflow d))). stepin_statusId i = status_id (step_status s) \<and> stepin_layout i = Some p))
    \<and> map (\<lambda>i. (transin_id i, transin_name i, transin_fromStatusId i, transin_toStatusId i)) (input_transitions (toInput (fromWorkflow d)))
      = map (\<lambda>tr. (Some (transition_id tr), transition_name tr,
          map_option (status_at (detail_workflow d)) (transition_fromStepId tr),
          status_at (detail_workflow d) (transition_toStepId tr))) (workflow_transitions (detail_workflow d))
    \<and> map (\<lambda>i. map (\<lambda>r. (draft_kind r, draft_type r, draft_config r)) (keep (transin_rules i) [])) (input_transitions (toInput (fromWorkflow d)))
      = map (\<lambda>tr. map (\<lambda>r. (rule_kind r, rule_type r, keep (rule_config r) []))
          (keep (map_of (detail_rules d) (transition_id tr)) [])) (workflow_transitions (detail_workflow d))"
proof (intro conjI)
  let ?steps = "workflow_steps (detail_workflow d)"
  note ok = detail_okD [OF assms refl]
  show "input_name (toInput (fromWorkflow d)) = workflow_name (detail_workflow d)"
    by (simp add: toInput_def fromWorkflow_eq lay_steps_rest loaded_def)
  let ?order = "filter (\<lambda>s. step_layout s \<noteq> None) ?steps @ filter (\<lambda>s. step_layout s = None) ?steps"
  have order: "map (\<lambda>s. (stepin_statusId s, stepin_isInitial s)) (input_steps (toInput (fromWorkflow d)))
      = map (\<lambda>s. (status_id (step_status s), step_isInitial s)) ?order"
    unfolding saved_steps fromWorkflow_ids map_map comp_def using initial_loaded [OF assms] by (intro map_cong) auto
  have perm: "mset ?order = mset ?steps" by (simp add: union_code)
  show "mset (map (\<lambda>s. (stepin_statusId s, stepin_isInitial s)) (input_steps (toInput (fromWorkflow d))))
      = mset (map (\<lambda>s. (status_id (step_status s), step_isInitial s)) ?steps)"
    unfolding order mset_map perm by (rule refl)
  show "\<forall>s \<in> set ?steps. \<forall>p. step_layout s = Some p \<longrightarrow>
      (\<exists>i \<in> set (input_steps (toInput (fromWorkflow d))). stepin_statusId i = status_id (step_status s) \<and> stepin_layout i = Some p)"
  proof (intro ballI allI impI)
    fix s p assume s: "s \<in> set ?steps" "step_layout s = Some p"
    let ?n = "\<lparr>dn_statusId = status_id (step_status s), dn_x = point_x p, dn_y = point_y p\<rparr>"
    have "?n \<in> set (design_nodes (loaded d))" using s by (force simp: loaded_def placed_nodes_def)
    then have "?n \<in> set (design_nodes (fromWorkflow d))" using lay_steps_nodes(2) unfolding fromWorkflow_eq by blast
    then show "\<exists>i \<in> set (input_steps (toInput (fromWorkflow d))). stepin_statusId i = status_id (step_status s) \<and> stepin_layout i = Some p"
      by (force simp: toInput_def node_point_def)
  qed
  have edges: "design_edges (fromWorkflow d) = map (edge_of_transition d) (workflow_transitions (detail_workflow d))"
    by (simp add: fromWorkflow_eq lay_steps_rest loaded_def)
  show "map (\<lambda>i. (transin_id i, transin_name i, transin_fromStatusId i, transin_toStatusId i)) (input_transitions (toInput (fromWorkflow d)))
      = map (\<lambda>tr. (Some (transition_id tr), transition_name tr, map_option (status_at (detail_workflow d)) (transition_fromStepId tr),
          status_at (detail_workflow d) (transition_toStepId tr))) (workflow_transitions (detail_workflow d))"
  proof -
    have "(if edge_from (edge_of_transition d tr) = ANYWHERE then None else Some (edge_from (edge_of_transition d tr)))
        = map_option (status_at (detail_workflow d)) (transition_fromStepId tr)"
      if tr: "tr \<in> set (workflow_transitions (detail_workflow d))" for tr
      unfolding edge_of_transition_ends [OF assms tr] using ok(7) [OF tr] status_at_not_Nil [OF assms]
      by (cases "transition_fromStepId tr") (auto simp: ANYWHERE_def)
    then show ?thesis unfolding toInput_def edges using edge_of_transition_ends(2) [OF assms]
      by (simp add: edge_of_transition_def Let_def)
  qed
  show "map (\<lambda>i. map (\<lambda>r. (draft_kind r, draft_type r, draft_config r)) (keep (transin_rules i) [])) (input_transitions (toInput (fromWorkflow d)))
      = map (\<lambda>tr. map (\<lambda>r. (rule_kind r, rule_type r, keep (rule_config r) []))
          (keep (map_of (detail_rules d) (transition_id tr)) [])) (workflow_transitions (detail_workflow d))"
    by (simp add: toInput_def edges edge_of_transition_def Let_def keep_def)
qed

definition sample_detail :: WorkflowDetail where
  "sample_detail = \<lparr>detail_workflow = \<lparr>workflow_id = ''w'', workflow_name = ''Bugs'', workflow_description = None,
     workflow_steps =
       [\<lparr>step_id = ''s1'', step_status = (sample_status Todo)\<lparr>status_id := ''o''\<rparr>, step_isInitial = True, step_position = 0, step_layout = None\<rparr>,
        \<lparr>step_id = ''s2'', step_status = (sample_status Done)\<lparr>status_id := ''d''\<rparr>, step_isInitial = False, step_position = 1,
          step_layout = Some \<lparr>point_x = 8, point_y = 16\<rparr>\<rparr>],
     workflow_transitions = [\<lparr>transition_id = ''t'', transition_name = ''Close'', transition_description = None,
       transition_fromStepId = Some ''s1'', transition_toStepId = ''s2'', transition_position = 0\<rparr>]\<rparr>,
   detail_rules = []\<rparr>"

lemma sample_detail_ok: "detail_ok sample_detail"
  by (simp add: detail_ok_def sample_detail_def samples)

theorem save_unchanged_witness:
  "map (\<lambda>i. (transin_id i, transin_name i, transin_fromStatusId i, transin_toStatusId i)) (input_transitions (toInput (fromWorkflow sample_detail)))
    = [(Some ''t'', ''Close'', Some ''o'', ''d'')]"
  using save_unchanged [OF sample_detail_ok] by (simp add: sample_detail_def status_at_def samples)

end
