(* ===== verification/Designer.thy ===== *)
theory Designer
  imports WorkflowProofs
begin

text \<open>
  The workflow designer as a state machine: the design being edited, what is selected, the statuses it
  knows and the counter behind the keys of new transitions. A step is one action of the canvas or of
  the inspector (\<open>web/src/features/workflows/designer/WorkflowDesigner.tsx\<close>, \<open>Inspector.tsx\<close>), with the
  panel that offers it as its guard. At the end, what the drawing library is handed, \<open>flow.ts\<close>.
\<close>

section \<open>States and steps\<close>

datatype Selection = NothingSelected | NodeSelected string | EdgeSelected string

record designer =
  ds_design :: Design
  ds_selection :: Selection
  ds_statuses :: "Status list"
  ds_nextKey :: nat

text \<open>The organization's statuses and then those coined here, by id.\<close>

definition status_map :: "designer \<Rightarrow> (string \<times> Status) list" where
  "status_map s = put_all [] (map (\<lambda>st. (status_id st, st)) (ds_statuses s))"

text \<open>Which panel the inspector shows.\<close>

datatype panel = DesignPanel | NodePanel Status | EdgePanel Edge

definition Inspector :: "designer \<Rightarrow> panel" where
  "Inspector s = (case ds_selection s of
      EdgeSelected key \<Rightarrow> (case js_find (\<lambda>e. edge_key e = key) (design_edges (ds_design s)) of
          Some e \<Rightarrow> EdgePanel e | None \<Rightarrow> DesignPanel)
    | NodeSelected i \<Rightarrow> (case map_of (status_map s) i of
          Some st \<Rightarrow> if on_canvas (ds_design s) (status_id st) then NodePanel st else DesignPanel
        | None \<Rightarrow> DesignPanel)
    | NothingSelected \<Rightarrow> DesignPanel)"

text \<open>Drawing a transition, on the canvas or in the inspector, selects it; a refused one changes nothing.\<close>

definition connectNodes :: "designer \<Rightarrow> string \<Rightarrow> string \<Rightarrow> designer" where
  "connectNodes s from to =
     (case connect (ds_nextKey s) (ds_design s) from to
             (case map_of (status_map s) to of Some st \<Rightarrow> status_name st | None \<Rightarrow> []) of
        None \<Rightarrow> s
      | Some (d, key, n) \<Rightarrow> s\<lparr>ds_design := d, ds_selection := EdgeSelected key, ds_nextKey := n\<rparr>)"

definition addTransition :: "designer \<Rightarrow> Status \<Rightarrow> string \<Rightarrow> designer" where
  "addTransition s status target =
     (case map_of (status_map s) target of
        None \<Rightarrow> s
      | Some to \<Rightarrow>
          (case connect (ds_nextKey s) (ds_design s) (status_id status) (status_id to) (status_name to) of
             None \<Rightarrow> s
           | Some (d, key, n) \<Rightarrow> s\<lparr>ds_design := d, ds_selection := EdgeSelected key, ds_nextKey := n\<rparr>))"

definition add :: "designer \<Rightarrow> string \<Rightarrow> designer" where
  "add s adding = (case map_of (status_map s) adding of None \<Rightarrow> s | Some st \<Rightarrow> s\<lparr>ds_design := addStatus (ds_design s) st\<rparr>)"

definition onCreated :: "designer \<Rightarrow> Status \<Rightarrow> designer" where
  "onCreated s st = s\<lparr>ds_statuses := ds_statuses s @ [st], ds_design := addStatus (ds_design s) st,
     ds_selection := NodeSelected (status_id st)\<rparr>"

text \<open>The fields the edge panel edits are the name, the description and the rules, never the ends.\<close>

definition panel_patch :: "edge_patch \<Rightarrow> bool" where
  "panel_patch p \<longleftrightarrow> patch_from p = None \<and> patch_to p = None"

inductive designer_step :: "designer \<Rightarrow> designer \<Rightarrow> bool" where
  rename: "designer_step s (s\<lparr>ds_design := (ds_design s)\<lparr>design_name := name\<rparr>\<rparr>)"
| select: "designer_step s (s\<lparr>ds_selection := sel\<rparr>)"
| move: "designer_step s (s\<lparr>ds_design := moveNode (ds_design s) i x y\<rparr>)"
| draw: "designer_step s (connectNodes s from to)"
| describe: "Inspector s = DesignPanel \<Longrightarrow> designer_step s (s\<lparr>ds_design := (ds_design s)\<lparr>design_description := text\<rparr>\<rparr>)"
| put: "Inspector s = DesignPanel \<Longrightarrow> designer_step s (add s adding)"
| coin: "Inspector s = DesignPanel \<Longrightarrow> status_id st \<noteq> [] \<Longrightarrow> designer_step s (onCreated s st)"
| open_in: "Inspector s = NodePanel st \<Longrightarrow> designer_step s (s\<lparr>ds_design := setInitial (ds_design s) (status_id st)\<rparr>)"
| to_target: "Inspector s = NodePanel st \<Longrightarrow> designer_step s (addTransition s st target)"
| take_off: "Inspector s = NodePanel st \<Longrightarrow>
    designer_step s (s\<lparr>ds_design := removeStatus (ds_design s) (status_id st), ds_selection := NothingSelected\<rparr>)"
| patch: "Inspector s = EdgePanel e \<Longrightarrow> panel_patch p \<Longrightarrow>
    designer_step s (s\<lparr>ds_design := updateEdge (ds_design s) (edge_key e) p\<rparr>)"
| erase: "Inspector s = EdgePanel e \<Longrightarrow>
    designer_step s (s\<lparr>ds_design := removeEdge (ds_design s) (edge_key e), ds_selection := NothingSelected\<rparr>)"

inductive_cases designer_stepE: "designer_step s s'"

text \<open>
  A session starts on an empty canvas or on a workflow of the server's, with the organization's
  statuses. Ids of the server are not empty and none is the key of a new transition.
\<close>

inductive designed :: "designer \<Rightarrow> bool" where
  blank: "\<forall>st \<in> set statuses. status_id st \<noteq> [] \<Longrightarrow>
    designed \<lparr>ds_design = emptyDesign, ds_selection = NothingSelected, ds_statuses = statuses, ds_nextKey = n\<rparr>"
| opened: "detail_ok d \<Longrightarrow> \<forall>st \<in> set statuses. status_id st \<noteq> [] \<Longrightarrow>
    \<forall>tr \<in> set (workflow_transitions (detail_workflow d)). \<forall>k. transition_id tr \<noteq> new_key k \<Longrightarrow>
    designed \<lparr>ds_design = fromWorkflow d, ds_selection = NothingSelected, ds_statuses = statuses, ds_nextKey = n\<rparr>"
| acts: "designed s \<Longrightarrow> designer_step s s' \<Longrightarrow> designed s'"

section \<open>What every design is like\<close>

definition edge_ok :: "Design \<Rightarrow> Edge \<Rightarrow> bool" where
  "edge_ok d e \<longleftrightarrow> (edge_from e = ANYWHERE \<or> on_canvas d (edge_from e)) \<and> on_canvas d (edge_to e) \<and> edge_from e \<noteq> edge_to e"

definition design_ok :: "nat \<Rightarrow> Design \<Rightarrow> bool" where
  "design_ok n d \<longleftrightarrow> distinct (map dn_statusId (design_nodes d)) \<and> \<not> on_canvas d ANYWHERE
     \<and> (design_initialId d = [] \<or> on_canvas d (design_initialId d))
     \<and> (\<forall>e \<in> set (design_edges d). edge_ok d e)
     \<and> distinct (map edge_key (design_edges d))
     \<and> (\<forall>e \<in> set (design_edges d). \<forall>k. edge_key e = new_key k \<longrightarrow> k \<le> n)"

lemma design_okD:
  assumes "design_ok n d"
  shows "distinct (map dn_statusId (design_nodes d))" "\<not> on_canvas d ANYWHERE"
    "design_initialId d = [] \<or> on_canvas d (design_initialId d)" "e \<in> set (design_edges d) \<Longrightarrow> edge_ok d e"
    "distinct (map edge_key (design_edges d))" "e \<in> set (design_edges d) \<Longrightarrow> edge_key e = new_key k \<Longrightarrow> k \<le> n"
  using assms unfolding design_ok_def by blast+

lemma design_okI:
  assumes "distinct (map dn_statusId (design_nodes d))" "\<not> on_canvas d ANYWHERE"
    "design_initialId d = [] \<or> on_canvas d (design_initialId d)" "\<And>e. e \<in> set (design_edges d) \<Longrightarrow> edge_ok d e"
    "distinct (map edge_key (design_edges d))" "\<And>e k. e \<in> set (design_edges d) \<Longrightarrow> edge_key e = new_key k \<Longrightarrow> k \<le> n"
  shows "design_ok n d"
  using assms unfolding design_ok_def by blast

lemma new_key_inj: "new_key k = new_key j \<longleftrightarrow> k = j"
  unfolding new_key_def by (metis append_same_eq same_append_eq str_nat_nat_str)

text \<open>An edit that leaves the cards' statuses, the initial one and the transitions' ends and keys alone.\<close>

lemma design_ok_same:
  assumes ok: "design_ok n d" and nodes: "map dn_statusId (design_nodes d') = map dn_statusId (design_nodes d)"
    and rest: "design_initialId d' = design_initialId d"
      "map (\<lambda>e. (edge_key e, edge_from e, edge_to e)) (design_edges d') = map (\<lambda>e. (edge_key e, edge_from e, edge_to e)) (design_edges d)"
  shows "design_ok n d'"
proof -
  note D = design_okD [OF ok]
  have can: "on_canvas d' i \<longleftrightarrow> on_canvas d i" for i
    using arg_cong [OF nodes, of "\<lambda>xs. i \<in> set xs"] by (auto simp: on_canvas_def)
  have keys: "map edge_key (design_edges d') = map edge_key (design_edges d)"
    using arg_cong [OF rest(2), of "map fst"] by (simp add: comp_def)
  have "\<exists>f \<in> set (design_edges d). (edge_key f, edge_from f, edge_to f) = (edge_key e, edge_from e, edge_to e)"
    if e: "e \<in> set (design_edges d')" for e
  proof -
    have "(edge_key e, edge_from e, edge_to e) \<in> set (map (\<lambda>e. (edge_key e, edge_from e, edge_to e)) (design_edges d))"
      using e unfolding rest(2) [symmetric] by simp
    then show ?thesis by auto
  qed
  then have "edge_ok d' e" "\<And>k. edge_key e = new_key k \<Longrightarrow> k \<le> n" if "e \<in> set (design_edges d')" for e
    using that D(4,6) unfolding edge_ok_def can by (metis prod.inject)+
  then show ?thesis using D(1,2,3,5) by (intro design_okI) (simp_all add: can keys nodes rest(1))
qed

lemma design_ok_addStatus:
  assumes "design_ok n d" "status_id st \<noteq> []"
  shows "design_ok n (addStatus d st)"
proof (cases "on_canvas d (status_id st)")
  case False
  note D = design_okD [OF assms(1)]
  let ?d = "addStatus d st"
  have d: "design_nodes ?d = design_nodes d @ [place_node (design_nodes d) st]" "design_edges ?d = design_edges d"
    "design_initialId ?d = (if design_initialId d \<noteq> [] then design_initialId d else status_id st)"
    using False by (simp_all add: addStatus_def)
  have can: "on_canvas ?d i \<longleftrightarrow> on_canvas d i \<or> i = status_id st" for i
    by (auto simp: on_canvas_def d place_node_def Let_def)
  show ?thesis
  proof (rule design_okI)
    show "distinct (map dn_statusId (design_nodes ?d))"
      using D(1) False by (auto simp: d place_node_def Let_def on_canvas_def)
    show "design_initialId ?d = [] \<or> on_canvas ?d (design_initialId ?d)" using D(3) by (auto simp: d can)
    show "edge_ok ?d e" if "e \<in> set (design_edges ?d)" for e using D(4) that by (auto simp: d edge_ok_def can)
  qed (use D assms(2) in \<open>auto simp: can d ANYWHERE_def\<close>)
qed (simp add: addStatus_def assms(1))

lemma design_ok_removeStatus: "design_ok n d \<Longrightarrow> design_ok n (removeStatus d i)"
proof -
  assume ok: "design_ok n d"
  note D = design_okD [OF ok]
  let ?d = "removeStatus d i"
  have can: "on_canvas ?d j \<longleftrightarrow> on_canvas d j \<and> j \<noteq> i" for j by (auto simp: on_canvas_def removeStatus_def)
  have es: "set (design_edges ?d) = {e \<in> set (design_edges d). edge_from e \<noteq> i \<and> edge_to e \<noteq> i}" by (auto simp: removeStatus_def)
  show ?thesis
  proof (rule design_okI)
    show "distinct (map dn_statusId (design_nodes ?d))" using D(1) by (simp add: removeStatus_def distinct_map_filter)
    show "design_initialId ?d = [] \<or> on_canvas ?d (design_initialId ?d)" using D(3) unfolding can by (simp add: removeStatus_def)
    show "edge_ok ?d e" if "e \<in> set (design_edges ?d)" for e
      using D(4) [of e] that by (auto simp: edge_ok_def can es)
    show "distinct (map edge_key (design_edges ?d))" using D(5) by (simp add: removeStatus_def distinct_map_filter)
    show "k \<le> n" if "e \<in> set (design_edges ?d)" "edge_key e = new_key k" for e k
      using D(6) [of e k] that by (simp add: removeStatus_def)
  qed (use D(2) can in simp)
qed

lemma design_ok_setInitial: "design_ok n d \<Longrightarrow> on_canvas d i \<Longrightarrow> design_ok n (setInitial d i)"
  unfolding design_ok_def setInitial_def edge_ok_def on_canvas_def by simp

lemma design_ok_connect:
  assumes "design_ok n d" "connect n d from to name = Some (d', key, n')"
  shows "design_ok n' d'"
proof -
  note D = design_okD [OF assms(1)]
  from assms(2) have c: "from \<noteq> to" "to \<noteq> ANYWHERE" "from = ANYWHERE \<or> on_canvas d from" "on_canvas d to" "n' = Suc n"
    "design_edges d' = design_edges d @ [sample_edge (new_key (Suc n)) name from to]"
    "design_nodes d' = design_nodes d" "design_initialId d' = design_initialId d"
    by (auto simp: connect_def Let_def sample_edge_def split: if_splits)
  have can: "on_canvas d' i \<longleftrightarrow> on_canvas d i" for i by (simp add: on_canvas_def c)
  have fresh: "new_key (Suc n) \<notin> edge_key ` set (design_edges d)" using D(6) [of _ "Suc n"] by force
  show ?thesis
  proof (rule design_okI)
    show "edge_ok d' e" if "e \<in> set (design_edges d')" for e
      using that D(4) [of e] c by (auto simp: edge_ok_def can sample_edge_def)
    show "distinct (map edge_key (design_edges d'))" using D(5) fresh by (auto simp: c(6) sample_edge_def)
    show "k \<le> n'" if "e \<in> set (design_edges d')" "edge_key e = new_key k" for e k
      using that D(6) [of e k] by (auto simp: c(5,6) sample_edge_def new_key_inj)
  qed (use D c can in simp_all)
qed

lemma design_ok_empty: "design_ok n emptyDesign"
  by (simp add: design_ok_def emptyDesign_def on_canvas_def)

lemma design_ok_opened:
  assumes ok: "detail_ok d" and new: "\<forall>tr \<in> set (workflow_transitions (detail_workflow d)). \<forall>k. transition_id tr \<noteq> new_key k"
  shows "design_ok n (fromWorkflow d)"
proof -
  note W = detail_okD [OF ok refl]
  let ?w = "detail_workflow d"
  have edges: "design_edges (fromWorkflow d) = map (edge_of_transition d) (workflow_transitions ?w)"
    and init: "design_initialId (fromWorkflow d) = (case js_find step_isInitial (workflow_steps ?w) of Some s \<Rightarrow> status_id (step_status s) | None \<Rightarrow> [])"
    by (simp_all add: fromWorkflow_eq lay_steps_rest loaded_def)
  have key: "edge_key (edge_of_transition d tr) = transition_id tr" for tr by (simp add: edge_of_transition_def Let_def)
  have at_step: "on_canvas (fromWorkflow d) (status_at ?w i)" "status_at ?w i \<noteq> []" if "i \<in> step_id ` set (workflow_steps ?w)" for i
    using that status_at_step(1) [OF W(1)] status_at_not_Nil [OF ok that] by (auto simp: fromWorkflow_on_canvas)
  have inj: "i = j" if ij: "status_at ?w i = status_at ?w j" "i \<in> step_id ` set (workflow_steps ?w)" "j \<in> step_id ` set (workflow_steps ?w)" for i j
  proof -
    obtain a b where "a \<in> set (workflow_steps ?w)" "b \<in> set (workflow_steps ?w)" "i = step_id a" "j = step_id b" using ij(2,3) by blast
    then show ?thesis using W(2) ij(1) status_at_step(1) [OF W(1)] by (auto simp: distinct_map inj_on_def)
  qed
  show ?thesis
  proof (rule design_okI)
    have "mset (map dn_statusId (design_nodes (fromWorkflow d))) = mset (map (\<lambda>s. status_id (step_status s)) (workflow_steps ?w))"
      unfolding fromWorkflow_ids mset_map by (simp add: union_code)
    then show "distinct (map dn_statusId (design_nodes (fromWorkflow d)))" using W(2) mset_eq_imp_distinct_iff by blast
    show "\<not> on_canvas (fromWorkflow d) ANYWHERE" unfolding fromWorkflow_on_canvas using W(3) by (auto simp: ANYWHERE_def)
    show "design_initialId (fromWorkflow d) = [] \<or> on_canvas (fromWorkflow d) (design_initialId (fromWorkflow d))"
      unfolding init fromWorkflow_on_canvas by (auto simp: find_Some_iff split: option.splits)
    show "edge_ok (fromWorkflow d) e" if "e \<in> set (design_edges (fromWorkflow d))" for e
    proof -
      obtain tr where tr: "tr \<in> set (workflow_transitions ?w)" "e = edge_of_transition d tr" using \<open>e \<in> _\<close> by (auto simp: edges)
      note ends = edge_of_transition_ends [OF ok tr(1)]
      have to_ok: "on_canvas (fromWorkflow d) (edge_to e)" "edge_to e \<noteq> []" using W(6) [OF tr(1)] at_step by (simp_all add: tr(2) ends)
      show ?thesis
      proof (cases "transition_fromStepId tr")
        case None
        then show ?thesis using to_ok by (simp add: edge_ok_def tr(2) ends ANYWHERE_def)
      next
        case (Some i)
        have i: "i \<in> step_id ` set (workflow_steps ?w)" "i \<noteq> transition_toStepId tr" using W(7) [OF tr(1) Some] by simp_all
        then show ?thesis using to_ok(1) at_step(1) [OF i(1)] inj [OF _ i(1) W(6) [OF tr(1)]]
          by (auto simp: edge_ok_def tr(2) ends Some)
      qed
    qed
    show "distinct (map edge_key (design_edges (fromWorkflow d)))" using W(5) by (simp add: edges comp_def key)
    show "k \<le> n" if "e \<in> set (design_edges (fromWorkflow d))" "edge_key e = new_key k" for e k
      using that new by (auto simp: edges key)
  qed
qed

definition designer_inv :: "designer \<Rightarrow> bool" where
  "designer_inv s \<longleftrightarrow> design_ok (ds_nextKey s) (ds_design s) \<and> (\<forall>st \<in> set (ds_statuses s). status_id st \<noteq> [])"

lemma status_map_id: "map_of (status_map s) i = Some st \<Longrightarrow> st \<in> set (ds_statuses s)"
proof -
  have "set (put_all m kvs) \<subseteq> set m \<union> set kvs" for m kvs :: "(string \<times> Status) list"
  proof (induction kvs arbitrary: m)
    case (Cons kv kvs)
    have "set (AList.update k v m) \<subseteq> insert (k, v) (set m)" for k v and m :: "(string \<times> Status) list"
      by (induction m) auto
    then show ?case using Cons [of "AList.update (fst kv) (snd kv) m"] by force
  qed simp
  from this [of "[]"] show "map_of (status_map s) i = Some st \<Longrightarrow> st \<in> set (ds_statuses s)"
    unfolding status_map_def by (fastforce dest!: map_of_SomeD)
qed

lemma node_panel_on_canvas: "Inspector s = NodePanel st \<Longrightarrow> on_canvas (ds_design s) (status_id st)"
  by (auto simp: Inspector_def split: Selection.splits option.splits if_splits)

lemma connect_inv:
  assumes "designer_inv s"
  shows "designer_inv (case connect (ds_nextKey s) (ds_design s) from to name of None \<Rightarrow> s
      | Some (d, key, n) \<Rightarrow> s\<lparr>ds_design := d, ds_selection := EdgeSelected key, ds_nextKey := n\<rparr>)"
  using assms design_ok_connect by (auto simp: designer_inv_def split: option.splits)

lemma step_inv: "designer_step s s' \<Longrightarrow> designer_inv s \<Longrightarrow> designer_inv s'"
proof (induction rule: designer_step.induct)
  case (move s i x y)
  have ids: "map dn_statusId (design_nodes (moveNode (ds_design s) i x y)) = map dn_statusId (design_nodes (ds_design s))"
    by (simp add: moveNode_def comp_def if_distrib cong: if_cong)
  have "design_ok (ds_nextKey s) (moveNode (ds_design s) i x y)"
    by (rule design_ok_same [OF _ ids]) (use move in \<open>simp_all add: moveNode_def designer_inv_def\<close>)
  then show ?case using move by (simp add: designer_inv_def)
next
  case (patch s e p)
  have ends: "map (\<lambda>e. (edge_key e, edge_from e, edge_to e)) (design_edges (updateEdge (ds_design s) (edge_key e) p))
      = map (\<lambda>e. (edge_key e, edge_from e, edge_to e)) (design_edges (ds_design s))"
    using patch(2) by (simp add: updateEdge_def patched_def keep_def panel_patch_def)
  have "design_ok (ds_nextKey s) (updateEdge (ds_design s) (edge_key e) p)"
    by (rule design_ok_same [OF _ _ _ ends]) (use patch in \<open>simp_all add: updateEdge_def designer_inv_def\<close>)
  then show ?case using patch by (simp add: designer_inv_def)
next
  case (rename s name)
  then show ?case using design_ok_same [of _ "ds_design s"] by (simp add: designer_inv_def)
next
  case (describe s words)
  then show ?case using design_ok_same [of _ "ds_design s"] by (simp add: designer_inv_def)
next
  case (draw s "from" "to")
  then show ?case unfolding connectNodes_def by (rule connect_inv)
next
  case (to_target s st target)
  then show ?case using connect_inv by (auto simp: addTransition_def split: option.split)
next
  case (put s adding)
  then show ?case using status_map_id [of s adding]
    by (auto simp: add_def designer_inv_def intro!: design_ok_addStatus split: option.split)
next
  case (coin s st)
  then show ?case by (auto simp: onCreated_def designer_inv_def intro!: design_ok_addStatus)
next
  case (open_in s st)
  then show ?case using node_panel_on_canvas [of s st] by (auto simp: designer_inv_def intro!: design_ok_setInitial)
next
  case (take_off s st)
  then show ?case by (auto simp: designer_inv_def intro!: design_ok_removeStatus)
next
  case (erase s e)
  have "design_ok n (removeEdge d k)" if "design_ok n d" for n d k
    using that by (auto simp: design_ok_def removeEdge_def edge_ok_def on_canvas_def distinct_map_filter)
  then show ?case using erase by (auto simp: designer_inv_def)
qed (simp add: designer_inv_def)

lemma designed_inv: "designed s \<Longrightarrow> designer_inv s"
proof (induction rule: designed.induct)
  case (opened d statuses n)
  then show ?case using design_ok_opened by (simp add: designer_inv_def)
next
  case (acts s s')
  show ?case by (rule step_inv [OF acts(2,3)])
qed (simp add: designer_inv_def design_ok_empty)

text \<open>C7: Whatever is done in the designer, from an empty canvas or from a stored workflow, no status is on
  the canvas twice, issues open in a status that is on it or in none yet, every transition leads
  from any status or one on the canvas to another on the canvas, no two transitions share a key, and
  a transition that is drawn next gets a key of its own.\<close>
theorem designs_stay_sound:
  assumes "designed s"
  shows "distinct (map dn_statusId (design_nodes (ds_design s)))
    \<and> (design_initialId (ds_design s) = [] \<or> on_canvas (ds_design s) (design_initialId (ds_design s)))
    \<and> (\<forall>e \<in> set (design_edges (ds_design s)). (edge_from e = ANYWHERE \<or> on_canvas (ds_design s) (edge_from e))
         \<and> on_canvas (ds_design s) (edge_to e) \<and> edge_from e \<noteq> edge_to e)
    \<and> distinct (map edge_key (design_edges (ds_design s)))
    \<and> new_key (ds_nextKey s + 1) \<notin> edge_key ` set (design_edges (ds_design s))"
proof -
  have "design_ok (ds_nextKey s) (ds_design s)" using designed_inv [OF assms] by (simp add: designer_inv_def)
  note D = design_okD [OF this]
  have "new_key (ds_nextKey s + 1) \<notin> edge_key ` set (design_edges (ds_design s))"
    using D(6) [of _ "ds_nextKey s + 1"] by force
  then show ?thesis using D(1,3,4,5) unfolding edge_ok_def by simp
qed

text \<open>A session: open a workflow, remove the status issues open in, draw its transition again.\<close>

definition sample_session :: designer where
  "sample_session = \<lparr>ds_design = fromWorkflow sample_detail, ds_selection = NothingSelected, ds_statuses = [], ds_nextKey = 0\<rparr>"

lemma sample_session_designed: "designed sample_session"
  unfolding sample_session_def
  by (rule designed.opened) (simp_all add: sample_detail_ok, simp add: sample_detail_def new_key_def)

theorem designs_stay_sound_witness:
  "designed (connectNodes sample_session ''d'' ''o'') \<and> length (design_edges (ds_design (connectNodes sample_session ''d'' ''o''))) = 2
    \<and> distinct (map edge_key (design_edges (ds_design (connectNodes sample_session ''d'' ''o''))))"
proof -
  have d: "designed (connectNodes sample_session ''d'' ''o'')"
    by (rule designed.acts [OF sample_session_designed designer_step.draw])
  have "on_canvas (fromWorkflow sample_detail) ''d''" "on_canvas (fromWorkflow sample_detail) ''o''"
    unfolding fromWorkflow_on_canvas by (simp_all add: sample_detail_def samples)
  moreover have "length (design_edges (fromWorkflow sample_detail)) = 1"
    unfolding fromWorkflow_eq lay_steps_rest by (simp add: loaded_def sample_detail_def)
  ultimately have "length (design_edges (ds_design (connectNodes sample_session ''d'' ''o''))) = 2"
    by (simp add: connectNodes_def connect_def sample_session_def ANYWHERE_def Let_def)
  then show ?thesis using d designs_stay_sound [OF d] by simp
qed

end
