(* ===== verification/WorkflowServer.thy ===== *)
theory WorkflowServer
  imports Designer
begin

text \<open>
  The rules the server holds a workflow against before it is stored, \<open>backend/internal/workflow\<close>, and
  what the designer's own list of problems is worth: a design it has nothing to say about is accepted.
  A status's id stands for the UUID it writes, and the names of the organization's statuses are a
  parameter.
\<close>

section \<open>The server's rules\<close>

definition uuid_Nil :: string where
  "uuid_Nil = ''00000000-0000-0000-0000-000000000000''"

definition invalid :: "string \<Rightarrow> string option" where
  "invalid text = Some (''invalid workflow: '' @ text)"

fun check_steps :: "(string \<rightharpoonup> string) \<Rightarrow> StepInput list \<Rightarrow> string set \<Rightarrow> string \<Rightarrow> string + string set" where
  "check_steps names [] seen initial =
     (if initial = [] then Inl ''one status has to be where new issues start'' else Inr seen)"
| "check_steps names (step # steps) seen initial =
     (case names (stepin_statusId step) of
        None \<Rightarrow> Inl ''there is no such status''
      | Some name \<Rightarrow>
          if stepin_statusId step \<in> seen then Inl (name @ '' is listed twice'')
          else let seen = insert (stepin_statusId step) seen
               in if stepin_isInitial step
                  then if initial \<noteq> []
                       then Inl (''new issues can only start in one status, and both '' @ initial @ '' and '' @ name @ '' are marked'')
                       else check_steps names steps seen name
                  else check_steps names steps seen initial)"

definition name_at :: "(string \<rightharpoonup> string) \<Rightarrow> string \<Rightarrow> string" where
  "name_at names i = (case names i of Some name \<Rightarrow> name | None \<Rightarrow> [])"

fun validateEdges :: "TransitionInput list \<Rightarrow> string set \<Rightarrow> (string \<rightharpoonup> string) \<Rightarrow> (string \<times> string) set \<Rightarrow> string option" where
  "validateEdges [] inWorkflow names byName = None"
| "validateEdges (t # ts) inWorkflow names byName =
     (if transin_name t = [] then invalid ''every transition needs a name''
      else if transin_toStatusId t \<notin> inWorkflow then invalid (transin_name t @ '' leads to a status this workflow does not contain'')
      else
        let rest = (\<lambda>from. if (from, transin_name t) \<in> byName
              then invalid (if from = uuid_Nil then ''there are two transitions called '' @ transin_name t @ '' available everywhere''
                   else ''there are two transitions called '' @ transin_name t @ '' leaving '' @ name_at names from)
              else validateEdges ts inWorkflow names (insert (from, transin_name t) byName))
        in case transin_fromStatusId t of
             None \<Rightarrow> rest uuid_Nil
           | Some from \<Rightarrow>
               if from \<notin> inWorkflow then invalid (transin_name t @ '' leaves a status this workflow does not contain'')
               else if from = transin_toStatusId t
               then invalid (transin_name t @ '' goes from '' @ name_at names from @ '' back to itself'')
               else rest from)"

definition ValidateGraph :: "GraphInput \<Rightarrow> (string \<rightharpoonup> string) \<Rightarrow> string option" where
  "ValidateGraph g names =
     (if input_name g = [] then invalid ''a workflow needs a name''
      else if input_steps g = [] then invalid ''a workflow needs at least one status''
      else case check_steps names (input_steps g) {} [] of
          Inl text \<Rightarrow> invalid text
        | Inr seen \<Rightarrow> validateEdges (input_transitions g) seen names {})"

text \<open>
  \<open>checkGraph\<close> up to its last line: names and descriptions are trimmed and the graph is checked. The
  rules on the transitions are held against the registry of rules after that, which is not modelled.
\<close>

definition check_shape :: "(string \<rightharpoonup> string) \<Rightarrow> GraphInput \<Rightarrow> string option" where
  "check_shape names g = ValidateGraph (g\<lparr>input_name := TrimSpace (input_name g),
     input_description := map_option TrimSpace (input_description g),
     input_transitions := map (\<lambda>t. t\<lparr>transin_name := TrimSpace (transin_name t),
       transin_description := map_option TrimSpace (transin_description t)\<rparr>) (input_transitions g)\<rparr>) names"

section \<open>A design without problems is accepted\<close>

lemma TrimSpace_trim: "CHR 0x85 \<notin> set s \<Longrightarrow> TrimSpace s = trim s"
proof -
  have same: "go_space c = is_space c" if "c \<noteq> CHR 0x85" for c
  proof -
    have "(of_char (CHR 0x85) :: nat) = 133" by simp
    then have "(of_char c :: nat) \<noteq> 133" using that by (metis of_char_eq_iff)
    then show ?thesis by (simp add: go_space_def is_space_def)
  qed
  have drop: "dropWhile go_space t = dropWhile is_space t" if "CHR 0x85 \<notin> set t" for t
  proof (rule dropWhile_cong [OF refl])
    fix x assume "x \<in> set t"
    then have "x \<noteq> CHR 0x85" using that by metis
    then show "go_space x = is_space x" by (rule same)
  qed
  assume s: "CHR 0x85 \<notin> set s"
  then have "CHR 0x85 \<notin> set (rev (dropWhile is_space s))" by (auto dest: set_dropWhileD)
  then show ?thesis by (simp add: TrimSpace_def trim_def trim_start_def drop [OF s] drop)
qed

lemma check_steps_ok:
  assumes "\<forall>st \<in> set steps. names (stepin_statusId st) \<noteq> None \<and> names (stepin_statusId st) \<noteq> Some []"
    "distinct (map stepin_statusId steps)" "\<forall>st \<in> set steps. stepin_statusId st \<notin> seen"
    "length (filter stepin_isInitial steps) = (if initial = [] then 1 else 0)"
  shows "check_steps names steps seen initial = Inr (seen \<union> stepin_statusId ` set steps)"
  using assms
proof (induction steps arbitrary: seen initial)
  case (Cons st steps)
  obtain name where name: "names (stepin_statusId st) = Some name" "name \<noteq> []" using Cons.prems(1) by auto
  have rest: "\<forall>t \<in> set steps. stepin_statusId t \<notin> insert (stepin_statusId st) seen" using Cons.prems(2,3) by (simp add: image_iff) metis
  show ?case
  proof (cases "stepin_isInitial st")
    case True
    then have "initial = []" "length (filter stepin_isInitial steps) = 0" using Cons.prems(4) by (auto split: if_splits)
    then show ?thesis using Cons.IH [of "insert (stepin_statusId st) seen" name] Cons.prems rest name True by (simp add: Let_def)
  next
    case False
    then show ?thesis using Cons.IH [of "insert (stepin_statusId st) seen" initial] Cons.prems rest name by (simp add: Let_def)
  qed
qed (auto split: if_splits)

definition from_key :: "TransitionInput \<Rightarrow> string" where
  "from_key t = (case transin_fromStatusId t of None \<Rightarrow> uuid_Nil | Some i \<Rightarrow> i)"

lemma validateEdges_ok:
  assumes "\<forall>t \<in> set ts. transin_name t \<noteq> [] \<and> transin_toStatusId t \<in> inWorkflow
      \<and> (\<forall>i. transin_fromStatusId t = Some i \<longrightarrow> i \<in> inWorkflow \<and> i \<noteq> transin_toStatusId t)"
    "distinct (map (\<lambda>t. (from_key t, transin_name t)) ts)" "\<forall>t \<in> set ts. (from_key t, transin_name t) \<notin> byName"
  shows "validateEdges ts inWorkflow names byName = None"
  using assms
proof (induction ts arbitrary: byName)
  case (Cons t ts)
  have rest: "\<forall>u \<in> set ts. (from_key u, transin_name u) \<notin> insert (from_key t, transin_name t) byName" using Cons.prems(2,3) by (simp add: image_iff) metis
  have IH: "validateEdges ts inWorkflow names (insert (from_key t, transin_name t) byName) = None"
    using Cons.IH [of "insert (from_key t, transin_name t) byName"] Cons.prems rest by simp
  show ?case
  proof (cases "transin_fromStatusId t")
    case None
    then show ?thesis using IH Cons.prems by (simp add: from_key_def Let_def)
  next
    case (Some i)
    then show ?thesis using IH Cons.prems by (simp add: from_key_def Let_def)
  qed
qed simp

lemma initial_steps:
  assumes "distinct (map dn_statusId (design_nodes d))" "on_canvas d (design_initialId d)"
  shows "length (filter stepin_isInitial (input_steps (toInput d))) = 1"
proof -
  have "length (filter (\<lambda>n. dn_statusId n = i) ns) = 1" if "distinct (map dn_statusId ns)" "i \<in> dn_statusId ` set ns" for i ns
  proof -
    have "length (filter (\<lambda>n. dn_statusId n = i) ns) = count (mset (map dn_statusId ns)) i"
      by (induction ns) auto
    then show ?thesis using that by (simp add: distinct_count_atmost_1)
  qed
  moreover have "design_initialId d \<in> dn_statusId ` set (design_nodes d)" using assms(2) unfolding on_canvas_def by force
  ultimately have "length (filter (\<lambda>n. dn_statusId n = design_initialId d) (design_nodes d)) = 1" using assms(1) by blast
  moreover have "length (filter stepin_isInitial (map (\<lambda>n. \<lparr>stepin_statusId = dn_statusId n,
      stepin_isInitial = (dn_statusId n = i), stepin_layout = Some (node_point n)\<rparr>) ns))
      = length (filter (\<lambda>n. dn_statusId n = i) ns)" for i ns
    by (induction ns) auto
  ultimately show ?thesis by (simp add: toInput_def)
qed

lemma distinct_map_finer: "distinct (map f xs) \<Longrightarrow> (\<And>x y. x \<in> set xs \<Longrightarrow> y \<in> set xs \<Longrightarrow> g x = g y \<Longrightarrow> f x = f y) \<Longrightarrow> distinct (map g xs)"
  unfolding distinct_map inj_on_def by blast

text \<open>C3: A design that is reached in the designer and that the designer has no complaint about is
  accepted by the server's check of a workflow's graph, once the server knows its statuses: the list
  of problems leaves out nothing about the graph that would make a save be refused. Names with a next-line control are
  left aside, since the server takes it for white space and the browser does not.\<close>
theorem clean_design_accepted:
  assumes "designed s" "problems w (ds_design s) statuses = []"
    and known: "\<And>i. on_canvas (ds_design s) i \<Longrightarrow> names i \<noteq> None \<and> names i \<noteq> Some [] \<and> CHR ''|'' \<notin> set i \<and> i \<noteq> uuid_Nil"
    and plain: "CHR 0x85 \<notin> set (design_name (ds_design s))" "\<forall>e \<in> set (design_edges (ds_design s)). CHR 0x85 \<notin> set (edge_name e)"
  shows "check_shape names (toInput (ds_design s)) = None"
proof -
  let ?d = "ds_design s"
  have "design_ok (ds_nextKey s) ?d" using designed_inv [OF assms(1)] by (simp add: designer_inv_def)
  note D = design_okD [OF this]
  have ends: "edge_from e = ANYWHERE \<or> on_canvas ?d (edge_from e)" "on_canvas ?d (edge_to e)" "edge_from e \<noteq> edge_to e"
    if "e \<in> set (design_edges ?d)" for e using D(4) [OF that] by (simp_all add: edge_ok_def)
  have "\<forall>e \<in> set (design_edges ?d). CHR ''|'' \<notin> set (edge_from e)"
    using ends(1) known unfolding ANYWHERE_def by (metis empty_iff list.set(1))
  with assms(2) have P: "trim (design_name ?d) \<noteq> []" "design_nodes ?d \<noteq> []" "design_initialId ?d \<noteq> []"
    "\<forall>e \<in> set (design_edges ?d). trim (edge_name e) \<noteq> []"
    "distinct (map (\<lambda>e. (edge_from e, toLowerCase (trim (edge_name e)))) (design_edges ?d))"
    by (simp_all add: problems_none)
  have on: "on_canvas ?d i \<longleftrightarrow> i \<in> dn_statusId ` set (design_nodes ?d)" for i by (auto simp: on_canvas_def)
  let ?g = "toInput ?d"
  have ids: "stepin_statusId st \<in> dn_statusId ` set (design_nodes ?d)" if "st \<in> set (input_steps ?g)" for st
    using that by (auto simp: toInput_def)
  have "check_steps names (input_steps ?g) {} [] = Inr ({} \<union> stepin_statusId ` set (input_steps ?g))"
  proof (rule check_steps_ok)
    show "\<forall>st \<in> set (input_steps ?g). names (stepin_statusId st) \<noteq> None \<and> names (stepin_statusId st) \<noteq> Some []"
      using ids known unfolding on by blast
    show "distinct (map stepin_statusId (input_steps ?g))" unfolding saved_steps(1) by (rule D(1))
    show "length (filter stepin_isInitial (input_steps ?g)) = (if [] = ([] :: string) then 1 else 0)"
      using initial_steps [OF D(1)] D(3) P(3) by simp
  qed simp
  then have seen: "check_steps names (input_steps ?g) {} [] = Inr (stepin_statusId ` set (input_steps ?g))" by simp
  let ?tr = "\<lambda>e. \<lparr>transin_id = edge_id e, transin_name = TrimSpace (edge_name e), transin_description = Some (TrimSpace (edge_description e)),
     transin_fromStatusId = (if edge_from e = ANYWHERE then None else Some (edge_from e)), transin_toStatusId = edge_to e, transin_rules = Some (edge_rules e)\<rparr>"
  have name: "TrimSpace (edge_name e) = trim (edge_name e)" if "e \<in> set (design_edges ?d)" for e
    using plain(2) that by (simp add: TrimSpace_trim)
  have "distinct (map (\<lambda>e. (from_key (?tr e), transin_name (?tr e))) (design_edges ?d))"
  proof (rule distinct_map_finer [OF P(5)])
    fix e f assume ef: "e \<in> set (design_edges ?d)" "f \<in> set (design_edges ?d)"
      "(from_key (?tr e), transin_name (?tr e)) = (from_key (?tr f), transin_name (?tr f))"
    have "edge_from e \<noteq> uuid_Nil" "edge_from f \<noteq> uuid_Nil"
      using ends(1) [OF ef(1)] ends(1) [OF ef(2)] known by (auto simp: ANYWHERE_def uuid_Nil_def)
    then show "(edge_from e, toLowerCase (trim (edge_name e))) = (edge_from f, toLowerCase (trim (edge_name f)))"
      using ef(3) name [OF ef(1)] name [OF ef(2)] by (auto simp: from_key_def split: if_splits)
  qed
  moreover have "\<forall>t \<in> set (map ?tr (design_edges ?d)). transin_name t \<noteq> [] \<and> transin_toStatusId t \<in> stepin_statusId ` set (input_steps ?g)
      \<and> (\<forall>i. transin_fromStatusId t = Some i \<longrightarrow> i \<in> stepin_statusId ` set (input_steps ?g) \<and> i \<noteq> transin_toStatusId t)"
    using ends P(4) name by (auto simp: toInput_def image_image on)
  ultimately have "validateEdges (map ?tr (design_edges ?d)) (stepin_statusId ` set (input_steps ?g)) names {} = None"
    by (intro validateEdges_ok) (simp_all add: comp_def)
  moreover have "input_steps ?g \<noteq> []" using P(2) by (simp add: toInput_def)
  moreover have "TrimSpace (design_name ?d) \<noteq> []" using P(1) plain(1) by (simp add: TrimSpace_trim)
  ultimately show ?thesis using seen by (simp add: check_shape_def ValidateGraph_def toInput_def comp_def)
qed

theorem clean_design_accepted_witness:
  "problems workflowsEn (ds_design sample_session) [] = [] \<and> check_shape (\<lambda>i. Some i) (toInput (ds_design sample_session)) = None"
proof -
  let ?d = "fromWorkflow sample_detail"
  have on: "on_canvas ?d i \<longleftrightarrow> i = ''o'' \<or> i = ''d''" for i
    unfolding fromWorkflow_on_canvas by (auto simp: sample_detail_def samples)
  have rest: "design_name ?d = ''Bugs''" "design_initialId ?d = ''o''"
    "design_edges ?d = [edge_of_transition sample_detail (hd (workflow_transitions (detail_workflow sample_detail)))]"
    unfolding fromWorkflow_eq lay_steps_rest by (simp_all add: loaded_def sample_detail_def)
  have edge: "edge_name (edge_of_transition d tr) = transition_name tr" for d tr by (simp add: edge_of_transition_def Let_def)
  have tr: "transition_name (hd (workflow_transitions (detail_workflow sample_detail))) = ''Close''" by (simp add: sample_detail_def)
  have "trim ''Bugs'' \<noteq> []" "trim ''Close'' \<noteq> []" by code_simp+
  moreover have "design_nodes ?d \<noteq> []" using on [of "''o''"] by (auto simp: on_canvas_def)
  ultimately have clean: "problems workflowsEn ?d [] = []" by (simp add: problems_def rest edge tr)
  have "check_shape (\<lambda>i. Some i) (toInput (ds_design sample_session)) = None"
    by (rule clean_design_accepted [OF sample_session_designed])
      (use clean in \<open>auto simp: sample_session_def on uuid_Nil_def rest edge tr\<close>)
  then show ?thesis using clean by (simp add: sample_session_def)
qed

end
