(* ===== verification/WorkflowFlow.thy ===== *)
theory WorkflowFlow
  imports Designer
begin

text \<open>
  What the drawing library is handed for a design, \<open>web/src/features/workflows/designer/flow.ts\<close>, and
  that it can draw it: every box and arrow has an id of its own that is not empty, and every arrow
  ends at boxes that are there.
\<close>

section \<open>Nodes and edges for the library\<close>

definition ANYWHERE_NODE_ID :: string where "ANYWHERE_NODE_ID = ''anywhere''"

definition toNodeId :: "string \<Rightarrow> string" where
  "toNodeId statusId = (if statusId = ANYWHERE then ANYWHERE_NODE_ID else statusId)"

definition fromNodeId :: "string \<Rightarrow> string" where
  "fromNodeId nodeId = (if nodeId = ANYWHERE_NODE_ID then ANYWHERE else nodeId)"

datatype handle_type = SourceHandle | TargetHandle

datatype handle_position = PositionLeft | PositionRight

record NodeHandle =
  handle_type :: handle_type
  handle_position :: handle_position
  handle_rect :: Rect

definition handlesOf :: "bool \<Rightarrow> NodeHandle list" where
  "handlesOf cover =
     (let ring = \<lparr>handle_type = SourceHandle, handle_position = PositionRight,
            handle_rect = \<lparr>rect_x = WORKFLOW_NODE_WIDTH - WORKFLOW_HANDLE_SIZE / 2,
              rect_y = (WORKFLOW_NODE_HEIGHT - WORKFLOW_HANDLE_SIZE) / 2,
              rect_width = WORKFLOW_HANDLE_SIZE, rect_height = WORKFLOW_HANDLE_SIZE\<rparr>\<rparr>
      in if \<not> cover then [ring]
         else [\<lparr>handle_type = TargetHandle, handle_position = PositionLeft,
            handle_rect = \<lparr>rect_x = 0, rect_y = 0, rect_width = WORKFLOW_NODE_WIDTH, rect_height = WORKFLOW_NODE_HEIGHT\<rparr>\<rparr>, ring])"

text \<open>The value of an attribute; undefined is not written.\<close>

datatype attribute = AttrText string | AttrNumber real | AttrBool bool | AttrUndefined

datatype node_data = StatusData Status bool bool | AnywhereData bool

record FlowNode =
  flow_id :: string
  flow_position :: Point
  flow_initialWidth :: real
  flow_initialHeight :: real
  flow_draggable :: bool
  flow_selectable :: bool
  flow_focusable :: bool
  flow_connectable :: bool
  flow_handles :: "NodeHandle list"
  flow_selected :: "bool option"
  flow_ariaRole :: "string option"
  flow_ariaLabel :: string
  flow_domAttributes :: "(string \<times> attribute) list"
  flow_data :: node_data

record TransitionEdge =
  te_id :: string
  te_source :: string
  te_target :: string
  te_selectable :: bool
  te_focusable :: bool
  te_selected :: bool
  te_ariaRole :: "string option"
  te_ariaLabel :: string
  te_domAttributes :: "(string \<times> attribute) list"
  te_name :: string
  te_shape :: EdgeShape
  te_readOnly :: bool

definition status_node :: "workflow_words \<Rightarrow> Design \<Rightarrow> Selection \<Rightarrow> bool \<Rightarrow> Node \<Rightarrow> Status \<Rightarrow> FlowNode" where
  "status_node w d sel readOnly n status =
     (let selected = (sel = NodeSelected (dn_statusId n)); initial = (design_initialId d = dn_statusId n)
      in \<lparr>flow_id = toNodeId (dn_statusId n), flow_position = node_point n,
          flow_initialWidth = WORKFLOW_NODE_WIDTH, flow_initialHeight = WORKFLOW_NODE_HEIGHT,
          flow_draggable = \<not> readOnly, flow_selectable = \<not> readOnly, flow_focusable = \<not> readOnly, flow_connectable = \<not> readOnly,
          flow_handles = handlesOf True, flow_selected = Some selected,
          flow_ariaRole = (if readOnly then None else Some ''button''),
          flow_ariaLabel = status_name status @ (if initial then canvas_initial w else []),
          flow_domAttributes = [(''data-workflow-node'', AttrText (status_name status)), (''data-x'', AttrNumber (dn_x n)),
            (''data-y'', AttrNumber (dn_y n)), (''aria-pressed'', if readOnly then AttrUndefined else AttrBool selected)],
          flow_data = StatusData status initial readOnly\<rparr>)"

definition anywhere_node :: "workflow_words \<Rightarrow> bool \<Rightarrow> FlowNode" where
  "anywhere_node w readOnly =
     \<lparr>flow_id = ANYWHERE_NODE_ID, flow_position = \<lparr>point_x = rect_x anywhereRect, point_y = rect_y anywhereRect\<rparr>,
      flow_initialWidth = WORKFLOW_NODE_WIDTH, flow_initialHeight = WORKFLOW_NODE_HEIGHT,
      flow_draggable = False, flow_selectable = False, flow_focusable = False, flow_connectable = \<not> readOnly,
      flow_handles = handlesOf False, flow_selected = None, flow_ariaRole = None, flow_ariaLabel = canvas_anyStatus w,
      flow_domAttributes = [(''data-workflow-anywhere'', AttrText [])], flow_data = AnywhereData readOnly\<rparr>"

definition flow_nodes :: "workflow_words \<Rightarrow> Design \<Rightarrow> (string \<times> Status) list \<Rightarrow> Selection \<Rightarrow> bool \<Rightarrow> FlowNode list" where
  "flow_nodes w d statuses sel readOnly =
     List.map_filter (\<lambda>n. map_option (status_node w d sel readOnly n) (map_of statuses (dn_statusId n))) (design_nodes d)
     @ (if \<not> readOnly \<or> (\<exists>e \<in> set (design_edges d). edge_from e = ANYWHERE) then [anywhere_node w readOnly] else [])"

definition flow_edge :: "workflow_words \<Rightarrow> Design \<Rightarrow> FlowNode list \<Rightarrow> Selection \<Rightarrow> bool \<Rightarrow> Edge \<Rightarrow> TransitionEdge option" where
  "flow_edge w d nodes sel readOnly e =
     (case (rectOf d (edge_from e), rectOf d (edge_to e)) of
        (Some from, Some to) \<Rightarrow>
          let obstacles = map (\<lambda>n. nodeRect (flow_position n))
                (filter (\<lambda>n. fromNodeId (flow_id n) \<noteq> edge_from e \<and> fromNodeId (flow_id n) \<noteq> edge_to e) nodes);
              bend = bendClearOf from to obstacles
                (case map_of (edge_bends (design_edges d)) (edge_key e) of Some b \<Rightarrow> b | None \<Rightarrow> 0) WORKFLOW_EDGE_BEND;
              selected = (sel = EdgeSelected (edge_key e))
          in Some \<lparr>te_id = edge_key e, te_source = toNodeId (edge_from e), te_target = toNodeId (edge_to e),
               te_selectable = \<not> readOnly, te_focusable = \<not> readOnly, te_selected = selected,
               te_ariaRole = (if readOnly then None else Some ''button''),
               te_ariaLabel = canvas_transition w (if edge_name e \<noteq> [] then edge_name e else canvas_unnamedTransition w),
               te_domAttributes = [(''data-workflow-edge'', AttrText (edge_name e)),
                 (''aria-pressed'', if readOnly then AttrUndefined else AttrBool selected)],
               te_name = edge_name e, te_shape = edgeShape from to bend, te_readOnly = readOnly\<rparr>
      | _ \<Rightarrow> None)"

definition toFlow :: "workflow_words \<Rightarrow> Design \<Rightarrow> (string \<times> Status) list \<Rightarrow> Selection \<Rightarrow> bool \<Rightarrow> FlowNode list \<times> TransitionEdge list" where
  "toFlow w d statuses sel readOnly =
     (let nodes = flow_nodes w d statuses sel readOnly
      in (nodes, List.map_filter (flow_edge w d nodes sel readOnly) (design_edges d)))"

section \<open>What is handed over can be drawn\<close>

lemma map_filter_all: "(\<forall>x \<in> set xs. f x \<noteq> None) \<Longrightarrow> List.map_filter f xs = map (\<lambda>x. the (f x)) xs"
  by (induction xs) (auto simp: List.map_filter_def)

lemma toNodeId_inj: "i \<noteq> ANYWHERE_NODE_ID \<Longrightarrow> j \<noteq> ANYWHERE_NODE_ID \<Longrightarrow> toNodeId i = toNodeId j \<Longrightarrow> i = j"
  by (auto simp: toNodeId_def split: if_splits)

lemma rectOf_on_canvas: "i = ANYWHERE \<or> on_canvas d i \<Longrightarrow> rectOf d i \<noteq> None"
  by (auto simp: rectOf_def on_canvas_def find_None_iff simp del: not_None_eq)

lemma flow_edge_some:
  assumes "edge_ok d e"
  shows "flow_edge w d nodes sel readOnly e \<noteq> None"
    and "te_id (the (flow_edge w d nodes sel readOnly e)) = edge_key e \<and> te_source (the (flow_edge w d nodes sel readOnly e)) = toNodeId (edge_from e)
      \<and> te_target (the (flow_edge w d nodes sel readOnly e)) = toNodeId (edge_to e)"
proof -
  obtain a b where "rectOf d (edge_from e) = Some a" "rectOf d (edge_to e) = Some b"
    using assms rectOf_on_canvas [of "edge_from e" d] rectOf_on_canvas [of "edge_to e" d] by (auto simp: edge_ok_def)
  then show "flow_edge w d nodes sel readOnly e \<noteq> None"
    and "te_id (the (flow_edge w d nodes sel readOnly e)) = edge_key e \<and> te_source (the (flow_edge w d nodes sel readOnly e)) = toNodeId (edge_from e)
      \<and> te_target (the (flow_edge w d nodes sel readOnly e)) = toNodeId (edge_to e)"
    by (simp_all add: flow_edge_def Let_def)
qed

text \<open>C9: A design of the designer whose statuses are known is drawn whole: each card and, where it is
  needed, the box for any status has an id of its own, none of them empty, the arrows are the
  transitions in their order with ids of their own, and both ends of every arrow are boxes that are
  drawn, in the editor and read-only alike.\<close>
theorem flow_is_drawable:
  assumes "designed s" "\<And>i. on_canvas (ds_design s) i \<Longrightarrow> map_of statuses i \<noteq> None \<and> i \<noteq> ANYWHERE_NODE_ID"
    and "toFlow w (ds_design s) statuses sel readOnly = (nodes, edges)"
  shows "distinct (map flow_id nodes) \<and> [] \<notin> set (map flow_id nodes)
    \<and> set (map flow_id nodes) - {ANYWHERE_NODE_ID} = {i. on_canvas (ds_design s) i}
    \<and> map te_id edges = map edge_key (design_edges (ds_design s)) \<and> distinct (map te_id edges)
    \<and> (\<forall>e \<in> set edges. te_source e \<in> set (map flow_id nodes) \<and> te_target e \<in> set (map flow_id nodes) \<and> te_source e \<noteq> te_target e)"
proof -
  let ?d = "ds_design s"
  have "design_ok (ds_nextKey s) ?d" using designed_inv [OF assms(1)] by (simp add: designer_inv_def)
  note D = design_okD [OF this]
  have on: "on_canvas ?d i \<longleftrightarrow> i \<in> dn_statusId ` set (design_nodes ?d)" for i by (auto simp: on_canvas_def)
  have node: "toNodeId i = i" "i \<noteq> [] \<and> i \<noteq> ANYWHERE_NODE_ID" if "on_canvas ?d i" for i
    using that D(2) assms(2) by (auto simp: toNodeId_def ANYWHERE_def)
  let ?any = "\<not> readOnly \<or> (\<exists>e \<in> set (design_edges ?d). edge_from e = ANYWHERE)"
  have cards: "map flow_id (List.map_filter (\<lambda>n. map_option (status_node w ?d sel readOnly n) (map_of statuses (dn_statusId n))) (design_nodes ?d))
      = map dn_statusId (design_nodes ?d)"
  proof -
    have "map_option (status_node w ?d sel readOnly n) (map_of statuses (dn_statusId n)) \<noteq> None
        \<and> flow_id (the (map_option (status_node w ?d sel readOnly n) (map_of statuses (dn_statusId n)))) = dn_statusId n"
      if n: "n \<in> set (design_nodes ?d)" for n
    proof -
      have c: "on_canvas ?d (dn_statusId n)" using n on by blast
      then obtain st where "map_of statuses (dn_statusId n) = Some st" using assms(2) by blast
      then show ?thesis using node(1) [OF c] by (simp add: status_node_def Let_def)
    qed
    then show ?thesis by (simp add: map_filter_all)
  qed
  have ids: "map flow_id nodes = map dn_statusId (design_nodes ?d) @ (if ?any then [ANYWHERE_NODE_ID] else [])"
    using assms(3) cards by (auto simp: toFlow_def Let_def flow_nodes_def anywhere_node_def)
  have set_ids: "set (map flow_id nodes) = {i. on_canvas ?d i} \<union> (if ?any then {ANYWHERE_NODE_ID} else {})"
    unfolding ids by (auto simp: on)
  have dist: "distinct (map flow_id nodes)" unfolding ids using D(1) node(2) on by auto
  have fe: "edges = map (\<lambda>e. the (flow_edge w ?d nodes sel readOnly e)) (design_edges ?d)"
    using assms(3) flow_edge_some(1) D(4) by (auto simp: toFlow_def Let_def map_filter_all)
  have keys: "map te_id edges = map edge_key (design_edges ?d)"
    using flow_edge_some(2) [OF D(4)] by (simp add: fe)
  have "te_source a \<in> set (map flow_id nodes) \<and> te_target a \<in> set (map flow_id nodes) \<and> te_source a \<noteq> te_target a" if a: "a \<in> set edges" for a
  proof -
    obtain e where e: "e \<in> set (design_edges ?d)" "a = the (flow_edge w ?d nodes sel readOnly e)" using a fe by auto
    note ok = D(4) [OF e(1), unfolded edge_ok_def] and te = flow_edge_some(2) [OF D(4) [OF e(1)], of w nodes sel readOnly, folded e(2)]
    have to_in: "te_target a = edge_to e" "edge_to e \<in> set (map flow_id nodes)" "edge_to e \<noteq> ANYWHERE_NODE_ID"
      using te ok node unfolding set_ids by simp_all
    have "te_source a \<in> set (map flow_id nodes) \<and> te_source a \<noteq> edge_to e"
    proof (cases "edge_from e = ANYWHERE")
      case True
      then show ?thesis using te to_in(3) e(1) unfolding set_ids by (auto simp: toNodeId_def)
    next
      case False
      then show ?thesis using te ok node unfolding set_ids by auto
    qed
    then show ?thesis using to_in by simp
  qed
  moreover have "[] \<notin> set (map flow_id nodes)" "set (map flow_id nodes) - {ANYWHERE_NODE_ID} = {i. on_canvas ?d i}"
    unfolding set_ids using node(2) by (auto simp: ANYWHERE_NODE_ID_def)
  ultimately show ?thesis using dist keys D(5) by (simp only: keys) blast
qed

theorem flow_is_drawable_witness:
  "map te_id (snd (toFlow workflowsEn (ds_design sample_session) [(''o'', sample_status Todo), (''d'', sample_status Done)] NothingSelected True)) = [''t'']"
proof -
  let ?st = "[(''o'', sample_status Todo), (''d'', sample_status Done)]"
  have on: "on_canvas (ds_design sample_session) i \<longleftrightarrow> i = ''o'' \<or> i = ''d''" for i
    by (auto simp: sample_session_def fromWorkflow_on_canvas sample_detail_def samples)
  obtain nodes edges where f: "toFlow workflowsEn (ds_design sample_session) ?st NothingSelected True = (nodes, edges)" by fastforce
  have "map te_id edges = map edge_key (design_edges (ds_design sample_session))"
  proof -
    have "map_of ?st i \<noteq> None \<and> i \<noteq> ANYWHERE_NODE_ID" if "on_canvas (ds_design sample_session) i" for i
      using that unfolding on ANYWHERE_NODE_ID_def by auto
    from flow_is_drawable [OF sample_session_designed this f] show ?thesis by blast
  qed
  moreover have "map edge_key (design_edges (ds_design sample_session)) = [''t'']"
    unfolding sample_session_def designer.simps fromWorkflow_eq lay_steps_rest
    by (simp add: loaded_def sample_detail_def edge_of_transition_def Let_def)
  ultimately show ?thesis using f by simp
qed

end
