(* ===== verification/Overlay.thy ===== *)
theory Overlay
  imports Config
begin

text \<open>
  The overlays of the interface kit, \<open>web/src/components/ui/overlay.ts\<close>: which of the open ones Escape
  closes, where focus goes, how the page behind is held still, and where an anchored panel is placed.
  A React ref, an element and an overlay are told apart by a number; the effects of a hook run when
  its \<open>open\<close> changes and when the component goes.
\<close>

section \<open>Escape\<close>

text \<open>The handler an entry calls is known by its name.\<close>

record EscapeEntry =
  entry_onClose :: string
  entry_whileEditing :: bool

record escapes =
  esc_stack :: "nat list"
  esc_current :: "(nat \<times> EscapeEntry) list"
  esc_open :: "nat set"
  esc_listening :: bool

definition no_escapes :: escapes where
  "no_escapes = \<lparr>esc_stack = [], esc_current = [], esc_open = {}, esc_listening = False\<rparr>"

text \<open>\<open>indexOf\<close>, and \<open>splice(i, 1)\<close>, which counts a negative start from the end.\<close>

fun indexOf :: "'a list \<Rightarrow> 'a \<Rightarrow> int" where
  "indexOf [] x = - 1"
| "indexOf (y # ys) x = (if y = x then 0 else let i = indexOf ys x in if i < 0 then - 1 else i + 1)"

definition splice1 :: "'a list \<Rightarrow> int \<Rightarrow> 'a list" where
  "splice1 xs i = (let k = (if i < 0 then nat (max 0 (int (length xs) + i)) else nat i) in take k xs @ drop (Suc k) xs)"

definition push_escape :: "escapes \<Rightarrow> nat \<Rightarrow> escapes" where
  "push_escape s r = (let st = esc_stack s @ [r]
     in s\<lparr>esc_stack := st, esc_open := insert r (esc_open s), esc_listening := (if length st = 1 then True else esc_listening s)\<rparr>)"

definition drop_escape :: "escapes \<Rightarrow> nat \<Rightarrow> escapes" where
  "drop_escape s r = (let st = splice1 (esc_stack s) (indexOf (esc_stack s) r)
     in s\<lparr>esc_stack := st, esc_open := esc_open s - {r}, esc_listening := (if length st = 0 then False else esc_listening s)\<rparr>)"

text \<open>
  A render of the hook writes the entry, and runs the effect when \<open>open\<close> is not what it was; when
  the component goes, the effect is undone if it was run.
\<close>

definition useEscape :: "escapes \<Rightarrow> nat \<Rightarrow> bool \<Rightarrow> EscapeEntry \<Rightarrow> escapes" where
  "useEscape s r is_open entry =
     (let s = s\<lparr>esc_current := AList.update r entry (esc_current s)\<rparr>
      in if is_open = (r \<in> esc_open s) then s else if is_open then push_escape s r else drop_escape s r)"

definition goneEscape :: "escapes \<Rightarrow> nat \<Rightarrow> escapes" where
  "goneEscape s r = (if r \<in> esc_open s then drop_escape s r else s)"

record key_event =
  ke_key :: string
  ke_defaultPrevented :: bool
  ke_editing :: bool

text \<open>Which handler a key press calls; without the listener none is.\<close>

definition onEscape :: "escapes \<Rightarrow> key_event \<Rightarrow> string option" where
  "onEscape s ev =
     (if \<not> esc_listening s \<or> ke_key ev \<noteq> ''Escape'' \<or> ke_defaultPrevented ev then None
      else if esc_stack s = [] then None
      else case map_of (esc_current s) (last (esc_stack s)) of
          None \<Rightarrow> None
        | Some e \<Rightarrow> if \<not> entry_whileEditing e \<and> ke_editing ev then None else Some (entry_onClose e))"

text \<open>The key press itself, with what the handlers do to the stack as a parameter.\<close>

definition press :: "(string \<Rightarrow> escapes \<Rightarrow> escapes) \<Rightarrow> escapes \<Rightarrow> key_event \<Rightarrow> escapes" where
  "press calls s ev = (case onEscape s ev of None \<Rightarrow> s | Some h \<Rightarrow> calls h s)"

section \<open>A press outside\<close>

text \<open>Whether a press calls the handler; whether an element holds the target is the document's to say.\<close>

definition onPress :: "(nat \<Rightarrow> bool) \<Rightarrow> nat option list \<Rightarrow> bool" where
  "onPress holds refs \<longleftrightarrow> \<not> (\<exists>r \<in> set refs. case r of Some el \<Rightarrow> holds el | None \<Rightarrow> False)"

section \<open>Focus\<close>

text \<open>The element focus goes to when an overlay opens, of those that take focus, its root last.\<close>

definition first_focus :: "(nat \<Rightarrow> bool) \<Rightarrow> nat list \<Rightarrow> nat option \<Rightarrow> nat option" where
  "first_focus is_last candidates panel =
     (case js_find (\<lambda>el. \<not> is_last el) candidates of
        Some el \<Rightarrow> Some el
      | None \<Rightarrow> (case candidates of el # _ \<Rightarrow> Some el | [] \<Rightarrow> panel))"

text \<open>What the Tab key does in an overlay that holds focus: whether the browser's own move is stopped,
  and the element focused instead.\<close>

definition onTab :: "bool \<Rightarrow> nat list \<Rightarrow> nat option \<Rightarrow> bool \<Rightarrow> bool \<times> nat option" where
  "onTab trap items active shift =
     (if \<not> trap then (False, None)
      else if items = [] then (True, None)
      else if shift \<and> active = Some (hd items) then (True, Some (last items))
      else if \<not> shift \<and> active = Some (last items) then (True, Some (hd items))
      else (False, None))"

section \<open>The page behind\<close>

record page =
  page_overflow :: string
  page_before :: "(nat \<times> string) list"

datatype lock_event = Lock nat | Unlock nat

fun useScrollLock :: "page \<Rightarrow> lock_event \<Rightarrow> page" where
  "useScrollLock p (Lock r) = p\<lparr>page_overflow := ''hidden'', page_before := AList.update r (page_overflow p) (page_before p)\<rparr>"
| "useScrollLock p (Unlock r) = (case map_of (page_before p) r of Some b \<Rightarrow> p\<lparr>page_overflow := b\<rparr> | None \<Rightarrow> p)"

definition nextId :: "nat \<Rightarrow> string \<Rightarrow> nat \<times> string" where
  "nextId counter prefix = (counter + 1, prefix @ ''-'' @ nat_str (counter + 1))"

section \<open>Anchored panels\<close>

datatype AnchoredSide = SideTop | SideBottom | SideRight

datatype align = AlignStart | AlignEnd

record DOMRect =
  dom_top :: real
  dom_bottom :: real
  dom_left :: real
  dom_right :: real
  dom_height :: real

record PanelSize =
  panel_width :: real
  panel_height :: real

record AnchoredBox =
  box_top :: real
  box_left :: "real option"
  box_right :: "real option"
  box_maxHeight :: real

definition room_below :: "DOMRect \<Rightarrow> PanelSize \<Rightarrow> real" where
  "room_below anchor view = panel_height view - POPOVER_EDGE_PX - (dom_bottom anchor + MENU_GAP_PX)"

definition room_above :: "DOMRect \<Rightarrow> real" where
  "room_above anchor = dom_top anchor - MENU_GAP_PX - POPOVER_EDGE_PX"

definition goes_below :: "DOMRect \<Rightarrow> PanelSize \<Rightarrow> PanelSize \<Rightarrow> AnchoredSide \<Rightarrow> bool" where
  "goes_below anchor panel view side =
     (let below = room_below anchor view; up = room_above anchor;
          fitsBelow = (panel_height panel \<le> below); fitsAbove = (panel_height panel \<le> up)
      in if side = SideBottom then fitsBelow \<or> (\<not> fitsAbove \<and> below \<ge> up)
         else \<not> fitsAbove \<and> (fitsBelow \<or> below > up))"

definition anchoredBox :: "DOMRect \<Rightarrow> PanelSize \<Rightarrow> PanelSize \<Rightarrow> align \<Rightarrow> AnchoredSide \<Rightarrow> AnchoredBox" where
  "anchoredBox anchor panel view align side =
     (let gap = MENU_GAP_PX; edge = POPOVER_EDGE_PX
      in if side = SideRight
         then let maxHeight = min POPOVER_MAX_HEIGHT_PX (panel_height view - 2 * edge);
                  height = min (panel_height panel) maxHeight
              in \<lparr>box_top = max edge (min (dom_top anchor + dom_height anchor / 2 - height / 2) (panel_height view - edge - height)),
                  box_left = Some (min (dom_right anchor + gap) (panel_width view - panel_width panel)),
                  box_right = None, box_maxHeight = maxHeight\<rparr>
         else let below = goes_below anchor panel view side;
                  maxHeight = max 0 (min POPOVER_MAX_HEIGHT_PX (if below then room_below anchor view else room_above anchor))
              in \<lparr>box_top = (if below then dom_bottom anchor + gap
                    else dom_top anchor - gap - min (panel_height panel) maxHeight),
                  box_left = (if align = AlignEnd then None
                    else Some (max 0 (min (dom_left anchor) (panel_width view - panel_width panel)))),
                  box_right = (if align = AlignEnd then Some (max 0 (panel_width view - dom_right anchor)) else None),
                  box_maxHeight = maxHeight\<rparr>)"

definition naturalHeight :: "real \<Rightarrow> real \<Rightarrow> real \<Rightarrow> real" where
  "naturalHeight offsetHeight scrollHeight clientHeight = max offsetHeight (scrollHeight + offsetHeight - clientHeight)"

record Point2 =
  p_top :: real
  p_left :: real

record placed_style =
  style_top :: real
  style_left :: real
  style_maxHeight :: real

text \<open>
  The style of a placed panel, from where the panel is now and the top and left its style has now,
  zero where it has none.
\<close>

definition place_style :: "AnchoredBox \<Rightarrow> PanelSize \<Rightarrow> PanelSize \<Rightarrow> Point2 \<Rightarrow> Point2 \<Rightarrow> placed_style" where
  "place_style box dims view here computed =
     (let originTop = p_top here - p_top computed; originLeft = p_left here - p_left computed;
          left = (case box_left box of Some l \<Rightarrow> l
                  | None \<Rightarrow> panel_width view - (case box_right box of Some r \<Rightarrow> r | None \<Rightarrow> 0) - panel_width dims)
      in \<lparr>style_top = box_top box - originTop, style_left = left - originLeft, style_maxHeight = box_maxHeight box\<rparr>)"

section \<open>The newest overlay has Escape\<close>

text \<open>
  What the stack of overlays promises its users, whatever it is made of: the newest one opened is the
  one that is asked, and closing another changes nothing about that. Seen from above, the overlays
  that are open are known with the moment each opened.
\<close>

locale newest_first =
  fixes ok :: "'s \<Rightarrow> bool" and opened :: "'s \<Rightarrow> 'r \<Rightarrow> nat option" and push :: "'s \<Rightarrow> 'r \<Rightarrow> 's"
    and close :: "'s \<Rightarrow> 'r \<Rightarrow> 's" and newest :: "'s \<Rightarrow> 'r option"
  assumes ok_push: "ok s \<Longrightarrow> opened s r = None \<Longrightarrow> ok (push s r)"
    and ok_close: "ok s \<Longrightarrow> opened s r \<noteq> None \<Longrightarrow> ok (close s r)"
    and finite_open: "ok s \<Longrightarrow> finite {r. opened s r \<noteq> None}"
    and open_close: "ok s \<Longrightarrow> opened s r \<noteq> None \<Longrightarrow> {q. opened (close s r) q \<noteq> None} = {q. opened s q \<noteq> None} - {r}"
    and newest_some: "ok s \<Longrightarrow> newest s = Some r \<Longrightarrow> opened s r \<noteq> None \<and> (\<forall>q. opened s q \<noteq> None \<longrightarrow> the (opened s q) \<le> the (opened s r))"
    and newest_none: "ok s \<Longrightarrow> newest s = None \<Longrightarrow> opened s r = None"
begin

definition held :: "'s \<Rightarrow> 'r set" where
  "held s = {r. opened s r \<noteq> None}"

text \<open>
  Steps that never open anything, and of which those that count close the newest, leave nothing open
  once as many have counted as overlays were open.
\<close>

lemma drained:
  assumes keep: "\<And>s e. good s \<Longrightarrow> good (step s e)" and ok: "\<And>s. good s \<Longrightarrow> ok s"
    and fewer: "\<And>s e. good s \<Longrightarrow> held (step s e) \<subseteq> held s"
    and closes: "\<And>s e. good s \<Longrightarrow> counts e \<Longrightarrow> held (step s e) = held s - set_option (newest s)"
  shows "good s \<Longrightarrow> card (held s) \<le> length (filter counts es) \<Longrightarrow> held (foldl step s es) = {}"
proof (induction es arbitrary: s)
  case Nil
  then show ?case using finite_open [OF ok] by (simp add: held_def)
next
  case (Cons e es)
  have fin: "finite (held s)" using finite_open [OF ok [OF Cons.prems(1)]] by (simp add: held_def)
  have "card (held (step s e)) \<le> length (filter counts es)"
  proof (cases "counts e")
    case True
    note c = closes [OF Cons.prems(1) True]
    show ?thesis
    proof (cases "newest s")
      case None
      then have "held s = {}" using newest_none [OF ok [OF Cons.prems(1)]] by (simp add: held_def)
      then show ?thesis by (simp add: c)
    next
      case (Some r)
      then have "r \<in> held s" using newest_some [OF ok [OF Cons.prems(1)]] by (auto simp: held_def)
      then have "card (held s - {r}) < card (held s)" using fin by (intro card_Diff1_less)
      then show ?thesis using Cons.prems(2) True Some by (simp add: c)
    qed
  next
    case False
    then show ?thesis using card_mono [OF fin fewer [OF Cons.prems(1), of e]] Cons.prems(2) by simp
  qed
  then show ?case using Cons.IH [OF keep [OF Cons.prems(1)]] by simp
qed

text \<open>Closing an overlay leaves the others open.\<close>

lemma held_close: "ok s \<Longrightarrow> r \<in> held s \<Longrightarrow> held (close s r) = held s - {r}"
  unfolding held_def using open_close by blast

end

text \<open>The moment an overlay opened, counted by its place in the stack.\<close>

definition esc_ok :: "escapes \<Rightarrow> bool" where
  "esc_ok s \<longleftrightarrow> distinct (esc_stack s) \<and> set (esc_stack s) = esc_open s \<and> (esc_listening s \<longleftrightarrow> esc_stack s \<noteq> [])
     \<and> esc_open s \<subseteq> fst ` set (esc_current s)"

definition esc_opened :: "escapes \<Rightarrow> nat \<Rightarrow> nat option" where
  "esc_opened s r = (if r \<in> set (esc_stack s) then Some (nat (indexOf (esc_stack s) r)) else None)"

definition esc_newest :: "escapes \<Rightarrow> nat option" where
  "esc_newest s = (if esc_stack s = [] then None else Some (last (esc_stack s)))"

lemma indexOf_split: "x \<notin> set ys \<Longrightarrow> indexOf (ys @ x # zs) x = int (length ys)"
  by (induction ys) (auto simp: Let_def)

lemma splice_remove: "distinct xs \<Longrightarrow> x \<in> set xs \<Longrightarrow> splice1 xs (indexOf xs x) = filter (\<lambda>y. y \<noteq> x) xs"
proof -
  assume d: "distinct xs" and "x \<in> set xs"
  then obtain ys zs where xs: "xs = ys @ x # zs" by (meson split_list)
  then have "x \<notin> set ys" "x \<notin> set zs" using d by auto
  then have "filter (\<lambda>y. y \<noteq> x) ys = ys" "filter (\<lambda>y. y \<noteq> x) zs = zs" by (auto intro: filter_True)
  then show ?thesis using indexOf_split [OF \<open>x \<notin> set ys\<close>] by (simp add: xs splice1_def)
qed

lemma esc_ok_push: "esc_ok s \<Longrightarrow> r \<notin> esc_open s \<Longrightarrow> r \<in> fst ` set (esc_current s) \<Longrightarrow> esc_ok (push_escape s r)"
  by (auto simp: esc_ok_def push_escape_def Let_def)

lemma esc_ok_drop: "esc_ok s \<Longrightarrow> r \<in> esc_open s \<Longrightarrow> esc_ok (drop_escape s r) \<and> esc_stack (drop_escape s r) = filter (\<lambda>q. q \<noteq> r) (esc_stack s)"
proof -
  assume ok: "esc_ok s" "r \<in> esc_open s"
  then have st: "esc_stack (drop_escape s r) = filter (\<lambda>q. q \<noteq> r) (esc_stack s)"
    by (simp add: drop_escape_def Let_def esc_ok_def splice_remove)
  have "esc_open (drop_escape s r) = esc_open s - {r}" "esc_current (drop_escape s r) = esc_current s"
    "esc_listening (drop_escape s r) = (esc_listening s \<and> esc_stack (drop_escape s r) \<noteq> [])"
    by (simp_all add: drop_escape_def Let_def)
  then show ?thesis using ok st unfolding esc_ok_def by (auto simp: filter_empty_conv)
qed

lemma esc_opened_less: "esc_ok s \<Longrightarrow> q \<in> set (esc_stack s) \<Longrightarrow> the (esc_opened s q) \<le> the (esc_opened s (last (esc_stack s)))"
proof -
  assume ok: "esc_ok s" and q: "q \<in> set (esc_stack s)"
  then have d: "distinct (esc_stack s)" by (simp add: esc_ok_def)
  have at: "the (esc_opened s (xs ! i)) = i" if "xs = esc_stack s" "i < length xs" for i xs
  proof -
    have "xs = take i xs @ xs ! i # drop (Suc i) xs" using that(2) by (rule id_take_nth_drop)
    moreover have "xs ! i \<notin> set (take i xs)" using d that by (auto simp: in_set_conv_nth nth_eq_iff_index_eq)
    ultimately have "indexOf xs (xs ! i) = int (length (take i xs))" using indexOf_split by metis
    then show ?thesis using that by (simp add: esc_opened_def)
  qed
  obtain i where i: "i < length (esc_stack s)" "esc_stack s ! i = q" using q by (auto simp: in_set_conv_nth)
  have "last (esc_stack s) = esc_stack s ! (length (esc_stack s) - 1)" using q by (intro last_conv_nth) auto
  moreover have "the (esc_opened s (esc_stack s ! (length (esc_stack s) - 1))) = length (esc_stack s) - 1"
    using i(1) by (intro at [OF refl]) simp
  ultimately show ?thesis using at [OF refl i(1)] i by simp
qed

text \<open>A push whose entry is written is the one the hook makes.\<close>

definition push_written :: "escapes \<Rightarrow> nat \<Rightarrow> escapes" where
  "push_written s r = useEscape s r True \<lparr>entry_onClose = [], entry_whileEditing = True\<rparr>"

lemma esc_ok_written: "esc_ok s \<Longrightarrow> esc_ok (s\<lparr>esc_current := AList.update r e (esc_current s)\<rparr>)"
  by (auto simp: esc_ok_def dom_AList_update)

lemma esc_ok_use: "esc_ok s \<Longrightarrow> esc_ok (useEscape s r b e)"
  using esc_ok_push [of "s\<lparr>esc_current := AList.update r e (esc_current s)\<rparr>" r] esc_ok_written [of s r e]
    esc_ok_drop [of "s\<lparr>esc_current := AList.update r e (esc_current s)\<rparr>" r]
  by (simp add: useEscape_def Let_def dom_AList_update)

lemma esc_ok_gone: "esc_ok s \<Longrightarrow> esc_ok (goneEscape s r)"
  using esc_ok_drop by (simp add: goneEscape_def)

interpretation escape: newest_first esc_ok esc_opened push_written goneEscape esc_newest
proof
  fix s r q
  show "esc_ok s \<Longrightarrow> esc_opened s r = None \<Longrightarrow> esc_ok (push_written s r)" unfolding push_written_def by (rule esc_ok_use)
  show "esc_ok s \<Longrightarrow> esc_opened s r \<noteq> None \<Longrightarrow> esc_ok (goneEscape s r)" by (rule esc_ok_gone)
  show "finite {r. esc_opened s r \<noteq> None}" by (rule finite_subset [of _ "set (esc_stack s)"]) (auto simp: esc_opened_def)
  show "{q. esc_opened (goneEscape s r) q \<noteq> None} = {q. esc_opened s q \<noteq> None} - {r}" if "esc_ok s" "esc_opened s r \<noteq> None"
  proof -
    have "r \<in> esc_open s" using that by (auto simp: esc_opened_def esc_ok_def split: if_splits)
    then show ?thesis using esc_ok_drop [OF that(1)] by (auto simp: esc_opened_def goneEscape_def)
  qed
  show "esc_opened s r \<noteq> None \<and> (\<forall>q. esc_opened s q \<noteq> None \<longrightarrow> the (esc_opened s q) \<le> the (esc_opened s r))"
    if "esc_ok s" "esc_newest s = Some r"
    using that esc_opened_less [OF that(1)] by (auto simp: esc_newest_def esc_opened_def split: if_splits)
  show "esc_ok s \<Longrightarrow> esc_newest s = None \<Longrightarrow> esc_opened s r = None"
    by (auto simp: esc_newest_def esc_opened_def split: if_splits)
qed

section \<open>What Escape does, seen from above\<close>

datatype overlay_event = Rendered nat bool EscapeEntry | Gone nat

fun esc_step :: "escapes \<Rightarrow> overlay_event \<Rightarrow> escapes" where
  "esc_step s (Rendered r b e) = useEscape s r b e"
| "esc_step s (Gone r) = goneEscape s r"

definition esc_run :: "overlay_event list \<Rightarrow> escapes" where
  "esc_run es = foldl esc_step no_escapes es"

text \<open>The overlays that are open with the moment they opened, and what each asks for last.\<close>

record open_log =
  log_clock :: nat
  log_opened :: "nat \<Rightarrow> nat option"
  log_entry :: "nat \<Rightarrow> EscapeEntry option"

fun log_step :: "open_log \<Rightarrow> overlay_event \<Rightarrow> open_log" where
  "log_step a (Rendered r b e) = a\<lparr>log_clock := log_clock a + 1, log_entry := (log_entry a)(r \<mapsto> e),
     log_opened := (if \<not> b then (log_opened a)(r := None)
       else if log_opened a r = None then (log_opened a)(r \<mapsto> log_clock a) else log_opened a)\<rparr>"
| "log_step a (Gone r) = a\<lparr>log_opened := (log_opened a)(r := None)\<rparr>"

definition log_run :: "overlay_event list \<Rightarrow> open_log" where
  "log_run es = foldl log_step \<lparr>log_clock = 0, log_opened = Map.empty, log_entry = Map.empty\<rparr> es"

definition is_newest :: "open_log \<Rightarrow> nat \<Rightarrow> bool" where
  "is_newest a r \<longleftrightarrow> (\<exists>t. log_opened a r = Some t \<and> (\<forall>q u. log_opened a q = Some u \<longrightarrow> u \<le> t))"

definition stands_for :: "escapes \<Rightarrow> open_log \<Rightarrow> bool" where
  "stands_for s a \<longleftrightarrow> esc_ok s \<and> map_of (esc_current s) = log_entry a \<and> esc_open s = {r. log_opened a r \<noteq> None}
     \<and> (\<forall>r t. log_opened a r = Some t \<longrightarrow> t < log_clock a)
     \<and> sorted_wrt (\<lambda>q r. the (log_opened a q) < the (log_opened a r)) (esc_stack s)"

lemma stands_forD:
  assumes "stands_for s a"
  shows "esc_ok s" "map_of (esc_current s) = log_entry a" "esc_open s = {r. log_opened a r \<noteq> None}"
    "log_opened a r = Some t \<Longrightarrow> t < log_clock a"
    "sorted_wrt (\<lambda>q r. the (log_opened a q) < the (log_opened a r)) (esc_stack s)"
    "set (esc_stack s) = {r. log_opened a r \<noteq> None}"
  using assms unfolding stands_for_def esc_ok_def by blast+

lemma stands_for_drop:
  assumes "stands_for s a" "r \<in> esc_open s"
  shows "stands_for (drop_escape s r) (a\<lparr>log_opened := (log_opened a)(r := None)\<rparr>)"
proof -
  note D = stands_forD [OF assms(1)]
  have st: "esc_stack (drop_escape s r) = filter (\<lambda>q. q \<noteq> r) (esc_stack s)" "esc_ok (drop_escape s r)"
    using esc_ok_drop [OF D(1) assms(2)] by simp_all
  have "esc_open (drop_escape s r) = esc_open s - {r}" "esc_current (drop_escape s r) = esc_current s"
    by (simp_all add: drop_escape_def Let_def)
  moreover have "sorted_wrt (\<lambda>q r'. the (((log_opened a)(r := None)) q) < the (((log_opened a)(r := None)) r')) (filter (\<lambda>q. q \<noteq> r) (esc_stack s))"
    using sorted_wrt_filter [OF D(5), of "\<lambda>q. q \<noteq> r"] by (rule sorted_wrt_mono_rel [rotated]) auto
  ultimately show ?thesis unfolding stands_for_def st(1) using st(2) D(2,3,4) by auto
qed

lemma stands_for_push:
  assumes "stands_for s a" "r \<notin> esc_open s" "r \<in> fst ` set (esc_current s)"
  shows "stands_for (push_escape s r) (a\<lparr>log_clock := log_clock a + 1, log_opened := (log_opened a)(r \<mapsto> log_clock a)\<rparr>)"
proof -
  note D = stands_forD [OF assms(1)]
  have new: "r \<notin> set (esc_stack s)" using assms(2) D(3,6) by simp
  have "sorted_wrt (\<lambda>q r'. the (((log_opened a)(r \<mapsto> log_clock a)) q) < the (((log_opened a)(r \<mapsto> log_clock a)) r')) (esc_stack s)"
    using D(5) by (rule sorted_wrt_mono_rel [rotated]) (use new in auto)
  moreover have "the (log_opened a q) < log_clock a" if "q \<in> set (esc_stack s)" for q using that D(4,6) by auto
  ultimately have "sorted_wrt (\<lambda>q r'. the (((log_opened a)(r \<mapsto> log_clock a)) q) < the (((log_opened a)(r \<mapsto> log_clock a)) r')) (esc_stack s @ [r])"
    using new by (auto simp: sorted_wrt_append)
  moreover have "esc_stack (push_escape s r) = esc_stack s @ [r]" "esc_open (push_escape s r) = insert r (esc_open s)"
    "esc_current (push_escape s r) = esc_current s" by (simp_all add: push_escape_def Let_def)
  moreover have "esc_ok (push_escape s r)" by (rule esc_ok_push [OF D(1) assms(2,3)])
  ultimately show ?thesis unfolding stands_for_def using D(2,3,4) by (auto simp: less_Suc_eq)
qed

lemma stands_for_written:
  assumes "stands_for s a"
  shows "stands_for (s\<lparr>esc_current := AList.update r e (esc_current s)\<rparr>) (a\<lparr>log_entry := (log_entry a)(r \<mapsto> e)\<rparr>)"
  using assms esc_ok_written [of s r e] by (simp add: stands_for_def)

lemma stands_for_step: "stands_for s a \<Longrightarrow> stands_for (esc_step s ev) (log_step a ev)"
proof (cases ev)
  case (Rendered r b e)
  assume R: "stands_for s a"
  let ?s = "s\<lparr>esc_current := AList.update r e (esc_current s)\<rparr>" and ?a = "a\<lparr>log_entry := (log_entry a)(r \<mapsto> e)\<rparr>"
  note W = stands_for_written [OF R, of r e]
  have later: "stands_for t (c\<lparr>log_clock := log_clock c + 1\<rparr>)" if "stands_for t c" for t c
    using that by (auto simp: stands_for_def less_Suc_eq)
  have op: "r \<in> esc_open ?s \<longleftrightarrow> log_opened a r \<noteq> None" using stands_forD(3) [OF W] by simp
  have "r \<in> fst ` set (esc_current ?s)" by (simp add: dom_AList_update)
  then show ?thesis
    using later [OF W] stands_for_push [OF W, of r] later [OF stands_for_drop [OF W, of r]] op
    by (cases a; cases b; cases "log_opened a r") (auto simp: Rendered useEscape_def Let_def fun_upd_idem)
next
  case (Gone r)
  assume R: "stands_for s a"
  show ?thesis
  proof (cases "r \<in> esc_open s")
    case True
    then show ?thesis using stands_for_drop [OF R True] by (simp add: Gone goneEscape_def)
  next
    case False
    then have "(log_opened a)(r := None) = log_opened a" using stands_forD(3) [OF R] by (simp add: fun_upd_idem_iff)
    then show ?thesis using R False by (simp add: Gone goneEscape_def)
  qed
qed

lemma stands_for_run: "stands_for (esc_run es) (log_run es)"
proof -
  have "stands_for s a \<Longrightarrow> stands_for (foldl esc_step s es) (foldl log_step a es)" for s a
    by (induction es arbitrary: s a) (auto intro: stands_for_step)
  moreover have "stands_for no_escapes \<lparr>log_clock = 0, log_opened = Map.empty, log_entry = Map.empty\<rparr>"
    by (simp add: stands_for_def esc_ok_def no_escapes_def)
  ultimately show ?thesis unfolding esc_run_def log_run_def by blast
qed

lemma newest_last:
  assumes "stands_for s a"
  shows "is_newest a r \<longleftrightarrow> esc_stack s \<noteq> [] \<and> r = last (esc_stack s)"
proof -
  note D = stands_forD [OF assms]
  have top: "log_opened a (last (esc_stack s)) \<noteq> None \<and> (\<forall>q u. log_opened a q = Some u \<longrightarrow> q = last (esc_stack s) \<or> u < the (log_opened a (last (esc_stack s))))"
    if ne: "esc_stack s \<noteq> []"
  proof -
    obtain xs where xs: "esc_stack s = xs @ [last (esc_stack s)]" using ne by (metis append_butlast_last_id)
    have "the (log_opened a q) < the (log_opened a (last (esc_stack s)))" if "q \<in> set xs" for q
      using D(5) that xs by (metis list.set_intros(1) sorted_wrt_append)
    moreover have "q \<in> set xs \<or> q = last (esc_stack s)" if "log_opened a q = Some u" for q u
      using that D(6) xs by (metis (mono_tags, lifting) Un_iff empty_iff insert_iff list.set(1) list.set(2) mem_Collect_eq option.distinct(1) set_append)
    moreover have "last (esc_stack s) \<in> set (esc_stack s)" using ne by simp
    ultimately show ?thesis using D(6) by (metis (mono_tags, lifting) mem_Collect_eq option.sel)
  qed
  show ?thesis
  proof
    assume r: "is_newest a r"
    then obtain t where t: "log_opened a r = Some t" "\<And>q u. log_opened a q = Some u \<Longrightarrow> u \<le> t" by (auto simp: is_newest_def)
    then have ne: "esc_stack s \<noteq> []" using D(6) by auto
    obtain u where u: "log_opened a (last (esc_stack s)) = Some u" using top [OF ne] by auto
    have "r = last (esc_stack s)" using top [OF ne] t(1) t(2) [OF u] u by (metis linorder_not_less option.sel)
    then show "esc_stack s \<noteq> [] \<and> r = last (esc_stack s)" using ne by simp
  next
    assume r: "esc_stack s \<noteq> [] \<and> r = last (esc_stack s)"
    then obtain u where u: "log_opened a r = Some u" using top by auto
    then show "is_newest a r" using top r unfolding is_newest_def by (metis less_imp_le option.sel order_refl)
  qed
qed

text \<open>C13: However overlays open, change and close, Escape goes to the one that opened last of those still
  open and to no other, with the handler it gave last, whether or not the overlay's handler changed
  since. It is left to the field being edited when that overlay asks for it, and a press that is not
  Escape or was taken by someone else does nothing.\<close>
theorem escape_newest:
  "onEscape (esc_run es) ev = Some h \<longleftrightarrow> ke_key ev = ''Escape'' \<and> \<not> ke_defaultPrevented ev
    \<and> (\<exists>r e. is_newest (log_run es) r \<and> log_entry (log_run es) r = Some e
         \<and> (entry_whileEditing e \<or> \<not> ke_editing ev) \<and> entry_onClose e = h)"
proof -
  note R = stands_for_run [of es]
  have listening: "esc_listening (esc_run es) \<longleftrightarrow> esc_stack (esc_run es) \<noteq> []"
    using stands_forD(1) [OF R] by (simp add: esc_ok_def)
  show ?thesis unfolding newest_last [OF R] stands_forD(2) [OF R, symmetric] onEscape_def listening
    by (auto split: option.splits if_splits)
qed

text \<open>A menu opened in a drawer whose own handler changed after that.\<close>

definition sample_overlays :: "overlay_event list" where
  "sample_overlays = [Rendered 0 True \<lparr>entry_onClose = ''drawer'', entry_whileEditing = False\<rparr>,
     Rendered 1 True \<lparr>entry_onClose = ''menu'', entry_whileEditing = True\<rparr>,
     Rendered 0 True \<lparr>entry_onClose = ''other'', entry_whileEditing = False\<rparr>]"

theorem escape_newest_witness:
  "onEscape (esc_run sample_overlays) \<lparr>ke_key = ''Escape'', ke_defaultPrevented = False, ke_editing = True\<rparr> = Some ''menu''"
proof -
  have "is_newest (log_run sample_overlays) 1" by (simp add: is_newest_def log_run_def sample_overlays_def)
  moreover have "log_entry (log_run sample_overlays) 1 = Some \<lparr>entry_onClose = ''menu'', entry_whileEditing = True\<rparr>"
    by (simp add: log_run_def sample_overlays_def)
  ultimately show ?thesis
    using escape_newest [of sample_overlays "\<lparr>ke_key = ''Escape'', ke_defaultPrevented = False, ke_editing = True\<rparr>" "''menu''"] by force
qed

text \<open>
  The same from the outside, where a press calls the handler it reaches. What a handler does is its
  overlay's: \<open>owner\<close> says whose each handler is. One that closes its overlay has it rendered again
  with \<open>open\<close> false, or no longer rendered at all, before the next key is pressed.
\<close>

definition closes_own :: "(string \<Rightarrow> nat) \<Rightarrow> (string \<Rightarrow> escapes \<Rightarrow> escapes) \<Rightarrow> bool" where
  "closes_own owner calls \<longleftrightarrow> (\<forall>h s. calls h s = goneEscape s (owner h)
     \<or> (\<exists>e. owner (entry_onClose e) = owner h \<and> calls h s = useEscape s (owner h) False e))"

fun gives_own :: "(string \<Rightarrow> nat) \<Rightarrow> overlay_event \<Rightarrow> bool" where
  "gives_own owner (Rendered r b e) \<longleftrightarrow> owner (entry_onClose e) = r"
| "gives_own owner (Gone r) \<longleftrightarrow> True"

definition free_escape :: "key_event \<Rightarrow> bool" where
  "free_escape ev \<longleftrightarrow> ke_key ev = ''Escape'' \<and> \<not> ke_defaultPrevented ev \<and> \<not> ke_editing ev"

definition esc_own :: "(string \<Rightarrow> nat) \<Rightarrow> escapes \<Rightarrow> bool" where
  "esc_own owner s \<longleftrightarrow> esc_ok s \<and> (\<forall>r e. map_of (esc_current s) r = Some e \<longrightarrow> owner (entry_onClose e) = r)"

lemma esc_held: "esc_ok s \<Longrightarrow> escape.held s = esc_open s"
  by (auto simp: escape.held_def esc_opened_def esc_ok_def)

lemma use_current [simp]:
  "esc_current (useEscape s r b e) = AList.update r e (esc_current s)" "esc_current (goneEscape s r) = esc_current s"
  by (simp_all add: useEscape_def goneEscape_def push_escape_def drop_escape_def Let_def)

lemma use_open [simp]: "esc_open (useEscape s r False e) = esc_open s - {r}" "esc_open (goneEscape s r) = esc_open s - {r}"
  by (auto simp: useEscape_def goneEscape_def drop_escape_def Let_def)

lemma esc_own_run:
  assumes "\<forall>ev \<in> set es. gives_own owner ev"
  shows "esc_own owner (esc_run es)"
proof -
  have "esc_own owner (esc_step s ev)" if "esc_own owner s" "gives_own owner ev" for s ev
    using that by (cases ev) (auto simp: esc_own_def esc_ok_use esc_ok_gone update_conv')
  then have "esc_own owner s \<Longrightarrow> esc_own owner (foldl esc_step s es)" for s
    using assms by (induction es arbitrary: s) auto
  moreover have "esc_own owner no_escapes" by (simp add: esc_own_def esc_ok_def no_escapes_def)
  ultimately show ?thesis by (simp add: esc_run_def)
qed

text \<open>A press that reaches a handler closes the newest overlay, and a press that reaches none does nothing.\<close>

lemma press_closes:
  assumes "esc_own owner s" "closes_own owner calls"
  shows "esc_own owner (press calls s ev)"
    "onEscape s ev \<noteq> None \<Longrightarrow> esc_open (press calls s ev) = esc_open s - set_option (esc_newest s)"
    "onEscape s ev = None \<Longrightarrow> press calls s ev = s"
proof -
  have ok: "esc_ok s" using assms(1) by (simp add: esc_own_def)
  have own: "owner h = last (esc_stack s) \<and> esc_stack s \<noteq> []" if "onEscape s ev = Some h" for h
    using that assms(1) by (auto simp: onEscape_def esc_own_def split: if_splits option.splits)
  have "esc_own owner (calls h s) \<and> esc_open (calls h s) = esc_open s - {owner h}" for h
  proof -
    consider "calls h s = goneEscape s (owner h)"
      | e where "owner (entry_onClose e) = owner h" "calls h s = useEscape s (owner h) False e"
      using assms(2) unfolding closes_own_def by blast
    then show ?thesis
      by cases (use assms(1) in \<open>auto simp: esc_own_def esc_ok_use esc_ok_gone update_conv'\<close>)
  qed
  then show "esc_own owner (press calls s ev)"
    "onEscape s ev \<noteq> None \<Longrightarrow> esc_open (press calls s ev) = esc_open s - set_option (esc_newest s)"
    using own assms(1) by (auto simp: press_def esc_newest_def split: option.splits)
  show "onEscape s ev = None \<Longrightarrow> press calls s ev = s" by (simp add: press_def)
qed

lemma free_reaches: "esc_ok s \<Longrightarrow> free_escape ev \<Longrightarrow> onEscape s ev = None \<longleftrightarrow> esc_stack s = []"
proof -
  assume ok: "esc_ok s" and free: "free_escape ev"
  have "map_of (esc_current s) (last (esc_stack s)) \<noteq> None" if "esc_stack s \<noteq> []"
  proof -
    have "last (esc_stack s) \<in> fst ` set (esc_current s)" using ok that last_in_set by (auto simp: esc_ok_def)
    then show ?thesis by (metis map_of_eq_None_iff)
  qed
  then show ?thesis using ok free by (auto simp: onEscape_def free_escape_def esc_ok_def split: option.splits)
qed

lemma free_closes:
  assumes "esc_own owner s" "closes_own owner calls" "free_escape ev"
  shows "esc_open (press calls s ev) = esc_open s - set_option (esc_newest s)"
proof (cases "onEscape s ev")
  case None
  then have "esc_stack s = []" using free_reaches [OF _ assms(3), of s] assms(1) by (simp add: esc_own_def)
  then show ?thesis using press_closes(3) [OF assms(1,2) None] by (simp add: esc_newest_def)
qed (simp add: press_closes(2) [OF assms(1,2)])

text \<open>C14: Pressing Escape closes one overlay at a time and ends. When each overlay gives handlers that
  close it, a press of Escape that nobody took and that is not in a field closes the overlay opened last
  and no other; a press in a field changes nothing while the overlay opened last leaves fields their
  Escape; and any run of key presses with as many free presses of Escape as overlays were open leaves
  none open and no listener behind.\<close>
theorem escape_closes_all:
  assumes "\<forall>ev \<in> set es. gives_own owner ev" and "closes_own owner calls"
  shows "(free_escape ev \<and> is_newest (log_run es) r \<longrightarrow> esc_open (press calls (esc_run es) ev) = esc_open (esc_run es) - {r})
    \<and> (ke_editing ev \<and> is_newest (log_run es) r \<and> log_entry (log_run es) r = Some e \<and> \<not> entry_whileEditing e
      \<longrightarrow> press calls (esc_run es) ev = esc_run es)
    \<and> (card (esc_open (esc_run es)) \<le> length (filter free_escape evs)
      \<longrightarrow> esc_open (foldl (press calls) (esc_run es) evs) = {} \<and> \<not> esc_listening (foldl (press calls) (esc_run es) evs))"
proof (intro conjI)
  note R = stands_for_run [of es] and own = esc_own_run [OF assms(1)]
  have ok: "esc_ok s" if "esc_own owner s" for s using that by (simp add: esc_own_def)
  have fewer: "esc_open (press calls s ev) \<subseteq> esc_open s" if "esc_own owner s" for s ev
    using press_closes(2,3) [OF that assms(2)] by (cases "onEscape s ev") auto
  show "free_escape ev \<and> is_newest (log_run es) r \<longrightarrow> esc_open (press calls (esc_run es) ev) = esc_open (esc_run es) - {r}"
    using free_closes [OF own assms(2)] newest_last [OF R] by (simp add: esc_newest_def)
  show "ke_editing ev \<and> is_newest (log_run es) r \<and> log_entry (log_run es) r = Some e \<and> \<not> entry_whileEditing e
      \<longrightarrow> press calls (esc_run es) ev = esc_run es"
    unfolding newest_last [OF R] stands_forD(2) [OF R, symmetric] by (auto simp: press_def onEscape_def)
  show "card (esc_open (esc_run es)) \<le> length (filter free_escape evs)
      \<longrightarrow> esc_open (foldl (press calls) (esc_run es) evs) = {} \<and> \<not> esc_listening (foldl (press calls) (esc_run es) evs)"
  proof
    assume enough: "card (esc_open (esc_run es)) \<le> length (filter free_escape evs)"
    have "esc_own owner (foldl (press calls) s evs)" if "esc_own owner s" for s
      using that by (induction evs arbitrary: s) (auto intro: press_closes(1) [OF _ assms(2)])
    note last = this [OF own]
    have "escape.held (foldl (press calls) (esc_run es) evs) = {}"
      by (rule escape.drained [where good = "esc_own owner" and counts = free_escape])
        (use enough own fewer in \<open>simp_all add: press_closes(1) [OF _ assms(2)] ok esc_held free_closes [OF _ assms(2)]\<close>)
    then show "esc_open (foldl (press calls) (esc_run es) evs) = {} \<and> \<not> esc_listening (foldl (press calls) (esc_run es) evs)"
      using ok [OF last] esc_held [OF ok [OF last]] by (simp add: esc_ok_def)
  qed
qed

text \<open>The drawer and the menu above, with handlers that take their overlay away.\<close>

theorem escape_closes_all_witness:
  "esc_open (foldl (press (\<lambda>h s. goneEscape s (if h = ''menu'' then 1 else 0))) (esc_run sample_overlays)
     [\<lparr>ke_key = ''Escape'', ke_defaultPrevented = False, ke_editing = False\<rparr>,
      \<lparr>ke_key = ''Escape'', ke_defaultPrevented = False, ke_editing = True\<rparr>,
      \<lparr>ke_key = ''Escape'', ke_defaultPrevented = False, ke_editing = False\<rparr>]) = {}"
proof -
  let ?owner = "\<lambda>h. if h = ''menu'' then 1 else 0"
  let ?evs = "[\<lparr>ke_key = ''Escape'', ke_defaultPrevented = False, ke_editing = False\<rparr>,
      \<lparr>ke_key = ''Escape'', ke_defaultPrevented = False, ke_editing = True\<rparr>,
      \<lparr>ke_key = ''Escape'', ke_defaultPrevented = False, ke_editing = False\<rparr>]"
  have own: "\<forall>ev \<in> set sample_overlays. gives_own ?owner ev" by (simp add: sample_overlays_def)
  have calls: "closes_own ?owner (\<lambda>h s. goneEscape s (?owner h))" by (simp add: closes_own_def)
  have "esc_open (esc_run sample_overlays) = {0, 1}"
    by (auto simp: esc_run_def sample_overlays_def useEscape_def push_escape_def no_escapes_def Let_def)
  then have "card (esc_open (esc_run sample_overlays)) \<le> length (filter free_escape ?evs)" by (simp add: free_escape_def)
  then show ?thesis using escape_closes_all [OF own calls, of _ _ _ ?evs] by blast
qed

section \<open>The page behind a modal\<close>

text \<open>Runs of locks in which each that closes is the last one that opened.\<close>

inductive nested :: "lock_event list \<Rightarrow> bool" where
  nothing: "nested []"
| after: "nested es \<Longrightarrow> nested fs \<Longrightarrow> nested (es @ fs)"
| around: "nested es \<Longrightarrow> Lock r \<notin> set es \<Longrightarrow> Unlock r \<notin> set es \<Longrightarrow> nested (Lock r # es @ [Unlock r])"

lemma lock_keeps_before: "Lock r \<notin> set es \<Longrightarrow> map_of (page_before (foldl useScrollLock p es)) r = map_of (page_before p) r"
proof (induction es arbitrary: p)
  case (Cons ev es)
  then show ?case by (cases ev) (auto split: option.splits)
qed simp

text \<open>C40: The page scrolls again as it did before once every modal has closed, and does not scroll while
  one is open, as long as modals close in the reverse of the order they opened in.\<close>
theorem scroll_restored:
  assumes "nested es"
  shows "page_overflow (foldl useScrollLock p es) = page_overflow p
    \<and> page_overflow (foldl useScrollLock p (Lock r # es)) = ''hidden''"
proof -
  have "nested es \<Longrightarrow> page_overflow (foldl useScrollLock p es) = page_overflow p" for p
  proof (induction arbitrary: p rule: nested.induct)
    case (around es q)
    let ?p = "useScrollLock p (Lock q)"
    have "map_of (page_before (foldl useScrollLock ?p es)) q = Some (page_overflow p)"
      using lock_keeps_before [OF around(2), of ?p] by simp
    then show ?case by simp
  qed auto
  from this [OF assms] show ?thesis by simp
qed

theorem scroll_restored_witness:
  "page_overflow (foldl useScrollLock \<lparr>page_overflow = ''auto'', page_before = []\<rparr> [Lock 0, Lock 1, Unlock 1, Unlock 0]) = ''auto''"
proof -
  have "nested (Lock 0 # (Lock 1 # [] @ [Unlock 1]) @ [Unlock 0])"
    by (intro nested.around nested.nothing) auto
  from scroll_restored [OF this, of "\<lparr>page_overflow = ''auto'', page_before = []\<rparr>" 2] show ?thesis by simp
qed

text \<open>Two modals that close in the order they opened in leave the page unable to scroll.\<close>

lemma scroll_lock_left_behind:
  "page_overflow (foldl useScrollLock \<lparr>page_overflow = ''auto'', page_before = []\<rparr> [Lock 0, Lock 1, Unlock 0, Unlock 1]) = ''hidden''"
  by simp

section \<open>Where a panel goes\<close>

text \<open>
  Where a placed panel is seen in the window: its style counts from the origin of the block it is fixed
  to, which is where the panel was less where its style put it then. Past its greatest height it scrolls.
\<close>

definition seen_top :: "placed_style \<Rightarrow> Point2 \<Rightarrow> Point2 \<Rightarrow> real" where
  "seen_top st here computed = style_top st + (p_top here - p_top computed)"

definition seen_left :: "placed_style \<Rightarrow> Point2 \<Rightarrow> Point2 \<Rightarrow> real" where
  "seen_left st here computed = style_left st + (p_left here - p_left computed)"

definition seen_height :: "placed_style \<Rightarrow> PanelSize \<Rightarrow> real" where
  "seen_height st panel = min (panel_height panel) (style_maxHeight st)"

definition in_window :: "DOMRect \<Rightarrow> PanelSize \<Rightarrow> bool" where
  "in_window anchor view \<longleftrightarrow> 0 \<le> dom_top anchor \<and> dom_top anchor \<le> dom_bottom anchor \<and> dom_bottom anchor \<le> panel_height view
     \<and> 0 \<le> dom_left anchor \<and> dom_left anchor \<le> dom_right anchor \<and> dom_right anchor \<le> panel_width view"

lemma seen_place [simp]:
  "seen_top (place_style box panel view here computed) here computed = box_top box"
  "seen_left (place_style box panel view here computed) here computed =
     (case box_left box of Some l \<Rightarrow> l | None \<Rightarrow> panel_width view - (case box_right box of Some r \<Rightarrow> r | None \<Rightarrow> 0) - panel_width panel)"
  "seen_height (place_style box panel view here computed) panel = min (panel_height panel) (box_maxHeight box)"
  by (simp_all add: seen_top_def seen_left_def seen_height_def place_style_def Let_def)

lemma below_room:
  assumes "side \<noteq> SideRight" "0 \<le> panel_height panel" "0 \<le> room_below anchor view \<or> 0 \<le> room_above anchor"
  shows "0 \<le> (if goes_below anchor panel view side then room_below anchor view else room_above anchor)"
    "panel_height panel \<le> room_below anchor view \<or> panel_height panel \<le> room_above anchor \<Longrightarrow>
     panel_height panel \<le> (if goes_below anchor panel view side then room_below anchor view else room_above anchor)"
  using assms by (cases side; auto simp: goes_below_def Let_def)+

text \<open>Above and below: what side the panel is on, and that it stays in the window and off its anchor.\<close>

lemma vertical_place:
  assumes "side \<noteq> SideRight" "0 \<le> panel_height panel" "0 \<le> room_below anchor view \<or> 0 \<le> room_above anchor"
    and box: "box = anchoredBox anchor panel view align side" and h: "h = min (panel_height panel) (box_maxHeight box)"
  shows "if goes_below anchor panel view side
      then box_top box = dom_bottom anchor + MENU_GAP_PX \<and> box_top box + h \<le> panel_height view - POPOVER_EDGE_PX
      else box_top box + h = dom_top anchor - MENU_GAP_PX \<and> POPOVER_EDGE_PX \<le> box_top box"
    and "panel_height panel \<le> POPOVER_MAX_HEIGHT_PX \<Longrightarrow>
      panel_height panel \<le> room_below anchor view \<or> panel_height panel \<le> room_above anchor \<Longrightarrow> h = panel_height panel"
proof -
  note room = below_room [OF assms(1-3)]
  let ?b = "goes_below anchor panel view side"
  have b: "box_top box = (if ?b then dom_bottom anchor + MENU_GAP_PX else dom_top anchor - MENU_GAP_PX - h)"
    "box_maxHeight box = min POPOVER_MAX_HEIGHT_PX (if ?b then room_below anchor view else room_above anchor)"
    using assms(1) room(1) by (auto simp: box h anchoredBox_def Let_def config)
  have "h \<le> (if ?b then room_below anchor view else room_above anchor)" by (simp add: h b(2))
  then show "if ?b then box_top box = dom_bottom anchor + MENU_GAP_PX \<and> box_top box + h \<le> panel_height view - POPOVER_EDGE_PX
      else box_top box + h = dom_top anchor - MENU_GAP_PX \<and> POPOVER_EDGE_PX \<le> box_top box"
    by (auto simp: b(1) room_below_def room_above_def)
  show "h = panel_height panel"
    if "panel_height panel \<le> POPOVER_MAX_HEIGHT_PX" "panel_height panel \<le> room_below anchor view \<or> panel_height panel \<le> room_above anchor"
    using that room(2) by (simp add: h b(2) split: if_splits)
qed

text \<open>C39: Where an open panel is seen. For an anchor inside the window and a panel no wider than the
  window: above or below its anchor, where either side has any room, the panel is inside the window from
  top to bottom, a gap away from the anchor, with the margin kept at the edge it grows towards, and whole
  where a side has room for all of it, up to the greatest height of a panel, on the side asked for when
  it fits there. Aligned to the start it is inside the window from left to right; aligned to the end it
  ends where the anchor ends, and so is inside the window exactly when its width is at most the way from
  the left edge of the window to the right edge of the anchor. To the right of its anchor, in a window higher than the two margins, it is inside
  the window with both margins kept, and a gap away from the anchor exactly when it fits there; otherwise
  it is moved left to the window's edge, over the anchor where it has to be.\<close>
theorem panel_stays_clear:
  assumes "in_window anchor view" "0 \<le> panel_height panel" "0 \<le> panel_width panel" "panel_width panel \<le> panel_width view"
    and "st = place_style (anchoredBox anchor panel view align side) panel view here computed"
    and "y = seen_top st here computed" "x = seen_left st here computed" "h = seen_height st panel"
  shows "(side \<noteq> SideRight \<and> (0 \<le> room_below anchor view \<or> 0 \<le> room_above anchor) \<longrightarrow>
        0 \<le> y \<and> y + h \<le> panel_height view
      \<and> (y = dom_bottom anchor + MENU_GAP_PX \<and> y + h \<le> panel_height view - POPOVER_EDGE_PX
         \<or> y + h = dom_top anchor - MENU_GAP_PX \<and> POPOVER_EDGE_PX \<le> y)
      \<and> (panel_height panel \<le> POPOVER_MAX_HEIGHT_PX \<and> (panel_height panel \<le> room_below anchor view \<or> panel_height panel \<le> room_above anchor)
           \<longrightarrow> h = panel_height panel)
      \<and> (side = SideBottom \<and> panel_height panel \<le> room_below anchor view \<longrightarrow> y = dom_bottom anchor + MENU_GAP_PX)
      \<and> (side = SideTop \<and> panel_height panel \<le> room_above anchor \<longrightarrow> y + h = dom_top anchor - MENU_GAP_PX))
    \<and> (side \<noteq> SideRight \<and> align = AlignStart \<longrightarrow> 0 \<le> x \<and> x + panel_width panel \<le> panel_width view)
    \<and> (side \<noteq> SideRight \<and> align = AlignEnd \<longrightarrow> x + panel_width panel = dom_right anchor
        \<and> (0 \<le> x \<and> x + panel_width panel \<le> panel_width view \<longleftrightarrow> panel_width panel \<le> dom_right anchor))
    \<and> (side = SideRight \<and> 2 * POPOVER_EDGE_PX \<le> panel_height view \<longrightarrow>
        POPOVER_EDGE_PX \<le> y \<and> y + h \<le> panel_height view - POPOVER_EDGE_PX \<and> 0 \<le> x \<and> x + panel_width panel \<le> panel_width view
      \<and> (x = dom_right anchor + MENU_GAP_PX \<longleftrightarrow> dom_right anchor + MENU_GAP_PX + panel_width panel \<le> panel_width view)
      \<and> (x = dom_right anchor + MENU_GAP_PX \<or> x + panel_width panel = panel_width view))"
    (is "(?vertical \<longrightarrow> ?clear) \<and> (?start \<longrightarrow> ?in) \<and> (?fin \<longrightarrow> ?ends) \<and> (?right \<longrightarrow> ?beside)")
proof -
  let ?box = "anchoredBox anchor panel view align side"
  have w: "0 \<le> dom_top anchor" "dom_top anchor \<le> dom_bottom anchor" "dom_bottom anchor \<le> panel_height view"
    "0 \<le> dom_right anchor" "dom_right anchor \<le> panel_width view" using assms(1) by (simp_all add: in_window_def)
  have seen: "y = box_top ?box" "h = min (panel_height panel) (box_maxHeight ?box)"
    "x = (case box_left ?box of Some l \<Rightarrow> l
       | None \<Rightarrow> panel_width view - (case box_right ?box of Some r \<Rightarrow> r | None \<Rightarrow> 0) - panel_width panel)"
    using assms(5-8) by simp_all
  have clear: ?clear if ?vertical
  proof -
    note place = vertical_place [OF _ assms(2) _ refl seen(2), folded seen(1)]
    have sides: "side = SideBottom \<and> panel_height panel \<le> room_below anchor view \<Longrightarrow> goes_below anchor panel view side"
      "side = SideTop \<and> panel_height panel \<le> room_above anchor \<Longrightarrow> \<not> goes_below anchor panel view side"
      by (simp_all add: goes_below_def Let_def)
    show ?thesis using place(1) place(2) that w(1-3) sides
      by (cases "goes_below anchor panel view side") (auto simp: config)
  qed
  moreover have ?in if ?start using that assms(3,4) by (auto simp: seen(3) anchoredBox_def Let_def max_def min_def)
  moreover have ?ends if ?fin using that w(5) by (auto simp: seen(3) anchoredBox_def Let_def)
  moreover have ?beside if ?right
    using that assms(4) w(4) by (auto simp: seen anchoredBox_def Let_def max_def min_def config)
  ultimately show ?thesis by blast
qed

theorem panel_stays_clear_witness:
  "seen_top (place_style (anchoredBox \<lparr>dom_top = 700, dom_bottom = 730, dom_left = 900, dom_right = 960, dom_height = 30\<rparr>
     \<lparr>panel_width = 200, panel_height = 300\<rparr> \<lparr>panel_width = 1000, panel_height = 800\<rparr> AlignEnd SideBottom)
     \<lparr>panel_width = 200, panel_height = 300\<rparr> \<lparr>panel_width = 1000, panel_height = 800\<rparr> \<lparr>p_top = 5, p_left = 7\<rparr> \<lparr>p_top = 0, p_left = 0\<rparr>)
     \<lparr>p_top = 5, p_left = 7\<rparr> \<lparr>p_top = 0, p_left = 0\<rparr> + 300 = 696"
  using panel_stays_clear [OF _ _ _ _ refl refl refl refl, of "\<lparr>dom_top = 700, dom_bottom = 730, dom_left = 900, dom_right = 960, dom_height = 30\<rparr>"
      "\<lparr>panel_width = 1000, panel_height = 800\<rparr>" "\<lparr>panel_width = 200, panel_height = 300\<rparr>" SideBottom AlignEnd]
  by (simp add: in_window_def room_below_def room_above_def goes_below_def anchoredBox_def Let_def config)

text \<open>
  A panel aligned to the end of an anchor near the left edge runs out of the window, where one aligned
  to the start is moved in; and beside an anchor near the right edge a panel covers it.
\<close>

lemma end_panel_leaves_window:
  "in_window anchor view \<Longrightarrow> dom_right anchor < panel_width panel \<Longrightarrow> side \<noteq> SideRight \<Longrightarrow>
   seen_left (place_style (anchoredBox anchor panel view AlignEnd side) panel view here computed) here computed < 0"
  by (simp add: in_window_def anchoredBox_def Let_def)

lemma right_panel_covers_anchor:
  "in_window anchor view \<Longrightarrow> panel_width view < dom_right anchor + panel_width panel \<Longrightarrow>
   seen_left (place_style (anchoredBox anchor panel view align SideRight) panel view here computed) here computed < dom_right anchor"
  by (simp add: anchoredBox_def Let_def)

end
