(* ===== verification/JsValue.thy ===== *)
theory JsValue
  imports JsNumber Api
begin

text \<open>
  Values of type \<open>unknown\<close> where a module turns them into something else: \<open>Number\<close> of a value, and the
  nodes of a document one below the other.
\<close>

text \<open>\<open>Number(v)\<close>: an array or an object by way of its text, undefined is not a number.\<close>

definition number_of :: "(real \<Rightarrow> string) \<Rightarrow> json option \<Rightarrow> js_number" where
  "number_of num v = (case v of
      None \<Rightarrow> NaN
    | Some JNull \<Rightarrow> Fin 0
    | Some (JBool b) \<Rightarrow> Fin (if b then 1 else 0)
    | Some (JNum x) \<Rightarrow> Fin x
    | Some w \<Rightarrow> read_number (json_text num w))"

text \<open>\<open>node.content ?? []\<close> and \<open>node.attrs?.key\<close>.\<close>

definition kids :: "DocNode \<Rightarrow> DocNode list" where
  "kids n = (case node_content n of Some ns \<Rightarrow> ns | None \<Rightarrow> [])"

definition attr_at :: "(string \<times> json) list option \<Rightarrow> string \<Rightarrow> json option" where
  "attr_at attrs key = (case attrs of Some m \<Rightarrow> map_of m key | None \<Rightarrow> None)"

text \<open>\<open>v ?? w\<close>, which takes null for absent too.\<close>

definition json_or :: "json option \<Rightarrow> json \<Rightarrow> json" where
  "json_or v w = (case v of Some x \<Rightarrow> if x = JNull then w else x | None \<Rightarrow> w)"

lemma kids_smaller: "x \<in> set (kids n) \<Longrightarrow> size x < size n"
proof -
  assume "x \<in> set (kids n)"
  then obtain ns where ns: "node_content n = Some ns" "x \<in> set ns"
    by (cases "node_content n") (auto simp: kids_def)
  from ns(2) have "size x < size_list size ns" by (induction ns) auto
  with ns(1) show ?thesis by (cases n) simp
qed

end
