(* ===== verification/QueryFilter.thy ===== *)
theory QueryFilter
  imports JsValue
begin

text \<open>
  The filter of a dashboard, \<open>web/src/features/dashboard/filter.ts\<close>: what its controls say, the query it
  becomes, and how it travels in the address. With it, the part of the server that first reads the
  query, \<open>backend/internal/nql/lexer.go\<close>, so that what a name with quotes in it does to a query can be
  told. Positions of tokens are not modelled.
\<close>

section \<open>The filter\<close>

datatype Category = AnyCategory | CategoryTodo | CategoryInProgress | CategoryDone

fun category_text :: "Category \<Rightarrow> string" where
  "category_text AnyCategory = []"
| "category_text CategoryTodo = ''todo''"
| "category_text CategoryInProgress = ''in_progress''"
| "category_text CategoryDone = ''done''"

datatype DateField = Created | Updated | Resolved

fun field_text :: "DateField \<Rightarrow> string" where
  "field_text Created = ''created''"
| "field_text Updated = ''updated''"
| "field_text Resolved = ''resolved''"

record FilterSpec =
  fs_types :: "string list"
  fs_team :: string
  fs_assignee :: string
  fs_category :: Category
  fs_field :: DateField
  fs_days :: int
  fs_milestone :: string
  fs_query :: string
  fs_filterId :: string

definition FILTER_TEXT_KEYS :: "string list" where
  "FILTER_TEXT_KEYS = [''types'', ''team'', ''assignee'', ''category'', ''field'', ''milestone'', ''fq'', ''sf'']"

definition UNASSIGNED :: string where "UNASSIGNED = ''-''"

definition EMPTY_FILTER :: FilterSpec where
  "EMPTY_FILTER = \<lparr>fs_types = [], fs_team = [], fs_assignee = [], fs_category = AnyCategory, fs_field = Created, fs_days = 0,
     fs_milestone = [], fs_query = [], fs_filterId = []\<rparr>"

definition CATEGORIES :: "Category list" where
  "CATEGORIES = [AnyCategory, CategoryTodo, CategoryInProgress, CategoryDone]"

definition FIELDS :: "DateField list" where
  "FIELDS = [Created, Updated, Resolved]"

text \<open>\<open>replace\<close> of every occurrence of one unit.\<close>

definition replace_unit :: "char \<Rightarrow> string \<Rightarrow> string \<Rightarrow> string" where
  "replace_unit c by s = concat (map (\<lambda>d. if d = c then by else [d]) s)"

definition quote :: "string \<Rightarrow> string" where
  "quote s = ''\"'' @ replace_unit (CHR 0x22) [CHR 0x5C, CHR 0x22] (replace_unit (CHR 0x5C) [CHR 0x5C, CHR 0x5C] s) @ ''\"''"

text \<open>The query of the saved search, where one is chosen and it says something.\<close>

definition fromSaved :: "FilterSpec \<Rightarrow> (string \<Rightarrow> string option) \<Rightarrow> string option" where
  "fromSaved spec savedQuery =
     (if fs_filterId spec \<noteq> [] then (case savedQuery (fs_filterId spec) of Some q \<Rightarrow> if trim q \<noteq> [] then Some (trim q) else None | None \<Rightarrow> None)
      else None)"

definition clauses :: "FilterSpec \<Rightarrow> (string \<Rightarrow> string option) \<Rightarrow> string list" where
  "clauses spec savedQuery =
     (case fromSaved spec savedQuery of Some q \<Rightarrow> [''('' @ q @ '')''] | None \<Rightarrow> [])
     @ (case fs_types spec of [] \<Rightarrow> [] | [ty] \<Rightarrow> [''type = '' @ quote ty]
        | tys \<Rightarrow> [''type IN ('' @ join '', '' (map quote tys) @ '')''])
     @ (if fs_team spec \<noteq> [] then [''team = '' @ quote (fs_team spec)] else [])
     @ (if fs_assignee spec = UNASSIGNED then [''assignee IS EMPTY'']
        else if fs_assignee spec \<noteq> [] then [''assignee = '' @ quote (fs_assignee spec)] else [])
     @ (if fs_category spec \<noteq> AnyCategory then [''statusCategory = '' @ category_text (fs_category spec)] else [])
     @ (if 0 < fs_days spec then [field_text (fs_field spec) @ '' >= -'' @ int_str (fs_days spec) @ ''d''] else [])
     @ (if fs_milestone spec \<noteq> [] then [''milestone = '' @ quote (fs_milestone spec)] else [])"

definition composeQuery :: "FilterSpec \<Rightarrow> (string \<Rightarrow> string option) \<Rightarrow> string" where
  "composeQuery spec savedQuery =
     (let parts = clauses spec savedQuery; extra = trim (fs_query spec)
      in join '' AND '' (parts @ (if extra \<noteq> [] then [if parts \<noteq> [] then ''('' @ extra @ '')'' else extra] else [])))"

definition activeCount :: "FilterSpec \<Rightarrow> nat" where
  "activeCount spec = length (filter id [fs_types spec \<noteq> [], fs_team spec \<noteq> [], fs_assignee spec \<noteq> [],
     fs_category spec \<noteq> AnyCategory, 0 < fs_days spec, fs_milestone spec \<noteq> [], trim (fs_query spec) \<noteq> [], fs_filterId spec \<noteq> []])"

definition isEmpty :: "FilterSpec \<Rightarrow> bool" where
  "isEmpty spec \<longleftrightarrow> activeCount spec = 0"

section \<open>The address\<close>

text \<open>The search of an address is an object; a key that is not there is undefined.\<close>

type_synonym address = "(string \<times> json) list"

definition text_at :: "address \<Rightarrow> string \<Rightarrow> string option" where
  "text_at search key = (case map_of search key of Some (JStr s) \<Rightarrow> Some s | _ \<Rightarrow> None)"

definition list_at :: "address \<Rightarrow> string \<Rightarrow> string list" where
  "list_at search key = (case text_at search key of Some s \<Rightarrow> filter (\<lambda>w. w \<noteq> []) (split_on (CHR '','') s) | None \<Rightarrow> [])"

definition or_empty :: "string option \<Rightarrow> string" where
  "or_empty s = (case s of Some t \<Rightarrow> t | None \<Rightarrow> [])"

definition parseSearch :: "(real \<Rightarrow> string) \<Rightarrow> address \<Rightarrow> FilterSpec \<Rightarrow> FilterSpec" where
  "parseSearch num search fallback =
     (let category = text_at search ''category''; field = text_at search ''field''; days = number_of num (map_of search ''days'');
          touched = (map_of search ''days'' \<noteq> None \<or> (\<exists>key \<in> set FILTER_TEXT_KEYS. text_at search key \<noteq> None))
      in if \<not> touched then fallback
         else \<lparr>fs_types = list_at search ''types'', fs_team = or_empty (text_at search ''team''),
           fs_assignee = or_empty (text_at search ''assignee''),
           fs_category = (case js_find (\<lambda>c. Some (category_text c) = category) CATEGORIES of Some c \<Rightarrow> c | None \<Rightarrow> AnyCategory),
           fs_field = (case js_find (\<lambda>f. Some (field_text f) = field) FIELDS of Some f \<Rightarrow> f | None \<Rightarrow> Created),
           fs_days = (case days of Fin x \<Rightarrow> if 0 < x then \<lfloor>x\<rfloor> else 0 | _ \<Rightarrow> 0),
           fs_milestone = or_empty (text_at search ''milestone''), fs_query = or_empty (text_at search ''fq''),
           fs_filterId = or_empty (text_at search ''sf'')\<rparr>)"

text \<open>An entry of the search, left out when it is undefined.\<close>

definition entry :: "string \<Rightarrow> json option \<Rightarrow> address" where
  "entry key v = (case v of Some w \<Rightarrow> [(key, w)] | None \<Rightarrow> [])"

definition unless_empty :: "string \<Rightarrow> json option" where
  "unless_empty s = (if s = [] then None else Some (JStr s))"

definition toSearch :: "FilterSpec \<Rightarrow> address" where
  "toSearch spec =
     entry ''types'' (if fs_types spec \<noteq> [] then Some (JStr (join '','' (fs_types spec))) else None)
     @ entry ''team'' (unless_empty (fs_team spec)) @ entry ''assignee'' (unless_empty (fs_assignee spec))
     @ entry ''category'' (unless_empty (category_text (fs_category spec)))
     @ entry ''field'' (if 0 < fs_days spec \<and> fs_field spec \<noteq> Created then Some (JStr (field_text (fs_field spec))) else None)
     @ entry ''days'' (Some (JNum (of_int (fs_days spec)))) @ entry ''milestone'' (unless_empty (fs_milestone spec))
     @ entry ''fq'' (unless_empty (trim (fs_query spec))) @ entry ''sf'' (unless_empty (fs_filterId spec))"

section \<open>The server's first reading\<close>

datatype token_kind = KEOF | KWord | KString | KNumber | KDate | KDuration | KOp | KLParen | KRParen | KComma

type_synonym token = "token_kind \<times> string"

datatype lex_error = NeverClosed | LoneBang | NotAValue string | NotUsable char

text \<open>The letters of Latin-1, and its white space as the server has it.\<close>

definition is_letter :: "char \<Rightarrow> bool" where
  "is_letter c = (let n = (of_char c :: nat)
     in 65 \<le> n \<and> n \<le> 90 \<or> 97 \<le> n \<and> n \<le> 122 \<or> n \<in> {170, 181, 186} \<or> 192 \<le> n \<and> n \<noteq> 215 \<and> n \<noteq> 247)"

definition lex_space :: "char \<Rightarrow> bool" where
  "lex_space c \<longleftrightarrow> (of_char c :: nat) \<in> {9, 10, 11, 12, 13, 32, 133, 160}"

definition isWordStart :: "char \<Rightarrow> bool" where
  "isWordStart c \<longleftrightarrow> is_letter c \<or> c = CHR ''_'' \<or> c = CHR ''@''"

definition isWordChar :: "char \<Rightarrow> bool" where
  "isWordChar c \<longleftrightarrow> is_letter c \<or> is_digit c \<or> c \<in> set ''_.-@:''"

text \<open>What is between a quote and the one that closes it, and what follows; a backslash takes the next unit as it is.\<close>

fun read_quoted :: "char \<Rightarrow> string \<Rightarrow> (string \<times> string) option" where
  "read_quoted q [] = None"
| "read_quoted q [c] = (if c = q then Some ([], []) else None)"
| "read_quoted q (c # d # s) =
     (if c = CHR 0x5C then map_option (\<lambda>(t, r). (d # t, r)) (read_quoted q s)
      else if c = q then Some ([], d # s)
      else map_option (\<lambda>(t, r). (c # t, r)) (read_quoted q (d # s)))"

definition digits_only :: "string \<Rightarrow> bool" where
  "digits_only s \<longleftrightarrow> s \<noteq> [] \<and> (\<forall>c \<in> set s. is_digit c)"

definition unsigned :: "string \<Rightarrow> string" where
  "unsigned s = (case s of c # r \<Rightarrow> if c = CHR ''+'' \<or> c = CHR ''-'' then r else s | [] \<Rightarrow> [])"

definition digits_at :: "string \<Rightarrow> nat list \<Rightarrow> bool" where
  "digits_at s is = list_all (\<lambda>i. is_digit (s ! i)) is"

definition is_date :: "string \<Rightarrow> bool" where
  "is_date s \<longleftrightarrow> length s \<in> {10, 16, 19} \<and> digits_at s [0, 1, 2, 3, 5, 6, 8, 9] \<and> s ! 4 = CHR ''-'' \<and> s ! 7 = CHR ''-''
     \<and> (16 \<le> length s \<longrightarrow> s ! 10 = CHR ''T'' \<and> s ! 13 = CHR '':'' \<and> digits_at s [11, 12, 14, 15])
     \<and> (19 \<le> length s \<longrightarrow> s ! 16 = CHR '':'' \<and> digits_at s [17, 18])"

definition is_duration :: "string \<Rightarrow> bool" where
  "is_duration s = (let u = unsigned s in u \<noteq> [] \<and> last u \<in> set ''hdw'' \<and> digits_only (butlast u))"

definition is_number :: "string \<Rightarrow> bool" where
  "is_number s = (let u = unsigned s; r = dropWhile is_digit u
     in takeWhile is_digit u \<noteq> [] \<and> (r = [] \<or> hd r = CHR ''.'' \<and> digits_only (tl r)))"

definition classify :: "string \<Rightarrow> lex_error + token" where
  "classify word = (if isWordStart (hd word) then Inr (KWord, word)
     else if is_date word then Inr (KDate, word) else if is_duration word then Inr (KDuration, word)
     else if is_number word then Inr (KNumber, word) else Inl (NotAValue word))"

text \<open>One turn of the loop: a token, or none for white space, and what is left.\<close>

definition lex_string :: "char \<Rightarrow> string \<Rightarrow> lex_error + token option \<times> string" where
  "lex_string c s = (case read_quoted c s of None \<Rightarrow> Inl NeverClosed | Some (t, r) \<Rightarrow> Inr (Some (KString, t), r))"

definition lex_bang :: "string \<Rightarrow> lex_error + token option \<times> string" where
  "lex_bang s = (if s \<noteq> [] \<and> (hd s = CHR ''='' \<or> hd s = CHR ''~'') then Inr (Some (KOp, [CHR ''!'', hd s]), tl s) else Inl LoneBang)"

definition lex_angle :: "char \<Rightarrow> string \<Rightarrow> lex_error + token option \<times> string" where
  "lex_angle c s = (if s \<noteq> [] \<and> hd s = CHR ''='' then Inr (Some (KOp, [c, CHR ''='']), tl s) else Inr (Some (KOp, [c]), s))"

definition starts_value :: "char \<Rightarrow> string \<Rightarrow> bool" where
  "starts_value c s \<longleftrightarrow> isWordStart c \<or> is_digit c \<or> (c = CHR ''-'' \<or> c = CHR ''+'') \<and> s \<noteq> [] \<and> is_digit (hd s)"

definition lex_value :: "char \<Rightarrow> string \<Rightarrow> lex_error + token option \<times> string" where
  "lex_value c s = (case classify (c # takeWhile isWordChar s) of Inl e \<Rightarrow> Inl e
     | Inr t \<Rightarrow> Inr (Some t, dropWhile isWordChar s))"

definition lex_one :: "char \<Rightarrow> string \<Rightarrow> lex_error + token option \<times> string" where
  "lex_one c s =
     (if lex_space c then Inr (None, s)
      else if c = CHR ''('' then Inr (Some (KLParen, ''(''), s)
      else if c = CHR '')'' then Inr (Some (KRParen, '')''), s)
      else if c = CHR '','' then Inr (Some (KComma, '',''), s)
      else if c = CHR 0x22 \<or> c = CHR 0x27 then lex_string c s
      else if c = CHR ''='' \<or> c = CHR ''~'' then Inr (Some (KOp, [c]), s)
      else if c = CHR ''!'' then lex_bang s
      else if c = CHR ''<'' \<or> c = CHR ''>'' then lex_angle c s
      else if starts_value c s then lex_value c s
      else Inl (NotUsable c))"

lemma read_quoted_shorter: "read_quoted q s = Some (t, r) \<Longrightarrow> length r < length s"
  by (induction q s arbitrary: t rule: read_quoted.induct) (fastforce split: if_splits)+

lemma if_eqE: "(if P then x else y) = z \<Longrightarrow> (x = z \<Longrightarrow> Q) \<Longrightarrow> (y = z \<Longrightarrow> Q) \<Longrightarrow> Q"
  by (cases P) auto

lemma lex_one_shorter: "lex_one c s = Inr (t, r) \<Longrightarrow> length r \<le> length s"
  unfolding lex_one_def lex_string_def lex_bang_def lex_angle_def lex_value_def
  by (elim if_eqE) (auto simp: length_dropWhile_le split: option.splits sum.splits dest!: read_quoted_shorter)

function lex_loop :: "string \<Rightarrow> lex_error + token list" where
  "lex_loop [] = Inr []"
| "lex_loop (c # s) = (case lex_one c s of
      Inl e \<Rightarrow> Inl e
    | Inr (t, r) \<Rightarrow> (case lex_loop r of Inl e \<Rightarrow> Inl e
        | Inr ts \<Rightarrow> Inr ((case t of Some tok \<Rightarrow> [tok] | None \<Rightarrow> []) @ ts)))"
  by pat_completeness auto

termination lex_loop
  by (relation "measure length") (auto simp: le_imp_less_Suc dest: lex_one_shorter)

declare lex_loop.simps(2) [simp del]

definition lex :: "string \<Rightarrow> lex_error + token list" where
  "lex text = map_sum id (\<lambda>ts. ts @ [(KEOF, [])]) (lex_loop text)"

section \<open>Reading what was written\<close>

lemma read_quoted_append: "q \<noteq> CHR 0x5C \<Longrightarrow> read_quoted q s = Some (t, u) \<Longrightarrow> read_quoted q (s @ w) = Some (t, u @ w)"
proof (induction q s arbitrary: t rule: read_quoted.induct)
  case (2 q c)
  then show ?case by (cases w) (auto split: if_splits)
qed (auto split: if_splits)

definition esc :: "string \<Rightarrow> string" where
  "esc s = concat (map (\<lambda>c. if c = CHR 0x5C then [CHR 0x5C, CHR 0x5C] else if c = CHR 0x22 then [CHR 0x5C, CHR 0x22] else [c]) s)"

lemma quote_esc: "quote s = CHR 0x22 # esc s @ [CHR 0x22]"
proof -
  have "replace_unit (CHR 0x22) [CHR 0x5C, CHR 0x22] (replace_unit (CHR 0x5C) [CHR 0x5C, CHR 0x5C] s) = esc s"
    unfolding replace_unit_def esc_def by (induction s) auto
  then show ?thesis by (simp add: quote_def)
qed

lemma read_quoted_esc: "read_quoted (CHR 0x22) (esc s @ CHR 0x22 # r) = Some (s, r)"
proof (induction s)
  case Nil
  then show ?case by (cases r) (simp_all add: esc_def)
next
  case (Cons c s)
  obtain d u where du: "esc s @ CHR 0x22 # r = d # u" by (cases "esc s @ CHR 0x22 # r") auto
  have "esc (c # s) = (if c = CHR 0x5C then [CHR 0x5C, CHR 0x5C] else if c = CHR 0x22 then [CHR 0x5C, CHR 0x22] else [c]) @ esc s"
    by (simp add: esc_def)
  then show ?case using Cons du by auto
qed

text \<open>A unit at which a token ends: it is no part of a word and no second half of an operator.\<close>

definition stop :: "char \<Rightarrow> bool" where
  "stop d \<longleftrightarrow> \<not> isWordChar d \<and> d \<noteq> CHR ''='' \<and> d \<noteq> CHR ''~''"

lemma stop_chars: "stop (CHR '' '')" "stop (CHR '')'')" "stop (CHR '','')" "stop (CHR ''('')"
  by code_simp+

lemma stop_digit: "stop d \<Longrightarrow> \<not> is_digit d"
  by (auto simp: stop_def isWordChar_def)

lemma word_append:
  assumes "stop d"
  shows "takeWhile isWordChar (s @ d # r) = takeWhile isWordChar s" "dropWhile isWordChar (s @ d # r) = dropWhile isWordChar s @ d # r"
  using assms by (induction s) (auto simp: stop_def)

lemma pieces_append:
  assumes d: "stop d"
  shows "c = CHR 0x22 \<or> c = CHR 0x27 \<Longrightarrow> lex_string c s = Inr (t, u) \<Longrightarrow> lex_string c (s @ d # r) = Inr (t, u @ d # r)"
    "lex_bang s = Inr (t, u) \<Longrightarrow> lex_bang (s @ d # r) = Inr (t, u @ d # r)"
    "lex_angle c s = Inr (t, u) \<Longrightarrow> lex_angle c (s @ d # r) = Inr (t, u @ d # r)"
    "starts_value c (s @ d # r) = starts_value c s"
    "lex_value c s = Inr (t, u) \<Longrightarrow> lex_value c (s @ d # r) = Inr (t, u @ d # r)"
proof -
  have nd: "d \<noteq> CHR ''=''" "d \<noteq> CHR ''~''" "\<not> is_digit d" using d stop_digit by (auto simp: stop_def)
  show "lex_string c (s @ d # r) = Inr (t, u @ d # r)" if "c = CHR 0x22 \<or> c = CHR 0x27" "lex_string c s = Inr (t, u)"
  proof -
    have "c \<noteq> CHR 0x5C" using that(1) by auto
    then show ?thesis using that(2) read_quoted_append [of c s _ _ "d # r"] by (auto simp: lex_string_def split: option.splits)
  qed
  show "lex_bang s = Inr (t, u) \<Longrightarrow> lex_bang (s @ d # r) = Inr (t, u @ d # r)"
    unfolding lex_bang_def by (cases s) (simp, auto split: if_split_asm)
  show "lex_angle c s = Inr (t, u) \<Longrightarrow> lex_angle c (s @ d # r) = Inr (t, u @ d # r)"
    using nd(1) by (cases s) (auto simp: lex_angle_def)
  show "starts_value c (s @ d # r) = starts_value c s" using nd(3) by (cases s) (simp_all add: starts_value_def)
  show "lex_value c s = Inr (t, u) \<Longrightarrow> lex_value c (s @ d # r) = Inr (t, u @ d # r)"
    unfolding lex_value_def word_append [OF d] by (auto split: sum.splits)
qed

lemma lex_one_append:
  assumes d: "stop d" and one: "lex_one c s = Inr (t, u)"
  shows "lex_one c (s @ d # r) = Inr (t, u @ d # r)"
proof -
  have keep: "(if P then x else y) = Inr (t, u) \<Longrightarrow> (P \<Longrightarrow> x = Inr (t, u) \<Longrightarrow> x' = Inr (t, u @ d # r)) \<Longrightarrow> (y = Inr (t, u) \<Longrightarrow> y' = Inr (t, u @ d # r))
    \<Longrightarrow> (if P then x' else y') = Inr (t, u @ d # r)" for P and x y x' y' :: "lex_error + token option \<times> string"
    by (cases P) simp_all
  show ?thesis
    using one unfolding lex_one_def pieces_append(4) [OF d]
    by (rule keep; (elim keep)?) (auto intro: pieces_append(1,2,3,5) [OF d] elim!: keep)
qed

lemma lex_loop_append: "lex_loop s = Inr ts \<Longrightarrow> stop d \<Longrightarrow> lex_loop (s @ d # r) = map_sum id ((@) ts) (lex_loop (d # r))"
proof (induction s arbitrary: ts rule: lex_loop.induct)
  case 1
  then show ?case by (cases "lex_loop (d # r)") auto
next
  case (2 c s)
  from 2(2) obtain t u us where one: "lex_one c s = Inr (t, u)" "lex_loop u = Inr us"
    "ts = (case t of Some tok \<Rightarrow> [tok] | None \<Rightarrow> []) @ us"
    by (auto simp: lex_loop.simps split: sum.splits)
  have "lex_loop (u @ d # r) = map_sum id ((@) us) (lex_loop (d # r))" using 2(1) [OF one(1) refl one(2) 2(3)] .
  moreover have "lex_one c (s @ d # r) = Inr (t, u @ d # r)" by (rule lex_one_append [OF 2(3) one(1)])
  ultimately show ?case using one(3) by (cases "lex_loop (d # r)") (simp_all add: lex_loop.simps(2) [of c])
qed

lemma lex_parts:
  "lex_loop (CHR '' '' # s) = lex_loop s"
  "lex_loop (CHR ''('' # s) = map_sum id (Cons (KLParen, ''('')) (lex_loop s)"
  "lex_loop (CHR '')'' # s) = map_sum id (Cons (KRParen, '')'')) (lex_loop s)"
  "lex_loop (CHR '','' # s) = map_sum id (Cons (KComma, '','')) (lex_loop s)"
proof -
  have "lex_one (CHR '' '') s = Inr (None, s)" "lex_one (CHR ''('') s = Inr (Some (KLParen, ''(''), s)"
    "lex_one (CHR '')'') s = Inr (Some (KRParen, '')''), s)" "lex_one (CHR '','') s = Inr (Some (KComma, '',''), s)"
    by (simp_all add: lex_one_def lex_space_def)
  then show "lex_loop (CHR '' '' # s) = lex_loop s"
    "lex_loop (CHR ''('' # s) = map_sum id (Cons (KLParen, ''('')) (lex_loop s)"
    "lex_loop (CHR '')'' # s) = map_sum id (Cons (KRParen, '')'')) (lex_loop s)"
    "lex_loop (CHR '','' # s) = map_sum id (Cons (KComma, '','')) (lex_loop s)"
    by (cases "lex_loop s"; simp add: lex_loop.simps)+
qed

lemma lex_quote: "lex_loop (quote s @ r) = map_sum id (Cons (KString, s)) (lex_loop r)"
proof -
  have "lex_one (CHR 0x22) (esc s @ CHR 0x22 # r) = Inr (Some (KString, s), r)"
    by (simp add: lex_one_def lex_space_def lex_string_def read_quoted_esc)
  then show ?thesis by (cases "lex_loop r") (simp_all add: quote_esc lex_loop.simps(2) [of "CHR 0x22"])
qed

lemma map_sum_append: "map_sum id ((@) xs) (map_sum id ((@) ys) z) = map_sum id ((@) (xs @ ys)) z"
  by (cases z) simp_all

text \<open>A text that is read as these tokens, followed by a space and more.\<close>

lemma lex_then: "lex_loop s = Inr ts \<Longrightarrow> lex_loop (s @ '' '' @ r) = map_sum id ((@) ts) (lex_loop r)"
  using lex_loop_append [OF _ stop_chars(1), of s ts r] by (simp add: lex_parts)

lemma lex_brackets: "lex_loop s = Inr ts \<Longrightarrow> lex_loop (''('' @ s @ '')'') = Inr ((KLParen, ''('') # ts @ [(KRParen, '')'')])"
  using lex_loop_append [OF _ stop_chars(2), of s ts "[]"] by (simp add: lex_parts)

lemma lex_values: "lex_loop (join '', '' (map quote (v # vs)) @ r)
    = map_sum id ((@) ((KString, v) # concat (map (\<lambda>w. [(KComma, '',''), (KString, w)]) vs))) (lex_loop r)"
proof (induction vs arbitrary: v)
  case Nil
  then show ?case by (simp add: lex_quote sum.map_comp comp_def) (cases "lex_loop r"; simp)
next
  case (Cons w vs)
  have "lex_loop (join '', '' (map quote (v # w # vs)) @ r) = lex_loop (quote v @ '','' @ '' '' @ join '', '' (map quote (w # vs)) @ r)" by simp
  also have "\<dots> = map_sum id (Cons (KString, v)) (map_sum id (Cons (KComma, '','')) (lex_loop (join '', '' (map quote (w # vs)) @ r)))"
    unfolding lex_quote by (simp add: lex_parts)
  finally show ?case unfolding Cons by (cases "lex_loop r") simp_all
qed

lemma lex_days: "0 < n \<Longrightarrow> lex_loop (''-'' @ int_str n @ ''d'') = Inr [(KDuration, ''-'' @ int_str n @ ''d'')]"
proof -
  assume n: "0 < n"
  let ?ds = "nat_str (nat n)"
  have i: "int_str n = ?ds" using n by (simp add: int_str_def)
  have ds: "\<forall>c \<in> set ?ds. is_digit c" by (rule nat_str_digits)
  obtain c cs where c: "?ds = c # cs" using nat_str_not_Nil [of "nat n"] by (cases ?ds) auto
  have word: "\<forall>x \<in> set (?ds @ ''d''). isWordChar x" using ds by (auto simp: isWordChar_def is_letter_def)
  have "starts_value (CHR ''-'') (?ds @ ''d'')" using ds c by (simp add: starts_value_def)
  moreover have "classify (CHR ''-'' # ?ds @ ''d'') = Inr (KDuration, CHR ''-'' # ?ds @ ''d'')"
    using ds by (simp add: classify_def isWordStart_def is_letter_def is_date_def digits_at_def is_digit_def is_duration_def
        unsigned_def digits_only_def butlast_append)
  ultimately have "lex_one (CHR ''-'') (?ds @ ''d'') = Inr (Some (KDuration, CHR ''-'' # ?ds @ ''d''), [])"
    using word by (simp add: lex_one_def lex_space_def lex_value_def takeWhile_eq_all_conv [THEN iffD2] dropWhile_eq_Nil_conv [THEN iffD2])
  then show ?thesis by (simp add: i lex_loop.simps)
qed

fun and_tokens :: "token list list \<Rightarrow> token list" where
  "and_tokens [] = []"
| "and_tokens [ts] = ts"
| "and_tokens (ts # tss) = ts @ (KWord, ''AND'') # and_tokens tss"

abbreviation lexes :: "string list \<Rightarrow> token list list \<Rightarrow> bool" where
  "lexes \<equiv> list_all2 (\<lambda>p ts. lex_loop p = Inr ts)"

lemma lex_join: "lexes ps tss \<Longrightarrow> lex_loop (join '' AND '' ps) = Inr (and_tokens tss)"
proof (induction ps tss rule: list_all2_induct)
  case (Cons p ps ts tss)
  show ?case
  proof (cases ps)
    case Nil
    then show ?thesis using Cons by (cases tss) auto
  next
    case (Cons q qs)
    then obtain us uss where tss: "tss = us # uss" using \<open>lexes ps tss\<close> by (cases tss) auto
    have "lex_loop ''AND'' = Inr [(KWord, ''AND'')]" by code_simp
    from lex_then [OF this, of "join '' AND '' ps"]
    have "lex_loop (''AND'' @ '' '' @ join '' AND '' ps) = Inr ((KWord, ''AND'') # and_tokens tss)" using Cons.IH by simp
    then show ?thesis using lex_then [OF \<open>lex_loop p = Inr ts\<close>, of "''AND'' @ '' '' @ join '' AND '' ps"] by (simp add: Cons tss)
  qed
qed simp

definition name_tokens :: "string \<Rightarrow> string \<Rightarrow> token list" where
  "name_tokens field name = [(KWord, field), (KOp, ''=''), (KString, name)]"

definition types_tokens :: "string list \<Rightarrow> token list list" where
  "types_tokens tys = (case tys of [] \<Rightarrow> [] | [ty] \<Rightarrow> [name_tokens ''type'' ty]
     | ty # tys \<Rightarrow> [[(KWord, ''type''), (KWord, ''IN''), (KLParen, ''(''), (KString, ty)]
         @ concat (map (\<lambda>w. [(KComma, '',''), (KString, w)]) tys) @ [(KRParen, '')'')]])"

definition clause_tokens :: "FilterSpec \<Rightarrow> token list option \<Rightarrow> token list list" where
  "clause_tokens spec saved =
     (case saved of Some ts \<Rightarrow> [(KLParen, ''('') # ts @ [(KRParen, '')'')]] | None \<Rightarrow> [])
     @ types_tokens (fs_types spec)
     @ (if fs_team spec \<noteq> [] then [name_tokens ''team'' (fs_team spec)] else [])
     @ (if fs_assignee spec = UNASSIGNED then [[(KWord, ''assignee''), (KWord, ''IS''), (KWord, ''EMPTY'')]]
        else if fs_assignee spec \<noteq> [] then [name_tokens ''assignee'' (fs_assignee spec)] else [])
     @ (if fs_category spec \<noteq> AnyCategory then [[(KWord, ''statusCategory''), (KOp, ''=''), (KWord, category_text (fs_category spec))]] else [])
     @ (if 0 < fs_days spec then [[(KWord, field_text (fs_field spec)), (KOp, ''>=''), (KDuration, ''-'' @ int_str (fs_days spec) @ ''d'')]] else [])
     @ (if fs_milestone spec \<noteq> [] then [name_tokens ''milestone'' (fs_milestone spec)] else [])"

lemma lex_name:
  assumes "lex_loop (field @ '' ='') = Inr [(KWord, field), (KOp, ''='')]"
  shows "lex_loop (field @ '' = '' @ quote name) = Inr (name_tokens field name)"
  using lex_then [OF assms, of "quote name"] lex_quote [of name "[]"] by (simp add: name_tokens_def)

lemma lex_fields:
  "lex_loop ''type ='' = Inr [(KWord, ''type''), (KOp, ''='')]" "lex_loop ''team ='' = Inr [(KWord, ''team''), (KOp, ''='')]"
  "lex_loop ''assignee ='' = Inr [(KWord, ''assignee''), (KOp, ''='')]"
  "lex_loop ''milestone ='' = Inr [(KWord, ''milestone''), (KOp, ''='')]"
  "lex_loop ''type IN'' = Inr [(KWord, ''type''), (KWord, ''IN'')]"
  "lex_loop ''assignee IS EMPTY'' = Inr [(KWord, ''assignee''), (KWord, ''IS''), (KWord, ''EMPTY'')]"
  by code_simp+

lemma lex_category: "c \<noteq> AnyCategory \<Longrightarrow> lex_loop (''statusCategory = '' @ category_text c)
    = Inr [(KWord, ''statusCategory''), (KOp, ''=''), (KWord, category_text c)]"
proof (cases c)
  case CategoryTodo
  show ?thesis unfolding CategoryTodo by code_simp
next
  case CategoryInProgress
  show ?thesis unfolding CategoryInProgress by code_simp
next
  case CategoryDone
  show ?thesis unfolding CategoryDone by code_simp
qed simp

lemma lex_since: "0 < n \<Longrightarrow> lex_loop (field_text f @ '' >= -'' @ int_str n @ ''d'')
    = Inr [(KWord, field_text f), (KOp, ''>=''), (KDuration, ''-'' @ int_str n @ ''d'')]"
proof -
  assume n: "0 < n"
  have "lex_loop (field_text f @ '' >='') = Inr [(KWord, field_text f), (KOp, ''>='')]"
    by (cases f; simp only:; code_simp)
  from lex_then [OF this, of "''-'' @ int_str n @ ''d''"] lex_days [OF n] show ?thesis by simp
qed

lemma lex_types: "lexes (case tys of [] \<Rightarrow> [] | [ty] \<Rightarrow> [''type = '' @ quote ty]
    | tys \<Rightarrow> [''type IN ('' @ join '', '' (map quote tys) @ '')'']) (types_tokens tys)"
proof -
  have many: "lex_loop (''type IN ('' @ join '', '' (map quote (v # vs)) @ '')'')
      = Inr ([(KWord, ''type''), (KWord, ''IN''), (KLParen, ''(''), (KString, v)] @ concat (map (\<lambda>w. [(KComma, '',''), (KString, w)]) vs) @ [(KRParen, '')'')])" for v vs
    using lex_then [OF lex_fields(5), of "''('' @ join '', '' (map quote (v # vs)) @ '')''"] lex_values [of v vs "'')''"] lex_parts(3) [of "[]"]
    by (simp add: lex_parts)
  have one: "lex_loop (''type = '' @ quote ty) = Inr (name_tokens ''type'' ty)" for ty
    using lex_name [of "''type''"] lex_fields(1) by simp
  show ?thesis
  proof (cases tys)
    case (Cons v vs)
    then show ?thesis using many [of v vs] one [of v] by (cases vs) (simp_all add: types_tokens_def)
  qed (simp add: types_tokens_def)
qed

lemma lex_clauses:
  assumes "\<And>q. fromSaved spec savedQuery = Some q \<Longrightarrow> lex_loop q = Inr st"
  shows "lexes (clauses spec savedQuery) (clause_tokens spec (map_option (\<lambda>q. st) (fromSaved spec savedQuery)))"
proof -
  have names: "lex_loop (''team = '' @ quote v) = Inr (name_tokens ''team'' v)" "lex_loop (''assignee = '' @ quote v) = Inr (name_tokens ''assignee'' v)"
    "lex_loop (''milestone = '' @ quote v) = Inr (name_tokens ''milestone'' v)" for v
    using lex_name [of "''team''"] lex_name [of "''assignee''"] lex_name [of "''milestone''"] lex_fields by simp_all
  show ?thesis unfolding clauses_def clause_tokens_def
  proof (intro list_all2_appendI)
    show "lexes (case fromSaved spec savedQuery of Some q \<Rightarrow> [''('' @ q @ '')''] | None \<Rightarrow> [])
        (case map_option (\<lambda>q. st) (fromSaved spec savedQuery) of Some ts \<Rightarrow> [(KLParen, ''('') # ts @ [(KRParen, '')'')]] | None \<Rightarrow> [])"
      using assms lex_brackets by (cases "fromSaved spec savedQuery") auto
  qed (use names lex_types lex_fields(6) lex_category lex_since in \<open>simp_all\<close>)
qed

text \<open>C4: Whatever a dashboard's filter names, with quotes, backslashes or words of the query language in
  it, the query it becomes is read by the server's lexer as exactly the clauses that were meant, each
  name one string of that very text, joined by AND. Text of the reader's own and a saved search's query
  stand between brackets with the tokens they have alone, unless the text is all there is.\<close>
theorem query_reads_back:
  assumes "\<And>q. fromSaved spec savedQuery = Some q \<Longrightarrow> lex_loop q = Inr st"
    and "trim (fs_query spec) \<noteq> [] \<Longrightarrow> lex_loop (trim (fs_query spec)) = Inr qt"
  shows "lex (composeQuery spec savedQuery) =
    (let cs = clause_tokens spec (map_option (\<lambda>q. st) (fromSaved spec savedQuery))
     in Inr (and_tokens (cs @ (if trim (fs_query spec) = [] then []
      else [if cs \<noteq> [] then (KLParen, ''('') # qt @ [(KRParen, '')'')] else qt])) @ [(KEOF, [])]))"
proof -
  define cs where "cs = clause_tokens spec (map_option (\<lambda>q. st) (fromSaved spec savedQuery))"
  have c: "lexes (clauses spec savedQuery) cs" unfolding cs_def by (rule lex_clauses) (rule assms(1))
  then have "clauses spec savedQuery = [] \<longleftrightarrow> cs = []" by auto
  then have "lexes (clauses spec savedQuery @ (if trim (fs_query spec) \<noteq> [] then [if clauses spec savedQuery \<noteq> [] then ''('' @ trim (fs_query spec) @ '')'' else trim (fs_query spec)] else []))
      (cs @ (if trim (fs_query spec) = [] then [] else [if cs \<noteq> [] then (KLParen, ''('') # qt @ [(KRParen, '')'')] else qt]))"
    using c assms(2) lex_brackets [of "trim (fs_query spec)" qt] by (intro list_all2_appendI) auto
  from lex_join [OF this] show ?thesis
    unfolding cs_def [symmetric] by (simp add: composeQuery_def Let_def lex_def)
qed

definition sample_filter :: FilterSpec where
  "sample_filter = EMPTY_FILTER\<lparr>fs_types := [''Bug''], fs_team := ''a'' @ [CHR 0x22] @ '' OR type = x'', fs_days := 7\<rparr>"

theorem query_reads_back_witness:
  "lex (composeQuery sample_filter (\<lambda>i. None)) = Inr [(KWord, ''type''), (KOp, ''=''), (KString, ''Bug''), (KWord, ''AND''),
     (KWord, ''team''), (KOp, ''=''), (KString, ''a'' @ [CHR 0x22] @ '' OR type = x''), (KWord, ''AND''),
     (KWord, ''created''), (KOp, ''>=''), (KDuration, ''-7d''), (KEOF, [])]"
proof -
  have "fromSaved sample_filter (\<lambda>i. None) = None" "trim (fs_query sample_filter) = []"
    by (simp_all add: fromSaved_def sample_filter_def EMPTY_FILTER_def trim_def trim_start_def)
  moreover have "int_str 7 = ''7''" by code_simp
  ultimately show ?thesis
    using query_reads_back [of sample_filter "\<lambda>i. None"]
    by (simp add: clause_tokens_def types_tokens_def name_tokens_def sample_filter_def EMPTY_FILTER_def UNASSIGNED_def)
qed

section \<open>The filter in the address\<close>

lemma map_of_entry: "map_of (entry k v @ m) x = (if x = k \<and> v \<noteq> None then v else map_of m x)"
  by (cases v) (simp_all add: entry_def)

lemma map_of_last_entry: "map_of (entry k v) x = (if x = k then v else None)"
  by (cases v) (simp_all add: entry_def)

lemma text_unless_empty: "or_empty (case unless_empty s of Some (JStr t) \<Rightarrow> Some t | _ \<Rightarrow> None) = s"
  by (simp add: unless_empty_def or_empty_def)

lemma split_types:
  assumes "\<forall>w \<in> set ws. w \<noteq> [] \<and> CHR '','' \<notin> set w" "ws \<noteq> []"
  shows "filter (\<lambda>w. w \<noteq> []) (split_on (CHR '','') (join '','' ws)) = ws"
proof -
  have "split_on (CHR '','') (join '','' ws) = ws" using assms by (intro split_join) auto
  then show ?thesis using assms(1) by (simp add: filter_id_conv)
qed

lemma toSearch_lookups:
  "map_of (toSearch spec) ''types'' = (if fs_types spec \<noteq> [] then Some (JStr (join '','' (fs_types spec))) else None)"
  "map_of (toSearch spec) ''team'' = unless_empty (fs_team spec)"
  "map_of (toSearch spec) ''assignee'' = unless_empty (fs_assignee spec)"
  "map_of (toSearch spec) ''category'' = unless_empty (category_text (fs_category spec))"
  "map_of (toSearch spec) ''field'' = (if 0 < fs_days spec \<and> fs_field spec \<noteq> Created then Some (JStr (field_text (fs_field spec))) else None)"
  "map_of (toSearch spec) ''days'' = Some (JNum (of_int (fs_days spec)))"
  "map_of (toSearch spec) ''milestone'' = unless_empty (fs_milestone spec)"
  "map_of (toSearch spec) ''fq'' = unless_empty (trim (fs_query spec))"
  "map_of (toSearch spec) ''sf'' = unless_empty (fs_filterId spec)"
  unfolding toSearch_def map_of_entry map_of_last_entry by simp_all

lemma category_text_Nil: "category_text c = [] \<longleftrightarrow> c = AnyCategory"
  by (cases c) simp_all

lemma toSearch_texts:
  "or_empty (text_at (toSearch spec) ''team'') = fs_team spec" "or_empty (text_at (toSearch spec) ''assignee'') = fs_assignee spec"
  "or_empty (text_at (toSearch spec) ''milestone'') = fs_milestone spec" "or_empty (text_at (toSearch spec) ''fq'') = trim (fs_query spec)"
  "or_empty (text_at (toSearch spec) ''sf'') = fs_filterId spec"
  "text_at (toSearch spec) ''types'' = (if fs_types spec = [] then None else Some (join '','' (fs_types spec)))"
  "text_at (toSearch spec) ''category'' = (if fs_category spec = AnyCategory then None else Some (category_text (fs_category spec)))"
  "text_at (toSearch spec) ''field'' = (if 0 < fs_days spec \<and> fs_field spec \<noteq> Created then Some (field_text (fs_field spec)) else None)"
  "map_of (toSearch spec) ''days'' = Some (JNum (of_int (fs_days spec)))"
  by (simp_all add: text_at_def toSearch_lookups unless_empty_def or_empty_def category_text_Nil)

definition usable_filter :: "FilterSpec \<Rightarrow> bool" where
  "usable_filter spec \<longleftrightarrow> (\<forall>ty \<in> set (fs_types spec). ty \<noteq> [] \<and> CHR '','' \<notin> set ty) \<and> 0 \<le> fs_days spec"

definition carried :: "FilterSpec \<Rightarrow> FilterSpec" where
  "carried spec = spec\<lparr>fs_field := (if 0 < fs_days spec then fs_field spec else Created), fs_query := trim (fs_query spec)\<rparr>"

lemma parse_toSearch:
  assumes "usable_filter spec"
  shows "parseSearch num (toSearch spec) fallback = carried spec"
proof -
  have types: "list_at (toSearch spec) ''types'' = fs_types spec"
    using split_types [of "fs_types spec"] assms by (simp add: list_at_def toSearch_texts usable_filter_def)
  have cat: "(case js_find (\<lambda>c. Some (category_text c) = text_at (toSearch spec) ''category'') CATEGORIES of Some c \<Rightarrow> c | None \<Rightarrow> AnyCategory) = fs_category spec"
    unfolding toSearch_texts CATEGORIES_def by (cases "fs_category spec") simp_all
  have field: "(case js_find (\<lambda>f. Some (field_text f) = text_at (toSearch spec) ''field'') FIELDS of Some f \<Rightarrow> f | None \<Rightarrow> Created)
      = (if 0 < fs_days spec then fs_field spec else Created)"
    unfolding toSearch_texts FIELDS_def by (cases "fs_field spec") simp_all
  show ?thesis
    unfolding parseSearch_def Let_def types cat field carried_def
    unfolding toSearch_texts number_of_def using assms by (cases spec) (simp add: usable_filter_def)
qed

lemma compose_carried: "composeQuery (carried spec) savedQuery = composeQuery spec savedQuery"
proof -
  have "clauses (carried spec) savedQuery = clauses spec savedQuery"
    by (simp add: clauses_def fromSaved_def carried_def)
  then show ?thesis by (simp add: composeQuery_def carried_def trim_trim)
qed

text \<open>A filter that is put in the address and read from it is the same filter, and asks the same
  query: only the date field is forgotten when no time is set, and white space around the reader's own
  text. This needs names of types without a comma, which is what separates them.\<close>
lemma filter_address_roundtrip:
  assumes "\<forall>ty \<in> set (fs_types spec). ty \<noteq> [] \<and> CHR '','' \<notin> set ty" "0 \<le> fs_days spec"
  shows "parseSearch num (toSearch spec) fallback
      = spec\<lparr>fs_field := (if 0 < fs_days spec then fs_field spec else Created), fs_query := trim (fs_query spec)\<rparr>
    \<and> composeQuery (parseSearch num (toSearch spec) fallback) savedQuery = composeQuery spec savedQuery"
  using parse_toSearch [of spec] compose_carried [of spec] assms by (simp add: usable_filter_def carried_def)

lemma filter_address_roundtrip_witness:
  "parseSearch (\<lambda>x. []) (toSearch sample_filter) EMPTY_FILTER = sample_filter"
  using filter_address_roundtrip [of sample_filter "\<lambda>x. []" EMPTY_FILTER]
  by (simp add: sample_filter_def EMPTY_FILTER_def trim_def trim_start_def)

end
