(* ===== verification/KitWords.thy ===== *)
theory KitWords
  imports PlanWords
begin

text \<open>
  The strings every page shares, \<open>web/src/i18n/kit.en.ts\<close> and \<open>kit.de.ts\<close>, as far as the modelled
  functions read them: who holds a ticket nobody holds, and how long ago something was.
\<close>

record kit_words =
  kw_unassigned :: string
  kw_now :: string
  kw_minutes :: "int \<Rightarrow> string"
  kw_hours :: "int \<Rightarrow> string"
  kw_days :: "int \<Rightarrow> string"

definition kitEn :: kit_words where
  "kitEn = \<lparr>kw_unassigned = ''Unassigned'', kw_now = ''just now'', kw_minutes = (\<lambda>n. int_str n @ ''m ago''),
     kw_hours = (\<lambda>n. int_str n @ ''h ago''), kw_days = (\<lambda>n. int_str n @ ''d ago'')\<rparr>"

definition kitDe :: kit_words where
  "kitDe = \<lparr>kw_unassigned = ''Nicht zugewiesen'', kw_now = ''gerade eben'', kw_minutes = (\<lambda>n. ''vor '' @ int_str n @ '' Min.''),
     kw_hours = (\<lambda>n. ''vor '' @ int_str n @ '' Std.''), kw_days = (\<lambda>n. ''vor '' @ int_str n @ '' T.'')\<rparr>"

end
