(* ===== verification/QuickFilter.thy ===== *)
theory QuickFilter
  imports QueryFilter KitWords
begin

text \<open>
  The quick filter of a board, \<open>web/src/features/board/quickFilter.ts\<close>: which of the loaded cards it
  lets through, what it offers to filter by, and how it travels in the address. A filter that travels
  in the address keeps a contract, stated here as a locale and shown of this filter and of the
  dashboard's.
\<close>

section \<open>Cards and filters\<close>

record Card =
  card_labels :: "LabelRef list"
  card_id :: string
  card_key :: string
  card_summary :: string
  card_type :: TypeRef
  card_parent :: "ParentRef option"
  card_status :: Status
  card_priority :: Priority
  card_assignee :: "UserRef option"
  card_parentKey :: "string option"
  card_rank :: string
  card_group :: "string option"
  card_updatedAt :: string

record QuickFilter =
  qf_mine :: "bool option"
  qf_assignees :: "string list"
  qf_labels :: "string list"
  qf_types :: "string list"
  qf_epics :: "string list"
  qf_q :: "string option"

definition quick_UNASSIGNED :: string where "quick_UNASSIGNED = ''-''"

definition EMPTY_QUICK_FILTER :: QuickFilter where
  "EMPTY_QUICK_FILTER = \<lparr>qf_mine = None, qf_assignees = [], qf_labels = [], qf_types = [], qf_epics = [], qf_q = None\<rparr>"

definition isFiltered :: "QuickFilter \<Rightarrow> bool" where
  "isFiltered f \<longleftrightarrow> qf_mine f = Some True
     \<or> 0 < length (qf_assignees f) + length (qf_labels f) + length (qf_types f) + length (qf_epics f)
     \<or> truthy (map_option trim (qf_q f))"

text \<open>The value a card is filtered under, and the test of one card.\<close>

definition card_holder :: "Card \<Rightarrow> string" where
  "card_holder c = (case card_assignee c of Some u \<Rightarrow> user_id u | None \<Rightarrow> quick_UNASSIGNED)"

definition lets_through :: "QuickFilter \<Rightarrow> string \<Rightarrow> string \<Rightarrow> Card \<Rightarrow> bool" where
  "lets_through f needle meId c =
     (if qf_mine f = Some True \<and> (meId = [] \<or> card_holder c \<noteq> meId) then False
      else if qf_assignees f \<noteq> [] \<and> card_holder c \<notin> set (qf_assignees f) then False
      else if qf_labels f \<noteq> [] \<and> \<not> list_ex (\<lambda>l. label_id l \<in> set (qf_labels f)) (card_labels c) then False
      else if qf_types f \<noteq> [] \<and> type_name (card_type c) \<notin> set (qf_types f) then False
      else if qf_epics f \<noteq> [] \<and> \<not> (case card_parent c of Some p \<Rightarrow> parent_key p \<in> set (qf_epics f) | None \<Rightarrow> False) then False
      else if needle \<noteq> [] \<and> \<not> includes_str (toLowerCase (card_key c)) needle \<and> \<not> includes_str (toLowerCase (card_summary c)) needle then False
      else True)"

definition filterCards :: "Card list \<Rightarrow> QuickFilter \<Rightarrow> string \<Rightarrow> Card list" where
  "filterCards cards f meId =
     (if \<not> isFiltered f then cards
      else let needle = (case qf_q f of Some q \<Rightarrow> toLowerCase (trim q) | None \<Rightarrow> [])
           in filter (lets_through f needle meId) cards)"

section \<open>What is offered\<close>

record QuickFilterOptions =
  qo_assignees :: "UserRef list"
  qo_labels :: "LabelRef list"
  qo_types :: "TypeRef list"
  qo_epics :: "ParentRef list"

record gathered =
  ga_assignees :: "(string \<times> UserRef) list"
  ga_labels :: "(string \<times> LabelRef) list"
  ga_types :: "(string \<times> TypeRef) list"
  ga_epics :: "(string \<times> ParentRef) list"
  ga_unassigned :: bool

definition gather_card :: "gathered \<Rightarrow> Card \<Rightarrow> gathered" where
  "gather_card g c =
     \<lparr>ga_assignees = (case card_assignee c of Some u \<Rightarrow> AList.update (user_id u) u (ga_assignees g) | None \<Rightarrow> ga_assignees g),
      ga_labels = put_all (ga_labels g) (map (\<lambda>l. (label_id l, l)) (card_labels c)),
      ga_types = AList.update (type_name (card_type c)) (card_type c) (ga_types g),
      ga_epics = (case card_parent c of Some p \<Rightarrow> AList.update (parent_key p) p (ga_epics g) | None \<Rightarrow> ga_epics g),
      ga_unassigned = (case card_assignee c of Some u \<Rightarrow> ga_unassigned g | None \<Rightarrow> True)\<rparr>"

definition gather :: "Card list \<Rightarrow> gathered" where
  "gather cards = foldl gather_card \<lparr>ga_assignees = [], ga_labels = [], ga_types = [], ga_epics = [], ga_unassigned = False\<rparr> cards"

definition optionsFrom :: "(string \<Rightarrow> string \<Rightarrow> real) \<Rightarrow> kit_words \<Rightarrow> Card list \<Rightarrow> QuickFilterOptions" where
  "optionsFrom lc t cards =
     (let g = gather cards
      in \<lparr>qo_assignees = js_sort (\<lambda>a b. lc (user_name a) (user_name b)) (map snd (ga_assignees g))
            @ (if ga_unassigned g then [\<lparr>user_id = quick_UNASSIGNED, user_name = kw_unassigned t, user_email = None, user_avatarUrl = None\<rparr>] else []),
          qo_labels = js_sort (\<lambda>a b. lc (label_name a) (label_name b)) (map snd (ga_labels g)),
          qo_types = js_sort (\<lambda>a b. lc (type_name a) (type_name b)) (map snd (ga_types g)),
          qo_epics = js_sort (\<lambda>a b. lc (parent_summary a) (parent_summary b)) (map snd (ga_epics g))\<rparr>)"

section \<open>The address\<close>

definition quick_parseSearch :: "(real \<Rightarrow> string) \<Rightarrow> address \<Rightarrow> QuickFilter" where
  "quick_parseSearch num search =
     (let q = (case map_of search ''q'' of Some (JStr s) \<Rightarrow> s | Some (JNum x) \<Rightarrow> num x | _ \<Rightarrow> [])
      in \<lparr>qf_mine = (if map_of search ''mine'' \<in> {Some (JBool True), Some (JStr ''true'')} then Some True else None),
          qf_assignees = list_at search ''assignee'', qf_labels = list_at search ''label'',
          qf_types = list_at search ''type'', qf_epics = list_at search ''epic'',
          qf_q = (if trim q \<noteq> [] then Some q else None)\<rparr>)"

definition joined :: "string list \<Rightarrow> json option" where
  "joined values = (if values \<noteq> [] then Some (JStr (join '','' values)) else None)"

definition quick_toSearch :: "QuickFilter \<Rightarrow> address" where
  "quick_toSearch f =
     entry ''mine'' (if qf_mine f = Some True then Some (JBool True) else None)
     @ entry ''assignee'' (joined (qf_assignees f)) @ entry ''label'' (joined (qf_labels f))
     @ entry ''type'' (joined (qf_types f)) @ entry ''epic'' (joined (qf_epics f))
     @ entry ''q'' (case qf_q f of Some q \<Rightarrow> if trim q \<noteq> [] then Some (JStr q) else None | None \<Rightarrow> None)"

section \<open>A filter that travels\<close>

text \<open>
  What a page relies on when it keeps its filter in the address: what comes out shows what went in.
\<close>

locale travelling =
  fixes to_address :: "'f \<Rightarrow> address" and of_address :: "address \<Rightarrow> 'f"
    and usable :: "'f \<Rightarrow> bool" and kept :: "'f \<Rightarrow> 'f" and shows_of :: "'f \<Rightarrow> 'v"
  assumes comes_out: "usable f \<Longrightarrow> of_address (to_address f) = kept f"
    and usable_kept: "usable f \<Longrightarrow> usable (kept f)"
    and kept_shows: "shows_of (kept f) = shows_of f"
    and kept_address: "to_address (kept f) = to_address f"
begin

lemma shared_link: "usable f \<Longrightarrow> shows_of (of_address (to_address f)) = shows_of f"
  by (simp add: comes_out kept_shows)

lemma address_settles: "usable f \<Longrightarrow> to_address (of_address (to_address f)) = to_address f"
  by (simp add: comes_out kept_address)

lemma same_address: "usable f \<Longrightarrow> usable g \<Longrightarrow> to_address f = to_address g \<Longrightarrow> shows_of f = shows_of g"
  using shared_link [of f] shared_link [of g] by simp

end

interpretation dash: travelling toSearch "\<lambda>a. parseSearch num a fallback" usable_filter carried "\<lambda>spec. composeQuery spec savedQuery"
proof
  fix f :: FilterSpec
  show "usable_filter f \<Longrightarrow> usable_filter (carried f)" by (simp add: usable_filter_def carried_def)
  show "toSearch (carried f) = toSearch f" by (simp add: toSearch_def carried_def trim_trim)
qed (simp_all add: parse_toSearch compose_carried)

definition plain_values :: "string list \<Rightarrow> bool" where
  "plain_values ws \<longleftrightarrow> (\<forall>w \<in> set ws. w \<noteq> [] \<and> CHR '','' \<notin> set w)"

definition usable_quick :: "QuickFilter \<Rightarrow> bool" where
  "usable_quick f \<longleftrightarrow> plain_values (qf_assignees f) \<and> plain_values (qf_labels f) \<and> plain_values (qf_types f) \<and> plain_values (qf_epics f)"

definition quick_kept :: "QuickFilter \<Rightarrow> QuickFilter" where
  "quick_kept f = f\<lparr>qf_mine := (if qf_mine f = Some True then Some True else None),
     qf_q := (case qf_q f of Some q \<Rightarrow> if trim q \<noteq> [] then Some q else None | None \<Rightarrow> None)\<rparr>"

lemma quick_kept_parts:
  "(qf_mine (quick_kept f) = Some True) = (qf_mine f = Some True)" "qf_assignees (quick_kept f) = qf_assignees f"
  "qf_labels (quick_kept f) = qf_labels f" "qf_types (quick_kept f) = qf_types f" "qf_epics (quick_kept f) = qf_epics f"
  by (simp_all add: quick_kept_def)

lemma quick_lookups:
  "map_of (quick_toSearch f) ''mine'' = (if qf_mine f = Some True then Some (JBool True) else None)"
  "map_of (quick_toSearch f) ''assignee'' = joined (qf_assignees f)" "map_of (quick_toSearch f) ''label'' = joined (qf_labels f)"
  "map_of (quick_toSearch f) ''type'' = joined (qf_types f)" "map_of (quick_toSearch f) ''epic'' = joined (qf_epics f)"
  "map_of (quick_toSearch f) ''q'' = (case qf_q f of Some q \<Rightarrow> if trim q \<noteq> [] then Some (JStr q) else None | None \<Rightarrow> None)"
  unfolding quick_toSearch_def map_of_entry map_of_last_entry by simp_all

lemma list_at_joined: "map_of search key = joined ws \<Longrightarrow> plain_values ws \<Longrightarrow> list_at search key = ws"
  using split_types [of ws] by (cases "ws = []") (simp_all add: list_at_def text_at_def joined_def plain_values_def)

lemma quick_parse_to: "usable_quick f \<Longrightarrow> quick_parseSearch num (quick_toSearch f) = quick_kept f"
proof -
  assume u: "usable_quick f"
  have lists: "list_at (quick_toSearch f) ''assignee'' = qf_assignees f" "list_at (quick_toSearch f) ''label'' = qf_labels f"
    "list_at (quick_toSearch f) ''type'' = qf_types f" "list_at (quick_toSearch f) ''epic'' = qf_epics f"
    using u list_at_joined [OF quick_lookups(2)] list_at_joined [OF quick_lookups(3)] list_at_joined [OF quick_lookups(4)]
      list_at_joined [OF quick_lookups(5)] by (simp_all add: usable_quick_def)
  have empty: "trim [] = []" by (simp add: trim_def trim_start_def)
  show ?thesis unfolding quick_parseSearch_def Let_def lists quick_lookups(1,6) quick_kept_def
    by (cases f; cases "qf_q f") (auto simp: empty)
qed

lemma quick_kept_cards: "filterCards cards (quick_kept f) meId = filterCards cards f meId"
proof -
  have flt: "isFiltered (quick_kept f) = isFiltered f"
    by (auto simp: isFiltered_def quick_kept_def split: option.splits)
  have needle: "(case qf_q (quick_kept f) of Some q \<Rightarrow> toLowerCase (trim q) | None \<Rightarrow> [])
      = (case qf_q f of Some q \<Rightarrow> toLowerCase (trim q) | None \<Rightarrow> [])"
    by (simp add: quick_kept_def toLowerCase_def split: option.split)
  have "lets_through (quick_kept f) n meId = lets_through f n meId" for n
    by (rule ext) (simp only: lets_through_def quick_kept_parts)
  then show ?thesis unfolding filterCards_def flt needle by simp
qed

interpretation board: travelling quick_toSearch "quick_parseSearch num" usable_quick quick_kept "\<lambda>f. filterCards cards f meId"
proof
  fix f :: QuickFilter
  show "usable_quick f \<Longrightarrow> usable_quick (quick_kept f)" by (simp add: usable_quick_def quick_kept_def)
  show "quick_toSearch (quick_kept f) = quick_toSearch f" by (simp add: quick_toSearch_def quick_kept_def split: option.split)
qed (simp_all add: quick_parse_to quick_kept_cards)

text \<open>C29: A board's quick filter none of whose values is empty or holds a comma, which is what separates
  them in the address, lets the same cards through when it is read from the address it was put in, for
  whoever opens the link, and putting it there again gives the same address; two such filters with one
  address show the same cards.\<close>
theorem shared_board_link:
  assumes "usable_quick f" "usable_quick g"
  shows "filterCards cards (quick_parseSearch num (quick_toSearch f)) meId = filterCards cards f meId
    \<and> quick_toSearch (quick_parseSearch num (quick_toSearch f)) = quick_toSearch f
    \<and> (quick_toSearch f = quick_toSearch g \<longrightarrow> filterCards cards f meId = filterCards cards g meId)"
  using board.shared_link [OF assms(1)] board.address_settles [OF assms(1)] board.same_address [OF assms] by simp

definition sample_quick :: QuickFilter where
  "sample_quick = EMPTY_QUICK_FILTER\<lparr>qf_mine := Some True, qf_types := [''Bug'', ''Task''], qf_q := Some '' login ''\<rparr>"

theorem shared_board_link_witness:
  "filterCards [] (quick_parseSearch (\<lambda>x. []) (quick_toSearch sample_quick)) ''me'' = filterCards [] sample_quick ''me''
   \<and> quick_toSearch (quick_parseSearch (\<lambda>x. []) (quick_toSearch sample_quick)) = quick_toSearch sample_quick"
proof -
  have "usable_quick sample_quick" by code_simp
  from shared_board_link [OF this this, of "[]" "\<lambda>x. []" "''me''"] show ?thesis by simp
qed

text \<open>
  A type's name may hold a comma. Chosen in the filter, such a type comes back from the address as two,
  and the cards of its type are the ones that are hidden.
\<close>

definition comma_quick :: QuickFilter where
  "comma_quick = EMPTY_QUICK_FILTER\<lparr>qf_types := [''Bug, critical'']\<rparr>"

lemma comma_type_splits:
  "filterCards cards comma_quick meId = filter (\<lambda>c. type_name (card_type c) = ''Bug, critical'') cards
   \<and> filterCards cards (quick_parseSearch num (quick_toSearch comma_quick)) meId
     = filter (\<lambda>c. type_name (card_type c) \<in> {''Bug'', '' critical''}) cards"
proof -
  have types: "filterCards cards (EMPTY_QUICK_FILTER\<lparr>qf_types := ws\<rparr>) meId = filter (\<lambda>c. type_name (card_type c) \<in> set ws) cards"
    if "ws \<noteq> []" for ws
  proof -
    have "lets_through (EMPTY_QUICK_FILTER\<lparr>qf_types := ws\<rparr>) [] meId c \<longleftrightarrow> type_name (card_type c) \<in> set ws" for c
      using that unfolding lets_through_def EMPTY_QUICK_FILTER_def by simp
    then show ?thesis using that by (simp add: filterCards_def isFiltered_def EMPTY_QUICK_FILTER_def cong: filter_cong)
  qed
  have "list_at (quick_toSearch comma_quick) ''type'' = [''Bug'', '' critical'']"
    "list_at (quick_toSearch comma_quick) ''assignee'' = []" "list_at (quick_toSearch comma_quick) ''label'' = []"
    "list_at (quick_toSearch comma_quick) ''epic'' = []"
    "map_of (quick_toSearch comma_quick) ''q'' = None" "map_of (quick_toSearch comma_quick) ''mine'' = None"
    by code_simp+
  then have "quick_parseSearch num (quick_toSearch comma_quick) = EMPTY_QUICK_FILTER\<lparr>qf_types := [''Bug'', '' critical'']\<rparr>"
    unfolding quick_parseSearch_def Let_def by (simp add: EMPTY_QUICK_FILTER_def trim_def trim_start_def)
  then show ?thesis using types [of "[''Bug, critical'']"] types [of "[''Bug'', '' critical'']"] by (simp add: comma_quick_def)
qed

section \<open>What is offered can be found\<close>

lemma gather_snoc: "gather (cards @ [c]) = gather_card (gather cards) c"
  by (simp add: gather_def)

definition keyed_by :: "('a \<Rightarrow> string) \<Rightarrow> (string \<times> 'a) list \<Rightarrow> 'a set \<Rightarrow> bool" where
  "keyed_by f m vs \<longleftrightarrow> distinct (map fst m) \<and> (\<forall>(k, v) \<in> set m. f v = k \<and> v \<in> vs) \<and> f ` vs \<subseteq> fst ` set m"

lemma keyed_empty: "keyed_by f [] {}"
  by (simp add: keyed_by_def)

lemma set_update_subset: "set (AList.update k v m) \<subseteq> insert (k, v) (set m)"
  by (induction m) auto

lemma keyed_update: "keyed_by f m vs \<Longrightarrow> keyed_by f (AList.update (f v) v m) (insert v vs)"
  using set_update_subset [of "f v" v m] dom_AList_update [of "f v" v m]
  by (auto simp: keyed_by_def distinct_update)

lemma keyed_put_all: "keyed_by f m vs \<Longrightarrow> keyed_by f (put_all m (map (\<lambda>v. (f v, v)) xs)) (vs \<union> set xs)"
proof (induction xs arbitrary: m vs)
  case (Cons x xs)
  from Cons.IH [OF keyed_update [OF Cons.prems, of x]] show ?case by simp
qed simp

lemma keyed_values:
  assumes "keyed_by f m vs"
  shows "f ` set (map snd m) = f ` vs" "set (map snd m) \<subseteq> vs" "distinct (map f (map snd m))"
proof -
  have k: "f (snd kv) = fst kv" if "kv \<in> set m" for kv using assms that by (auto simp: keyed_by_def)
  then have "f ` set (map snd m) = fst ` set m" by force
  moreover have "fst ` set m \<subseteq> f ` vs" using assms by (force simp: keyed_by_def)
  ultimately show "f ` set (map snd m) = f ` vs" using assms by (auto simp: keyed_by_def)
  show "set (map snd m) \<subseteq> vs" using assms by (auto simp: keyed_by_def)
  have "map f (map snd m) = map fst m" using k by (simp add: comp_def)
  then show "distinct (map f (map snd m))" using assms by (simp only: keyed_by_def)
qed

definition holders :: "Card list \<Rightarrow> UserRef set" where
  "holders cards = {u. \<exists>c \<in> set cards. card_assignee c = Some u}"

definition epics_of :: "Card list \<Rightarrow> ParentRef set" where
  "epics_of cards = {p. \<exists>c \<in> set cards. card_parent c = Some p}"

lemma gather_all:
  "keyed_by user_id (ga_assignees (gather cards)) (holders cards)
   \<and> keyed_by label_id (ga_labels (gather cards)) (\<Union>c \<in> set cards. set (card_labels c))
   \<and> keyed_by type_name (ga_types (gather cards)) (card_type ` set cards)
   \<and> keyed_by parent_key (ga_epics (gather cards)) (epics_of cards)
   \<and> ga_unassigned (gather cards) = (\<exists>c \<in> set cards. card_assignee c = None)"
proof (induction cards rule: rev_induct)
  case Nil
  show ?case by (simp add: gather_def holders_def epics_of_def keyed_empty)
next
  case (snoc c cards)
  have "holders (cards @ [c]) = (case card_assignee c of Some u \<Rightarrow> insert u (holders cards) | None \<Rightarrow> holders cards)"
    "epics_of (cards @ [c]) = (case card_parent c of Some p \<Rightarrow> insert p (epics_of cards) | None \<Rightarrow> epics_of cards)"
    by (auto simp: holders_def epics_of_def split: option.splits)
  moreover have "(\<Union>c \<in> set (cards @ [c]). set (card_labels c)) = (\<Union>c \<in> set cards. set (card_labels c)) \<union> set (card_labels c)"
    "card_type ` set (cards @ [c]) = insert (card_type c) (card_type ` set cards)" by auto
  ultimately show ?case
    unfolding gather_snoc gather_card_def gathered.simps
  proof (intro conjI)
    show "keyed_by label_id (put_all (ga_labels (gather cards)) (map (\<lambda>l. (label_id l, l)) (card_labels c))) (\<Union>c \<in> set (cards @ [c]). set (card_labels c))"
      using keyed_put_all [of label_id "ga_labels (gather cards)" "\<Union>c \<in> set cards. set (card_labels c)" "card_labels c"] snoc
      by (simp add: Un_commute)
    show "(case card_assignee c of None \<Rightarrow> True | Some u \<Rightarrow> ga_unassigned (gather cards)) = (\<exists>c \<in> set (cards @ [c]). card_assignee c = None)"
      using snoc by (simp split: option.split)
  qed (use snoc in \<open>auto simp: keyed_update split: option.split\<close>)
qed

lemma gathered_keyed:
  "keyed_by user_id (ga_assignees (gather cards)) (holders cards)"
  "keyed_by label_id (ga_labels (gather cards)) (\<Union>c \<in> set cards. set (card_labels c))"
  "keyed_by type_name (ga_types (gather cards)) (card_type ` set cards)"
  "keyed_by parent_key (ga_epics (gather cards)) (epics_of cards)"
  "ga_unassigned (gather cards) = (\<exists>c \<in> set cards. card_assignee c = None)"
  using gather_all [of cards] by blast+

lemmas gathered_values = gathered_keyed(1-4) [THEN keyed_values(1)]

lemmas gathered_once = gathered_keyed(1-4) [THEN keyed_values(3)]

text \<open>The filters one chip makes.\<close>

definition by_assignees :: "string list \<Rightarrow> QuickFilter" where "by_assignees ws = EMPTY_QUICK_FILTER\<lparr>qf_assignees := ws\<rparr>"

definition by_labels :: "string list \<Rightarrow> QuickFilter" where "by_labels ws = EMPTY_QUICK_FILTER\<lparr>qf_labels := ws\<rparr>"

definition by_types :: "string list \<Rightarrow> QuickFilter" where "by_types ws = EMPTY_QUICK_FILTER\<lparr>qf_types := ws\<rparr>"

definition by_epics :: "string list \<Rightarrow> QuickFilter" where "by_epics ws = EMPTY_QUICK_FILTER\<lparr>qf_epics := ws\<rparr>"

lemma one_chip:
  "set (filterCards cards (by_assignees ws) meId) = {c \<in> set cards. ws = [] \<or> card_holder c \<in> set ws}"
  "set (filterCards cards (by_labels ws) meId) = {c \<in> set cards. ws = [] \<or> (\<exists>l \<in> set (card_labels c). label_id l \<in> set ws)}"
  "set (filterCards cards (by_types ws) meId) = {c \<in> set cards. ws = [] \<or> type_name (card_type c) \<in> set ws}"
  "set (filterCards cards (by_epics ws) meId) = {c \<in> set cards. ws = [] \<or> (\<exists>p. card_parent c = Some p \<and> parent_key p \<in> set ws)}"
  by (auto simp: filterCards_def isFiltered_def lets_through_def by_assignees_def by_labels_def by_types_def by_epics_def
      EMPTY_QUICK_FILTER_def list_ex_iff split: option.splits)

lemma offered_assignees: "user_id ` set (qo_assignees (optionsFrom lc t cards)) = card_holder ` set cards"
proof -
  have "user_id ` set (qo_assignees (optionsFrom lc t cards))
      = user_id ` set (map snd (ga_assignees (gather cards))) \<union> (if ga_unassigned (gather cards) then {quick_UNASSIGNED} else {})"
    by (simp add: optionsFrom_def Let_def image_Un)
  also have "\<dots> = card_holder ` set cards" unfolding gathered_values gathered_keyed(5)
    by (force simp: holders_def card_holder_def image_iff split: option.splits if_splits)
  finally show ?thesis .
qed

lemma offered_others:
  "label_id ` set (qo_labels (optionsFrom lc t cards)) = label_id ` (\<Union>c \<in> set cards. set (card_labels c))"
  "type_name ` set (qo_types (optionsFrom lc t cards)) = type_name ` card_type ` set cards"
  "parent_key ` set (qo_epics (optionsFrom lc t cards)) = parent_key ` epics_of cards"
  using gathered_values [of cards] by (simp_all add: optionsFrom_def Let_def)

lemma distinct_map_js_sort: "distinct (map f (js_sort c xs)) = distinct (map f xs)"
proof -
  have "mset (map f (js_sort c xs)) = mset (map f xs)" by simp
  then show ?thesis by (rule mset_eq_imp_distinct_iff)
qed

lemma offered_once:
  "distinct (map label_id (qo_labels (optionsFrom lc t cards)))"
  "distinct (map type_name (qo_types (optionsFrom lc t cards)))"
  "distinct (map parent_key (qo_epics (optionsFrom lc t cards)))"
  using gathered_once [of cards] by (simp_all add: optionsFrom_def Let_def distinct_map_js_sort)

text \<open>C28: What a board offers to filter by is what is on it. Each person, nobody included, each label,
  type and epic it offers lets at least one card through when it is picked alone; picking everything a
  chip offers lets through every card that has such a thing, so every card can be found by its holder
  and by its type; and no label, type or epic is offered twice.\<close>
theorem options_match:
  "(\<forall>u \<in> set (qo_assignees (optionsFrom lc t cards)). filterCards cards (by_assignees [user_id u]) meId \<noteq> [])
   \<and> (\<forall>l \<in> set (qo_labels (optionsFrom lc t cards)). filterCards cards (by_labels [label_id l]) meId \<noteq> [])
   \<and> (\<forall>y \<in> set (qo_types (optionsFrom lc t cards)). filterCards cards (by_types [type_name y]) meId \<noteq> [])
   \<and> (\<forall>p \<in> set (qo_epics (optionsFrom lc t cards)). filterCards cards (by_epics [parent_key p]) meId \<noteq> [])
   \<and> set (filterCards cards (by_assignees (map user_id (qo_assignees (optionsFrom lc t cards)))) meId) = set cards
   \<and> set (filterCards cards (by_types (map type_name (qo_types (optionsFrom lc t cards)))) meId) = set cards
   \<and> {c \<in> set cards. card_labels c \<noteq> []} \<subseteq> set (filterCards cards (by_labels (map label_id (qo_labels (optionsFrom lc t cards)))) meId)
   \<and> {c \<in> set cards. card_parent c \<noteq> None} \<subseteq> set (filterCards cards (by_epics (map parent_key (qo_epics (optionsFrom lc t cards)))) meId)
   \<and> distinct (map label_id (qo_labels (optionsFrom lc t cards)))
   \<and> distinct (map type_name (qo_types (optionsFrom lc t cards)))
   \<and> distinct (map parent_key (qo_epics (optionsFrom lc t cards)))"
proof (intro conjI ballI offered_once)
  fix u assume "u \<in> set (qo_assignees (optionsFrom lc t cards))"
  then have "user_id u \<in> card_holder ` set cards" unfolding offered_assignees [of lc t cards, symmetric] by (rule imageI)
  then show "filterCards cards (by_assignees [user_id u]) meId \<noteq> []" using one_chip(1) [of cards "[user_id u]" meId] by force
next
  fix l assume "l \<in> set (qo_labels (optionsFrom lc t cards))"
  then have "label_id l \<in> label_id ` (\<Union>c \<in> set cards. set (card_labels c))" unfolding offered_others(1) [of lc t cards, symmetric] by (rule imageI)
  then show "filterCards cards (by_labels [label_id l]) meId \<noteq> []" using one_chip(2) [of cards "[label_id l]" meId] by force
next
  fix y assume "y \<in> set (qo_types (optionsFrom lc t cards))"
  then have "type_name y \<in> type_name ` card_type ` set cards" unfolding offered_others(2) [of lc t cards, symmetric] by (rule imageI)
  then show "filterCards cards (by_types [type_name y]) meId \<noteq> []" using one_chip(3) [of cards "[type_name y]" meId] by force
next
  fix p assume "p \<in> set (qo_epics (optionsFrom lc t cards))"
  then have "parent_key p \<in> parent_key ` epics_of cards" unfolding offered_others(3) [of lc t cards, symmetric] by (rule imageI)
  then show "filterCards cards (by_epics [parent_key p]) meId \<noteq> []" using one_chip(4) [of cards "[parent_key p]" meId] by (force simp: epics_of_def)
next
  show "{c \<in> set cards. card_labels c \<noteq> []} \<subseteq> set (filterCards cards (by_labels (map label_id (qo_labels (optionsFrom lc t cards)))) meId)"
    unfolding one_chip set_map offered_others by (force simp: neq_Nil_conv)
  show "{c \<in> set cards. card_parent c \<noteq> None} \<subseteq> set (filterCards cards (by_epics (map parent_key (qo_epics (optionsFrom lc t cards)))) meId)"
    unfolding one_chip set_map offered_others epics_of_def by force
qed (auto simp: one_chip offered_assignees offered_others)

definition sample_card :: "string \<Rightarrow> UserRef option \<Rightarrow> Card" where
  "sample_card key holder = \<lparr>card_labels = [], card_id = key, card_key = key, card_summary = key, card_type = sample_type ''Task'' 0,
     card_parent = None, card_status = sample_status Todo, card_priority = Medium, card_assignee = holder, card_parentKey = None,
     card_rank = ''a'', card_group = None, card_updatedAt = []\<rparr>"

theorem options_match_witness:
  "\<exists>u. user_name u = ''Unassigned'' \<and> u \<in> set (qo_assignees (optionsFrom code_unit_compare kitEn [sample_card ''A-1'' None]))
     \<and> filterCards [sample_card ''A-1'' None] (by_assignees [user_id u]) [] \<noteq> []"
proof -
  define u where "u = \<lparr>user_id = quick_UNASSIGNED, user_name = ''Unassigned'', user_email = None, user_avatarUrl = None\<rparr>"
  have "u \<in> set (qo_assignees (optionsFrom code_unit_compare kitEn [sample_card ''A-1'' None]))"
    by (simp add: u_def optionsFrom_def Let_def gather_def gather_card_def sample_card_def kitEn_def)
  with options_match [of code_unit_compare kitEn "[sample_card ''A-1'' None]" "[]"]
  have "filterCards [sample_card ''A-1'' None] (by_assignees [user_id u]) [] \<noteq> []" by blast
  with \<open>u \<in> _\<close> show ?thesis by (intro exI [of _ u]) (simp add: u_def)
qed

end
