(* ===== verification/Duration.thy ===== *)
theory Duration
  imports JsNumber
begin

text \<open>
  Time as it is typed on a ticket, \<open>web/src/features/time/duration.ts\<close>: reading it into minutes,
  writing minutes, and how far along a ticket's time is. Minutes the server keeps are whole. The
  pattern for a part of the text matches in one way only: no digit, dot or space it could give up
  is a unit, so what it matches first is all it can match.
\<close>

definition TICKET_MINUTES_PER_HOUR :: int where "TICKET_MINUTES_PER_HOUR = 60"

definition TICKET_HOURS_PER_DAY :: int where "TICKET_HOURS_PER_DAY = 8"

definition TICKET_MINUTES_PER_DAY :: int where "TICKET_MINUTES_PER_DAY = TICKET_MINUTES_PER_HOUR * TICKET_HOURS_PER_DAY"

text \<open>Digits, then a dot with digits behind it, if there is one: the text matched and the rest.\<close>

definition match_amount :: "string \<Rightarrow> (string \<times> string) option" where
  "match_amount s =
     (let ip = takeWhile is_digit s; r = dropWhile is_digit s;
          fp = (if r \<noteq> [] \<and> hd r = CHR ''.'' then takeWhile is_digit (tl r) else [])
      in if ip = [] then None
         else if fp = [] then Some (ip, r)
         else Some (ip @ CHR ''.'' # fp, drop (1 + length fp) r))"

text \<open>One match of the pattern at the start of a text: the amount, the unit, all of it, and the rest.\<close>

definition match_part :: "string \<Rightarrow> (string \<times> char \<times> string \<times> string) option" where
  "match_part s =
     (case match_amount s of
        None \<Rightarrow> None
      | Some (amount, r) \<Rightarrow>
          (case dropWhile is_space r of
             [] \<Rightarrow> None
           | u # rest \<Rightarrow> if u \<in> set ''dhm'' then Some (amount, u, amount @ takeWhile is_space r @ [u], rest) else None))"

lemma match_amount_shorter: "match_amount s = Some (a, r) \<Longrightarrow> length r \<le> length s"
  using length_dropWhile_le [of is_digit s] by (auto simp: match_amount_def Let_def split: if_splits)

lemma match_part_shorter: "match_part s = Some (a, u, m, r) \<Longrightarrow> length r < length s"
proof -
  assume "match_part s = Some (a, u, m, r)"
  then obtain q where "match_amount s = Some (a, q)" "dropWhile is_space q = u # r"
    by (auto simp: match_part_def split: option.splits list.splits if_splits)
  with match_amount_shorter [of s a q] length_dropWhile_le [of is_space q] show ?thesis by simp
qed

text \<open>All matches, from left to right.\<close>

function scan_parts :: "string \<Rightarrow> (string \<times> char \<times> string) list" where
  "scan_parts s =
     (case s of [] \<Rightarrow> []
      | c # r \<Rightarrow> (case match_part s of
            Some (a, u, m, rest) \<Rightarrow> (a, u, m) # scan_parts rest
          | None \<Rightarrow> scan_parts r))"
  by pat_completeness auto

termination scan_parts
  by (relation "measure length") (auto dest: match_part_shorter)

declare scan_parts.simps [simp del]

definition unit_minutes :: "char \<Rightarrow> int" where
  "unit_minutes u = (if u = CHR ''d'' then TICKET_MINUTES_PER_DAY else if u = CHR ''h'' then TICKET_MINUTES_PER_HOUR else 1)"

text \<open>\<open>Math.round\<close> of a number that was read; not a number stays that.\<close>

definition add_part :: "js_number \<Rightarrow> string \<times> char \<times> string \<Rightarrow> js_number" where
  "add_part acc = (\<lambda>(a, u, m). case (acc, read_number a) of
      (Fin x, Fin y) \<Rightarrow> Fin (x + y * of_int (unit_minutes u)) | _ \<Rightarrow> NaN)"

definition round_number :: "js_number \<Rightarrow> int option" where
  "round_number v = (case v of Fin x \<Rightarrow> Some (js_round x) | _ \<Rightarrow> None)"

definition strip_space :: "string \<Rightarrow> string" where
  "strip_space s = filter (\<lambda>c. \<not> is_space c) s"

definition parseDuration :: "string \<Rightarrow> int option" where
  "parseDuration input =
     (let trimmed = toLowerCase (trim input); parts = scan_parts trimmed;
          consumed = concat (map (\<lambda>(a, u, m). m) parts)
      in if trimmed = [] then Some 0
         else if (case match_amount trimmed of Some (a, r) \<Rightarrow> r = [] | None \<Rightarrow> False)
         then (case read_number trimmed of Fin x \<Rightarrow> Some (js_round (x * of_int TICKET_MINUTES_PER_HOUR)) | _ \<Rightarrow> None)
         else if consumed = [] \<or> strip_space trimmed \<noteq> strip_space consumed then None
         else round_number (foldl add_part (Fin 0) parts))"

definition formatDuration :: "int option \<Rightarrow> string" where
  "formatDuration minutes =
     (case minutes of
        None \<Rightarrow> []
      | Some n \<Rightarrow>
          if n \<le> 0 then ''0m''
          else let days = n div TICKET_MINUTES_PER_DAY; hours = (n mod TICKET_MINUTES_PER_DAY) div TICKET_MINUTES_PER_HOUR; rest = n mod TICKET_MINUTES_PER_HOUR
               in join '' '' ((if days \<noteq> 0 then [int_str days @ ''d''] else [])
                    @ (if hours \<noteq> 0 then [int_str hours @ ''h''] else [])
                    @ (if rest \<noteq> 0 then [int_str rest @ ''m''] else [])))"

definition timeProgress :: "real \<Rightarrow> real option \<Rightarrow> real option \<Rightarrow> real" where
  "timeProgress spent remaining estimate =
     (let total = (case remaining of Some r \<Rightarrow> spent + r | None \<Rightarrow> (case estimate of Some e \<Rightarrow> e | None \<Rightarrow> 0))
      in if total \<le> 0 then (if 0 < spent then 1 else 0) else min 1 (spent / total))"

section \<open>Reading what was written\<close>

text \<open>A part as it is written, and the minutes it stands for.\<close>

type_synonym part = "nat \<times> char"

definition part_text :: "part \<Rightarrow> string" where
  "part_text = (\<lambda>(k, u). nat_str k @ [u])"

definition part_minutes :: "part \<Rightarrow> int" where
  "part_minutes = (\<lambda>(k, u). int k * unit_minutes u)"

definition good_part :: "part \<Rightarrow> bool" where
  "good_part = (\<lambda>(k, u). u \<in> set ''dhm'')"

lemma unit_chars: "u \<in> set ''dhm'' \<Longrightarrow> \<not> is_digit u \<and> \<not> is_space u \<and> u \<noteq> CHR ''.'' \<and> lower_char u = u"
  by (auto simp: is_digit_def is_space_def lower_char_def)

lemma take_digits: "\<not> is_digit u \<Longrightarrow> takeWhile is_digit (nat_str k @ u # r) = nat_str k \<and> dropWhile is_digit (nat_str k @ u # r) = u # r"
  using nat_str_digits [of k] by (simp add: takeWhile_append dropWhile_append)

lemma match_amount_part: "u \<in> set ''dhm'' \<Longrightarrow> match_amount (nat_str k @ u # r) = Some (nat_str k, u # r)"
  using take_digits [of u k r] unit_chars [of u] by (simp add: match_amount_def)

lemma match_part_part: "u \<in> set ''dhm'' \<Longrightarrow> match_part (nat_str k @ u # r) = Some (nat_str k, u, nat_str k @ [u], r)"
  using match_amount_part [of u k r] unit_chars [of u] by (simp add: match_part_def)

lemma scan_part: "u \<in> set ''dhm'' \<Longrightarrow> scan_parts (nat_str k @ u # r) = (nat_str k, u, nat_str k @ [u]) # scan_parts r"
  using match_part_part [of u k r] by (subst scan_parts.simps) (cases "nat_str k", simp_all)

lemma scan_space: "scan_parts (CHR '' '' # r) = scan_parts r"
  by (subst scan_parts.simps) (simp add: match_part_def match_amount_def is_digit_def)

lemma scan_join: "\<forall>p \<in> set ps. good_part p \<Longrightarrow> scan_parts (join '' '' (map part_text ps)) = map (\<lambda>(k, u). (nat_str k, u, nat_str k @ [u])) ps"
proof (induction ps rule: induct_list012)
  case 1
  show ?case by (subst scan_parts.simps) simp
next
  case (2 p)
  have "scan_parts [] = []" by (subst scan_parts.simps) simp
  with 2 show ?case using scan_part [of "snd p" "fst p" "[]"] by (auto simp: part_text_def good_part_def split: prod.splits)
next
  case (3 p q ps)
  obtain k u where p: "p = (k, u)" by (cases p)
  with 3 show ?case using scan_part [of u k "CHR '' '' # join '' '' (map part_text (q # ps))"]
    by (auto simp: part_text_def good_part_def scan_space)
qed

lemma read_nat_str: "read_number (nat_str k) = Fin (real k)"
  using read_number_plain(1) [of "nat_str k" "[]"] nat_str_digits [of k] by simp

lemma add_parts: "foldl add_part (Fin (of_int m)) (map (\<lambda>(k, u). (nat_str k, u, nat_str k @ [u])) ps) = Fin (of_int (m + sum_list (map part_minutes ps)))"
proof (induction ps arbitrary: m)
  case (Cons p ps)
  obtain k u where p: "p = (k, u)" by (cases p)
  have "add_part (Fin (of_int m)) (nat_str k, u, nat_str k @ [u]) = Fin (of_int (m + part_minutes p))"
    by (simp add: add_part_def read_nat_str part_minutes_def p)
  with Cons.IH [of "m + part_minutes p"] show ?case by (simp add: p add.assoc)
qed simp

lemma digit_plain: "is_digit c \<Longrightarrow> \<not> is_space c \<and> lower_char c = c"
  by (auto simp: is_digit_def is_space_def lower_char_def)

lemma part_chars: "good_part p \<Longrightarrow> c \<in> set (part_text p) \<Longrightarrow> \<not> is_space c \<and> lower_char c = c"
proof -
  assume "good_part p" "c \<in> set (part_text p)"
  then have "is_digit c \<or> c \<in> set ''dhm''" using nat_str_digits by (cases p) (auto simp: part_text_def good_part_def)
  then show ?thesis using digit_plain unit_chars by blast
qed

lemma part_text_plain: "good_part p \<Longrightarrow> strip_space (part_text p) = part_text p \<and> toLowerCase (part_text p) = part_text p"
  using part_chars [of p] by (auto simp: strip_space_def toLowerCase_def filter_id_conv intro: map_idI)

lemma strip_join: "\<forall>p \<in> set ps. good_part p \<Longrightarrow> strip_space (join '' '' (map part_text ps)) = concat (map part_text ps)"
proof (induction ps rule: induct_list012)
  case (3 p q ps)
  have "strip_space (a @ '' '' @ b) = strip_space a @ strip_space b" for a b by (simp add: strip_space_def is_space_def)
  with 3 part_text_plain [of p] show ?case by simp
qed (use part_text_plain in \<open>auto simp: strip_space_def\<close>)

lemma lower_join: "\<forall>p \<in> set ps. good_part p \<Longrightarrow> toLowerCase (join '' '' (map part_text ps)) = join '' '' (map part_text ps)"
proof (induction ps rule: induct_list012)
  case (3 p q ps)
  have "toLowerCase (a @ '' '' @ b) = toLowerCase a @ '' '' @ toLowerCase b" for a b by (simp add: toLowerCase_def lower_char_def)
  with 3 part_text_plain [of p] show ?case by simp
qed (use part_text_plain in \<open>auto simp: toLowerCase_def\<close>)

lemma trim_join:
  assumes "\<forall>p \<in> set ps. good_part p"
  shows "trim (join '' '' (map part_text ps)) = join '' '' (map part_text ps)"
proof (cases "ps = []")
  case False
  have ne: "part_text p \<noteq> []" for p by (cases p) (simp add: part_text_def)
  then have j: "join '' '' (map part_text qs) \<noteq> []" if "qs \<noteq> []" for qs using that by (cases qs; cases "tl qs") auto
  have "hd (join '' '' (map part_text qs)) = hd (part_text (hd qs)) \<and> last (join '' '' (map part_text qs)) = last (part_text (last qs))"
    if "qs \<noteq> []" for qs using that
  proof (induction qs rule: induct_list012)
    case (3 p q qs)
    with j [of "q # qs"] ne [of p] show ?case by simp
  qed simp_all
  with False ne part_chars assms j [OF False] show ?thesis by (intro trim_idle) (metis hd_in_set last_in_set)+
qed (simp add: trim_def trim_start_def)

lemma parse_parts:
  assumes "\<forall>p \<in> set ps. good_part p"
  shows "parseDuration (join '' '' (map part_text ps)) = Some (sum_list (map part_minutes ps))"
proof (cases ps)
  case (Cons p qs)
  obtain k u where p: "p = (k, u)" by (cases p)
  define s where "s = join '' '' (map part_text ps)"
  obtain r where r: "s = nat_str k @ u # r" by (cases qs) (auto simp: s_def Cons p part_text_def)
  have m: "match_amount s = Some (nat_str k, u # r)" using assms match_amount_part [of u k r] by (simp add: r Cons p good_part_def)
  have consumed: "concat (map (\<lambda>(a, u, m). m) (scan_parts s)) = concat (map part_text ps)"
    unfolding s_def scan_join [OF assms] by (simp add: part_text_def comp_def split_def)
  have "concat (map part_text ps) \<noteq> []" by (simp add: Cons p part_text_def)
  moreover have "strip_space (concat (map part_text ps)) = concat (map part_text ps)"
    using assms part_chars by (auto simp: strip_space_def filter_id_conv)
  moreover have "foldl add_part (Fin 0) (scan_parts s) = Fin (of_int (sum_list (map part_minutes ps)))"
    using add_parts [of 0 ps] unfolding s_def scan_join [OF assms] by simp
  moreover have "toLowerCase (trim s) = s" unfolding s_def using trim_join [OF assms] lower_join [OF assms] by simp
  moreover have "strip_space s = concat (map part_text ps)" unfolding s_def by (rule strip_join [OF assms])
  moreover have "s \<noteq> []" by (simp add: r)
  ultimately show ?thesis
    unfolding s_def [symmetric] parseDuration_def Let_def using m consumed by (simp add: round_number_def)
qed (simp add: parseDuration_def trim_def trim_start_def toLowerCase_def)

text \<open>The parts of a count of minutes.\<close>

definition parts_of :: "int \<Rightarrow> part list" where
  "parts_of n = filter (\<lambda>(k, u). k \<noteq> 0)
     [(nat (n div TICKET_MINUTES_PER_DAY), CHR ''d''), (nat ((n mod TICKET_MINUTES_PER_DAY) div TICKET_MINUTES_PER_HOUR), CHR ''h''), (nat (n mod TICKET_MINUTES_PER_HOUR), CHR ''m'')]"

lemmas minutes_per = TICKET_MINUTES_PER_DAY_def TICKET_MINUTES_PER_HOUR_def TICKET_HOURS_PER_DAY_def

lemma format_parts: "0 < n \<Longrightarrow> formatDuration (Some n) = join '' '' (map part_text (parts_of n))"
proof -
  assume n: "0 < n"
  have part: "(if m \<noteq> 0 then [int_str m @ [u]] else []) = map part_text (filter (\<lambda>(k, u). k \<noteq> 0) [(nat m, u)])" if "0 \<le> m" for m u
    using that by (simp add: part_text_def int_str_def)
  have pos: "0 \<le> n div TICKET_MINUTES_PER_DAY" "0 \<le> (n mod TICKET_MINUTES_PER_DAY) div TICKET_MINUTES_PER_HOUR" "0 \<le> n mod TICKET_MINUTES_PER_HOUR"
    using n by (simp_all add: minutes_per pos_imp_zdiv_nonneg_iff)
  have "parts_of n = filter (\<lambda>(k, u). k \<noteq> 0) [(nat (n div TICKET_MINUTES_PER_DAY), CHR ''d'')]
      @ filter (\<lambda>(k, u). k \<noteq> 0) [(nat ((n mod TICKET_MINUTES_PER_DAY) div TICKET_MINUTES_PER_HOUR), CHR ''h'')]
      @ filter (\<lambda>(k, u). k \<noteq> 0) [(nat (n mod TICKET_MINUTES_PER_HOUR), CHR ''m'')]" by (simp add: parts_of_def)
  moreover have "\<not> n \<le> 0" using n by simp
  ultimately show ?thesis unfolding formatDuration_def Let_def
    by (simp only: part [OF pos(1)] part [OF pos(2)] part [OF pos(3)] map_append option.case if_False)
qed

lemma parts_of_sum: "0 \<le> n \<Longrightarrow> sum_list (map part_minutes (parts_of n)) = n"
proof -
  assume n: "0 \<le> n"
  have drop: "sum_list (map part_minutes (filter (\<lambda>(k, u). k \<noteq> 0) ps)) = sum_list (map part_minutes ps)" for ps
    by (induction ps) (auto simp: part_minutes_def)
  have "sum_list (map part_minutes (parts_of n)) = n div 480 * 480 + ((n mod 480) div 60 * 60 + n mod 60)"
    unfolding parts_of_def drop using n by (simp add: part_minutes_def unit_minutes_def minutes_per pos_imp_zdiv_nonneg_iff)
  also have "n mod 60 = (n mod 480) mod 60" by (simp add: mod_mod_cancel)
  also have "n div 480 * 480 + ((n mod 480) div 60 * 60 + (n mod 480) mod 60) = n" by (simp only: div_mult_mod_eq)
  finally show ?thesis .
qed

text \<open>C27: Time that a ticket shows, typed back into its box, is the same number of minutes, for every
  number of minutes it can hold. More than that: any run of whole days, hours and minutes with a space
  between them, in any order and with repeats, is read as their sum, a day being eight hours.\<close>
theorem duration_roundtrip:
  assumes "0 \<le> n" "\<forall>(k, u) \<in> set ps. u \<in> set ''dhm''"
  shows "parseDuration (formatDuration (Some n)) = Some n
    \<and> parseDuration (join '' '' (map (\<lambda>(k, u). nat_str k @ [u]) ps)) = Some (\<Sum>(k, u) \<leftarrow> ps. int k * unit_minutes u)"
proof
  have good: "\<forall>p \<in> set (parts_of n). good_part p" by (auto simp: parts_of_def good_part_def)
  show "parseDuration (formatDuration (Some n)) = Some n"
  proof (cases "n = 0")
    case True
    have "nat_str 0 = ''0''" by code_simp
    then show ?thesis using True parse_parts [of "[(0, CHR ''m'')]"]
      by (simp add: formatDuration_def good_part_def part_text_def part_minutes_def)
  next
    case False
    with assms(1) good show ?thesis by (simp add: format_parts parse_parts parts_of_sum)
  qed
  have "\<forall>p \<in> set ps. good_part p" using assms(2) by (auto simp: good_part_def)
  from parse_parts [OF this]
  show "parseDuration (join '' '' (map (\<lambda>(k, u). nat_str k @ [u]) ps)) = Some (\<Sum>(k, u) \<leftarrow> ps. int k * unit_minutes u)"
    by (simp only: part_text_def part_minutes_def)
qed

theorem duration_roundtrip_witness:
  "formatDuration (Some 1530) = ''3d 1h 30m'' \<and> parseDuration ''3d 1h 30m'' = Some 1530 \<and> parseDuration ''30m 2h'' = Some 150"
proof -
  have f: "formatDuration (Some 1530) = ''3d 1h 30m''" by code_simp
  have s: "join '' '' (map (\<lambda>(k, u). nat_str k @ [u]) [(30, CHR ''m''), (2, CHR ''h'')]) = ''30m 2h''" by code_simp
  show ?thesis using duration_roundtrip [of 1530 "[(30, CHR ''m''), (2, CHR ''h'')]"] f
    unfolding s by (simp add: unit_minutes_def minutes_per)
qed

text \<open>The share of a bar is between nothing and all of it.\<close>

lemma timeProgress_share: "0 \<le> spent \<Longrightarrow> 0 \<le> timeProgress spent remaining estimate \<and> timeProgress spent remaining estimate \<le> 1"
  by (simp add: timeProgress_def Let_def)

text \<open>Text that is not time is not read, and an empty box is no time.\<close>

lemma not_time: "parseDuration ''2h of work'' = None" "parseDuration ''  '' = Some 0"
  by code_simp+

end
