(* ===== verification/Chart.thy ===== *)
theory Chart
  imports JsNumber Config
begin

text \<open>
  The arithmetic of a dashboard's chart, \<open>web/src/features/dashboard/chart.ts\<close>: what a chart says it
  is, which colour a group wears, how the tail folds into one group, and where a slice, a bar or a
  line lies. Values are reals. A number inside a path is written by a parameter where the source does
  not round it. The strings of a chart are those of \<open>i18n/dashboard.en.ts\<close> and \<open>dashboard.de.ts\<close>.
\<close>

section \<open>Data\<close>

record ChartPart =
  part_label :: string
  part_value :: real

record ChartGroup =
  group_label :: string
  group_category :: "string option"
  group_value :: real
  group_parts :: "ChartPart list"

record ChartPoint =
  point_start :: string
  point_value :: real

record ChartLine =
  line_name :: string
  line_points :: "ChartPoint list"

record ChartSeriesReport =
  csr_series :: "ChartLine list"
  csr_interval :: string
  csr_days :: int
  csr_measure :: string
  csr_groupBy :: "string option"
  csr_counts :: string

record Series =
  series_name :: string
  series_tone :: string
  series_points :: "(num \<times> real) list"
  series_dashed :: bool
  series_step :: bool

text \<open>The settings of a widget that a chart reads.\<close>

record WidgetConfig =
  wc_groupBy :: "string option"
  wc_splitBy :: "string option"
  wc_measure :: "string option"
  wc_shape :: "string option"
  wc_interval :: "string option"
  wc_series :: "string option"

section \<open>Words\<close>

definition GROUP_FIELDS :: "string list" where
  "GROUP_FIELDS = [''status'', ''statusCategory'', ''type'', ''priority'', ''assignee'', ''team'', ''milestone'', ''label'', ''fixVersion'', ''component'']"

record chart_words =
  cw_fields :: "(string \<times> string) list"
  cw_inSentence :: "string \<Rightarrow> string"
  cw_points :: string
  cw_issues :: string
  cw_created :: string
  cw_resolved :: string
  cw_open :: string
  cw_perInterval :: "string \<Rightarrow> string \<Rightarrow> bool \<Rightarrow> string \<Rightarrow> string"
  cw_lineBy :: "string \<Rightarrow> string"
  cw_byField :: "string \<Rightarrow> string \<Rightarrow> string \<Rightarrow> string"
  cw_splitBy :: "string \<Rightarrow> string"
  cw_dayMonth :: "string \<Rightarrow> string \<Rightarrow> string"

definition chartEn :: chart_words where
  "chartEn = \<lparr>cw_fields = zip GROUP_FIELDS [''Status'', ''Status category'', ''Issue type'', ''Priority'', ''Assignee'', ''Team'', ''Milestone'', ''Label'', ''Fix version'', ''Component''],
     cw_inSentence = toLowerCase, cw_points = ''Points'', cw_issues = ''Issues'', cw_created = ''created'', cw_resolved = ''resolved'', cw_open = ''open'',
     cw_perInterval = (\<lambda>what counts monthly byText. what @ '' '' @ counts @ '' per '' @ (if monthly then ''month'' else ''week'') @ byText),
     cw_lineBy = (\<lambda>field. '', by '' @ field), cw_byField = (\<lambda>what field split. what @ '' by '' @ field @ split),
     cw_splitBy = (\<lambda>field. '', split by '' @ field), cw_dayMonth = (\<lambda>d m. d @ ''/'' @ m)\<rparr>"

definition chartDe :: chart_words where
  "chartDe = \<lparr>cw_fields = zip GROUP_FIELDS [''Status'', ''Statuskategorie'', ''Vorgangstyp'', ''Priorit'' @ [CHR 0xE4] @ ''t'', ''Bearbeiter'', ''Team'', ''Meilenstein'', ''Schlagwort'',
       ''L'' @ [CHR 0xF6] @ ''sungsversion'', ''Komponente''],
     cw_inSentence = (\<lambda>label. label), cw_points = ''Punkte'', cw_issues = ''Vorg'' @ [CHR 0xE4] @ ''nge'', cw_created = ''angelegt'',
     cw_resolved = ''gel'' @ [CHR 0xF6] @ ''st'', cw_open = ''offen'',
     cw_perInterval = (\<lambda>what counts monthly byText. what @ '' '' @ counts @ '' pro '' @ (if monthly then ''Monat'' else ''Woche'') @ byText),
     cw_lineBy = (\<lambda>field. '', nach '' @ field), cw_byField = (\<lambda>what field split. what @ '' nach '' @ field @ split),
     cw_splitBy = (\<lambda>field. '', aufgeteilt nach '' @ field), cw_dayMonth = (\<lambda>d m. d @ ''.'' @ m @ ''.'')\<rparr>"

definition fieldLabel :: "chart_words \<Rightarrow> string \<Rightarrow> string option" where
  "fieldLabel t field = map_of (cw_fields t) field"

text \<open>The label of a field that is set and known: \<open>field && field in fieldLabel\<close>.\<close>

text \<open>
  A field that is among the labels. The names every object inherits, \<open>toString\<close> and its like, are outside
  the model: a field is one of the server's list, \<open>GroupField\<close>, or none.
\<close>

definition known_field :: "chart_words \<Rightarrow> string option \<Rightarrow> string option" where
  "known_field t field = (case field of Some f \<Rightarrow> if f = [] then None else fieldLabel t f | None \<Rightarrow> None)"

definition describeChart :: "chart_words \<Rightarrow> WidgetConfig \<Rightarrow> string" where
  "describeChart t config =
     (let what = (if wc_measure config = Some ''points'' then cw_points t else cw_issues t)
      in if wc_shape config = Some ''line''
         then let counts = (if wc_series config = Some ''resolved'' then cw_resolved t else if wc_series config = Some ''open'' then cw_open t else cw_created t);
                  byText = (case known_field t (wc_groupBy config) of Some l \<Rightarrow> cw_lineBy t (cw_inSentence t l) | None \<Rightarrow> [])
              in cw_perInterval t what counts (wc_interval config = Some ''month'') byText
         else let byText = (case fieldLabel t (case wc_groupBy config of Some f \<Rightarrow> f | None \<Rightarrow> ''status'') of Some l \<Rightarrow> l
                         | None \<Rightarrow> (case fieldLabel t ''status'' of Some l \<Rightarrow> l | None \<Rightarrow> []));
                  split = (if wc_shape config = Some ''stacked''
                           then (case known_field t (wc_splitBy config) of Some l \<Rightarrow> cw_splitBy t (cw_inSentence t l) | None \<Rightarrow> []) else [])
              in cw_byField t what (cw_inSentence t byText) split)"

section \<open>Colours\<close>

definition CHART_TONES :: "string list" where
  "CHART_TONES = [''text-chart-1'', ''text-chart-2'', ''text-chart-3'', ''text-chart-4'', ''text-chart-5'', ''text-chart-6'']"

definition OTHER :: string where "OTHER = ''Other''"

definition OTHER_TONE :: string where "OTHER_TONE = ''text-ink-subtle''"

definition categoryTone :: "(string \<times> string) list" where
  "categoryTone = [(''todo'', ''text-status-todo''), (''in_progress'', ''text-status-progress''), (''done'', ''text-status-done'')]"

definition tone_at :: "nat \<Rightarrow> string" where
  "tone_at i = CHART_TONES ! (i mod length CHART_TONES)"

definition category_tones :: "ChartGroup list \<Rightarrow> (string \<times> string) list" where
  "category_tones groups = concat (map (\<lambda>g. case group_category g of
      Some c \<Rightarrow> (case map_of categoryTone c of Some tone \<Rightarrow> [(group_label g, tone)] | None \<Rightarrow> []) | None \<Rightarrow> []) groups)"

definition tonesFor :: "(string \<Rightarrow> string \<Rightarrow> real) \<Rightarrow> ChartGroup list \<Rightarrow> (string \<times> string) list" where
  "tonesFor lc groups =
     (let named = js_sort lc (map group_label (filter (\<lambda>g. group_label g \<noteq> OTHER) groups));
          tones = put_all [] (map (\<lambda>(i, label). (label, tone_at i)) (List.enumerate 0 named));
          tones = put_all tones (category_tones groups)
      in if list_ex (\<lambda>g. group_label g = OTHER) groups then AList.update OTHER OTHER_TONE tones else tones)"

section \<open>Folding and laying out\<close>

text \<open>\<open>slice(0, e)\<close> and \<open>slice(e)\<close>: a negative end counts from the end.\<close>

definition slice_end :: "'a list \<Rightarrow> int \<Rightarrow> nat" where
  "slice_end xs e = nat (if e < 0 then int (length xs) + e else e)"

definition add_value :: "(string \<times> real) list \<Rightarrow> ChartPart \<Rightarrow> (string \<times> real) list" where
  "add_value m p = AList.update (part_label p) ((case map_of m (part_label p) of Some v \<Rightarrow> v | None \<Rightarrow> 0) + part_value p) m"

definition tail_parts :: "ChartGroup list \<Rightarrow> (string \<times> real) list" where
  "tail_parts tail = foldl (\<lambda>m g. foldl add_value m (group_parts g)) [] tail"

definition foldTail :: "ChartGroup list \<Rightarrow> int \<Rightarrow> ChartGroup list" where
  "foldTail groups limit =
     (if int (length groups) \<le> limit then groups
      else let kept = take (slice_end groups (limit - 1)) groups; tail = drop (slice_end groups (limit - 1)) groups
           in kept @ [\<lparr>group_label = OTHER, group_category = None, group_value = foldl (\<lambda>s g. s + group_value g) 0 tail,
                group_parts = js_sort (\<lambda>a b. part_value b - part_value a)
                  (map (\<lambda>(label, v). \<lparr>part_label = label, part_value = v\<rparr>) (tail_parts tail))\<rparr>])"

record Arc =
  arc_label :: string
  arc_value :: real
  arc_start :: real
  arc_end :: real
  arc_share :: real

fun arcs_from :: "real \<Rightarrow> real \<Rightarrow> ChartGroup list \<Rightarrow> Arc list" where
  "arcs_from whole turn [] = []"
| "arcs_from whole turn (g # gs) =
     (let share = group_value g / whole
      in \<lparr>arc_label = group_label g, arc_value = group_value g, arc_start = turn, arc_end = turn + share, arc_share = share\<rparr>
           # arcs_from whole (turn + share) gs)"

definition donutLayout :: "ChartGroup list \<Rightarrow> Arc list" where
  "donutLayout groups =
     (let whole = foldl (\<lambda>s g. s + group_value g) 0 groups
      in if whole \<le> 0 then [] else arcs_from whole 0 (filter (\<lambda>g. group_value g > 0) groups))"

definition chart_round :: "real \<Rightarrow> string" where
  "chart_round v = scaled_str 2 (js_round (v * 100))"

definition arc_point :: "real \<Rightarrow> real \<Rightarrow> real \<Rightarrow> real \<Rightarrow> string" where
  "arc_point cx cy radius turn =
     (let angle = (turn - 1 / 4) * 2 * pi in chart_round (cx + radius * cos angle) @ '' '' @ chart_round (cy + radius * sin angle))"

definition is_whole :: "real \<Rightarrow> real \<Rightarrow> bool" where
  "is_whole start till \<longleftrightarrow> till - start \<ge> 1 - 1 / 10 ^ 9"

function arcPath :: "(real \<Rightarrow> string) \<Rightarrow> real \<Rightarrow> real \<Rightarrow> real \<Rightarrow> real \<Rightarrow> real \<Rightarrow> real \<Rightarrow> string" where
  "arcPath num cx cy r inner start till =
     (if is_whole start till
      then arcPath num cx cy r inner start (start + 1 / 2) @ '' '' @ arcPath num cx cy r inner (start + 1 / 2) (start + 1 - 1 / 10 ^ 6)
      else let large = (if till - start > 1 / 2 then ''1'' else ''0'')
           in join '' '' [''M'' @ arc_point cx cy r start,
                ''A'' @ num r @ '' '' @ num r @ '' 0 '' @ large @ '' 1 '' @ arc_point cx cy r till,
                ''L'' @ arc_point cx cy inner till,
                ''A'' @ num inner @ '' '' @ num inner @ '' 0 '' @ large @ '' 0 '' @ arc_point cx cy inner start,
                ''Z''])"
  by pat_completeness auto

termination arcPath
  by (relation "measure (\<lambda>(num, cx, cy, r, inner, start, till). if is_whole start till then 1 else 0)") (auto simp: is_whole_def)

declare arcPath.simps [simp del]

record Segment =
  seg_label :: string
  seg_value :: real
  seg_height :: real

record Column =
  col_label :: string
  col_value :: real
  col_height :: real
  col_segments :: "Segment list"

definition tallest :: "ChartGroup list \<Rightarrow> real" where
  "tallest groups = foldl max 0 (map group_value groups)"

definition columnLayout :: "ChartGroup list \<Rightarrow> Column list" where
  "columnLayout groups =
     (let m = tallest groups; scale = (\<lambda>v. if m > 0 then v / m else 0)
      in map (\<lambda>g. \<lparr>col_label = group_label g, col_value = group_value g, col_height = scale (group_value g),
           col_segments = map (\<lambda>p. \<lparr>seg_label = part_label p, seg_value = part_value p, seg_height = scale (part_value p)\<rparr>) (group_parts g)\<rparr>) groups)"

definition segmentNames :: "(string \<Rightarrow> string \<Rightarrow> real) \<Rightarrow> ChartGroup list \<Rightarrow> string list" where
  "segmentNames lc groups = js_sort lc (uniq (concat (map (\<lambda>g. map part_label (group_parts g)) groups)))"

fun index_of :: "string list \<Rightarrow> string \<Rightarrow> nat" where
  "index_of [] x = 0"
| "index_of (y # ys) x = (if y = x then 0 else Suc (index_of ys x))"

definition seriesFrom :: "(string \<Rightarrow> string \<Rightarrow> real) \<Rightarrow> ChartSeriesReport \<Rightarrow> Series list" where
  "seriesFrom lc report =
     (let names = js_sort lc (map line_name (csr_series report))
      in map (\<lambda>line. \<lparr>series_name = line_name line, series_tone = tone_at (index_of names (line_name line)),
           series_points = map (\<lambda>(x, p). (Some (real x), point_value p)) (List.enumerate 0 (line_points line)), series_dashed = False, series_step = False\<rparr>)
         (csr_series report))"

definition figure :: "real \<Rightarrow> string" where
  "figure v = (if v = of_int \<lfloor>v\<rfloor> then int_str \<lfloor>v\<rfloor> else toFixed 1 v)"

section \<open>Nothing is lost in folding\<close>

definition value_sum :: "ChartGroup list \<Rightarrow> real" where
  "value_sum groups = (\<Sum>g \<leftarrow> groups. group_value g)"

definition named_sum :: "string \<Rightarrow> ChartPart list \<Rightarrow> real" where
  "named_sum l ps = (\<Sum>p \<leftarrow> ps. if part_label p = l then part_value p else 0)"

definition part_sum :: "string \<Rightarrow> ChartGroup list \<Rightarrow> real" where
  "part_sum l groups = (\<Sum>g \<leftarrow> groups. named_sum l (group_parts g))"

lemma foldl_sum: "foldl (\<lambda>s g. s + f g) a xs = (a :: real) + (\<Sum>x \<leftarrow> xs. f x)"
  by (induction xs arbitrary: a) simp_all

lemma sum_append:
  "value_sum (xs @ ys) = value_sum xs + value_sum ys" "part_sum l (xs @ ys) = part_sum l xs + part_sum l ys"
  by (simp_all add: value_sum_def part_sum_def)

definition value_at :: "(string \<times> real) list \<Rightarrow> string \<Rightarrow> real" where
  "value_at m l = (case map_of m l of Some v \<Rightarrow> v | None \<Rightarrow> 0)"

lemma add_values: "value_at (foldl add_value m ps) l = value_at m l + named_sum l ps"
proof (induction ps arbitrary: m)
  case (Cons p ps)
  have "value_at (add_value m p) l = value_at m l + (if part_label p = l then part_value p else 0)"
    by (simp add: value_at_def add_value_def)
  with Cons show ?case by (simp add: named_sum_def)
qed (simp add: named_sum_def)

lemma tail_parts_from: "value_at (foldl (\<lambda>m g. foldl add_value m (group_parts g)) m gs) l = value_at m l + part_sum l gs"
  by (induction gs arbitrary: m) (simp_all add: part_sum_def add_values)

lemma tail_parts_value: "value_at (tail_parts gs) l = part_sum l gs"
  using tail_parts_from [of "[]" gs l] by (simp add: tail_parts_def value_at_def)

lemma tail_parts_distinct: "distinct (map fst (tail_parts gs))"
proof -
  have add: "distinct (map fst m) \<Longrightarrow> distinct (map fst (foldl add_value m ps))" for m ps
    by (induction ps arbitrary: m) (simp_all add: add_value_def distinct_update)
  then have "distinct (map fst m) \<Longrightarrow> distinct (map fst (foldl (\<lambda>m g. foldl add_value m (group_parts g)) m gs))" for m
    by (induction gs arbitrary: m) simp_all
  then show ?thesis by (simp add: tail_parts_def)
qed

lemma named_sum_entries: "distinct (map fst m) \<Longrightarrow> named_sum l (map (\<lambda>(label, v). \<lparr>part_label = label, part_value = v\<rparr>) m) = value_at m l"
proof (induction m)
  case (Cons e m)
  obtain k v where e: "e = (k, v)" by (cases e)
  have "value_at m l = 0" if "k = l" using Cons.prems that by (simp add: value_at_def e map_of_eq_None_iff [THEN iffD2])
  with Cons show ?case by (auto simp: named_sum_def value_at_def e)
qed (simp add: named_sum_def value_at_def)

lemma named_sum_sort: "named_sum l (js_sort c ps) = named_sum l ps"
proof -
  have "mset (map f (js_sort c ps)) = mset (map f ps)" for f :: "ChartPart \<Rightarrow> real" by simp
  then show ?thesis unfolding named_sum_def by (metis sum_mset_sum_list)
qed

lemma fold_keeps:
  "value_sum (foldTail groups limit) = value_sum groups" "part_sum l (foldTail groups limit) = part_sum l groups"
proof -
  define n where "n = slice_end groups (limit - 1)"
  have split: "value_sum groups = value_sum (take n groups) + value_sum (drop n groups)"
    "part_sum l groups = part_sum l (take n groups) + part_sum l (drop n groups)"
    by (simp_all flip: sum_append)
  show "value_sum (foldTail groups limit) = value_sum groups"
    using split(1) by (auto simp: foldTail_def Let_def foldl_sum sum_append value_sum_def simp flip: n_def)
  show "part_sum l (foldTail groups limit) = part_sum l groups"
    using split(2) by (auto simp: foldTail_def Let_def sum_append part_sum_def named_sum_sort named_sum_entries
        tail_parts_distinct tail_parts_value simp flip: n_def)
qed

lemma fold_length: "1 \<le> limit \<Longrightarrow> int (length (foldTail groups limit)) \<le> limit"
  by (auto simp: foldTail_def Let_def slice_end_def min_def)

lemma fold_nonneg: "\<forall>g \<in> set groups. 0 \<le> group_value g \<Longrightarrow> g \<in> set (foldTail groups limit) \<Longrightarrow> 0 \<le> group_value g"
proof -
  assume g: "\<forall>g \<in> set groups. 0 \<le> group_value g" "g \<in> set (foldTail groups limit)"
  have "0 \<le> (\<Sum>g \<leftarrow> drop n groups. group_value g)" for n using g(1) by (auto intro!: sum_list_nonneg dest!: in_set_dropD)
  with g show ?thesis by (auto simp: foldTail_def Let_def foldl_sum split: if_splits dest: in_set_takeD)
qed

section \<open>The ring closes\<close>

fun chained :: "real \<Rightarrow> Arc list \<Rightarrow> real \<Rightarrow> bool" where
  "chained a [] b = (a = b)"
| "chained a (x # xs) b = (arc_start x = a \<and> arc_start x < arc_end x \<and> chained (arc_end x) xs b)"

lemma arcs_chained:
  assumes "0 < whole" "\<forall>g \<in> set gs. 0 < group_value g"
  shows "chained turn (arcs_from whole turn gs) (turn + value_sum gs / whole)"
  using assms(2)
proof (induction gs arbitrary: turn)
  case (Cons g gs)
  from Cons.IH [of "turn + group_value g / whole"] Cons.prems assms(1) show ?case
    by (simp add: Let_def value_sum_def add_divide_distrib add.assoc)
qed (simp add: value_sum_def)

lemma arcs_shares: "a \<in> set (arcs_from whole turn gs) \<Longrightarrow> arc_share a = arc_value a / whole \<and> arc_end a = arc_start a + arc_share a"
  by (induction gs arbitrary: turn) (auto simp: Let_def)

lemma positive_sum: "\<forall>g \<in> set gs. 0 \<le> group_value g \<Longrightarrow> value_sum (filter (\<lambda>g. group_value g > 0) gs) = value_sum gs"
  by (induction gs) (auto simp: value_sum_def)

lemma donut_closes:
  assumes "\<forall>g \<in> set gs. 0 \<le> group_value g" "0 < value_sum gs"
  shows "chained 0 (donutLayout gs) 1 \<and> (\<forall>a \<in> set (donutLayout gs). arc_share a = arc_value a / value_sum gs \<and> arc_end a = arc_start a + arc_share a)"
proof -
  have d: "donutLayout gs = arcs_from (value_sum gs) 0 (filter (\<lambda>g. group_value g > 0) gs)"
    using assms(2) by (simp add: donutLayout_def foldl_sum value_sum_def)
  have "chained 0 (donutLayout gs) (0 + value_sum (filter (\<lambda>g. group_value g > 0) gs) / value_sum gs)"
    unfolding d by (rule arcs_chained) (use assms in auto)
  with positive_sum [OF assms(1)] assms(2) arcs_shares show ?thesis by (simp add: d)
qed

section \<open>Colours told apart\<close>

lemma tones_distinct: "i < 6 \<Longrightarrow> j < 6 \<Longrightarrow> tone_at i = tone_at j \<Longrightarrow> i = j" "tone_at i \<noteq> OTHER_TONE"
proof -
  have all: "\<forall>i \<in> {..<6 :: nat}. \<forall>j \<in> {..<6}. tone_at i = tone_at j \<longrightarrow> i = j" "\<forall>i \<in> {..<6 :: nat}. CHART_TONES ! i \<noteq> OTHER_TONE"
    by code_simp+
  then show "i < 6 \<Longrightarrow> j < 6 \<Longrightarrow> tone_at i = tone_at j \<Longrightarrow> i = j" by blast
  have "length CHART_TONES = 6" by code_simp
  then show "tone_at i \<noteq> OTHER_TONE" using all(2) by (simp add: tone_at_def)
qed

lemma tone_of_named:
  assumes "distinct named" "i < length named"
  shows "map_of (put_all [] (map (\<lambda>(i, label). (label, tone_at i)) (List.enumerate 0 named))) (named ! i) = Some (tone_at i)"
proof (rule put_all_distinct)
  have "map fst (map (\<lambda>(i, label). (label, tone_at i)) (List.enumerate 0 named)) = named" by (simp add: comp_def case_prod_unfold)
  then show "distinct (map fst (map (\<lambda>(i, label). (label, tone_at i)) (List.enumerate 0 named)))" using assms(1) by simp
  have "(i, named ! i) \<in> set (List.enumerate 0 named)" using assms(2) by (simp add: in_set_enumerate_eq)
  then show "(named ! i, tone_at i) \<in> set (map (\<lambda>(i, label). (label, tone_at i)) (List.enumerate 0 named))" by force
qed

text \<open>A group of a category that has a colour, and what each group wears.\<close>

definition coloured :: "ChartGroup \<Rightarrow> bool" where
  "coloured g \<longleftrightarrow> group_category g \<in> {Some ''todo'', Some ''in_progress'', Some ''done''}"

definition category_tone :: "ChartGroup \<Rightarrow> string option" where
  "category_tone g = (case group_category g of Some c \<Rightarrow> map_of categoryTone c | None \<Rightarrow> None)"

lemma category_tone_Some: "category_tone g \<noteq> None \<longleftrightarrow> coloured g"
proof -
  have "fst ` set categoryTone = {''todo'', ''in_progress'', ''done''}" by (simp add: categoryTone_def)
  then have "map_of categoryTone c \<noteq> None \<longleftrightarrow> c \<in> {''todo'', ''in_progress'', ''done''}" for c by (simp only: map_of_eq_None_iff simp_thms)
  then show ?thesis by (cases "group_category g") (simp_all add: category_tone_def coloured_def)
qed

lemma category_tone_eq: "coloured g \<Longrightarrow> category_tone g = category_tone h \<longleftrightarrow> group_category g = group_category h"
proof -
  assume g: "coloured g"
  have all: "\<forall>c \<in> {''todo'', ''in_progress'', ''done''}. \<forall>d \<in> {''todo'', ''in_progress'', ''done''}.
      map_of categoryTone c = map_of categoryTone d \<longrightarrow> c = d" by code_simp
  show ?thesis
  proof
    assume eq: "category_tone g = category_tone h"
    then have h: "coloured h" using g category_tone_Some by metis
    obtain c d where "group_category g = Some c" "group_category h = Some d" "c \<in> {''todo'', ''in_progress'', ''done''}" "d \<in> {''todo'', ''in_progress'', ''done''}"
      using g h unfolding coloured_def by blast
    then show "group_category g = group_category h" using eq all by (simp only: category_tone_def option.case simp_thms) blast
  qed (simp add: category_tone_def)
qed

lemma category_tones_Cons:
  "category_tones (g # gs) = (case category_tone g of Some tone \<Rightarrow> [(group_label g, tone)] | None \<Rightarrow> []) @ category_tones gs"
  by (simp add: category_tones_def category_tone_def split: option.splits)

lemma category_tones_at: "(l, tone) \<in> set (category_tones gs) \<longleftrightarrow> (\<exists>g \<in> set gs. group_label g = l \<and> category_tone g = Some tone)"
proof (induction gs)
  case (Cons g gs)
  then show ?case by (cases "category_tone g") (auto simp: category_tones_Cons)
qed (simp add: category_tones_def)

lemma category_tones_distinct: "distinct (map group_label gs) \<Longrightarrow> distinct (map fst (category_tones gs))"
proof (induction gs)
  case (Cons g gs)
  then have "group_label g \<notin> fst ` set (category_tones gs)" by (auto simp: category_tones_at) (metis image_eqI)
  then show ?case using Cons by (cases "category_tone g") (auto simp: category_tones_Cons)
qed (simp add: category_tones_def)

text \<open>A status wears its category, the fold its own colour, and any other group the colour of its place in the alphabet.\<close>

lemma tone_worn:
  assumes "distinct (map group_label gs)" "length gs \<le> 6" "g \<in> set gs"
    and other: "\<forall>g \<in> set gs. group_label g = OTHER \<longrightarrow> \<not> coloured g"
    and named_def: "named = js_sort lc (map group_label (filter (\<lambda>g. group_label g \<noteq> OTHER) gs))"
  shows "coloured g \<Longrightarrow> map_of (tonesFor lc gs) (group_label g) = category_tone g"
    "group_label g = OTHER \<Longrightarrow> map_of (tonesFor lc gs) (group_label g) = Some OTHER_TONE"
    "\<not> coloured g \<Longrightarrow> group_label g \<noteq> OTHER \<Longrightarrow> \<exists>i < 6. group_label g = named ! i \<and> map_of (tonesFor lc gs) (group_label g) = Some (tone_at i)"
proof -
  let ?names = "put_all [] (map (\<lambda>(i, label). (label, tone_at i)) (List.enumerate 0 named))"
  have t: "map_of (tonesFor lc gs) l = (if l = OTHER \<and> list_ex (\<lambda>g. group_label g = OTHER) gs then Some OTHER_TONE
      else map_of (put_all ?names (category_tones gs)) l)" for l
    by (simp add: tonesFor_def named_def Let_def)
  show "map_of (tonesFor lc gs) (group_label g) = category_tone g" if c: "coloured g"
  proof -
    obtain tone where tone: "category_tone g = Some tone" using c category_tone_Some by blast
    then have "(group_label g, tone) \<in> set (category_tones gs)" using assms(3) category_tones_at by blast
    moreover have "group_label g \<noteq> OTHER" using other assms(3) c by blast
    ultimately show ?thesis using put_all_distinct [OF category_tones_distinct [OF assms(1)]] tone by (simp add: t)
  qed
  show "map_of (tonesFor lc gs) (group_label g) = Some OTHER_TONE" if "group_label g = OTHER"
    using that assms(3) by (auto simp: t list_ex_iff)
  assume c: "\<not> coloured g" and no: "group_label g \<noteq> OTHER"
  have "h = g" if "h \<in> set gs" "group_label h = group_label g" for h
    using that assms(1,3) by (metis distinct_map inj_onD)
  then have "group_label g \<notin> fst ` set (category_tones gs)" using c category_tone_Some [of g] by (auto simp: category_tones_at) (metis option.distinct(1))
  then have w: "map_of (tonesFor lc gs) (group_label g) = map_of ?names (group_label g)" using no by (simp add: t put_all_other)
  have d: "distinct named" using assms(1) by (simp add: named_def distinct_map_filter)
  have len: "length named \<le> 6" using assms(2) order_trans [OF length_filter_le [of "\<lambda>g. group_label g \<noteq> OTHER" gs]] by (simp add: named_def)
  have "group_label g \<in> set named" using assms(3) no by (auto simp: named_def)
  then obtain i where i: "i < length named" "group_label g = named ! i" by (auto simp: in_set_conv_nth)
  then show "\<exists>i < 6. group_label g = named ! i \<and> map_of (tonesFor lc gs) (group_label g) = Some (tone_at i)"
    using tone_of_named [OF d i(1)] w len by (intro exI [of _ i]) simp
qed

lemma category_tone_apart: "category_tone g \<noteq> Some OTHER_TONE" "i < 6 \<Longrightarrow> category_tone g \<noteq> Some (tone_at i)"
proof -
  have tones: "snd ` set categoryTone \<inter> (insert OTHER_TONE (set CHART_TONES)) = {}" by code_simp
  have len: "length CHART_TONES = 6" by code_simp
  have "tone_at i \<in> set CHART_TONES" for i by (simp add: tone_at_def len)
  moreover have "tone \<in> snd ` set categoryTone" if "category_tone g = Some tone" for tone
    using that by (force simp: category_tone_def split: option.splits dest: map_of_SomeD)
  ultimately show "category_tone g \<noteq> Some OTHER_TONE" "i < 6 \<Longrightarrow> category_tone g \<noteq> Some (tone_at i)" using tones by blast+
qed

lemma tones_apart:
  assumes "distinct (map group_label gs)" "length gs \<le> 6" "g \<in> set gs" "h \<in> set gs"
    and "\<forall>g \<in> set gs. group_label g = OTHER \<longrightarrow> \<not> coloured g"
  shows "map_of (tonesFor lc gs) (group_label g) \<noteq> None"
    and "map_of (tonesFor lc gs) (group_label g) = map_of (tonesFor lc gs) (group_label h)
      \<longleftrightarrow> g = h \<or> coloured g \<and> group_category g = group_category h"
proof -
  note worn = tone_worn [OF assms(1,2) _ assms(5) refl, where lc = lc]
  have same: "g = h" if "group_label g = group_label h" using that assms(1,3,4) by (metis distinct_map inj_onD)
  note G = worn [OF assms(3)] and H = worn [OF assms(4)]
  show "map_of (tonesFor lc gs) (group_label g) \<noteq> None" using G category_tone_Some by (metis option.distinct(1))
  have cat: "coloured h" if "coloured g" "group_category g = group_category h" using that by (simp add: coloured_def)
  have one: "map_of (tonesFor lc gs) (group_label x) \<noteq> map_of (tonesFor lc gs) (group_label y)"
    if "x \<in> set gs" "y \<in> set gs" "coloured x" "\<not> coloured y" for x y
    using worn(1) [OF that(1,3)] worn(2,3) [OF that(2)] that(4) category_tone_apart(1) [of x] category_tone_apart(2) [of _ x] by metis
  consider "coloured g" "coloured h" | "coloured g \<noteq> coloured h" | "\<not> coloured g" "\<not> coloured h" by blast
  then show "map_of (tonesFor lc gs) (group_label g) = map_of (tonesFor lc gs) (group_label h)
      \<longleftrightarrow> g = h \<or> coloured g \<and> group_category g = group_category h"
  proof cases
    case 1
    then show ?thesis using G(1) H(1) category_tone_eq by auto
  next
    case 2
    then show ?thesis using one assms(3,4) cat by metis
  next
    case 3
    then show ?thesis using G(2,3) H(2,3) tones_distinct same by (metis option.inject)
  qed
qed

text \<open>C26: However many groups a report has, its chart shows six at most and loses nothing: the folded
  groups have the same sum, and the same sum under each name a stack is split by. Its donut goes once
  round without a gap or an overlap, each slice as wide as its share of the whole report. Where groups
  have different names, none of them that of the fold, every group has a colour, statuses of one
  category (to do, in progress or done) share that category's, and any other two groups wear different ones.\<close>
theorem chart_folds:
  assumes "\<forall>g \<in> set groups. 0 \<le> group_value g" "0 < value_sum groups"
  defines "gs \<equiv> foldTail groups (int CHART_MAX_GROUPS)"
  shows "length gs \<le> 6 \<and> value_sum gs = value_sum groups \<and> (\<forall>l. part_sum l gs = part_sum l groups)
    \<and> chained 0 (donutLayout gs) 1 \<and> (\<forall>a \<in> set (donutLayout gs). arc_end a - arc_start a = arc_value a / value_sum groups)
    \<and> (distinct (map group_label groups) \<and> OTHER \<notin> group_label ` set groups \<longrightarrow>
        (\<forall>g \<in> set gs. \<forall>h \<in> set gs. map_of (tonesFor lc gs) (group_label g) \<noteq> None
          \<and> (map_of (tonesFor lc gs) (group_label g) = map_of (tonesFor lc gs) (group_label h)
             \<longleftrightarrow> g = h \<or> group_category g \<in> {Some ''todo'', Some ''in_progress'', Some ''done''} \<and> group_category g = group_category h)))"
proof (intro conjI impI allI)
  show six: "length gs \<le> 6" using fold_length [of "int CHART_MAX_GROUPS" groups] by (simp add: gs_def config)
  show sum: "value_sum gs = value_sum groups" and "part_sum l gs = part_sum l groups" for l by (simp_all add: gs_def fold_keeps)
  have "\<forall>g \<in> set gs. 0 \<le> group_value g" using fold_nonneg [OF assms(1)] by (auto simp: gs_def)
  from donut_closes [OF this] assms(2) sum
  show "chained 0 (donutLayout gs) 1" "\<forall>a \<in> set (donutLayout gs). arc_end a - arc_start a = arc_value a / value_sum groups" by simp_all
  assume a: "distinct (map group_label groups) \<and> OTHER \<notin> group_label ` set groups"
  have "distinct (map group_label (take n groups)) \<and> OTHER \<notin> group_label ` set (take n groups)" for n
    using a distinct_take [of "map group_label groups" n] by (auto simp: take_map dest: in_set_takeD)
  then have d: "distinct (map group_label gs)" using a by (simp add: gs_def foldTail_def Let_def)
  have other: "\<forall>g \<in> set gs. group_label g = OTHER \<longrightarrow> \<not> coloured g"
  proof (intro ballI impI)
    fix g assume g: "g \<in> set gs" "group_label g = OTHER"
    then have "g \<notin> set groups" using a by force
    then have "group_category g = None" using g(1) by (auto simp: gs_def foldTail_def Let_def split: if_splits dest: in_set_takeD)
    then show "\<not> coloured g" by (simp add: coloured_def)
  qed
  show "\<forall>g \<in> set gs. \<forall>h \<in> set gs. map_of (tonesFor lc gs) (group_label g) \<noteq> None
      \<and> (map_of (tonesFor lc gs) (group_label g) = map_of (tonesFor lc gs) (group_label h)
         \<longleftrightarrow> g = h \<or> group_category g \<in> {Some ''todo'', Some ''in_progress'', Some ''done''} \<and> group_category g = group_category h)"
    unfolding coloured_def [symmetric] by (intro ballI conjI tones_apart [OF d six _ _ other])
qed

definition sample_group :: "string \<Rightarrow> real \<Rightarrow> ChartGroup" where
  "sample_group l v = \<lparr>group_label = l, group_category = None, group_value = v, group_parts = []\<rparr>"

theorem chart_folds_witness:
  "length (foldTail (map (\<lambda>i. sample_group (nat_str i) 1) [0..<8]) 6) \<le> 6
   \<and> value_sum (foldTail (map (\<lambda>i. sample_group (nat_str i) 1) [0..<8]) 6) = 8"
proof -
  have s: "value_sum (map (\<lambda>i. sample_group (nat_str i) 1) [0..<8]) = 8" by (simp add: value_sum_def sample_group_def comp_def upt_rec)
  then show ?thesis using chart_folds [of "map (\<lambda>i. sample_group (nat_str i) 1) [0..<8]"]
    by (simp add: sample_group_def CHART_MAX_GROUPS_def)
qed

section \<open>Bars\<close>

text \<open>No bar is higher than the tallest, which is as high as there is room.\<close>

lemma column_heights:
  assumes "\<forall>g \<in> set groups. 0 \<le> group_value g" "c \<in> set (columnLayout groups)"
  shows "0 \<le> col_height c \<and> col_height c \<le> 1"
proof -
  have m: "a \<le> foldl max a xs \<and> (\<forall>x \<in> set xs. x \<le> foldl max a xs)" for a :: real and xs
    by (induction xs arbitrary: a) (force simp: max_def)+
  from assms(2) obtain g where g: "g \<in> set groups" "col_height c = (if tallest groups > 0 then group_value g / tallest groups else 0)"
    by (auto simp: columnLayout_def Let_def)
  have "group_value g \<le> tallest groups" using m [of 0 "map group_value groups"] g(1) by (auto simp: tallest_def)
  with g assms(1) show ?thesis by simp
qed

text \<open>A bar's segments stand on each other to its own height when its parts add up to it.\<close>

lemma segments_fill:
  assumes "g \<in> set groups" "(\<Sum>p \<leftarrow> group_parts g. part_value p) = group_value g"
  shows "\<exists>c \<in> set (columnLayout groups). col_label c = group_label g \<and> (\<Sum>s \<leftarrow> col_segments c. seg_height s) = col_height c"
proof -
  have "(\<Sum>p \<leftarrow> ps. part_value p / m) = (\<Sum>p \<leftarrow> ps. part_value p) / m" for ps :: "ChartPart list" and m :: real
    by (induction ps) (simp_all add: add_divide_distrib)
  with assms show ?thesis unfolding columnLayout_def Let_def set_map
    by (intro bexI [OF _ imageI [OF assms(1)]]) (simp add: comp_def)
qed

end
