(* ===== verification/Burndown.thy ===== *)
theory Burndown
  imports Chart
begin

text \<open>
  A sprint's burndown, \<open>web/src/features/dashboard/burndown.ts\<close>: the days its chart spans, its three
  lines, what is said under it and the labels of its axis. A date that cannot be read is \<^const>\<open>None\<close>, and
  so is a position counted from one; writing such a date as text throws, which makes the whole answer
  \<^const>\<open>None\<close>. Numbers in sentences are written by a parameter.
\<close>

section \<open>Data\<close>

record BurndownPoint =
  bp_day :: string
  bp_scope :: real
  bp_done :: real
  bp_remaining :: real
  bp_issues :: int
  bp_issuesDone :: int
  bp_unestimated :: int

record SprintSummary =
  ss_id :: string
  ss_name :: string
  ss_goal :: "string option"
  ss_state :: "string option"
  ss_startsOn :: "string option"
  ss_endsOn :: "string option"
  ss_capacity :: "real option"
  ss_teamName :: "string option"

record SprintBurndown =
  sb_sprint :: SprintSummary
  sb_points :: "BurndownPoint list"
  sb_live :: bool

record burndown_words =
  bw_scope :: string
  bw_ideal :: string
  bw_remaining :: string
  bw_noDay :: string
  bw_left :: "string \<Rightarrow> string \<Rightarrow> string"
  bw_scopeMoved :: "string \<Rightarrow> string \<Rightarrow> string"
  bw_unestimated :: "string \<Rightarrow> string"
  bw_issuesDone :: "string \<Rightarrow> string \<Rightarrow> string"

definition burndownEn :: burndown_words where
  "burndownEn = \<lparr>bw_scope = ''scope'', bw_ideal = ''ideal'', bw_remaining = ''remaining'', bw_noDay = ''No day has been written down yet.'',
     bw_left = (\<lambda>r s. r @ '' of '' @ s @ '' pts left''), bw_scopeMoved = (\<lambda>a b. ''scope '' @ a @ '' to '' @ b @ '' pts''),
     bw_unestimated = (\<lambda>n. n @ '' unestimated''), bw_issuesDone = (\<lambda>d n. d @ ''/'' @ n @ '' issues done'')\<rparr>"

definition burndownDe :: burndown_words where
  "burndownDe = \<lparr>bw_scope = ''Umfang'', bw_ideal = ''Ideal'', bw_remaining = ''verbleibend'', bw_noDay = ''Noch wurde kein Tag festgehalten.'',
     bw_left = (\<lambda>r s. r @ '' von '' @ s @ '' Pkt. '' @ [CHR 0xFC] @ ''brig''), bw_scopeMoved = (\<lambda>a b. ''Umfang '' @ a @ '' auf '' @ b @ '' Pkt.''),
     bw_unestimated = (\<lambda>n. n @ '' ohne Sch'' @ [CHR 0xE4] @ ''tzung''), bw_issuesDone = (\<lambda>d n. d @ ''/'' @ n @ '' Vorg'' @ [CHR 0xE4] @ ''nge erledigt'')\<rparr>"

section \<open>The chart\<close>

definition dayIndex :: "int option \<Rightarrow> string \<Rightarrow> int option" where
  "dayIndex start stamp = (case (date_value (take 10 stamp), start) of
      (Some t, Some f) \<Rightarrow> Some (js_round (of_int (t - f) / of_int MS_PER_DAY)) | _ \<Rightarrow> None)"

text \<open>\<open>filter(Boolean)\<close> of two values, in text order.\<close>

definition given_days :: "string option list \<Rightarrow> string list" where
  "given_days ds = sort (concat (map (\<lambda>d. case d of Some s \<Rightarrow> if s \<noteq> [] then [s] else [] | None \<Rightarrow> []) ds))"

definition last_opt :: "'a list \<Rightarrow> 'a option" where
  "last_opt xs = (if xs = [] then None else Some (last xs))"

definition chartSpan :: "int \<Rightarrow> SprintBurndown \<Rightarrow> int option \<times> int option" where
  "chartSpan now curve =
     (let days = map (\<lambda>p. take 10 (bp_day p)) (sb_points curve);
          firstDays = given_days [map_option (take 10) (ss_startsOn (sb_sprint curve)), nth_opt days 0];
          lastDays = given_days [map_option (take 10) (ss_endsOn (sb_sprint curve)), last_opt days];
          first = (case firstDays of d # _ \<Rightarrow> d | [] \<Rightarrow> take 10 (toISOString now));
          final = (case last_opt lastDays of Some d \<Rightarrow> d | None \<Rightarrow> first)
      in (date_value first, date_value (if final < first then first else final)))"

definition last_day :: "SprintBurndown \<Rightarrow> int option \<Rightarrow> int option \<Rightarrow> int option option" where
  "last_day curve start till =
     (case ss_endsOn (sb_sprint curve) of
        Some e \<Rightarrow> Some (map_option (max 1) (dayIndex start e))
      | None \<Rightarrow> (case till of Some t \<Rightarrow> Some (map_option (max 1) (dayIndex start (toISOString t))) | None \<Rightarrow> None))"

definition burndownSeries :: "int \<Rightarrow> burndown_words \<Rightarrow> SprintBurndown \<Rightarrow> Series list option" where
  "burndownSeries now t curve =
     (let (start, till) = chartSpan now curve; x_of = (\<lambda>p. map_option of_int (dayIndex start (bp_day p)))
      in case last_day curve start till of
           None \<Rightarrow> None
         | Some lastDay \<Rightarrow>
             let remaining = map (\<lambda>p. (x_of p, bp_remaining p)) (sb_points curve);
                 scope = map (\<lambda>p. (x_of p, bp_scope p)) (sb_points curve);
                 ideal = (case sb_points curve of p # _ \<Rightarrow> [(x_of p, bp_scope p), (map_option of_int lastDay, 0)] | [] \<Rightarrow> [])
             in Some [\<lparr>series_name = bw_scope t, series_tone = ''text-ink-subtle'', series_points = scope, series_dashed = False, series_step = True\<rparr>,
                  \<lparr>series_name = bw_ideal t, series_tone = ''text-ink-muted'', series_points = ideal, series_dashed = True, series_step = False\<rparr>,
                  \<lparr>series_name = bw_remaining t, series_tone = ''text-accent'', series_points = remaining, series_dashed = False, series_step = False\<rparr>])"

definition describeScope :: "(real \<Rightarrow> string) \<Rightarrow> burndown_words \<Rightarrow> SprintBurndown \<Rightarrow> string" where
  "describeScope num t curve =
     (case sb_points curve of
        [] \<Rightarrow> bw_noDay t
      | first # _ \<Rightarrow>
          let final = last (sb_points curve)
          in join ('' '' @ [CHR 0xB7] @ '' '') ([bw_left t (num (bp_remaining final)) (num (bp_scope final))]
               @ (if bp_scope final \<noteq> bp_scope first then [bw_scopeMoved t (num (bp_scope first)) (num (bp_scope final))] else [])
               @ (if 0 < bp_unestimated final then [bw_unestimated t (int_str (bp_unestimated final))] else [])
               @ [bw_issuesDone t (int_str (bp_issuesDone final)) (int_str (bp_issues final))]))"

text \<open>The day and the month of a date; those of an invalid date are not numbers. Both ends are whole days, so
  the middle is a whole number of milliseconds.\<close>

definition axis_label :: "chart_words \<Rightarrow> int option \<Rightarrow> string" where
  "axis_label t d = (case d of Some v \<Rightarrow> cw_dayMonth t (int_str (getUTCDate v)) (int_str (getUTCMonth v + 1)) | None \<Rightarrow> cw_dayMonth t ''NaN'' ''NaN'')"

definition axisLabels :: "int \<Rightarrow> chart_words \<Rightarrow> SprintBurndown \<Rightarrow> string list" where
  "axisLabels now t curve =
     (let (start, till) = chartSpan now curve;
          mid = (case (start, till) of (Some a, Some b) \<Rightarrow> Some ((a + b) div 2) | _ \<Rightarrow> None)
      in [axis_label t start, axis_label t mid, axis_label t till])"

section \<open>Every day is on the chart\<close>

lemma sort_iso_dates: "\<forall>d \<in> set ds. plain_day d \<Longrightarrow> sort (map iso_date ds) = map iso_date (sort ds)"
proof (rule properties_for_sort)
  assume "\<forall>d \<in> set ds. plain_day d"
  moreover have "sorted (sort ds)" by simp
  ultimately show "sorted (map iso_date (sort ds))"
    by (auto simp: sorted_map iso_date_le_iff intro: sorted_wrt_mono_rel)
qed simp

text \<open>The days two values name, where they name one.\<close>

definition named_days :: "int option list \<Rightarrow> int list" where
  "named_days ds = concat (map (\<lambda>d. case d of Some n \<Rightarrow> [n] | None \<Rightarrow> []) ds)"

lemma given_iso_days:
  assumes "\<forall>d \<in> set (named_days ds). plain_day d"
  shows "given_days (map (map_option iso_date) ds) = map iso_date (sort (named_days ds))"
proof -
  have ne: "iso_date d \<noteq> []" if "plain_day d" for d using length_iso_date [OF that] by auto
  have "concat (map (\<lambda>d. case d of Some s \<Rightarrow> if s \<noteq> [] then [s] else [] | None \<Rightarrow> []) (map (map_option iso_date) ds)) = map iso_date (named_days ds)"
    using assms by (induction ds) (auto simp: named_days_def ne split: option.splits)
  then show ?thesis unfolding given_days_def using sort_iso_dates [OF assms] by simp
qed

definition first_day :: "int \<Rightarrow> int option \<Rightarrow> int list \<Rightarrow> int" where
  "first_day today s ds = (case named_days [s, nth_opt ds 0] of [] \<Rightarrow> today | ns \<Rightarrow> Min (set ns))"

definition final_day :: "int \<Rightarrow> int option \<Rightarrow> int list \<Rightarrow> int" where
  "final_day first e ds = Max (insert first (set (named_days [e, last_opt ds])))"

lemma sort_ends:
  assumes "xs \<noteq> []"
  shows "hd (sort xs) = Min (set xs)" "last (sort xs) = Max (set (xs :: int list))"
proof -
  have hd: "ys \<noteq> [] \<Longrightarrow> sorted ys \<Longrightarrow> Min (set ys) = hd ys" for ys :: "int list" by (cases ys) (auto intro: Min_eqI)
  have last: "ys \<noteq> [] \<Longrightarrow> sorted ys \<Longrightarrow> Max (set ys) = last ys" for ys :: "int list"
  proof (rule Max_eqI)
    fix y assume "sorted ys" "y \<in> set ys"
    then show "y \<le> last ys" by (induction ys) auto
  qed simp_all
  have "sort xs \<noteq> []" using assms by (metis set_empty set_sort)
  then show "hd (sort xs) = Min (set xs)" "last (sort xs) = Max (set xs)" using hd [of "sort xs"] last [of "sort xs"] by simp_all
qed

text \<open>A sprint whose dates are the days s and e, where it has them, and whose points are of the days ds.\<close>

definition dated :: "SprintBurndown \<Rightarrow> int option \<Rightarrow> int option \<Rightarrow> int list \<Rightarrow> bool" where
  "dated curve s e ds \<longleftrightarrow> map_option (take 10) (ss_startsOn (sb_sprint curve)) = map_option iso_date s
     \<and> map_option (take 10) (ss_endsOn (sb_sprint curve)) = map_option iso_date e
     \<and> map (\<lambda>p. take 10 (bp_day p)) (sb_points curve) = map iso_date ds
     \<and> (\<forall>d \<in> set (named_days [s, e]) \<union> set ds. plain_day d)"

lemma nth_last_opt_map: "nth_opt (map f xs) i = map_option f (nth_opt xs i)" "last_opt (map f xs) = map_option f (last_opt xs)"
  by (simp_all add: nth_opt_def last_opt_def last_map)

lemma named_two: "set (named_days [a, b]) = set_option a \<union> set_option b"
  by (cases a; cases b) (auto simp: named_days_def)

lemma opt_in: "set_option (nth_opt xs i) \<subseteq> set xs" "set_option (last_opt xs) \<subseteq> set xs"
  by (auto simp: nth_opt_def last_opt_def)

lemma span_days:
  assumes "dated curve s e ds" "plain_day (ms_day now)"
  defines "F \<equiv> first_day (ms_day now) s ds"
  shows "chartSpan now curve = (Some (F * MS_PER_DAY), Some (final_day F e ds * MS_PER_DAY))" "plain_day F" "plain_day (final_day F e ds)"
proof -
  have fn: "\<forall>d \<in> set (named_days [s, nth_opt ds 0]). plain_day d" and ln: "\<forall>d \<in> set (named_days [e, last_opt ds]). plain_day d"
    using assms(1) opt_in [of ds] unfolding dated_def named_two by blast+
  have fd: "given_days [map_option (take 10) (ss_startsOn (sb_sprint curve)), nth_opt (map (\<lambda>p. take 10 (bp_day p)) (sb_points curve)) 0]
      = map iso_date (sort (named_days [s, nth_opt ds 0]))"
    using given_iso_days [OF fn] assms(1) by (simp add: dated_def nth_last_opt_map)
  have ld: "given_days [map_option (take 10) (ss_endsOn (sb_sprint curve)), last_opt (map (\<lambda>p. take 10 (bp_day p)) (sb_points curve))]
      = map iso_date (sort (named_days [e, last_opt ds]))"
    using given_iso_days [OF ln] assms(1) by (simp add: dated_def nth_last_opt_map)
  have sort_Nil: "sort xs = [] \<longleftrightarrow> xs = []" for xs :: "int list" by (metis set_empty set_sort)
  have first: "(case map iso_date (sort (named_days [s, nth_opt ds 0])) of d # _ \<Rightarrow> d | [] \<Rightarrow> take 10 (toISOString now)) = iso_date F"
  proof (cases "named_days [s, nth_opt ds 0]")
    case Nil
    then show ?thesis using assms(2) by (simp add: F_def first_day_def take_iso_date)
  next
    case (Cons n ns)
    then have "hd (sort (named_days [s, nth_opt ds 0])) = F" using sort_ends(1) [of "named_days [s, nth_opt ds 0]"] by (simp add: F_def first_day_def)
    then show ?thesis using Cons sort_Nil [of "named_days [s, nth_opt ds 0]"] by (cases "sort (named_days [s, nth_opt ds 0])") simp_all
  qed
  show pF: "plain_day F"
  proof (cases "named_days [s, nth_opt ds 0]")
    case (Cons n ns)
    then have "F \<in> set (named_days [s, nth_opt ds 0])" using Min_in [of "set (named_days [s, nth_opt ds 0])"] by (simp add: F_def first_day_def)
    with fn show ?thesis by blast
  qed (simp add: F_def first_day_def assms(2))
  have "final_day F e ds \<in> insert F (set (named_days [e, last_opt ds]))" unfolding final_day_def by (rule Max_in) auto
  with pF ln show pL: "plain_day (final_day F e ds)" by (metis insertE)
  have final: "(let final = (case last_opt (map iso_date (sort (named_days [e, last_opt ds]))) of Some d \<Rightarrow> d | None \<Rightarrow> iso_date F)
      in if final < iso_date F then iso_date F else final) = iso_date (final_day F e ds)"
  proof (cases "named_days [e, last_opt ds] = []")
    case False
    define M where "M = Max (set (named_days [e, last_opt ds]))"
    have "M \<in> set (named_days [e, last_opt ds])" unfolding M_def using False by (intro Max_in) auto
    then have pM: "plain_day M" using ln by blast
    have "final_day F e ds = max F M" unfolding final_day_def M_def using False by (intro Max_insert) auto
    moreover have "last_opt (map iso_date (sort (named_days [e, last_opt ds]))) = Some (iso_date M)"
      using sort_ends(2) [OF False] False sort_Nil by (simp add: last_opt_def last_map M_def)
    ultimately show ?thesis using iso_date_less_iff [OF pM pF] by (simp add: max_def)
  qed (simp add: last_opt_def final_day_def)
  show "chartSpan now curve = (Some (F * MS_PER_DAY), Some (final_day F e ds * MS_PER_DAY))"
    using final date_value_day [OF pF] date_value_day [OF pL] unfolding chartSpan_def Let_def fd ld first by simp
qed

lemma day_index: "plain_day d \<Longrightarrow> take 10 stamp = iso_date d \<Longrightarrow> dayIndex (Some (f * MS_PER_DAY)) stamp = Some (d - f)"
proof -
  assume d: "plain_day d" "take 10 stamp = iso_date d"
  have "real_of_int (d * MS_PER_DAY - f * MS_PER_DAY) / of_int MS_PER_DAY = of_int (d - f)" by (simp add: field_simps flip: left_diff_distrib)
  with d show ?thesis by (simp add: dayIndex_def date_value_day del: of_int_diff of_int_mult)
qed

lemma days_in_span:
  assumes "sorted ds" "d \<in> set ds"
  shows "first_day today s ds \<le> d" "d \<le> final_day first e ds"
proof -
  obtain x xs where ds: "ds = x # xs" using assms(2) by (cases ds) auto
  have "x \<in> set (named_days [s, nth_opt ds 0])" by (simp add: named_two nth_opt_def ds)
  moreover have "x \<le> d" using assms ds by auto
  ultimately show "first_day today s ds \<le> d" by (cases "named_days [s, nth_opt ds 0]") (auto simp: first_day_def intro: order_trans [OF Min_le])
  have "last ds \<in> set (named_days [e, last_opt ds])" by (simp add: named_two last_opt_def ds)
  then have "last ds \<le> final_day first e ds" by (simp add: final_day_def)
  moreover have "d \<le> last ds" using assms by (induction ds) auto
  ultimately show "d \<le> final_day first e ds" by simp
qed

lemma points_x:
  assumes "map (\<lambda>p. take 10 (bp_day p)) ps = map iso_date ds" "\<forall>d \<in> set ds. plain_day d"
  shows "map (\<lambda>p. (map_option of_int (dayIndex (Some (F * MS_PER_DAY)) (bp_day p)), v p)) ps
    = zip (map (\<lambda>d. Some (real_of_int (d - F))) ds) (map v ps)"
  using assms
proof (induction ps arbitrary: ds)
  case (Cons p ps)
  then obtain d es where ds: "ds = d # es" by (cases ds) auto
  with Cons day_index [of d "bp_day p" F] show ?case by simp
qed simp

text \<open>C25: A sprint's burndown keeps every day on its chart. The chart runs from the sprint's first day or
  the first day written down, whichever is earlier, to its last day or the last one written down; its
  lines are drawn without an error, one point for every day that was written down and none invented, each
  at its own distance from the first day and inside the chart; and the line to follow goes from the first
  day's scope down to nothing on the sprint's last day, or a day later where that would be the first.\<close>
theorem burndown_spans:
  assumes "dated curve s e ds" "sorted ds" "plain_day (ms_day now)"
  defines "F \<equiv> first_day (ms_day now) s ds"
  defines "L \<equiv> final_day F e ds"
  shows "chartSpan now curve = (Some (F * MS_PER_DAY), Some (L * MS_PER_DAY))
    \<and> map_option (map series_points) (burndownSeries now t curve)
      = Some [zip (map (\<lambda>d. Some (real_of_int (d - F))) ds) (map bp_scope (sb_points curve)),
          (case sb_points curve of p # _ \<Rightarrow> [(Some (real_of_int (hd ds - F)), bp_scope p),
             (Some (real_of_int (max 1 ((case e of Some n \<Rightarrow> n | None \<Rightarrow> L) - F))), 0)] | [] \<Rightarrow> []),
          zip (map (\<lambda>d. Some (real_of_int (d - F))) ds) (map bp_remaining (sb_points curve))]
    \<and> (\<forall>d \<in> set ds. 0 \<le> d - F \<and> d \<le> L) \<and> length ds = length (sb_points curve)"
proof -
  have pts: "map (\<lambda>p. take 10 (bp_day p)) (sb_points curve) = map iso_date ds" "\<forall>d \<in> set ds. plain_day d"
    using assms(1) by (auto simp: dated_def)
  note span = span_days [OF assms(1,3), folded F_def, folded L_def]
  have ending: "last_day curve (Some (F * MS_PER_DAY)) (Some (L * MS_PER_DAY)) = Some (Some (max 1 ((case e of Some n \<Rightarrow> n | None \<Rightarrow> L) - F)))"
  proof (cases e)
    case None
    have "take 10 (toISOString (L * MS_PER_DAY)) = iso_date L" using take_iso_date [of "L * MS_PER_DAY"] span(3) by simp
    with None assms(1) span(3) show ?thesis by (auto simp: last_day_def dated_def day_index)
  next
    case (Some n)
    then have "plain_day n" using assms(1) by (auto simp: dated_def named_two)
    with Some assms(1) show ?thesis by (auto simp: last_day_def dated_def day_index)
  qed
  have head: "sb_points curve = p # ps \<Longrightarrow> dayIndex (Some (F * MS_PER_DAY)) (bp_day p) = Some (hd ds - F)" for p ps
    using pts by (cases ds) (auto simp: day_index)
  have "map_option (map series_points) (burndownSeries now t curve)
      = Some [zip (map (\<lambda>d. Some (real_of_int (d - F))) ds) (map bp_scope (sb_points curve)),
          (case sb_points curve of p # _ \<Rightarrow> [(Some (real_of_int (hd ds - F)), bp_scope p),
             (Some (real_of_int (max 1 ((case e of Some n \<Rightarrow> n | None \<Rightarrow> L) - F))), 0)] | [] \<Rightarrow> []),
          zip (map (\<lambda>d. Some (real_of_int (d - F))) ds) (map bp_remaining (sb_points curve))]"
    unfolding burndownSeries_def Let_def span(1) prod.case ending option.case points_x [OF pts]
    using head by (simp split: list.split)
  moreover have "length ds = length (sb_points curve)" using pts(1) by (metis length_map)
  ultimately show ?thesis using span(1) days_in_span [OF assms(2)] by (simp add: F_def L_def)
qed

definition sample_curve :: SprintBurndown where
  "sample_curve = \<lparr>sb_sprint = \<lparr>ss_id = ''s'', ss_name = ''s'', ss_goal = None, ss_state = None, ss_startsOn = Some (iso_date 20460), ss_endsOn = None,
       ss_capacity = None, ss_teamName = None\<rparr>,
     sb_points = [\<lparr>bp_day = iso_date 20459, bp_scope = 8, bp_done = 0, bp_remaining = 8, bp_issues = 3, bp_issuesDone = 0, bp_unestimated = 0\<rparr>,
       \<lparr>bp_day = iso_date 20461, bp_scope = 8, bp_done = 3, bp_remaining = 5, bp_issues = 3, bp_issuesDone = 1, bp_unestimated = 0\<rparr>], sb_live = False\<rparr>"

theorem burndown_spans_witness:
  "chartSpan (20461 * MS_PER_DAY) sample_curve = (Some (20459 * MS_PER_DAY), Some (20461 * MS_PER_DAY))"
proof -
  have p: "plain_day 20459" "plain_day 20460" "plain_day 20461" by code_simp+
  then have "dated sample_curve (Some 20460) None [20459, 20461]"
    using length_iso_date by (simp add: dated_def sample_curve_def named_days_def)
  from burndown_spans [OF this, of "20461 * MS_PER_DAY"] p show ?thesis
    by (simp add: first_day_def final_day_def named_days_def nth_opt_def last_opt_def)
qed

end
