(* ===== verification/Format.thy ===== *)
theory Format
  imports JsNumber KitWords LocalTime
begin

text \<open>
  Time in the reader's zone and language, \<open>web/src/lib/format.ts\<close>: how long ago something was, today,
  and the instant a day ends. What the engine's \<open>Intl\<close> writes is a parameter, \<open>engine\<close>: a formatter or
  nothing where the language or the zone is not known and the constructor throws. What the functions
  rely on is stated as the locale \<open>known_zone\<close>. A result that is \<^const>\<open>None\<close> is an exception.
\<close>

section \<open>Relative time\<close>

datatype date_style = Medium_date | Medium_date_time | Short_time

record engine =
  en_date :: "string \<Rightarrow> string \<Rightarrow> date_style \<Rightarrow> (int \<Rightarrow> string) option"
  en_own_date :: "date_style \<Rightarrow> int \<Rightarrow> string"
  en_number :: "string \<Rightarrow> (real \<Rightarrow> string) option"
  en_parts :: "string \<Rightarrow> int \<Rightarrow> (string \<times> string) list option"
  en_own_parts :: "int \<Rightarrow> (string \<times> string) list"

definition MINUTE :: int where "MINUTE = 60"

definition HOUR :: int where "HOUR = 60 * MINUTE"

definition DAY :: int where "DAY = 24 * HOUR"

definition MONTH :: int where "MONTH = 30 * DAY"

definition rounded :: "int \<Rightarrow> int \<Rightarrow> int" where
  "rounded n per = js_round (of_int n / of_int per)"

definition relativeIn :: "engine \<Rightarrow> kit_words \<Rightarrow> string \<Rightarrow> string \<Rightarrow> string \<Rightarrow> int \<Rightarrow> string option" where
  "relativeIn en t stamp loc timezone now =
     (case date_value stamp of
        None \<Rightarrow> None
      | Some v \<Rightarrow>
          let seconds = rounded (now - v) 1000
          in if seconds < MINUTE then Some (kw_now t)
             else let minutes = rounded seconds MINUTE
             in if minutes < 60 then Some (kw_minutes t minutes)
             else let hours = rounded seconds HOUR
             in if hours < 24 then Some (kw_hours t hours)
             else let days = rounded seconds DAY
             in if seconds < MONTH then Some (kw_days t days)
             else map_option (\<lambda>f. f v) (en_date en loc timezone Medium_date))"

section \<open>The reader's formats\<close>

record Format =
  fmt_date :: "string \<Rightarrow> string option"
  fmt_dateTime :: "string \<Rightarrow> string option"
  fmt_time :: "string \<Rightarrow> string option"
  fmt_relative :: "string \<Rightarrow> int \<Rightarrow> string option"
  fmt_number :: "real \<Rightarrow> string"
  fmt_timezone :: string
  fmt_locale :: string

definition safe_format :: "engine \<Rightarrow> string \<Rightarrow> string \<Rightarrow> date_style \<Rightarrow> int \<Rightarrow> string" where
  "safe_format en loc timezone style = (case en_date en loc timezone style of Some f \<Rightarrow> f | None \<Rightarrow> en_own_date en style)"

text \<open>The formats of dates fall to the browser's own where the profile's cannot be had; that of numbers does not.\<close>

definition makeFormat :: "engine \<Rightarrow> kit_words \<Rightarrow> string \<Rightarrow> string \<Rightarrow> Format option" where
  "makeFormat en t loc timezone =
     (case en_number en loc of
        None \<Rightarrow> None
      | Some number \<Rightarrow> Some
          \<lparr>fmt_date = (\<lambda>stamp. map_option (safe_format en loc timezone Medium_date) (date_value stamp)),
           fmt_dateTime = (\<lambda>stamp. map_option (safe_format en loc timezone Medium_date_time) (date_value stamp)),
           fmt_time = (\<lambda>stamp. map_option (safe_format en loc timezone Short_time) (date_value stamp)),
           fmt_relative = (\<lambda>stamp now. relativeIn en t stamp loc timezone now),
           fmt_number = number, fmt_timezone = timezone, fmt_locale = loc\<rparr>)"

text \<open>The profile's language and zone, where it has them, or the browser's.\<close>

definition or_else :: "string option \<Rightarrow> string \<Rightarrow> string" where
  "or_else v own = (case v of Some s \<Rightarrow> if s \<noteq> [] then s else own | None \<Rightarrow> own)"

definition useFormat :: "engine \<Rightarrow> kit_words \<Rightarrow> (string option \<times> string option) option \<Rightarrow> string \<Rightarrow> string \<Rightarrow> Format option" where
  "useFormat en t user browserLocale browserZone =
     makeFormat en t (or_else (Option.bind user fst) browserLocale) (or_else (Option.bind user snd) browserZone)"

section \<open>The clock on the wall\<close>

definition whole_part :: "js_number \<Rightarrow> int option" where
  "whole_part v = (case v of Fin x \<Rightarrow> Some (if 0 \<le> x then \<lfloor>x\<rfloor> else \<lceil>x\<rceil>) | _ \<Rightarrow> None)"

definition part_of :: "(string \<times> string) list \<Rightarrow> string \<Rightarrow> int option" where
  "part_of parts ty = (case js_find (\<lambda>p. fst p = ty) parts of Some p \<Rightarrow> whole_part (read_number (snd p)) | None \<Rightarrow> None)"

definition parts_at :: "engine \<Rightarrow> int \<Rightarrow> string \<Rightarrow> (string \<times> string) list" where
  "parts_at en instant timezone = (case en_parts en timezone instant of Some ps \<Rightarrow> ps | None \<Rightarrow> en_own_parts en instant)"

definition wallClock :: "engine \<Rightarrow> int \<Rightarrow> string \<Rightarrow> int option" where
  "wallClock en instant timezone =
     (let part = part_of (parts_at en instant timezone)
      in case (part ''year'', part ''month'', part ''day'', part ''hour'', part ''minute'', part ''second'') of
           (Some y, Some mo, Some d, Some h, Some mi, Some s) \<Rightarrow> Some (date_UTC y (mo - 1) d + h * 3600000 + mi * 60000 + s * 1000)
         | _ \<Rightarrow> None)"

definition todayIn :: "engine \<Rightarrow> string \<Rightarrow> int \<Rightarrow> string option" where
  "todayIn en timezone now = map_option (\<lambda>w. take 10 (toISOString w)) (wallClock en now timezone)"

text \<open>An instant as text has one dot, before its milliseconds, so there is one place to replace.\<close>

definition drop_millis :: "string \<Rightarrow> string" where
  "drop_millis s = (if endsWith s ''.000Z'' then take (length s - 5) s @ ''Z'' else s)"

definition end_instant :: "engine \<Rightarrow> string \<Rightarrow> int \<Rightarrow> int option" where
  "end_instant en timezone wall =
     Option.bind (wallClock en wall timezone) (\<lambda>w. let guess = wall - (w - wall)
       in map_option (\<lambda>g. wall - (g - guess)) (wallClock en guess timezone))"

definition endOfDayIn :: "engine \<Rightarrow> string \<Rightarrow> string \<Rightarrow> string option" where
  "endOfDayIn en day timezone =
     map_option (\<lambda>instant. drop_millis (toISOString instant)) (Option.bind (date_value (day @ ''T23:59:59Z'')) (end_instant en timezone))"

section \<open>What the engine promises of a zone\<close>

text \<open>The parts of a wall clock as they are written for the United States with the options asked for.\<close>

definition clock_parts :: "int \<Rightarrow> (string \<times> string) list" where
  "clock_parts w =
     (let ms = w mod MS_PER_DAY
      in [(''month'', two_digits (getUTCMonth w + 1)), (''literal'', ''/''), (''day'', two_digits (getUTCDate w)), (''literal'', ''/''),
          (''year'', int_str (getUTCFullYear w)), (''literal'', '', ''), (''hour'', two_digits (ms div 3600000)), (''literal'', '':''),
          (''minute'', two_digits (ms div 60000 mod 60)), (''literal'', '':''), (''second'', two_digits (ms div 1000 mod 60))])"

lemma read_two_digits: "0 \<le> n \<Longrightarrow> n \<le> 99 \<Longrightarrow> whole_part (read_number (two_digits n)) = Some n"
proof -
  assume n: "0 \<le> n" "n \<le> 99"
  have "padStart 2 (nat_str (nat n)) \<noteq> []" by (simp add: padStart_def)
  then have "read_number (two_digits n) = Fin (real (nat n))"
    using read_number_plain(1) [of "two_digits n" "[]"] padStart_digits [of 2 "nat n"] by (simp add: two_digits_def)
  with n show ?thesis by (simp add: whole_part_def)
qed

lemma read_year: "0 \<le> n \<Longrightarrow> whole_part (read_number (int_str n)) = Some n"
  using read_number_plain(1) [of "nat_str (nat n)" "[]"] nat_str_digits [of "nat n"] by (simp add: whole_part_def int_str_def)

lemma clock_sum: "ms div 3600000 * 3600000 + (ms div 60000 mod 60 * 60000 + ms div 1000 mod 60 * 1000) = ms - ms mod (1000 :: int)"
proof -
  define q where "q = ms div 1000"
  have d: "ms div 60000 = q div 60" "ms div 3600000 = q div 60 div 60" by (simp_all add: q_def flip: zdiv_zmult2_eq)
  show ?thesis unfolding d q_def [symmetric]
    using div_mult_mod_eq [of "q div 60" 60] div_mult_mod_eq [of q 60] div_mult_mod_eq [of ms 1000, folded q_def] by linarith
qed

lemma written_parts:
  fixes mo dd y h mi se :: string
  defines "ps \<equiv> [(''month'', mo), (''literal'', ''/''), (''day'', dd), (''literal'', ''/''), (''year'', y), (''literal'', '', ''), (''hour'', h), (''literal'', '':''),
    (''minute'', mi), (''literal'', '':''), (''second'', se)]"
  shows "part_of ps ''year'' = whole_part (read_number y)" "part_of ps ''month'' = whole_part (read_number mo)"
    "part_of ps ''day'' = whole_part (read_number dd)" "part_of ps ''hour'' = whole_part (read_number h)"
    "part_of ps ''minute'' = whole_part (read_number mi)" "part_of ps ''second'' = whole_part (read_number se)"
  by (simp_all add: part_of_def ps_def)

text \<open>The year is read back where it has three digits or four: \<open>Date.UTC\<close> takes a shorter one for one of the last century.\<close>

definition plain_clock :: "int \<Rightarrow> bool" where
  "plain_clock w \<longleftrightarrow> 100 \<le> getUTCFullYear w"

lemma clock_read:
  assumes "plain_clock w"
  shows "(let part = part_of (clock_parts w)
      in case (part ''year'', part ''month'', part ''day'', part ''hour'', part ''minute'', part ''second'') of
           (Some y, Some mo, Some d, Some h, Some mi, Some s) \<Rightarrow> Some (date_UTC y (mo - 1) d + h * 3600000 + mi * 60000 + s * 1000)
         | _ \<Rightarrow> None) = Some (w - w mod 1000)"
proof -
  define ms where "ms = w mod MS_PER_DAY"
  have ms: "0 \<le> ms" "ms < 86400000" by (simp_all add: ms_def MS_PER_DAY_def)
  then have h: "0 \<le> ms div 3600000" "ms div 3600000 \<le> 99" by (simp_all add: pos_imp_zdiv_nonneg_iff zdiv_mono1 [of _ 86399999 3600000, THEN order_trans])
  have m: "0 \<le> k mod 60" "k mod 60 \<le> 99" for k :: int using pos_mod_bound [of 60 k] by auto
  have dm: "0 \<le> getUTCMonth w + 1" "getUTCMonth w + 1 \<le> 99" "0 \<le> getUTCDate w" "getUTCDate w \<le> 99"
    using day_month_range [of "ms_day w"] day_date_range [of "ms_day w"] by (simp_all add: getUTCMonth_def getUTCDate_def)
  have y: "0 \<le> getUTCFullYear w" "full_year (getUTCFullYear w) = getUTCFullYear w" using assms by (simp_all add: plain_clock_def full_year_def)
  have parts: "part_of (clock_parts w) ''year'' = Some (getUTCFullYear w)" "part_of (clock_parts w) ''month'' = Some (getUTCMonth w + 1)"
    "part_of (clock_parts w) ''day'' = Some (getUTCDate w)" "part_of (clock_parts w) ''hour'' = Some (ms div 3600000)"
    "part_of (clock_parts w) ''minute'' = Some (ms div 60000 mod 60)" "part_of (clock_parts w) ''second'' = Some (ms div 1000 mod 60)"
    unfolding clock_parts_def Let_def written_parts ms_def [symmetric]
    by (rule read_year [OF y(1)] read_two_digits [OF dm(1,2)] read_two_digits [OF dm(3,4)] read_two_digits [OF h] read_two_digits [OF m])+
  have "date_UTC (getUTCFullYear w) (getUTCMonth w) (getUTCDate w) = ms_day w * MS_PER_DAY"
    unfolding date_UTC_def y(2) by (simp add: getUTCFullYear_def getUTCMonth_def getUTCDate_def)
  moreover have "ms_day w * MS_PER_DAY + ms = w" by (simp add: ms_def)
  moreover have "ms mod 1000 = w mod 1000" by (simp add: ms_def MS_PER_DAY_def mod_mod_cancel)
  ultimately have "date_UTC (getUTCFullYear w) (getUTCMonth w) (getUTCDate w) + ms div 3600000 * 3600000 + ms div 60000 mod 60 * 60000 + ms div 1000 mod 60 * 1000
      = w - w mod 1000" using clock_sum [of ms] by linarith
  then show ?thesis unfolding Let_def parts prod.case option.case add_diff_cancel_right' by (simp only:)
qed

text \<open>A zone the engine knows, by the clock on its walls.\<close>

locale known_zone =
  fixes en :: engine and tz :: string and wall :: "int \<Rightarrow> int"
  assumes parts: "en_parts en tz t = Some (clock_parts (wall t))"
begin

lemma wall_clock: "plain_clock (wall t) \<Longrightarrow> wallClock en t tz = Some (wall t - wall t mod 1000)"
  using clock_read [of "wall t"] by (simp add: wallClock_def parts_at_def parts)

lemma today:
  assumes "plain_clock (wall t)" "plain_day (ms_day (wall t))"
  shows "todayIn en tz t = Some (iso_date (ms_day (wall t)))"
proof -
  have "ms_day (wall t - wall t mod 1000) = ms_day (wall t)"
  proof -
    have k: "MS_PER_DAY = 1000 * 86400" by (simp add: MS_PER_DAY_def)
    have "(wall t - wall t mod 1000) div 1000 = wall t div 1000" by (simp add: minus_mod_eq_div_mult)
    then show ?thesis unfolding k by (simp only: zdiv_zmult2_eq [OF zero_le_numeral])
  qed
  with assms take_iso_date [of "wall t - wall t mod 1000"] show ?thesis by (simp add: todayIn_def wall_clock)
qed

end

definition ahead :: "int \<Rightarrow> int \<Rightarrow> int \<Rightarrow> int \<Rightarrow> int" where
  "ahead T a b t = (if t < T then a else b)"

text \<open>
  A zone whose clocks change at most once in the two days around a clock reading W: by whole seconds, at
  the instant T, from a milliseconds ahead of UTC to b.
\<close>

locale changing_zone = known_zone +
  fixes W T a b :: int
  assumes near: "\<bar>t - W\<bar> \<le> 2 * MS_PER_DAY \<Longrightarrow> wall t = t + (if t < T then a else b) \<and> plain_clock (wall t)"
    and small: "\<bar>a\<bar> < MS_PER_DAY" "\<bar>b\<bar> < MS_PER_DAY"
    and seconds: "1000 dvd W" "1000 dvd T" "1000 dvd a" "1000 dvd b"
begin

lemma clock_near: "\<bar>t - W\<bar> \<le> 2 * MS_PER_DAY \<Longrightarrow> 1000 dvd t \<Longrightarrow> wallClock en t tz = Some (t + ahead T a b t)"
  using near [of t] wall_clock [of t] seconds by (auto simp: ahead_def dvd_imp_mod_0)

lemma asked_twice: "end_instant en tz W = Some (W - ahead T a b (W - ahead T a b W))"
proof -
  have "\<bar>W - ahead T a b W - W\<bar> \<le> 2 * MS_PER_DAY" "1000 dvd W - ahead T a b W"
    using small seconds by (auto simp: ahead_def)
  then have "wallClock en (W - ahead T a b W) tz = Some (W - ahead T a b W + ahead T a b (W - ahead T a b W))" by (rule clock_near)
  with clock_near [of W] seconds(1) show ?thesis by (simp add: end_instant_def)
qed

lemma answer_near: "\<bar>W - ahead T a b u - W\<bar> \<le> 2 * MS_PER_DAY"
  using small by (auto simp: ahead_def)

lemma next_second: "x < y \<Longrightarrow> 1000 dvd x \<Longrightarrow> 1000 dvd y \<Longrightarrow> x + 1000 \<le> (y :: int)"
  using zdvd_imp_le [of 1000 "y - x"] by (simp add: dvd_diff)

lemma unique_answer:
  assumes "\<not> (T + a \<le> W \<and> W < T + b)" "\<not> (T + b \<le> W \<and> W < T + a \<and> W < T)"
  defines "t \<equiv> W - ahead T a b (W - ahead T a b W)"
  shows "wall t = W" "\<bar>u - W\<bar> \<le> 2 * MS_PER_DAY \<Longrightarrow> wall u < W + 1000 \<Longrightarrow> u < t + 1000"
proof -
  have "ahead T a b t = ahead T a b (W - ahead T a b W)" using assms(1,2) by (auto simp: t_def ahead_def split: if_splits)
  then show "wall t = W" using near [OF answer_near [of "W - ahead T a b W"]] by (simp add: t_def ahead_def)
  assume u: "\<bar>u - W\<bar> \<le> 2 * MS_PER_DAY" "wall u < W + 1000"
  then have w: "u + ahead T a b u < W + 1000" using near [of u] by (simp add: ahead_def)
  have later: "W + 1000 \<le> T + b" if "W < T + b" using that seconds by (intro next_second) auto
  have later': "W + 1000 \<le> T + a" if "W < T + a" using that seconds by (intro next_second) auto
  show "u < t + 1000"
    using w later later' assms(1,2) unfolding t_def ahead_def by (auto split: if_splits)
qed

lemma early_answer:
  assumes "T + b \<le> W" "W < T + a" "W < T"
  shows "end_instant en tz W = Some (W - a)" "wall (W - a) = W" "wall (W - b) = W"
proof -
  show "end_instant en tz W = Some (W - a)" using asked_twice assms by (simp add: ahead_def)
  show "wall (W - a) = W" "wall (W - b) = W"
    using near [of "W - a"] near [of "W - b"] small assms by simp_all
qed

end

text \<open>An engine that knows one zone, and the zones of Berlin and Santiago around a change of their clocks in 2026.\<close>

definition one_change :: "int \<Rightarrow> int \<Rightarrow> int \<Rightarrow> int \<Rightarrow> int" where
  "one_change T a b t = t + (if t < T then a else b)"

definition engine_of :: "(int \<Rightarrow> int) \<Rightarrow> engine" where
  "engine_of wall = \<lparr>en_date = (\<lambda>l z s. None), en_own_date = (\<lambda>s t. toISOString t), en_number = (\<lambda>l. None),
     en_parts = (\<lambda>z t. Some (clock_parts (wall t))), en_own_parts = (\<lambda>t. clock_parts t)\<rparr>"

interpretation any_zone: known_zone "engine_of wall" tz wall
  by unfold_locales (simp add: engine_of_def)

lemma clocks_plain:
  assumes "100 \<le> year_from_day (ms_day (W - 3 * MS_PER_DAY))" "\<bar>a\<bar> < MS_PER_DAY" "\<bar>b\<bar> < MS_PER_DAY" "\<bar>t - W\<bar> \<le> 2 * MS_PER_DAY"
  shows "plain_clock (one_change T a b t)"
proof -
  have "W - 3 * MS_PER_DAY \<le> one_change T a b t" using assms(2-4) by (auto simp: one_change_def)
  then have "year_from_day (ms_day (W - 3 * MS_PER_DAY)) \<le> year_from_day (ms_day (one_change T a b t))"
    by (intro year_from_day_mono zdiv_mono1) simp_all
  with assms(1) show ?thesis by (simp add: plain_clock_def getUTCFullYear_def)
qed

lemma one_change_zone:
  assumes "100 \<le> year_from_day (ms_day (W - 3 * MS_PER_DAY))" "\<bar>a\<bar> < MS_PER_DAY" "\<bar>b\<bar> < MS_PER_DAY"
    "1000 dvd W" "1000 dvd T" "1000 dvd a" "1000 dvd b"
  shows "changing_zone (engine_of (one_change T a b)) tz (one_change T a b) W T a b"
  using assms clocks_plain [OF assms(1-3)] any_zone.known_zone_axioms
  by (intro changing_zone.intro changing_zone_axioms.intro) (auto simp: one_change_def)

interpretation berlin: changing_zone "engine_of (one_change 1774746000000 3600000 7200000)" "''Europe/Berlin''"
  "one_change 1774746000000 3600000 7200000" 1774828799000 1774746000000 3600000 7200000
  by (rule one_change_zone; code_simp)

interpretation santiago: changing_zone "engine_of (one_change 1775358000000 (- 10800000) (- 14400000))" "''America/Santiago''"
  "one_change 1775358000000 (- 10800000) (- 14400000)" 1775347199000 1775358000000 "- 10800000" "- 14400000"
  by (rule one_change_zone; code_simp)

section \<open>The end of a day\<close>

lemma last_clock: "read_clock ''23:59:59Z'' = Some 86399000"
  by code_simp

lemma date_value_evening: "plain_day d \<Longrightarrow> date_value (iso_date d @ ''T23:59:59Z'') = Some (d * MS_PER_DAY + 86399000)"
  by (simp add: date_value_def length_iso_date read_iso_date read_sep_def last_clock)

text \<open>C24: The end of a day in the reader's zone is its last second, also where the clocks change on that day
  or around it: the clock on the wall shows 23:59:59 then, and no instant from a second later on is still
  that day. Two evenings are left out, and both come with a change of the clocks: one that has no
  23:59:59, and one that has it twice while UTC has not yet come as far.\<close>
theorem end_of_day_exact:
  assumes "changing_zone en tz wall W T a b" "W = d * MS_PER_DAY + 86399000" "plain_day d"
    "\<not> (T + a \<le> W \<and> W < T + b)" "\<not> (T + b \<le> W \<and> W < T + a \<and> W < T)"
  shows "\<exists>t. endOfDayIn en (iso_date d) tz = Some (drop_millis (toISOString t)) \<and> wall t = W
    \<and> (\<forall>u. \<bar>u - W\<bar> \<le> 2 * MS_PER_DAY \<and> ms_day (wall u) = d \<longrightarrow> u < t + 1000)"
proof -
  obtain t where t: "end_instant en tz W = Some t" "wall t = W" "\<And>u. \<bar>u - W\<bar> \<le> 2 * MS_PER_DAY \<Longrightarrow> wall u < W + 1000 \<Longrightarrow> u < t + 1000"
    using changing_zone.asked_twice [OF assms(1)] changing_zone.unique_answer [OF assms(1) assms(4,5)] by blast
  have "wall u < W + 1000" if "ms_day (wall u) = d" for u
    using that div_mult_mod_eq [of "wall u" MS_PER_DAY] pos_mod_bound [of MS_PER_DAY "wall u"] by (simp add: assms(2) MS_PER_DAY_def)
  with t show ?thesis using date_value_evening [OF assms(3)] by (auto simp: endOfDayIn_def assms(2))
qed

theorem end_of_day_exact_witness:
  "\<exists>t. endOfDayIn (engine_of (one_change 1774746000000 3600000 7200000)) (iso_date 20541) ''Europe/Berlin'' = Some (drop_millis (toISOString t))
     \<and> t + 7200000 = 20541 * MS_PER_DAY + 86399000"
proof -
  have p: "plain_day 20541" and w: "1774828799000 = 20541 * MS_PER_DAY + 86399000" by code_simp+
  from end_of_day_exact [OF berlin.changing_zone_axioms w p] obtain t where
    t: "endOfDayIn (engine_of (one_change 1774746000000 3600000 7200000)) (iso_date 20541) ''Europe/Berlin'' = Some (drop_millis (toISOString t))"
      "one_change 1774746000000 3600000 7200000 t = 1774828799000" by auto
  then show ?thesis by (intro exI [of _ t]) (auto simp: one_change_def MS_PER_DAY_def split: if_splits)
qed

text \<open>
  West of Greenwich, on a night whose clocks go from midnight back into the evening, the day is ended the
  first time they show its last second: in Santiago on 4 April 2026 an hour early.
\<close>

lemma day_ends_early:
  "iso_date 20547 = ''2026-04-04''"
  "endOfDayIn (engine_of (one_change 1775358000000 (- 10800000) (- 14400000))) ''2026-04-04'' ''America/Santiago'' = Some ''2026-04-05T02:59:59Z''"
  "one_change 1775358000000 (- 10800000) (- 14400000) (1775357999000 + 3600000) = 20547 * MS_PER_DAY + 86399000"
proof -
  show d: "iso_date 20547 = ''2026-04-04''" by code_simp
  have p: "plain_day 20547" and w: "20547 * MS_PER_DAY + 86399000 = 1775347199000" by code_simp+
  have t: "drop_millis (toISOString 1775357999000) = ''2026-04-05T02:59:59Z''" by code_simp
  have v: "date_value (''2026-04-04'' @ ''T23:59:59Z'') = Some 1775347199000" using date_value_evening [OF p] unfolding d w .
  show "endOfDayIn (engine_of (one_change 1775358000000 (- 10800000) (- 14400000))) ''2026-04-04'' ''America/Santiago'' = Some ''2026-04-05T02:59:59Z''"
    using santiago.early_answer(1) t unfolding endOfDayIn_def v by simp
  show "one_change 1775358000000 (- 10800000) (- 14400000) (1775357999000 + 3600000) = 20547 * MS_PER_DAY + 86399000" by code_simp
qed

section \<open>How long ago\<close>

text \<open>A count of minutes, hours or days that is shown is at least one, and less than what makes the next unit.\<close>

lemma rounded_ge: "0 < per \<Longrightarrow> per \<le> 2 * n \<Longrightarrow> 1 \<le> rounded n per"
proof -
  assume "0 < per" "per \<le> 2 * n"
  then have "1 / 2 \<le> real_of_int n / of_int per" by (simp add: field_simps)
  then show ?thesis unfolding rounded_def js_round_def by linarith
qed

lemma rounded_below: "0 < per \<Longrightarrow> \<not> rounded n per < k \<Longrightarrow> (2 * k - 1) * per \<le> 2 * n"
proof -
  assume "0 < per" "\<not> rounded n per < k"
  then have "real_of_int k \<le> real_of_int n / of_int per + 1 / 2" unfolding rounded_def js_round_def by linarith
  then have "real_of_int ((2 * k - 1) * per) \<le> of_int (2 * n)" using \<open>0 < per\<close> by (simp add: field_simps)
  then show ?thesis by linarith
qed

lemma relative_counts:
  assumes "date_value stamp = Some v" "now - v < 2592000000 - 500"
  obtains "relativeIn en t stamp loc tz now = Some (kw_now t)"
    | n where "1 \<le> n" "n < 60" "relativeIn en t stamp loc tz now = Some (kw_minutes t n)"
    | n where "1 \<le> n" "n < 24" "relativeIn en t stamp loc tz now = Some (kw_hours t n)"
    | n where "1 \<le> n" "n \<le> 30" "relativeIn en t stamp loc tz now = Some (kw_days t n)"
proof -
  define s where "s = rounded (now - v) 1000"
  note units = MINUTE_def HOUR_def DAY_def MONTH_def
  have month: "s < MONTH" using rounded_below [of 1000 "now - v" MONTH] assms(2) by (auto simp: s_def units)
  have r: "relativeIn en t stamp loc tz now = (if s < MINUTE then Some (kw_now t) else if rounded s MINUTE < 60 then Some (kw_minutes t (rounded s MINUTE))
      else if rounded s HOUR < 24 then Some (kw_hours t (rounded s HOUR)) else Some (kw_days t (rounded s DAY)))"
    using assms(1) month by (simp add: relativeIn_def Let_def s_def)
  consider "s < MINUTE" | "\<not> s < MINUTE" "rounded s MINUTE < 60" | "\<not> rounded s MINUTE < 60" "\<not> s < MINUTE" "rounded s HOUR < 24"
    | "\<not> s < MINUTE" "\<not> rounded s MINUTE < 60" "\<not> rounded s HOUR < 24" by blast
  then show ?thesis
  proof cases
    case 1 then show ?thesis using that(1) r by simp
  next
    case 2 then show ?thesis using that(2) [of "rounded s MINUTE"] r rounded_ge [of MINUTE s] by (simp add: units)
  next
    case 3 then show ?thesis using that(3) [of "rounded s HOUR"] r rounded_ge [of HOUR s] rounded_below [of MINUTE s 60] by (simp add: units)
  next
    case 4
    have "rounded s DAY \<le> 30" using month rounded_below [of DAY s 31] by (cases "rounded s DAY < 31") (simp_all add: units)
    then show ?thesis using 4 that(4) [of "rounded s DAY"] r rounded_ge [of DAY s] rounded_below [of HOUR s 24] by (simp add: units)
  qed
qed

end
