(* ===== verification/Language.thy ===== *)
theory Language
  imports Config Storage
begin

text \<open>
  The language the interface speaks, \<open>web/src/i18n/index.ts\<close>: which one a profile, a browser or a stored
  choice asks for, and the module's state, the active language with its strings, what the document says
  of itself, and who is told of a change. The catalogues of strings are a parameter. With it the part of
  \<open>web/src/features/shell/state.ts\<close> that keeps single values in the browser's storage: the sidebar, the last
  project and the way out of the settings.
\<close>

section \<open>Choosing a language\<close>

datatype Language = En | De

fun language_text :: "Language \<Rightarrow> string" where
  "language_text En = ''en''"
| "language_text De = ''de''"

definition LANGUAGES :: "Language list" where "LANGUAGES = [En, De]"

text \<open>\<open>isLanguage\<close> with the language it is; a choice is one, or nothing.\<close>

definition isLanguage :: "string option \<Rightarrow> Language option" where
  "isLanguage v = js_find (\<lambda>l. Some (language_text l) = v) LANGUAGES"

definition primary :: "string \<Rightarrow> string" where
  "primary tag = hd (split_on (CHR ''-'') (toLowerCase tag))"

definition languageOfLocale :: "string option \<Rightarrow> Language option" where
  "languageOfLocale loc = isLanguage (Some (primary (case loc of Some s \<Rightarrow> s | None \<Rightarrow> [])))"

fun browserLanguage :: "string list \<Rightarrow> Language" where
  "browserLanguage [] = En"
| "browserLanguage (tag # tags) = (case isLanguage (Some (primary tag)) of Some l \<Rightarrow> l | None \<Rightarrow> browserLanguage tags)"

definition resolveLanguage :: "string option \<Rightarrow> string list \<Rightarrow> Language" where
  "resolveLanguage choice preferred = (case isLanguage choice of Some l \<Rightarrow> l | None \<Rightarrow> browserLanguage preferred)"

record navigator =
  nav_languages :: "string list option"
  nav_language :: string

definition browserPreferences :: "navigator option \<Rightarrow> string list" where
  "browserPreferences nav = (case nav of None \<Rightarrow> []
     | Some n \<Rightarrow> (case nav_languages n of Some (l # ls) \<Rightarrow> l # ls | _ \<Rightarrow> [nav_language n]))"

definition choice_text :: "Language option \<Rightarrow> string" where
  "choice_text c = (case c of Some l \<Rightarrow> language_text l | None \<Rightarrow> [])"

definition readCachedChoice :: "storage \<Rightarrow> Language option" where
  "readCachedChoice st = (case getItem st LANGUAGE_STORAGE_KEY of Some v \<Rightarrow> isLanguage v | None \<Rightarrow> None)"

definition writeCachedChoice :: "storage \<Rightarrow> Language option \<Rightarrow> storage" where
  "writeCachedChoice st choice =
     attempt st (case choice of Some l \<Rightarrow> setItem st LANGUAGE_STORAGE_KEY (language_text l) | None \<Rightarrow> removeItem st LANGUAGE_STORAGE_KEY)"

section \<open>The module's state\<close>

record 'm page_language =
  pl_current :: Language
  pl_t :: 'm
  pl_document :: Language
  pl_listeners :: "nat list"
  pl_storage :: storage

text \<open>What a listener hears is the language and the strings that are on when it is called.\<close>

type_synonym 'm told = "nat \<times> Language \<times> 'm"

definition boot :: "(Language \<Rightarrow> 'm) \<Rightarrow> storage \<Rightarrow> string list \<Rightarrow> 'm page_language" where
  "boot catalogues st preferred =
     (let current = resolveLanguage (Some (choice_text (readCachedChoice st))) preferred
      in \<lparr>pl_current = current, pl_t = catalogues current, pl_document = current, pl_listeners = [], pl_storage = st\<rparr>)"

definition applyLanguage :: "(Language \<Rightarrow> 'm) \<Rightarrow> 'm page_language \<Rightarrow> Language option \<Rightarrow> string list \<Rightarrow> 'm page_language \<times> 'm told list" where
  "applyLanguage catalogues s choice preferred =
     (let s = s\<lparr>pl_storage := writeCachedChoice (pl_storage s) choice\<rparr>; nxt = resolveLanguage (Some (choice_text choice)) preferred
      in if nxt \<noteq> pl_current s
         then let s = s\<lparr>pl_current := nxt, pl_t := catalogues nxt, pl_document := nxt\<rparr>
              in (s, map (\<lambda>l. (l, pl_current s, pl_t s)) (pl_listeners s))
         else (s, []))"

text \<open>A set of listeners: one that is there already is not added again.\<close>

definition subscribe :: "'m page_language \<Rightarrow> nat \<Rightarrow> 'm page_language" where
  "subscribe s l = s\<lparr>pl_listeners := (if l \<in> set (pl_listeners s) then pl_listeners s else pl_listeners s @ [l])\<rparr>"

definition unsubscribe :: "'m page_language \<Rightarrow> nat \<Rightarrow> 'm page_language" where
  "unsubscribe s l = s\<lparr>pl_listeners := filter (\<lambda>k. k \<noteq> l) (pl_listeners s)\<rparr>"

text \<open>
  What the reader can do, one step after the other, with all that was told on the way and with who asked
  to be told and has not asked to be left alone since.
\<close>

inductive language_run :: "(Language \<Rightarrow> 'm) \<Rightarrow> string list \<Rightarrow> 'm page_language \<Rightarrow> 'm told list \<Rightarrow> nat set \<Rightarrow> 'm page_language \<Rightarrow> bool"
  for catalogues :: "Language \<Rightarrow> 'm" and preferred :: "string list" where
  run_none: "language_run catalogues preferred s [] {} s"
| run_choose: "language_run catalogues preferred s heard who u \<Longrightarrow> applyLanguage catalogues u choice preferred = (v, ts)
    \<Longrightarrow> language_run catalogues preferred s (heard @ ts) who v"
| run_listen: "language_run catalogues preferred s heard who u \<Longrightarrow> language_run catalogues preferred s heard (insert l who) (subscribe u l)"
| run_leave: "language_run catalogues preferred s heard who u \<Longrightarrow> language_run catalogues preferred s heard (who - {l}) (unsubscribe u l)"

section \<open>Values the browser keeps\<close>

definition SIDEBAR_KEY :: string where "SIDEBAR_KEY = ''armature.sidebar''"

definition PROJECT_KEY :: string where "PROJECT_KEY = ''armature.project''"

definition OUTSIDE_SETTINGS_KEY :: string where "OUTSIDE_SETTINGS_KEY = ''armature.outside-settings''"

definition readStorage :: "storage \<Rightarrow> string \<Rightarrow> string option" where
  "readStorage st key = (case getItem st key of Some v \<Rightarrow> v | None \<Rightarrow> None)"

definition writeStorage :: "storage \<Rightarrow> string \<Rightarrow> string option \<Rightarrow> storage" where
  "writeStorage st key v = attempt st (case v of None \<Rightarrow> removeItem st key | Some s \<Rightarrow> setItem st key s)"

datatype SidebarMode = SidebarOpen | SidebarRail

fun sidebar_text :: "SidebarMode \<Rightarrow> string" where
  "sidebar_text SidebarOpen = ''open''"
| "sidebar_text SidebarRail = ''rail''"

text \<open>The first state of the hook, on a window of a width or on none, and its toggle.\<close>

definition useSidebarMode :: "storage \<Rightarrow> int option \<Rightarrow> SidebarMode" where
  "useSidebarMode st innerWidth =
     (if readStorage st SIDEBAR_KEY = Some ''open'' then SidebarOpen
      else if readStorage st SIDEBAR_KEY = Some ''rail'' then SidebarRail
      else case innerWidth of Some w \<Rightarrow> if w < SIDEBAR_RAIL_BELOW_PX then SidebarRail else SidebarOpen | None \<Rightarrow> SidebarOpen)"

definition toggle_sidebar :: "storage \<Rightarrow> SidebarMode \<Rightarrow> storage \<times> SidebarMode" where
  "toggle_sidebar st current =
     (let nxt = (if current = SidebarOpen then SidebarRail else SidebarOpen) in (writeStorage st SIDEBAR_KEY (Some (sidebar_text nxt)), nxt))"

definition useNarrow :: "int \<Rightarrow> bool" where
  "useNarrow innerWidth \<longleftrightarrow> innerWidth < SIDEBAR_DRAWER_BELOW_PX"

definition rememberOutsideSettings :: "storage \<Rightarrow> string \<Rightarrow> storage" where
  "rememberOutsideSettings session href = attempt session (setItem session OUTSIDE_SETTINGS_KEY href)"

definition lastOutsideSettings :: "storage \<Rightarrow> string" where
  "lastOutsideSettings session = (case getItem session OUTSIDE_SETTINGS_KEY of Some (Some href) \<Rightarrow> href | _ \<Rightarrow> ''/'')"

definition rememberProject :: "storage \<Rightarrow> string option \<Rightarrow> storage" where
  "rememberProject st key = (if truthy key then writeStorage st PROJECT_KEY key else st)"

text \<open>The hook's state and its effect when the project of the route is set; what it answers.\<close>

definition lastProject_effect :: "storage \<Rightarrow> string option \<Rightarrow> string option \<Rightarrow> storage \<times> string option" where
  "lastProject_effect st final current = (if truthy current then (rememberProject st current, current) else (st, final))"

definition useLastProject :: "string option \<Rightarrow> string option \<Rightarrow> string option" where
  "useLastProject final current = (case current of Some c \<Rightarrow> Some c | None \<Rightarrow> final)"

section \<open>What is kept is found again\<close>

lemma isLanguage_text: "isLanguage (Some (language_text l)) = Some l"
  by (cases l) (simp_all add: isLanguage_def LANGUAGES_def)

lemma isLanguage_empty: "isLanguage (Some []) = None" "isLanguage None = None"
  by (simp_all add: isLanguage_def LANGUAGES_def)

lemma isLanguage_choice: "isLanguage (Some (choice_text c)) = c"
  by (simp add: choice_text_def isLanguage_text isLanguage_empty split: option.split)

lemma write_choice_flags:
  "st_readable (writeCachedChoice st c) = st_readable st" "st_writable (writeCachedChoice st c) = st_writable st"
  by (cases c; simp add: writeCachedChoice_def)+

interpretation choice: setting readCachedChoice writeCachedChoice "\<lambda>c. c" None
proof
  fix st c
  show "st_readable (writeCachedChoice st c) = st_readable st" "st_writable (writeCachedChoice st c) = st_writable st"
    by (rule write_choice_flags)+
  show "\<not> st_readable st \<Longrightarrow> readCachedChoice st = None" by (simp add: readCachedChoice_def getItem_def)
  show "\<not> st_readable st \<Longrightarrow> readCachedChoice (writeCachedChoice st c) = None"
    using write_choice_flags(1) [of st c] by (simp add: readCachedChoice_def getItem_def)
  show "st_readable st \<Longrightarrow> st_writable st \<Longrightarrow> readCachedChoice (writeCachedChoice st c) = c"
    by (cases c) (simp_all add: readCachedChoice_def writeCachedChoice_def getItem_def setItem_def removeItem_def attempt_def isLanguage_text isLanguage_empty)
qed

text \<open>The page is consistent: its strings and the document are in the language that is on; and the
  language that is on is the one a page opened now would come up in.\<close>

definition consistent :: "(Language \<Rightarrow> 'm) \<Rightarrow> 'm page_language \<Rightarrow> bool" where
  "consistent catalogues s \<longleftrightarrow> pl_t s = catalogues (pl_current s) \<and> pl_document s = pl_current s"

definition reopens :: "string list \<Rightarrow> 'm page_language \<Rightarrow> bool" where
  "reopens preferred s \<longleftrightarrow> st_readable (pl_storage s) \<and> st_writable (pl_storage s)
     \<and> resolveLanguage (Some (choice_text (readCachedChoice (pl_storage s)))) preferred = pl_current s"

lemma apply_parts:
  assumes "applyLanguage catalogues s choice preferred = (u, ts)"
  shows "pl_storage u = writeCachedChoice (pl_storage s) choice" "pl_current u = resolveLanguage (Some (choice_text choice)) preferred"
    "pl_listeners u = pl_listeners s" "consistent catalogues s \<Longrightarrow> consistent catalogues u"
    "ts = (if pl_current u = pl_current s then [] else map (\<lambda>l. (l, pl_current u, catalogues (pl_current u))) (pl_listeners s))"
  using assms by (auto simp: applyLanguage_def Let_def consistent_def split: if_splits)

lemma apply_reopens: "applyLanguage catalogues s choice preferred = (u, ts) \<Longrightarrow> reopens preferred s \<Longrightarrow> reopens preferred u"
  using apply_parts(1,2) [of catalogues s choice preferred u ts]
  by (simp add: reopens_def choice.read_write write_choice_flags)

lemma boot_ok: "consistent catalogues (boot catalogues st preferred)"
  "st_readable st \<Longrightarrow> st_writable st \<Longrightarrow> reopens preferred (boot catalogues st preferred)"
  by (simp_all add: boot_def Let_def consistent_def reopens_def)

lemma listening_keeps [simp]:
  "consistent catalogues (subscribe u l) = consistent catalogues u" "consistent catalogues (unsubscribe u l) = consistent catalogues u"
  "reopens preferred (subscribe u l) = reopens preferred u" "reopens preferred (unsubscribe u l) = reopens preferred u"
  by (simp_all add: consistent_def reopens_def subscribe_def unsubscribe_def)

lemma run_consistent: "language_run catalogues preferred s heard who u \<Longrightarrow> consistent catalogues s \<Longrightarrow> consistent catalogues u"
  by (induction rule: language_run.induct) (auto intro: apply_parts(4))

lemma run_reopens: "language_run catalogues preferred s heard who u \<Longrightarrow> reopens preferred s \<Longrightarrow> reopens preferred u"
  by (induction rule: language_run.induct) (auto intro: apply_reopens)

text \<open>Every listener is told of the strings of the language it is told of.\<close>

lemma run_told: "language_run catalogues preferred s heard who u \<Longrightarrow> (l, g, m) \<in> set heard \<Longrightarrow> m = catalogues g"
  by (induction rule: language_run.induct) (auto dest: apply_parts(5) split: if_splits)

text \<open>Who asked to be told is on the list, once, and nobody else is.\<close>

lemma run_listeners:
  "language_run catalogues preferred s heard who u \<Longrightarrow> pl_listeners s = [] \<Longrightarrow> distinct (pl_listeners u) \<and> set (pl_listeners u) = who"
proof (induction rule: language_run.induct)
  case (run_choose s heard who u choice v ts)
  then show ?case using apply_parts(3) [OF run_choose(2)] by simp
qed (auto simp: subscribe_def unsubscribe_def)

text \<open>C21: Whatever a reader chooses, in whatever order, and whoever listens, the strings and the document are
  always in the language that is on, and a page opened anew comes up in that very language, as long as the
  browser keeps what it is given and prefers what it did. A choice that changes the language tells exactly the
  listeners that subscribed and have not left since, each of them once however often it subscribed, of the new
  language with its own strings; a choice that leaves the language as it is tells nobody.\<close>
theorem language_kept:
  assumes "st_readable st" "st_writable st" "language_run catalogues preferred (boot catalogues st preferred) heard who u"
    "applyLanguage catalogues u choice preferred = (v, ts)"
  shows "pl_t u = catalogues (pl_current u) \<and> pl_document u = pl_current u
    \<and> pl_current (boot catalogues (pl_storage u) preferred) = pl_current u
    \<and> pl_current v = resolveLanguage (Some (choice_text choice)) preferred
    \<and> distinct (map fst ts) \<and> set (map fst ts) = (if pl_current v = pl_current u then {} else who)
    \<and> (\<forall>(l, g, m) \<in> set ts. g = pl_current v)
    \<and> (\<forall>(l, g, m) \<in> set (heard @ ts). m = catalogues g)"
proof -
  have c: "consistent catalogues u" by (rule run_consistent [OF assms(3) boot_ok(1)])
  have r: "reopens preferred u" by (rule run_reopens [OF assms(3) boot_ok(2) [OF assms(1,2)]])
  have "language_run catalogues preferred (boot catalogues st preferred) (heard @ ts) who v" using assms(3,4) by (rule run_choose)
  then have told: "\<forall>(l, g, m) \<in> set (heard @ ts). m = catalogues g" by (auto dest: run_told)
  have "distinct (pl_listeners u) \<and> set (pl_listeners u) = who" by (rule run_listeners [OF assms(3)]) (simp add: boot_def Let_def)
  then have "distinct (map fst ts) \<and> set (map fst ts) = (if pl_current v = pl_current u then {} else who) \<and> (\<forall>(l, g, m) \<in> set ts. g = pl_current v)"
    using apply_parts(5) [OF assms(4)] by (auto simp: comp_def image_image)
  moreover have "pl_current (boot catalogues (pl_storage u) preferred) = pl_current u" using r by (simp add: boot_def Let_def reopens_def)
  ultimately show ?thesis using c told apply_parts(2) [OF assms(4)] by (simp add: consistent_def)
qed

text \<open>A listener that subscribes twice is told once, and one that has left is not told.\<close>

theorem language_kept_witness:
  "let b = boot language_text empty_storage [''fr'', ''de-AT''];
       u = unsubscribe (subscribe (subscribe (subscribe b 7) 7) 8) 8
   in pl_t u = ''de'' \<and> set (map fst (snd (applyLanguage language_text u (Some En) [''fr'', ''de-AT'']))) = {7}
     \<and> distinct (map fst (snd (applyLanguage language_text u (Some En) [''fr'', ''de-AT''])))"
proof -
  define b where "b = boot language_text empty_storage [''fr'', ''de-AT'']"
  define u where "u = unsubscribe (subscribe (subscribe (subscribe b 7) 7) 8) 8"
  have d: "pl_current b = De" unfolding b_def boot_def by code_simp
  then have du: "pl_current u = De" by (simp add: u_def subscribe_def unsubscribe_def)
  have run: "language_run language_text [''fr'', ''de-AT''] b [] (insert 8 (insert 7 (insert 7 {})) - {8}) u"
    unfolding u_def by (intro run_leave run_listen run_none)
  obtain v ts where v: "applyLanguage language_text u (Some En) [''fr'', ''de-AT''] = (v, ts)"
    by (cases "applyLanguage language_text u (Some En) [''fr'', ''de-AT'']")
  have "st_readable empty_storage" "st_writable empty_storage" by (simp_all add: empty_storage_def)
  note kept = language_kept [OF this run [unfolded b_def] v]
  have "resolveLanguage (Some (choice_text (Some En))) [''fr'', ''de-AT''] = En" by code_simp
  with kept du have "pl_t u = ''de''" "set (map fst ts) = {7}" "distinct (map fst ts)" by auto
  then show ?thesis using v by (simp add: Let_def u_def b_def)
qed

text \<open>The shell's values are settings too: the sidebar comes up as it was left on a screen of any width, and
  where nothing was kept as wide as the screen allows; the way out of the settings is the page last noted.\<close>

lemma write_storage_flags:
  "st_readable (writeStorage st key v) = st_readable st" "st_writable (writeStorage st key v) = st_writable st"
  by (cases v; simp add: writeStorage_def)+

lemma read_write_storage: "st_readable st \<Longrightarrow> st_writable st \<Longrightarrow> readStorage (writeStorage st key v) key = v"
  by (cases v) (simp_all add: readStorage_def writeStorage_def getItem_def setItem_def removeItem_def attempt_def)

lemma read_refused: "\<not> st_readable st \<Longrightarrow> readStorage st key = None"
  by (simp add: readStorage_def getItem_def)

interpretation sidebar: setting "\<lambda>st. useSidebarMode st w" "\<lambda>st mode. fst (toggle_sidebar st mode)"
  "\<lambda>mode. if mode = SidebarOpen then SidebarRail else SidebarOpen"
  "case w of Some n \<Rightarrow> if n < SIDEBAR_RAIL_BELOW_PX then SidebarRail else SidebarOpen | None \<Rightarrow> SidebarOpen"
  by unfold_locales (simp_all add: useSidebarMode_def toggle_sidebar_def read_write_storage read_refused write_storage_flags)

interpretation outside: setting lastOutsideSettings rememberOutsideSettings "\<lambda>href. href" "''/''"
  by unfold_locales (simp_all add: lastOutsideSettings_def rememberOutsideSettings_def getItem_def setItem_def attempt_def)

lemma sidebar_kept:
  "st_readable st \<Longrightarrow> st_writable st \<Longrightarrow> useSidebarMode (fst (toggle_sidebar st mode)) w = snd (toggle_sidebar st mode)"
  using sidebar.read_write [where w = w and st = st and v = mode] by (simp add: toggle_sidebar_def Let_def)

lemma project_kept:
  assumes "st_readable st" "st_writable st" "truthy current"
  shows "readStorage (fst (lastProject_effect st final current)) PROJECT_KEY = current" "snd (lastProject_effect st final current) = current"
  using assms by (simp_all add: lastProject_effect_def rememberProject_def read_write_storage)

end
