(* ===== verification/Guide.thy ===== *)
theory Guide
  imports Language
begin

text \<open>
  The guide that answers where something is, \<open>web/src/features/guide/match.ts\<close>. The entries of its
  catalogue and the lists of filler words, synonyms and keywords in either language are arguments, so
  what is shown holds for every such list. An entry's way to its page is not modelled.
\<close>

section \<open>Data\<close>

datatype Needs = NeedsProject | NeedsAdmin

record GuideContext =
  gc_projectKey :: "string option"
  gc_canAdministerOrg :: bool
  gc_features :: "string list option"

record GuideEntry =
  ge_id :: string
  ge_title :: string
  ge_sentence :: string
  ge_keywords :: "string list"
  ge_needs :: "Needs option"
  ge_feature :: "string option"

record Answer =
  an_entry :: GuideEntry
  an_score :: real
  an_coverage :: real

text \<open>The lists a question is read with. Looking a word up in a record of the source answers nothing for a
  word that is not there. The one word of lowered letters a record inherits is \<open>constructor\<close>: looking it up
  gives the same function in a question, a title and a sentence, so it stands for itself there, which is how
  the lists are taken here, as lists without it.\<close>

record guide_lists =
  gl_stop :: "string list"
  gl_synonyms :: "string \<Rightarrow> string option"
  gl_synonymsDe :: "string \<Rightarrow> string option"
  gl_keywordsDe :: "string \<Rightarrow> string list option"

definition synonyms :: "guide_lists \<Rightarrow> Language \<Rightarrow> string \<Rightarrow> string option" where
  "synonyms gl lang raw = (if lang = De then (case gl_synonymsDe gl raw of Some w \<Rightarrow> Some w | None \<Rightarrow> gl_synonyms gl raw) else gl_synonyms gl raw)"

definition word_unit :: "char \<Rightarrow> bool" where
  "word_unit c = (let n = (of_char c :: nat) in 97 \<le> n \<and> n \<le> 122 \<or> is_digit c \<or> n \<in> {228, 246, 252, 223} \<or> c = CHR ''+'' \<or> c = CHR ''-'' \<or> is_space c)"

definition singular :: "string \<Rightarrow> string" where
  "singular raw = (if 3 < length raw \<and> endsWith raw ''s'' \<and> \<not> endsWith raw ''ss'' then butlast raw else raw)"

definition raw_words :: "string \<Rightarrow> string list" where
  "raw_words question = split_at is_space (map (\<lambda>c. if word_unit c then c else CHR '' '') (toLowerCase question))"

definition add_word :: "guide_lists \<Rightarrow> Language \<Rightarrow> string list \<Rightarrow> string \<Rightarrow> string list" where
  "add_word gl lang out raw =
     (if raw = [] \<or> raw \<in> set (gl_stop gl) then out
      else let word = (case synonyms gl lang raw of Some w \<Rightarrow> w | None \<Rightarrow> singular raw)
           in if word \<in> set out then out else out @ [word])"

definition words :: "guide_lists \<Rightarrow> Language \<Rightarrow> string \<Rightarrow> string list" where
  "words gl lang question = foldl (add_word gl lang) [] (raw_words question)"

definition looksLikeQuestion :: "string \<Rightarrow> bool" where
  "looksLikeQuestion input =
     (let trimmed = trim input in endsWith trimmed ''?'' \<or> length (filter (\<lambda>w. w \<noteq> []) (split_at is_space trimmed)) \<ge> GUIDE_MIN_WORDS)"

definition reaches :: "GuideEntry \<Rightarrow> GuideContext \<Rightarrow> bool" where
  "reaches entry ctx =
     (if (case (ge_feature entry, gc_features ctx) of (Some f, Some fs) \<Rightarrow> f \<noteq> [] \<and> f \<notin> set fs | _ \<Rightarrow> False) then False
      else if ge_needs entry = Some NeedsProject then True
      else if ge_needs entry = Some NeedsAdmin then gc_canAdministerOrg ctx
      else True)"

definition keyword_set :: "guide_lists \<Rightarrow> Language \<Rightarrow> GuideEntry \<Rightarrow> string list" where
  "keyword_set gl lang entry =
     (let german = (if lang = De then (case gl_keywordsDe gl (ge_id entry) of Some ks \<Rightarrow> ks | None \<Rightarrow> []) else [])
      in uniq (map (\<lambda>k. case gl_synonyms gl k of Some w \<Rightarrow> w | None \<Rightarrow> k) (ge_keywords entry) @ ge_keywords entry
           @ map (\<lambda>k. case gl_synonymsDe gl k of Some w \<Rightarrow> w | None \<Rightarrow> k) german @ german))"

definition word_score :: "string list \<Rightarrow> string list \<Rightarrow> string list \<Rightarrow> string \<Rightarrow> int" where
  "word_score title keywords sentence word =
     (if word \<in> set title then GUIDE_WEIGHT_TITLE
      else if word \<in> set keywords then GUIDE_WEIGHT_KEYWORD
      else if word \<in> set sentence then GUIDE_WEIGHT_SENTENCE else 0)"

definition answer_for :: "guide_lists \<Rightarrow> Language \<Rightarrow> string list \<Rightarrow> GuideEntry \<Rightarrow> Answer" where
  "answer_for gl lang asked entry =
     (let title = words gl lang (ge_title entry); keywords = keyword_set gl lang entry; sentence = words gl lang (ge_sentence entry);
          score = foldl (\<lambda>s word. s + word_score title keywords sentence word) 0 asked;
          titleHits = length (filter (\<lambda>word. word \<in> set title) asked)
      in \<lparr>an_entry = entry, an_score = of_int score / real (length asked),
          an_coverage = (if title \<noteq> [] then real titleHits / real (length title) else 0)\<rparr>)"

definition answer_order :: "(string \<Rightarrow> string \<Rightarrow> real) \<Rightarrow> Answer \<Rightarrow> Answer \<Rightarrow> real" where
  "answer_order lc = cmp_or (\<lambda>a b. an_score b - an_score a)
     (cmp_or (\<lambda>a b. an_coverage b - an_coverage a) (\<lambda>a b. lc (ge_title (an_entry a)) (ge_title (an_entry b))))"

definition answer :: "(string \<Rightarrow> string \<Rightarrow> real) \<Rightarrow> guide_lists \<Rightarrow> Language \<Rightarrow> string \<Rightarrow> GuideContext \<Rightarrow> GuideEntry list \<Rightarrow> Answer list" where
  "answer lc gl lang question ctx entries =
     (let asked = words gl lang question
      in if asked = [] then []
         else take GUIDE_MAX_ANSWERS (js_sort (answer_order lc)
           (filter (\<lambda>a. an_score a \<ge> GUIDE_MIN_SCORE) (map (answer_for gl lang asked) (filter (\<lambda>e. reaches e ctx) entries)))))"

section \<open>The words of a question\<close>

lemma words_distinct: "distinct (words gl lang question)"
proof -
  have "distinct out \<Longrightarrow> distinct (foldl (add_word gl lang) out raws)" for out raws
    by (induction raws arbitrary: out) (auto simp: add_word_def Let_def)
  then show ?thesis by (simp add: words_def)
qed

lemma words_from:
  assumes "w \<in> set (words gl lang question)"
  shows "\<exists>raw \<in> set (raw_words question). raw \<notin> set (gl_stop gl) \<and> raw \<noteq> [] \<and> w = (case synonyms gl lang raw of Some v \<Rightarrow> v | None \<Rightarrow> singular raw)"
proof -
  let ?P = "\<lambda>rs w. \<exists>raw \<in> set rs. raw \<notin> set (gl_stop gl) \<and> raw \<noteq> [] \<and> w = (case synonyms gl lang raw of Some v \<Rightarrow> v | None \<Rightarrow> singular raw)"
  have "w \<in> set (foldl (add_word gl lang) [] rs) \<Longrightarrow> ?P rs w" for rs
    by (induction rs rule: rev_induct) (auto simp: add_word_def Let_def split: if_splits)
  then show ?thesis using assms by (simp add: words_def)
qed

text \<open>
  A keyword of more than four letters that ends in one s, and that no synonym stands for, is met by no
  word of any question: the question's word has lost its s, the keyword keeps it.
\<close>

lemma singular_no_s:
  assumes "singular raw = w" "endsWith w ''s''" "\<not> endsWith w ''ss''" "3 < length w"
  shows False
proof (cases "3 < length raw \<and> endsWith raw ''s'' \<and> \<not> endsWith raw ''ss''")
  case True
  then have w: "w = butlast raw" using assms(1) by (simp add: singular_def)
  from True obtain r where r: "raw = r @ ''s''" by (cases raw rule: rev_cases) (auto simp: endsWith_def startsWith_def)
  with w have "w = r" by simp
  with assms(2) obtain q where "r = q @ ''s''" by (cases r rule: rev_cases) (auto simp: endsWith_def startsWith_def)
  with r have "endsWith raw ''ss''" by (simp add: endsWith_def startsWith_def)
  with True show False by simp
next
  case False
  then show False using assms by (simp add: singular_def split: if_splits)
qed

lemma plural_keyword_dead:
  assumes "w \<in> set (words gl lang question)" "endsWith k ''s''" "\<not> endsWith k ''ss''" "3 < length k"
    "\<And>raw. synonyms gl lang raw \<noteq> Some k"
  shows "w \<noteq> k"
proof
  assume "w = k"
  with words_from [OF assms(1)] obtain raw where "k = (case synonyms gl lang raw of Some v \<Rightarrow> v | None \<Rightarrow> singular raw)" by blast
  with assms(5) [of raw] have "singular raw = k" by (auto split: option.splits)
  from singular_no_s [OF this assms(2-4)] show False .
qed

text \<open>And so is a keyword of several words.\<close>

lemma phrase_keyword_dead:
  assumes "w \<in> set (words gl lang question)" "CHR '' '' \<in> set k" "\<And>raw. synonyms gl lang raw \<noteq> Some k"
  shows "w \<noteq> k"
proof
  assume "w = k"
  with words_from [OF assms(1)] obtain raw where raw: "raw \<in> set (raw_words question)" "k = (case synonyms gl lang raw of Some v \<Rightarrow> v | None \<Rightarrow> singular raw)" by blast
  with assms(3) [of raw] have "singular raw = k" by (auto split: option.splits)
  then have "CHR '' '' \<in> set raw" using assms(2) by (auto simp: singular_def dest: in_set_butlastD split: if_splits)
  with raw(1) split_no_sep [of raw is_space _ "CHR '' ''"] show False by (simp add: raw_words_def is_space_def)
qed

section \<open>The best answers\<close>

lemma order_comparator: "collation lc \<Longrightarrow> comparator (answer_order lc)"
proof -
  assume "collation lc"
  then have "comparator lc" by (simp add: collation_def)
  moreover have "comparator (\<lambda>a b. f b - f a)" for f :: "Answer \<Rightarrow> real" by unfold_locales auto
  ultimately show ?thesis unfolding answer_order_def
    by (intro comparator_cmp_or) (auto intro: comparator_pull [of lc "\<lambda>a. ge_title (an_entry a)"])
qed

lemma score_bounds: "0 \<le> word_score t k s w \<and> word_score t k s w \<le> 3"
  by (simp add: word_score_def config)

lemma score_sum:
  "0 \<le> foldl (\<lambda>s word. s + word_score t k se word) 0 asked \<and> foldl (\<lambda>s word. s + word_score t k se word) 0 asked \<le> 3 * int (length asked)"
proof -
  have "a \<le> foldl (\<lambda>s word. s + word_score t k se word) a ws \<and> foldl (\<lambda>s word. s + word_score t k se word) a ws \<le> a + 3 * int (length ws)" for a ws
  proof (induction ws arbitrary: a)
    case (Cons w ws)
    from Cons.IH [of "a + word_score t k se w"] score_bounds [of t k se w] show ?case by simp
  qed simp
  from this [of 0 asked] show ?thesis by simp
qed

lemma answer_score: "asked \<noteq> [] \<Longrightarrow> 0 \<le> an_score (answer_for gl lang asked e) \<and> an_score (answer_for gl lang asked e) \<le> 3"
  using score_sum [of "words gl lang (ge_title e)" "keyword_set gl lang e" "words gl lang (ge_sentence e)" asked]
  by (simp add: answer_for_def Let_def field_simps)

lemma answer_coverage: "an_coverage (answer_for gl lang (words gl lang q) e) \<le> 1"
proof -
  let ?t = "words gl lang (ge_title e)"
  have "length (filter (\<lambda>w. w \<in> set ?t) (words gl lang q)) = card (set (words gl lang q) \<inter> set ?t)"
    using distinct_card [OF distinct_filter [OF words_distinct]] by (simp add: Int_def flip: distinct_card)
  also have "\<dots> \<le> card (set ?t)" by (rule card_mono) auto
  also have "\<dots> \<le> length ?t" by (rule card_length)
  finally show ?thesis by (simp add: answer_for_def Let_def divide_simps)
qed


definition plain_lists :: guide_lists where
  "plain_lists = \<lparr>gl_stop = [''where'', ''is'', ''the''], gl_synonyms = (\<lambda>w. if w = ''kanban'' then Some ''board'' else None),
     gl_synonymsDe = (\<lambda>w. None), gl_keywordsDe = (\<lambda>w. None)\<rparr>"

definition board_entry :: GuideEntry where
  "board_entry = \<lparr>ge_id = ''board'', ge_title = ''Board'', ge_sentence = ''The cards of a project.'', ge_keywords = [''column''], ge_needs = Some NeedsProject, ge_feature = None\<rparr>"

definition any_reader :: GuideContext where
  "any_reader = \<lparr>gc_projectKey = None, gc_canAdministerOrg = False, gc_features = None\<rparr>"


end
