(* ===== verification/Markdown.thy ===== *)
theory Markdown
  imports JsValue
begin

text \<open>
  \<open>features/editor/schema.ts\<close> and \<open>features/editor/markdown.ts\<close>: the node set the editor, the renderer
  and the server agree on, writing a document as markdown and reading markdown as a document. A
  pattern of the source is the deterministic reader of the same language: none of them needs to go
  over its text twice, since what follows a repetition never starts with what is repeated.
\<close>

section \<open>The schema\<close>

definition NODE_TYPES :: "string list" where
  "NODE_TYPES = [''doc'', ''paragraph'', ''heading'', ''bulletList'', ''orderedList'', ''listItem'', ''blockquote'',
     ''codeBlock'', ''hardBreak'', ''text'', ''mention'']"

definition MARK_TYPES :: "string list" where
  "MARK_TYPES = [''bold'', ''italic'', ''code'', ''strike'', ''link'']"

definition HEADING_LEVELS :: "real list" where
  "HEADING_LEVELS = [1, 2, 3]"

definition isEmptyDoc :: "Doc option \<Rightarrow> bool" where
  "isEmptyDoc doc = (case doc of None \<Rightarrow> True
     | Some content \<Rightarrow> \<forall>block \<in> set content. node_type block = ''paragraph'' \<and> kids block = [])"

definition safeHref :: "json option \<Rightarrow> string option" where
  "safeHref href = (case href of
      Some (JStr h) \<Rightarrow>
        (let lower = toLowerCase (trim h)
         in if startsWith lower ''http://'' \<or> startsWith lower ''https://'' \<or> startsWith lower ''mailto:''
            then Some (trim h) else None)
    | _ \<Rightarrow> None)"

text \<open>The label of a mention: \<open>String(node.attrs?.label ?? "")\<close>.\<close>

definition mention_label :: "(real \<Rightarrow> string) \<Rightarrow> DocNode \<Rightarrow> string" where
  "mention_label num n = json_text num (json_or (attr_at (node_attrs n) ''label'') (JStr []))"

definition text_or :: "DocNode \<Rightarrow> string" where
  "text_or n = (case node_text n of Some t \<Rightarrow> t | None \<Rightarrow> [])"

lemma map_kids_cong [fundef_cong]:
  "n = m \<Longrightarrow> (\<And>x. x \<in> set (kids m) \<Longrightarrow> f x = g x) \<Longrightarrow> map f (kids n) = map g (kids m)"
  by simp

lemma grandkids_smaller: "x \<in> set (kids n) \<Longrightarrow> y \<in> set (kids x) \<Longrightarrow> size y < size n"
  using kids_smaller [of x n] kids_smaller [of y x] by simp

function textOf :: "(real \<Rightarrow> string) \<Rightarrow> DocNode \<Rightarrow> string" where
  "textOf num n =
     (if node_type n = ''text'' then text_or n
      else if node_type n = ''mention'' then CHR ''@'' # mention_label num n
      else if node_type n = ''hardBreak'' then [CHR 0x0A]
      else concat (map (textOf num) (kids n)))"
  by pat_completeness auto
termination by (relation "measure (\<lambda>(_, n). size n)") (auto dest: kids_smaller)

declare textOf.simps [simp del]

section \<open>A document as markdown\<close>

function textOfNode :: "DocNode \<Rightarrow> string" where
  "textOfNode n = (if node_type n = ''text'' then text_or n else concat (map textOfNode (kids n)))"
  by pat_completeness auto
termination by (relation "measure size") (auto dest: kids_smaller)

declare textOfNode.simps [simp del]

definition textOfCode :: "DocNode \<Rightarrow> string" where
  "textOfCode block = concat (map text_or (kids block))"

text \<open>The characters that would be read as markup.\<close>

definition is_markup :: "char \<Rightarrow> bool" where
  "is_markup c \<longleftrightarrow> c \<in> {CHR 0x5C, CHR ''*'', CHR 0x60, CHR ''~'', CHR ''['', CHR '']''}"

fun escapeText :: "string \<Rightarrow> string" where
  "escapeText [] = []"
| "escapeText (c # s) = (if is_markup c then [CHR 0x5C, c] else [c]) @ escapeText s"

text \<open>A unit of white space is the first of a text: the end of the patterns for a line's start.\<close>

definition space_first :: "string \<Rightarrow> bool" where
  "space_first s \<longleftrightarrow> (case s of [] \<Rightarrow> False | c # _ \<Rightarrow> is_space c)"

definition hashes :: "string \<Rightarrow> string" where
  "hashes s = takeWhile (\<lambda>c. c = CHR ''#'') s"

definition fence_mark :: string where
  "fence_mark = [CHR 0x60, CHR 0x60, CHR 0x60]"

text \<open>The marker of a list item: a dash or a star, or digits and a dot.\<close>

definition item_marker :: "string \<Rightarrow> string option" where
  "item_marker s =
     (let ds = takeWhile is_digit s
      in case s of [] \<Rightarrow> None
         | c # _ \<Rightarrow> if c = CHR ''-'' \<or> c = CHR ''*'' then Some [c]
             else if ds \<noteq> [] \<and> startsWith (drop (length ds) s) ''.'' then Some (ds @ ''.'') else None)"

text \<open>The pattern of a line that would read as a heading, a quote, a list item or a fence.\<close>

definition reads_as_block :: "string \<Rightarrow> bool" where
  "reads_as_block line \<longleftrightarrow>
     (let n = length (hashes line) in 1 \<le> n \<and> n \<le> 6 \<and> space_first (drop n line))
     \<or> startsWith line ''>''
     \<or> (case item_marker line of Some m \<Rightarrow> space_first (drop (length m) line) | None \<Rightarrow> False)
     \<or> startsWith line fence_mark"

abbreviation text_lines :: "string \<Rightarrow> string list" where
  "text_lines \<equiv> split_on (CHR 0x0A)"

definition escapeLineStarts :: "string \<Rightarrow> string" where
  "escapeLineStarts t =
     join [CHR 0x0A] (map (\<lambda>line. if reads_as_block line then CHR 0x5C # line else line) (text_lines t))"

definition wrap :: "string \<Rightarrow> DocMark \<Rightarrow> string" where
  "wrap t mark =
     (if mark_type mark = ''bold'' then ''**'' @ t @ ''**''
      else if mark_type mark = ''italic'' then ''*'' @ t @ ''*''
      else if mark_type mark = ''strike'' then ''~~'' @ t @ ''~~''
      else if mark_type mark = ''link'' then
        (case safeHref (attr_at (mark_attrs mark) ''href'') of
           Some href \<Rightarrow> ''['' @ t @ '']('' @ href @ '')'' | None \<Rightarrow> t)
      else t)"

text \<open>Inside code only the tick is escaped.\<close>

fun escape_ticks :: "string \<Rightarrow> string" where
  "escape_ticks [] = []"
| "escape_ticks (c # s) = (if c = CHR 0x60 then [CHR 0x5C, c] else [c]) @ escape_ticks s"

definition marks_of :: "DocNode \<Rightarrow> DocMark list" where
  "marks_of n = (case node_marks n of Some ms \<Rightarrow> ms | None \<Rightarrow> [])"

definition inlineNodeToMarkdown :: "(real \<Rightarrow> string) \<Rightarrow> DocNode \<Rightarrow> string" where
  "inlineNodeToMarkdown num n =
     (if node_type n = ''hardBreak'' then [CHR 0x0A]
      else if node_type n = ''mention'' then CHR ''@'' # mention_label num n
      else if node_type n = ''text'' then
        (if \<exists>m \<in> set (marks_of n). mark_type m = ''code''
         then [CHR 0x60] @ escape_ticks (text_or n) @ [CHR 0x60]
         else foldl wrap (escapeText (text_or n)) (marks_of n))
      else escapeText (textOfNode n))"

definition inlineToMarkdown :: "(real \<Rightarrow> string) \<Rightarrow> DocNode list \<Rightarrow> string" where
  "inlineToMarkdown num ns = concat (map (inlineNodeToMarkdown num) ns)"

text \<open>How often \<open>"#".repeat(Math.min(Math.max(level, 1), 3))\<close> repeats; not a number repeats nothing.\<close>

definition heading_marks :: "js_number \<Rightarrow> nat" where
  "heading_marks level = (case level of
      NaN \<Rightarrow> 0
    | Infinite neg \<Rightarrow> if neg then 1 else 3
    | Fin x \<Rightarrow> nat \<lfloor>min (max x 1) 3\<rfloor>)"

definition quote_line :: "string \<Rightarrow> string" where
  "quote_line line = (if line \<noteq> [] then ''> '' @ line else ''>'')"

definition list_marker :: "bool \<Rightarrow> nat \<Rightarrow> string" where
  "list_marker ordered i = (if ordered then nat_str (i + 1) @ ''. '' else ''- '')"

definition spaces :: "nat \<Rightarrow> string" where
  "spaces n = replicate n (CHR '' '')"

text \<open>An item: the marker before its first line, its width before every other line that says something.\<close>

definition item_lines :: "string \<Rightarrow> string list \<Rightarrow> string list" where
  "item_lines marker inner =
     (case inner of [] \<Rightarrow> []
      | line # ls \<Rightarrow>
          (marker @ line) # map (\<lambda>l. if l \<noteq> [] then spaces (length marker) @ l else []) ls)"

function blockToMarkdown :: "(real \<Rightarrow> string) \<Rightarrow> DocNode \<Rightarrow> string" where
  "blockToMarkdown num block =
     (if node_type block = ''paragraph'' then escapeLineStarts (inlineToMarkdown num (kids block))
      else if node_type block = ''heading'' then
        replicate (heading_marks (number_of num (Some (json_or (attr_at (node_attrs block) ''level'') (JNum 1))))) (CHR ''#'')
        @ '' '' @ map (\<lambda>c. if c = CHR 0x0A then CHR '' '' else c) (inlineToMarkdown num (kids block))
      else if node_type block = ''blockquote'' then
        join [CHR 0x0A] (map quote_line
          (text_lines (join [CHR 0x0A, CHR 0x0A] (map (blockToMarkdown num) (kids block)))))
      else if node_type block = ''codeBlock'' then
        fence_mark @ (case attr_at (node_attrs block) ''language'' of Some (JStr l) \<Rightarrow> l | _ \<Rightarrow> [])
        @ [CHR 0x0A] @ textOfCode block @ [CHR 0x0A] @ fence_mark
      else if node_type block = ''bulletList'' \<or> node_type block = ''orderedList'' then
        join [CHR 0x0A]
          (map (\<lambda>(i, inner). join [CHR 0x0A] (item_lines (list_marker (node_type block = ''orderedList'') i) (text_lines inner)))
             (enumerate 0 (map (\<lambda>item. join [CHR 0x0A, CHR 0x0A] (map (blockToMarkdown num) (kids item))) (kids block))))
      else escapeText (textOfNode block))"
  by pat_completeness auto
termination
  by (relation "measure (\<lambda>(_, n). size n)")
    (auto dest: kids_smaller intro: grandkids_smaller)

declare blockToMarkdown.simps [simp del]

definition blocksToMarkdown :: "(real \<Rightarrow> string) \<Rightarrow> DocNode list \<Rightarrow> string list" where
  "blocksToMarkdown num blocks = map (blockToMarkdown num) blocks"

definition docToMarkdown :: "(real \<Rightarrow> string) \<Rightarrow> Doc option \<Rightarrow> string" where
  "docToMarkdown num doc =
     (case doc of None \<Rightarrow> [] | Some content \<Rightarrow> join [CHR 0x0A, CHR 0x0A] (blocksToMarkdown num content))"

section \<open>The inline part of markdown\<close>

text \<open>The index of the next unescaped delimiter.\<close>

fun findClose :: "string \<Rightarrow> string \<Rightarrow> nat option" where
  "findClose [] d = None"
| "findClose (c # s) d =
     (if c = CHR 0x5C then (case s of [] \<Rightarrow> None | _ # r \<Rightarrow> map_option (\<lambda>n. n + 2) (findClose r d))
      else if startsWith (c # s) d then Some 0
      else map_option Suc (findClose s d))"

fun indexOf_char :: "string \<Rightarrow> char \<Rightarrow> nat option" where
  "indexOf_char [] d = None"
| "indexOf_char (c # s) d = (if c = d then Some 0 else map_option Suc (indexOf_char s d))"

fun unescape_ticks :: "string \<Rightarrow> string" where
  "unescape_ticks [] = []"
| "unescape_ticks (c # s) =
     (if c = CHR 0x5C \<and> startsWith s [CHR 0x60] then CHR 0x60 # unescape_ticks (tl s)
      else c # unescape_ticks s)"

definition text_node :: "string \<Rightarrow> DocMark list \<Rightarrow> DocNode" where
  "text_node t marks = DocNode ''text'' (Some t) None (if marks \<noteq> [] then Some marks else None) None"

definition flush :: "DocMark list \<Rightarrow> string \<Rightarrow> DocNode list" where
  "flush marks buf = (if buf \<noteq> [] then [text_node buf marks] else [])"

definition plain_mark :: "string \<Rightarrow> DocMark" where
  "plain_mark t = \<lparr>mark_type = t, mark_attrs = None\<rparr>"

definition link_mark :: "string \<Rightarrow> DocMark" where
  "link_mark href = \<lparr>mark_type = ''link'', mark_attrs = Some [(''href'', JStr href)]\<rparr>"

text \<open>Code that opens here: its text, and what is left after it.\<close>

definition code_at :: "string \<Rightarrow> (string \<times> string) option" where
  "code_at t =
     (if startsWith t [CHR 0x60]
      then map_option (\<lambda>e. (unescape_ticks (take e (drop 1 t)), drop (e + 2) t)) (findClose (drop 1 t) [CHR 0x60])
      else None)"

definition delimited :: "(string \<times> string) list" where
  "delimited = [(''**'', ''bold''), (''~~'', ''strike''), (''*'', ''italic'')]"

text \<open>The first delimiter that opens here and closes later: its mark, what it holds, what is left.\<close>

fun delim_at :: "(string \<times> string) list \<Rightarrow> DocMark list \<Rightarrow> string \<Rightarrow> (string \<times> string \<times> string) option" where
  "delim_at [] marks t = None"
| "delim_at ((d, mark) # ds) marks t =
     (case (if startsWith t d \<and> \<not> (\<exists>m \<in> set marks. mark_type m = mark)
            then findClose (drop (length d) t) d else None) of
        Some e \<Rightarrow> if 0 < e then Some (mark, take e (drop (length d) t), drop (length d + e + length d) t)
                  else delim_at ds marks t
      | None \<Rightarrow> delim_at ds marks t)"

text \<open>A link that opens here: its address, its text, what is left.\<close>

definition link_at :: "string \<Rightarrow> (string \<times> string \<times> string) option" where
  "link_at t =
     (if startsWith t ''['' then
        (case findClose (drop 1 t) '']'' of
           Some e \<Rightarrow>
             (if startsWith (drop (e + 2) t) ''('' then
                (case indexOf_char (drop (e + 3) t) (CHR '')'') of
                   Some p \<Rightarrow>
                     map_option (\<lambda>href. (href, take e (drop 1 t), drop (e + 3 + p + 1) t))
                       (safeHref (Some (JStr (take p (drop (e + 3) t)))))
                 | None \<Rightarrow> None)
              else None)
         | None \<Rightarrow> None)
      else None)"

lemma findClose_bound: "findClose s d = Some e \<Longrightarrow> d \<noteq> [] \<Longrightarrow> e < length s"
  by (induction s d arbitrary: e rule: findClose.induct)
    (auto split: if_splits list.splits simp: startsWith_def)

lemma indexOf_char_bound: "indexOf_char s d = Some e \<Longrightarrow> e < length s"
  by (induction s d arbitrary: e rule: indexOf_char.induct) (auto split: if_splits)

lemma code_at_smaller: "code_at t = Some (c, r) \<Longrightarrow> length r < length t"
  by (auto simp: code_at_def split: if_splits dest!: findClose_bound)

lemma delim_at_smaller:
  "delim_at ds marks t = Some (m, inner, r) \<Longrightarrow> (\<forall>(d, _) \<in> set ds. d \<noteq> []) \<Longrightarrow>
    length inner < length t \<and> length r < length t"
proof (induction ds marks t rule: delim_at.induct)
  case (2 d mark ds marks t)
  from "2.prems" "2.IH" show ?case
    by (auto split: option.splits if_splits dest!: findClose_bound)
qed simp

lemma link_at_smaller: "link_at t = Some (h, inner, r) \<Longrightarrow> length inner < length t \<and> length r < length t"
  by (auto simp: link_at_def split: if_splits option.splits dest!: findClose_bound)

lemma delimited_smaller:
  "delim_at delimited marks t = Some (m, inner, r) \<Longrightarrow> length inner < length t \<and> length r < length t"
  by (erule delim_at_smaller) (simp add: delimited_def)

function parse_go :: "DocMark list \<Rightarrow> string \<Rightarrow> string \<Rightarrow> DocNode list" where
  "parse_go marks buf t =
     (case t of
        [] \<Rightarrow> flush marks buf
      | c # s \<Rightarrow>
          if c = CHR 0x5C \<and> s \<noteq> [] then parse_go marks (buf @ [hd s]) (tl s)
          else case code_at t of
            Some (code, r) \<Rightarrow>
              flush marks buf @ [text_node code (marks @ [plain_mark ''code''])] @ parse_go marks [] r
          | None \<Rightarrow>
              (case delim_at delimited marks t of
                 Some (mark, inner, r) \<Rightarrow>
                   flush marks buf @ parse_go (marks @ [plain_mark mark]) [] inner @ parse_go marks [] r
               | None \<Rightarrow>
                   (case link_at t of
                      Some (href, inner, r) \<Rightarrow>
                        flush marks buf @ parse_go (marks @ [link_mark href]) [] inner @ parse_go marks [] r
                    | None \<Rightarrow> parse_go marks (buf @ [c]) s)))"
  by pat_completeness auto
termination
  by (relation "measure (\<lambda>(_, _, t). length t)")
    (auto dest: code_at_smaller link_at_smaller delimited_smaller)

declare parse_go.simps [simp del]

definition parseInline :: "string \<Rightarrow> DocMark list \<Rightarrow> DocNode list" where
  "parseInline t marks = parse_go marks [] t"

section \<open>The blocks of markdown\<close>

definition is_word :: "char \<Rightarrow> bool" where
  "is_word c \<longleftrightarrow> (let n = (of_char c :: nat) in 48 \<le> n \<and> n \<le> 57 \<or> 65 \<le> n \<and> n \<le> 90 \<or> n = 95 \<or> 97 \<le> n \<and> n \<le> 122)"

text \<open>\<open>FENCE\<close>: the language a line opens a block of code with.\<close>

definition FENCE :: "string \<Rightarrow> string option" where
  "FENCE line =
     (let r = drop 3 line
      in if startsWith line fence_mark \<and> (\<forall>c \<in> set (dropWhile is_word r). is_space c)
         then Some (takeWhile is_word r) else None)"

text \<open>\<open>HEADING\<close>: the level of a heading and its text.\<close>

definition HEADING :: "string \<Rightarrow> (nat \<times> string) option" where
  "HEADING line =
     (let n = length (hashes line); r = drop n line
      in if 1 \<le> n \<and> n \<le> 3 \<and> space_first r then Some (n, dropWhile is_space r) else None)"

text \<open>\<open>QUOTE\<close>: a quoted line without its mark and one space.\<close>

definition QUOTE :: "string \<Rightarrow> string option" where
  "QUOTE line =
     (if startsWith line ''>'' then Some (if space_first (drop 1 line) then drop 2 line else drop 1 line)
      else None)"

text \<open>\<open>ITEM\<close>: how far an item is indented, its marker and its text.\<close>

definition ITEM :: "string \<Rightarrow> (nat \<times> string \<times> string) option" where
  "ITEM line =
     (let n = length (takeWhile is_space line); r = drop n line
      in case item_marker r of
           Some m \<Rightarrow> if space_first (drop (length m) r)
                      then Some (n, m, dropWhile is_space (drop (length m) r)) else None
         | None \<Rightarrow> None)"

definition blank :: "string \<Rightarrow> bool" where
  "blank line \<longleftrightarrow> trim line = []"

fun take_code :: "string list \<Rightarrow> string list \<times> string list" where
  "take_code [] = ([], [])"
| "take_code (l # ls) = (if FENCE l \<noteq> None then ([], ls) else let (body, r) = take_code ls in (l # body, r))"

fun take_quote :: "string list \<Rightarrow> string list \<times> string list" where
  "take_quote [] = ([], [])"
| "take_quote (l # ls) = (case QUOTE l of Some q \<Rightarrow> let (body, r) = take_quote ls in (q # body, r) | None \<Rightarrow> ([], l # ls))"

text \<open>The lines indented past the marker, and a blank line before such a line.\<close>

fun take_body :: "nat \<Rightarrow> string list \<Rightarrow> string list \<times> string list" where
  "take_body w [] = ([], [])"
| "take_body w (l # ls) =
     (if startsWith l (spaces w) \<or> (blank l \<and> ls \<noteq> [] \<and> startsWith (hd ls) (spaces w))
      then let (body, r) = take_body w ls in (drop w l # body, r)
      else ([], l # ls))"

definition is_ordered :: "string \<Rightarrow> bool" where
  "is_ordered marker \<longleftrightarrow> (\<exists>c \<in> set marker. is_digit c)"

lemma take_body_length: "take_body w ls = (body, r) \<Longrightarrow> length r \<le> length ls"
  by (induction w ls arbitrary: body r rule: take_body.induct) (auto split: if_splits prod.splits)

text \<open>The items of one list: the lines of each without the marker, and what is left.\<close>

function take_items :: "nat \<Rightarrow> bool \<Rightarrow> string list \<Rightarrow> string list list \<times> string list" where
  "take_items indent ordered [] = ([], [])"
| "take_items indent ordered (l # ls) =
     (case ITEM l of
        Some (n, m, first) \<Rightarrow>
          if n \<noteq> indent \<or> is_ordered m \<noteq> ordered then ([], l # ls)
          else let (body, r) = take_body (n + length m + 1) ls; (items, r') = take_items indent ordered r
               in ((first # body) # items, r')
      | None \<Rightarrow> ([], l # ls))"
  by pat_completeness auto
termination
  by (relation "measure (\<lambda>(_, _, ls). length ls)") (auto dest: take_body_length [OF sym])

definition is_prose :: "string \<Rightarrow> bool" where
  "is_prose l \<longleftrightarrow> \<not> blank l \<and> FENCE l = None \<and> HEADING l = None \<and> QUOTE l = None \<and> ITEM l = None"

text \<open>The backslash that keeps a line a paragraph is not part of it.\<close>

definition unescape_start :: "string \<Rightarrow> string" where
  "unescape_start l = (if startsWith l [CHR 0x5C] \<and> reads_as_block (drop 1 l) then drop 1 l else l)"

definition hard_break :: DocNode where
  "hard_break = DocNode ''hardBreak'' None None None None"

fun para_content :: "string list \<Rightarrow> DocNode list" where
  "para_content [] = []"
| "para_content [l] = parseInline l []"
| "para_content (l # ls) = parseInline l [] @ [hard_break] @ para_content ls"

definition para_node :: "string list \<Rightarrow> DocNode" where
  "para_node para = DocNode ''paragraph'' None None None (if para_content para \<noteq> [] then Some (para_content para) else None)"

definition code_block :: "string \<Rightarrow> string list \<Rightarrow> DocNode" where
  "code_block language body =
     DocNode ''codeBlock'' None (Some [(''language'', JStr language)]) None
       (if body \<noteq> [] then Some [text_node (join [CHR 0x0A] body) []] else None)"

definition heading_node :: "nat \<Rightarrow> string \<Rightarrow> DocNode" where
  "heading_node level t =
     DocNode ''heading'' None (Some [(''level'', JNum (real level))]) None (Some (parseInline t []))"

definition list_item :: "DocNode list \<Rightarrow> DocNode" where
  "list_item blocks =
     DocNode ''listItem'' None None None
       (Some (if blocks \<noteq> [] then blocks else [DocNode ''paragraph'' None None None None]))"

text \<open>What is read becomes shorter: a line counts its units and one more.\<close>

definition weight :: "string list \<Rightarrow> nat" where
  "weight ls = (\<Sum>l\<leftarrow>ls. length l + 1)"

lemma weight_simps [simp]:
  "weight [] = 0" "weight (l # ls) = length l + 1 + weight ls" "weight (xs @ ys) = weight xs + weight ys"
  by (simp_all add: weight_def)

lemma take_code_weight: "take_code ls = (body, r) \<Longrightarrow> weight r \<le> weight ls"
proof (induction ls arbitrary: body r)
  case (Cons l ls)
  then show ?case by (cases "take_code ls") (fastforce split: if_splits)
qed simp

lemma QUOTE_shorter: "QUOTE l = Some q \<Longrightarrow> length q < length l"
  by (cases l) (auto simp: QUOTE_def startsWith_def split: if_splits)

lemma take_quote_weight:
  "take_quote ls = (body, r) \<Longrightarrow> weight body + weight r \<le> weight ls \<and> (body \<noteq> [] \<longrightarrow> weight body + weight r < weight ls)"
proof (induction ls arbitrary: body r)
  case (Cons l ls)
  then show ?case
    by (cases "take_quote ls") (fastforce split: option.splits dest: QUOTE_shorter)
qed simp

lemma take_body_weight: "take_body w ls = (body, r) \<Longrightarrow> weight body + weight r \<le> weight ls"
proof (induction ls arbitrary: body r)
  case (Cons l ls)
  then show ?case by (cases "take_body w ls") (fastforce split: if_splits)
qed simp

lemma item_marker_prefix: "item_marker s = Some m \<Longrightarrow> m \<noteq> [] \<and> take (length m) s = m"
proof -
  assume m: "item_marker s = Some m"
  let ?ds = "takeWhile is_digit s"
  have "take (length ?ds) s = ?ds" by (metis append_eq_conv_conj takeWhile_dropWhile_id)
  then have "take (length ?ds + 1) s = ?ds @ take 1 (drop (length ?ds) s)" by (simp only: take_add)
  with m show ?thesis
    by (cases s) (auto simp: item_marker_def startsWith_def Let_def min_def simp del: takeWhile.simps split: if_splits)
qed

lemma ITEM_shorter: "ITEM l = Some (n, m, first) \<Longrightarrow> n + length m + length first < length l \<and> m \<noteq> []"
proof -
  assume i: "ITEM l = Some (n, m, first)"
  let ?r = "drop n l"
  from i have n: "n = length (takeWhile is_space l)" and m: "item_marker ?r = Some m"
    and sp: "space_first (drop (length m) ?r)" and f: "first = dropWhile is_space (drop (length m) ?r)"
    by (auto simp: ITEM_def Let_def split: option.splits if_splits)
  from sp obtain c t where t: "drop (length m) ?r = c # t" "is_space c"
    by (auto simp: space_first_def split: list.splits)
  then have "length first \<le> length t" by (simp add: f length_dropWhile_le)
  moreover have "length (drop (length m) ?r) = Suc (length t)" using t by simp
  ultimately show ?thesis using item_marker_prefix [OF m] by simp
qed

lemma take_items_weight:
  "take_items indent ordered ls = (items, r) \<Longrightarrow>
    (\<Sum>b\<leftarrow>items. weight b) + weight r \<le> weight ls \<and> (items \<noteq> [] \<longrightarrow> (\<Sum>b\<leftarrow>items. weight b) + weight r < weight ls)"
proof (induction indent ordered ls arbitrary: items r rule: take_items.induct)
  case (2 indent ordered l ls)
  show ?case
  proof (cases "ITEM l")
    case (Some it)
    obtain n m first where it: "it = (n, m, first)" by (cases it)
    obtain body r1 where b: "take_body (n + length m + 1) ls = (body, r1)" by fastforce
    obtain is2 r2 where i2: "take_items indent ordered r1 = (is2, r2)" by fastforce
    show ?thesis
    proof (cases "n \<noteq> indent \<or> is_ordered m \<noteq> ordered")
      case False
      from "2.IH" [OF Some it [symmetric] refl False refl b [symmetric] i2]
      have "(\<Sum>b\<leftarrow>is2. weight b) + weight r2 \<le> weight r1" by simp
      with take_body_weight [OF b] ITEM_shorter [of l n m first] Some it False b i2 "2.prems"
      show ?thesis by auto
    qed (use "2.prems" Some it in auto)
  qed (use "2.prems" in auto)
qed simp

lemma weight_in_sum: "b \<in> set items \<Longrightarrow> weight b \<le> (\<Sum>b\<leftarrow>items. weight b)"
  by (induction items) auto

lemma take_items_progress:
  assumes "ITEM l = Some (n, m, f)" and "take_items n (is_ordered m) (l # ls) = (items, r)"
  shows "weight r < weight (l # ls)" and "b \<in> set items \<Longrightarrow> weight b < weight (l # ls)"
proof -
  from assms have "items \<noteq> []" by (auto split: prod.splits)
  with take_items_weight [OF assms(2)] weight_in_sum [of b items]
  show "weight r < weight (l # ls)" "b \<in> set items \<Longrightarrow> weight b < weight (l # ls)" by auto
qed

lemma take_quote_progress:
  assumes "QUOTE l = Some q" and "take_quote (l # ls) = (body, r)"
  shows "weight r < weight (l # ls)" "weight body < weight (l # ls)"
proof -
  from assms have "body \<noteq> []" by (auto split: prod.splits)
  with take_quote_weight [OF assms(2)] show "weight r < weight (l # ls)" "weight body < weight (l # ls)" by auto
qed

lemma dropWhile_progress:
  assumes "takeWhile p (l # ls) \<noteq> []"
  shows "weight (dropWhile p (l # ls)) < weight (l # ls)"
proof -
  have "weight (dropWhile p xs) \<le> weight xs" for xs by (induction xs) auto
  from this [of ls] assms show ?thesis by (auto split: if_splits)
qed

definition quote_node :: "DocNode list \<Rightarrow> DocNode" where
  "quote_node blocks = DocNode ''blockquote'' None None None (Some blocks)"

definition list_node :: "bool \<Rightarrow> DocNode list \<Rightarrow> DocNode" where
  "list_node ordered items = DocNode (if ordered then ''orderedList'' else ''bulletList'') None None None (Some items)"

function parse_blocks :: "string list \<Rightarrow> DocNode list" where
  "parse_blocks [] = []"
| "parse_blocks (l # ls) =
     (if blank l then parse_blocks ls
      else case FENCE l of
        Some language \<Rightarrow> (let (body, r) = take_code ls in code_block language body # parse_blocks r)
      | None \<Rightarrow>
          (case HEADING l of
             Some (level, t) \<Rightarrow> heading_node level t # parse_blocks ls
           | None \<Rightarrow>
               (case QUOTE l of
                  Some _ \<Rightarrow> (let (inner, r) = take_quote (l # ls) in quote_node (parse_blocks inner) # parse_blocks r)
                | None \<Rightarrow>
                    (case ITEM l of
                       Some (indent, m, _) \<Rightarrow>
                         (let (bodies, r) = take_items indent (is_ordered m) (l # ls)
                          in list_node (is_ordered m) (map (\<lambda>body. list_item (parse_blocks body)) bodies) # parse_blocks r)
                     | None \<Rightarrow>
                         if takeWhile is_prose (l # ls) = [] then para_node [l] # parse_blocks ls
                         else para_node (map unescape_start (takeWhile is_prose (l # ls)))
                              # parse_blocks (dropWhile is_prose (l # ls))))))"
  by pat_completeness auto
termination
proof (relation "measure weight", goal_cases)
  case (4 l ls)
  then show ?case using dropWhile_progress [of is_prose l ls] by (simp del: takeWhile.simps dropWhile.simps weight_simps)
next
  case (5 l ls it n y m u x bodies r b)
  then show ?case using take_items_progress(2) [of l n m u ls bodies r b] by (simp del: take_items.simps weight_simps)
next
  case (6 l ls it n y m u x bodies r)
  then show ?case using take_items_progress(1) [of l n m u ls bodies r] by (simp del: take_items.simps weight_simps)
next
  case (7 l ls u x inner r)
  then show ?case using take_quote_progress(2) [of l u ls inner r] by (simp del: take_quote.simps weight_simps)
next
  case (8 l ls u x inner r)
  then show ?case using take_quote_progress(1) [of l u ls inner r] by (simp del: take_quote.simps weight_simps)
next
  case (10 l ls language x body r)
  then show ?case using take_code_weight [of ls body r] by simp
qed simp_all

declare parse_blocks.simps(2) [simp del]

fun normalise_breaks :: "string \<Rightarrow> string" where
  "normalise_breaks [] = []"
| "normalise_breaks (c # s) =
     (if c = CHR 0x0D then CHR 0x0A # normalise_breaks (if startsWith s [CHR 0x0A] then tl s else s)
      else c # normalise_breaks s)"

definition markdownToDoc :: "string \<Rightarrow> Doc option" where
  "markdownToDoc t = (if trim t = [] then None else Some (parse_blocks (text_lines (normalise_breaks t))))"

end
