(* ===== verification/MarkdownProofs.thy ===== *)
theory MarkdownProofs
  imports Markdown
begin

text \<open>
  What writing and reading markdown keep. \<open>good_doc\<close> says which documents come back as they were;
  the lemmas on lines and on text lead to the round trip. What the reader makes of any text stays
  inside the schema. The last section holds the documents that do not come back.
\<close>

section \<open>Documents that come back\<close>

text \<open>Text in code: no backslash in front of a tick or at the end.\<close>

fun code_ok :: "string \<Rightarrow> bool" where
  "code_ok [] = True"
| "code_ok (c # s) = ((c = CHR 0x5C \<longrightarrow> s \<noteq> [] \<and> hd s \<noteq> CHR 0x60) \<and> code_ok s)"

definition href_ok :: "string \<Rightarrow> bool" where
  "href_ok h \<longleftrightarrow> safeHref (Some (JStr h)) = Some h \<and> CHR '')'' \<notin> set h \<and> CHR 0x0A \<notin> set h"

definition mark_href :: "DocMark \<Rightarrow> string" where
  "mark_href m = (case attr_at (mark_attrs m) ''href'' of Some (JStr h) \<Rightarrow> h | _ \<Rightarrow> [])"

definition good_mark :: "string \<Rightarrow> DocMark \<Rightarrow> bool" where
  "good_mark t m \<longleftrightarrow> m \<in> {plain_mark ''bold'', plain_mark ''italic'', plain_mark ''strike''}
     \<or> m = plain_mark ''code'' \<and> code_ok t
     \<or> m = link_mark (mark_href m) \<and> href_ok (mark_href m)"

text \<open>A piece of text with at most one mark.\<close>

definition good_text :: "DocNode \<Rightarrow> bool" where
  "good_text n \<longleftrightarrow> n = text_node (text_or n) (marks_of n) \<and> text_or n \<noteq> [] \<and> CHR 0x0A \<notin> set (text_or n)
     \<and> (case marks_of n of [] \<Rightarrow> True | [m] \<Rightarrow> good_mark (text_or n) m | _ \<Rightarrow> False)"

text \<open>Two pieces without a mark are one.\<close>

fun apart :: "DocNode list \<Rightarrow> bool" where
  "apart (n # m # ns) = (\<not> (marks_of n = [] \<and> marks_of m = []) \<and> apart (m # ns))"
| "apart [] = True"
| "apart [n] = True"

definition good_line :: "DocNode list \<Rightarrow> bool" where
  "good_line ns \<longleftrightarrow> ns \<noteq> [] \<and> (\<forall>n \<in> set ns. good_text n) \<and> apart ns"

text \<open>The lines of a paragraph, from break to break.\<close>

fun break_lines :: "DocNode list \<Rightarrow> DocNode list list" where
  "break_lines [] = [[]]"
| "break_lines (n # ns) =
     (if n = hard_break then [] # break_lines ns
      else case break_lines ns of [] \<Rightarrow> [[n]] | w # ws \<Rightarrow> (n # w) # ws)"

text \<open>
  A line of a paragraph starts with no white space, and not with a star and white space in plain
  text, which the reader takes for the escape of a list item.
\<close>

definition good_para_line :: "(real \<Rightarrow> string) \<Rightarrow> DocNode list \<Rightarrow> bool" where
  "good_para_line num w \<longleftrightarrow> good_line w \<and> \<not> space_first (inlineToMarkdown num w)
     \<and> unescape_start (inlineToMarkdown num w) = inlineToMarkdown num w"

fun no_gap :: "string list \<Rightarrow> bool" where
  "no_gap (l # m # ls) = (\<not> (l = [] \<and> m = []) \<and> no_gap (m # ls))"
| "no_gap ls = True"

definition empty_para :: DocNode where
  "empty_para = DocNode ''paragraph'' None None None None"

definition md_lines :: "(real \<Rightarrow> string) \<Rightarrow> DocNode list \<Rightarrow> string list" where
  "md_lines num blocks = text_lines (join [CHR 0x0A, CHR 0x0A] (map (blockToMarkdown num) blocks))"

definition good_heading :: "(real \<Rightarrow> string) \<Rightarrow> DocNode \<Rightarrow> bool" where
  "good_heading num b \<longleftrightarrow>
     (\<exists>level \<in> set HEADING_LEVELS. b = DocNode ''heading'' None (Some [(''level'', JNum level)]) None (Some (kids b)))
     \<and> (kids b = [] \<or> good_line (kids b) \<and> \<not> space_first (inlineToMarkdown num (kids b)))"

definition good_code :: "DocNode \<Rightarrow> bool" where
  "good_code b \<longleftrightarrow>
     (case (attr_at (node_attrs b) ''language'', kids b) of
        (Some (JStr language), [n]) \<Rightarrow>
          b = code_block language (text_lines (text_or n)) \<and> (\<forall>c \<in> set language. is_word c)
          \<and> (\<forall>l \<in> set (text_lines (text_or n)). FENCE l = None)
      | _ \<Rightarrow> False)"

text \<open>
  The documents that come back: a heading of a level the schema has, code with a text that holds no
  fence, a quote of such blocks, and a list whose items are such blocks or the empty paragraph and
  hold no two blank lines one after the other.
\<close>

function good_block :: "(real \<Rightarrow> string) \<Rightarrow> DocNode \<Rightarrow> bool" where
  "good_block num b \<longleftrightarrow>
     b = DocNode ''paragraph'' None None None (Some (kids b)) \<and> (\<forall>w \<in> set (break_lines (kids b)). good_para_line num w)
     \<or> good_heading num b
     \<or> good_code b
     \<or> b = quote_node (kids b) \<and> (\<forall>c \<in> set (kids b). good_block num c)
     \<or> b \<in> {list_node False (kids b), list_node True (kids b)} \<and> kids b \<noteq> [] \<and>
       (\<forall>item \<in> set (kids b). item = list_item (kids item) \<and>
          (kids item = [empty_para]
           \<or> kids item \<noteq> [] \<and> no_gap (md_lines num (kids item)) \<and> (\<forall>c \<in> set (kids item). good_block num c)))"
  by pat_completeness auto
termination
  by (relation "measure (\<lambda>(_, n). size n)") (auto dest: kids_smaller intro: grandkids_smaller)

declare good_block.simps [simp del]

definition good_doc :: "(real \<Rightarrow> string) \<Rightarrow> Doc \<Rightarrow> bool" where
  "good_doc num d \<longleftrightarrow> d \<noteq> [] \<and> (\<forall>b \<in> set d. good_block num b) \<and> CHR 0x0D \<notin> set (docToMarkdown num (Some d))"

section \<open>Text\<close>

lemma escapeText_append: "escapeText (s @ t) = escapeText s @ escapeText t"
  by (induction s) auto

lemma not_markup:
  assumes "\<not> is_markup c"
  shows "c \<noteq> CHR 0x5C" "c \<noteq> CHR ''*''" "c \<noteq> CHR 0x60" "c \<noteq> CHR ''~''" "c \<noteq> CHR ''[''" "c \<noteq> CHR '']''"
  using assms by (auto simp: is_markup_def)

lemma plain_unit:
  assumes "\<not> is_markup c"
  shows "code_at (c # s) = None" "delim_at delimited marks (c # s) = None" "link_at (c # s) = None"
  using not_markup [OF assms]
  by (auto simp: code_at_def delimited_def link_at_def startsWith_def)

lemma flush_Nil [simp]: "flush marks [] = []"
  by (simp add: flush_def)

text \<open>Escaped text is read as itself, whatever follows.\<close>

lemma parse_escaped: "parse_go marks buf (escapeText s @ t) = parse_go marks (buf @ s) t"
proof (induction s arbitrary: buf)
  case (Cons c s)
  show ?case
  proof (cases "is_markup c")
    case True
    with Cons [of "buf @ [c]"] show ?thesis by (simp add: parse_go.simps [of _ _ "CHR 0x5C # _"])
  next
    case False
    with Cons [of "buf @ [c]"] not_markup [OF False] plain_unit [OF False] show ?thesis
      by (simp add: parse_go.simps [of _ _ "c # _"])
  qed
qed simp

lemma parse_marked: "s \<noteq> [] \<Longrightarrow> parse_go marks [] (escapeText s) = [text_node s marks]"
  using parse_escaped [of marks "[]" s "[]"] by (simp add: parse_go.simps flush_def)

lemma findClose_escaped:
  assumes "d \<noteq> []" and "is_markup (hd d)" and "hd d \<noteq> CHR 0x5C"
  shows "findClose (escapeText s @ d @ t) d = Some (length (escapeText s))"
proof (induction s)
  case Nil
  from assms show ?case by (cases d) (auto simp: startsWith_def)
next
  case (Cons c s)
  show ?case
  proof (cases "is_markup c")
    case False
    then have "\<not> startsWith (c # escapeText s @ d @ t) d"
      using assms by (cases d) (auto simp: startsWith_def)
    with False Cons not_markup [OF False] show ?thesis by simp
  qed (use Cons in simp)
qed

lemma escapeText_first: "escapeText s = c # r \<Longrightarrow> c = CHR 0x5C \<or> \<not> is_markup c"
  by (cases s) (auto split: if_splits)

lemma escapeText_Nil [simp]: "escapeText s = [] \<longleftrightarrow> s = []"
  by (cases s) auto

lemma parse_code:
  assumes "code_ok s"
  shows "parse_go marks buf (CHR 0x60 # escape_ticks s @ CHR 0x60 # t) =
    flush marks buf @ [text_node s (marks @ [plain_mark ''code''])] @ parse_go marks [] t"
proof -
  have f: "code_ok s \<Longrightarrow> findClose (escape_ticks s @ CHR 0x60 # t) [CHR 0x60] = Some (length (escape_ticks s))"
    by (induction s rule: induct_list012) (auto simp: startsWith_def)
  have u: "code_ok s \<Longrightarrow> unescape_ticks (escape_ticks s) = s"
    by (induction s rule: induct_list012) (auto simp: startsWith_def)
  show ?thesis using f u assms by (simp add: parse_go.simps [of _ _ "CHR 0x60 # _"] code_at_def startsWith_def)
qed

lemma delim_at_bold:
  assumes "s \<noteq> []"
  shows "delim_at delimited [] (''**'' @ escapeText s @ ''**'' @ t) = Some (''bold'', escapeText s, t)"
proof -
  have "findClose (escapeText s @ ''**'' @ t) ''**'' = Some (length (escapeText s))"
    by (rule findClose_escaped) (simp_all add: is_markup_def)
  with assms show ?thesis by (simp add: delimited_def startsWith_def)
qed

lemma delim_at_strike:
  assumes "s \<noteq> []"
  shows "delim_at delimited [] (''~~'' @ escapeText s @ ''~~'' @ t) = Some (''strike'', escapeText s, t)"
proof -
  have "findClose (escapeText s @ ''~~'' @ t) ''~~'' = Some (length (escapeText s))"
    by (rule findClose_escaped) (simp_all add: is_markup_def)
  with assms show ?thesis by (simp add: delimited_def startsWith_def)
qed

lemma delim_at_italic:
  assumes "s \<noteq> []"
  shows "delim_at delimited [] (''*'' @ escapeText s @ ''*'' @ t) = Some (''italic'', escapeText s, t)"
proof -
  have "findClose (escapeText s @ ''*'' @ t) ''*'' = Some (length (escapeText s))"
    by (rule findClose_escaped) (simp_all add: is_markup_def)
  moreover have "hd (escapeText s) \<noteq> CHR ''*''"
    using assms escapeText_first [of s] by (cases "escapeText s") (auto simp: is_markup_def)
  moreover obtain c r where "escapeText s = c # r" using assms by (cases "escapeText s") auto
  ultimately show ?thesis by (simp add: delimited_def startsWith_def)
qed

lemma indexOf_first: "d \<notin> set s \<Longrightarrow> indexOf_char (s @ d # t) d = Some (length s)"
  by (induction s) auto

lemma link_at_link:
  assumes "href_ok h"
  shows "link_at (''['' @ escapeText s @ '']('' @ h @ '')'' @ t) = Some (h, escapeText s, t)"
proof -
  have "findClose (escapeText s @ '']'' @ ''('' @ h @ '')'' @ t) '']'' = Some (length (escapeText s))"
    by (rule findClose_escaped) (simp_all add: is_markup_def)
  with assms indexOf_first [of "CHR '')''" h t] show ?thesis
    by (simp add: link_at_def startsWith_def href_ok_def numeral_3_eq_3)
qed

lemma opens_delim:
  assumes "delim_at delimited marks (c # r) = Some (m, inner, t)" and "c \<noteq> CHR 0x5C" and "c \<noteq> CHR 0x60"
  shows "parse_go marks buf (c # r) = flush marks buf @ parse_go (marks @ [plain_mark m]) [] inner @ parse_go marks [] t"
  using assms by (simp add: parse_go.simps [of _ _ "c # r"] code_at_def startsWith_def)

lemma good_mark_cases:
  assumes "good_mark t m"
  obtains "m = plain_mark ''bold''" | "m = plain_mark ''italic''" | "m = plain_mark ''strike''"
    | "m = plain_mark ''code''" "code_ok t" | h where "m = link_mark h" "href_ok h"
  using assms unfolding good_mark_def by blast

text \<open>A piece with a mark is read as itself; what was read before it ends there.\<close>

lemma parse_piece:
  assumes "good_text n" and "marks_of n = [m]"
  shows "parse_go [] buf (inlineNodeToMarkdown num n @ t) = flush [] buf @ n # parse_go [] [] t"
proof -
  define s where "s = text_or n"
  from assms have s: "s \<noteq> []" and gm: "good_mark s m" and n: "n = text_node s [m]"
    unfolding good_text_def s_def by auto
  have md: "inlineNodeToMarkdown num n =
      (if mark_type m = ''code'' then CHR 0x60 # escape_ticks s @ [CHR 0x60] else wrap (escapeText s) m)"
    by (simp add: n inlineNodeToMarkdown_def text_node_def text_or_def marks_of_def)
  from gm show ?thesis
  proof (cases rule: good_mark_cases)
    case 1
    with md opens_delim [OF delim_at_bold [OF s, of t, simplified]] parse_marked [OF s] show ?thesis
      by (simp add: n plain_mark_def wrap_def)
  next
    case 2
    with md opens_delim [OF delim_at_italic [OF s, of t, simplified]] parse_marked [OF s] show ?thesis
      by (simp add: n plain_mark_def wrap_def)
  next
    case 3
    with md opens_delim [OF delim_at_strike [OF s, of t, simplified]] parse_marked [OF s] show ?thesis
      by (simp add: n plain_mark_def wrap_def)
  next
    case 4
    with md parse_code [OF 4(2), of "[]" buf t] show ?thesis by (simp add: n plain_mark_def)
  next
    case 5
    have "delim_at delimited [] (CHR ''['' # r) = None" "code_at (CHR ''['' # r) = None" for r
      by (simp_all add: delimited_def code_at_def startsWith_def)
    with md 5 link_at_link [OF 5(2), of s t] parse_marked [OF s] show ?thesis
      by (simp add: n wrap_def link_mark_def attr_at_def href_ok_def parse_go.simps [of _ _ "CHR ''['' # _"])
  qed
qed

lemma parse_plain:
  assumes "good_text n" and "marks_of n = []"
  shows "parse_go [] buf (inlineNodeToMarkdown num n @ t) = parse_go [] (buf @ text_or n) t" "flush [] (text_or n) = [n]"
proof -
  from assms have n: "n = text_node (text_or n) []" and ne: "text_or n \<noteq> []" unfolding good_text_def by auto
  from n have "node_type n = ''text''" by (metis DocNode.sel(1) text_node_def)
  then have "inlineNodeToMarkdown num n = escapeText (text_or n)"
    by (simp add: inlineNodeToMarkdown_def assms(2))
  then show "parse_go [] buf (inlineNodeToMarkdown num n @ t) = parse_go [] (buf @ text_or n) t"
    by (simp add: parse_escaped)
  show "flush [] (text_or n) = [n]" using n ne by (simp add: flush_def)
qed

text \<open>A line of text comes back whole.\<close>

lemma parse_line:
  assumes "\<forall>n \<in> set ns. good_text n" and "apart ns" and "buf = [] \<or> ns = [] \<or> marks_of (hd ns) \<noteq> []"
  shows "parse_go [] buf (inlineToMarkdown num ns) = flush [] buf @ ns"
  using assms
proof (induction ns arbitrary: buf rule: apart.induct)
  case (1 n m ns)
  show ?case
  proof (cases "marks_of n")
    case Nil
    with 1 have m: "marks_of m \<noteq> []" and b: "buf = []" by auto
    from "1.IH" [of "text_or n"] m 1 show ?thesis
      using parse_plain(1) [of n buf num] parse_plain(2) [of n] Nil by (simp add: inlineToMarkdown_def b)
  next
    case (Cons k ks)
    with "1.prems" have "marks_of n = [k]" by (auto simp: good_text_def split: list.splits)
    with "1.IH" [of "[]"] parse_piece [of n k buf num] "1.prems" show ?thesis
      by (simp add: inlineToMarkdown_def flush_def)
  qed
next
  case 2
  then show ?case by (simp add: inlineToMarkdown_def parse_go.simps)
next
  case (3 n)
  have e: "parse_go [] b [] = flush [] b" for b by (simp add: parse_go.simps)
  show ?case
  proof (cases "marks_of n")
    case Nil
    with 3 parse_plain(1) [of n buf num "[]"] parse_plain(2) [of n] show ?thesis
      by (auto simp: inlineToMarkdown_def e)
  next
    case (Cons k ks)
    with 3 have "marks_of n = [k]" by (auto simp: good_text_def split: list.splits)
    with parse_piece [of n k buf num "[]"] 3 show ?thesis
      by (simp add: inlineToMarkdown_def e flush_def)
  qed
qed

section \<open>Lines\<close>

lemma split_at_append:
  "split_at p (s @ t) = butlast (split_at p s) @ [last (split_at p s) @ hd (split_at p t)] @ tl (split_at p t)"
proof (induction s)
  case Nil
  show ?case by (cases "split_at p t") (use split_at_not_Nil [of p t] in auto)
next
  case (Cons c s)
  obtain w ws where w: "split_at p s = w # ws" by (cases "split_at p s") auto
  with Cons show ?case by (cases ws) auto
qed

text \<open>Lines of texts joined by a break are the lines of the texts.\<close>

lemma lines_join:
  assumes "xs \<noteq> []"
  shows "split_on c (join [c] xs) = concat (map (split_on c) xs)"
  using assms
proof (induction "[c]" xs rule: join.induct)
  case (3 w v vs)
  then show ?case
    using append_butlast_last_id [of "split_on c w"] by (simp add: split_at_append)
qed simp_all

fun blank_between :: "string list list \<Rightarrow> string list" where
  "blank_between [] = [[]]"
| "blank_between [x] = x"
| "blank_between (x # xs) = x @ [] # blank_between xs"

lemma lines_join2: "split_on c (join [c, c] xs) = blank_between (map (split_on c) xs)"
proof (induction "[c, c]" xs rule: join.induct)
  case (3 w v vs)
  then show ?case
    using append_butlast_last_id [of "split_on c w"] by (simp add: split_at_append)
qed simp_all

section \<open>Paragraphs\<close>

lemma nonblank: "l \<noteq> [] \<Longrightarrow> \<not> space_first l \<Longrightarrow> \<not> blank l"
proof
  assume l: "l \<noteq> []" "\<not> space_first l" "blank l"
  then obtain c r where c: "l = c # r" "\<not> is_space c" by (cases l) (auto simp: space_first_def)
  then have "trim l = rev (dropWhile is_space (rev r @ [c]))" by (simp add: trim_def trim_start_def)
  with c(2) l(3) show False by (auto simp: blank_def dropWhile_append split: if_splits)
qed

lemma space_first_Nil [simp]: "\<not> space_first []"
  by (simp add: space_first_def)

text \<open>A line that starts with no white space and does not read as a block is prose.\<close>

lemma not_block_prose:
  assumes "l \<noteq> []" and "\<not> space_first l" and "\<not> reads_as_block l"
  shows "is_prose l"
proof -
  have "takeWhile is_space l = []" using assms(1,2) by (cases l) (auto simp: space_first_def)
  with assms(3) have "ITEM l = None" by (auto simp: ITEM_def reads_as_block_def split: option.splits)
  moreover from assms(3) have "FENCE l = None" "HEADING l = None" "QUOTE l = None"
    by (auto simp: FENCE_def HEADING_def QUOTE_def reads_as_block_def Let_def)
  ultimately show ?thesis using nonblank [OF assms(1,2)] by (simp add: is_prose_def)
qed

lemma backslash_no_block: "\<not> reads_as_block (CHR 0x5C # l)"
  by (simp add: reads_as_block_def hashes_def startsWith_def item_marker_def fence_mark_def is_digit_def)

definition line_md :: "(real \<Rightarrow> string) \<Rightarrow> DocNode list \<Rightarrow> string" where
  "line_md num w = (if reads_as_block (inlineToMarkdown num w) then [CHR 0x5C] else []) @ inlineToMarkdown num w"

lemma line_md_alt:
  "line_md num = (\<lambda>w. if reads_as_block (inlineToMarkdown num w) then CHR 0x5C # inlineToMarkdown num w
    else inlineToMarkdown num w)"
  by (simp add: line_md_def fun_eq_iff)

lemma piece_md:
  assumes "good_text n"
  shows "inlineNodeToMarkdown num n \<noteq> []" "CHR 0x0A \<notin> set (inlineNodeToMarkdown num n)"
proof -
  define s ms where "s = text_or n" and "ms = marks_of n"
  from assms have s: "s \<noteq> []" "CHR 0x0A \<notin> set s" and n: "n = text_node s ms"
    and ms: "ms = [] \<or> (\<exists>m. ms = [m] \<and> good_mark s m)"
    unfolding good_text_def s_def ms_def by (auto split: list.splits)
  have esc: "CHR 0x0A \<notin> set (escapeText s)" "CHR 0x0A \<notin> set (escape_ticks s)"
    using s(2) by (induction s) auto
  have md: "inlineNodeToMarkdown num n = (if \<exists>m \<in> set ms. mark_type m = ''code''
      then [CHR 0x60] @ escape_ticks s @ [CHR 0x60] else foldl wrap (escapeText s) ms)"
    by (auto simp: n inlineNodeToMarkdown_def text_node_def text_or_def marks_of_def)
  have w: "wrap (escapeText s) m \<noteq> [] \<and> CHR 0x0A \<notin> set (wrap (escapeText s) m)" if "good_mark s m" for m
    using that s(1) esc(1)
    by (cases rule: good_mark_cases) (simp_all add: wrap_def plain_mark_def link_mark_def attr_at_def href_ok_def)
  show "inlineNodeToMarkdown num n \<noteq> []" using md ms w s(1) by auto
  show "CHR 0x0A \<notin> set (inlineNodeToMarkdown num n)" using md ms w esc by auto
qed

lemma good_line_md:
  assumes "good_line w"
  shows "inlineToMarkdown num w \<noteq> []" "CHR 0x0A \<notin> set (inlineToMarkdown num w)"
    "parseInline (inlineToMarkdown num w) [] = w"
  using assms piece_md [of _ num] parse_line [of w "[]" num]
  by (cases w; auto simp: good_line_def inlineToMarkdown_def parseInline_def)+

lemma good_para_line_md:
  assumes "good_para_line num w"
  shows "is_prose (line_md num w)" "unescape_start (line_md num w) = inlineToMarkdown num w"
    "CHR 0x0A \<notin> set (line_md num w)" "line_md num w \<noteq> []" "\<not> space_first (line_md num w)"
proof -
  let ?l = "inlineToMarkdown num w"
  from assms have l: "\<not> space_first ?l" "unescape_start ?l = ?l" and g: "good_line w"
    by (auto simp: good_para_line_def)
  note m = good_line_md [OF g, of num]
  have b: "\<not> space_first (CHR 0x5C # ?l)" by (simp add: space_first_def is_space_def)
  show "is_prose (line_md num w)"
    using not_block_prose [of ?l] not_block_prose [of "CHR 0x5C # ?l"] backslash_no_block m l b
    by (simp add: line_md_def)
  show "unescape_start (line_md num w) = ?l"
    using l(2) by (simp add: line_md_def) (simp add: unescape_start_def startsWith_def)
  show "CHR 0x0A \<notin> set (line_md num w)" "line_md num w \<noteq> []" "\<not> space_first (line_md num w)"
    using m b l by (simp_all add: line_md_def)
qed

lemma break_lines_not_Nil [simp]: "break_lines ns \<noteq> []"
  by (induction ns) (auto split: list.splits)

lemma hard_break_md: "inlineNodeToMarkdown num hard_break = [CHR 0x0A]"
  by (simp add: hard_break_def inlineNodeToMarkdown_def)

lemma lines_of_breaks:
  assumes "\<forall>w \<in> set (break_lines ns). \<forall>n \<in> set w. CHR 0x0A \<notin> set (inlineNodeToMarkdown num n)"
  shows "text_lines (inlineToMarkdown num ns) = map (inlineToMarkdown num) (break_lines ns)"
  using assms
proof (induction ns)
  case (Cons n ns)
  obtain w ws where w: "break_lines ns = w # ws" by (cases "break_lines ns") auto
  show ?case
  proof (cases "n = hard_break")
    case True
    with Cons show ?thesis by (simp add: inlineToMarkdown_def hard_break_md)
  next
    case False
    with Cons.prems w have n: "CHR 0x0A \<notin> set (inlineNodeToMarkdown num n)" by simp
    then have "text_lines (inlineNodeToMarkdown num n) = [inlineNodeToMarkdown num n]"
      by (intro split_at_no_sep) auto
    with False Cons w show ?thesis by (simp add: inlineToMarkdown_def split_at_append)
  qed
qed (simp add: inlineToMarkdown_def)

fun join_breaks :: "DocNode list list \<Rightarrow> DocNode list" where
  "join_breaks [] = []"
| "join_breaks [w] = w"
| "join_breaks (w # ws) = w @ hard_break # join_breaks ws"

lemma join_break_lines: "join_breaks (break_lines ns) = ns"
proof (induction ns)
  case (Cons n ns)
  obtain w ws where w: "break_lines ns = w # ws" by (cases "break_lines ns") auto
  with Cons show ?case by (cases ws) auto
qed simp

lemma content_of_lines:
  "\<forall>w \<in> set ws. good_line w \<Longrightarrow> para_content (map (inlineToMarkdown num) ws) = join_breaks ws"
  by (induction ws rule: join_breaks.induct) (auto simp: good_line_md)

text \<open>What may follow a block: nothing, or a blank line and then a line that is not indented.\<close>

definition block_end :: "string list \<Rightarrow> bool" where
  "block_end r \<longleftrightarrow> r = [] \<or> hd r = [] \<and> (tl r = [] \<or> \<not> space_first (hd (tl r)))"

lemma blank_Nil [simp]: "blank []"
  by (simp add: blank_def trim_def trim_start_def)

lemma not_prose_Nil [simp]: "\<not> is_prose []"
  by (simp add: is_prose_def)

lemma paragraph_back:
  assumes good: "\<forall>w \<in> set (break_lines ns). good_para_line num w"
    and b: "b = DocNode ''paragraph'' None None None (Some ns)"
  shows "text_lines (blockToMarkdown num b) = map (line_md num) (break_lines ns)"
    and "block_end r \<Longrightarrow> parse_blocks (map (line_md num) (break_lines ns) @ r) = b # parse_blocks r"
proof -
  have gl: "\<forall>w \<in> set (break_lines ns). good_line w" using good by (simp add: good_para_line_def)
  then have "text_lines (inlineToMarkdown num ns) = map (inlineToMarkdown num) (break_lines ns)"
    using piece_md(2) by (intro lines_of_breaks) (auto simp: good_line_def)
  then have "blockToMarkdown num b = join [CHR 0x0A] (map (line_md num) (break_lines ns))"
    by (simp add: b blockToMarkdown.simps kids_def escapeLineStarts_def line_md_alt o_def)
  with good show "text_lines (blockToMarkdown num b) = map (line_md num) (break_lines ns)"
    using good_para_line_md(3) by (simp add: split_join)
next
  assume r: "block_end r"
  obtain w ws where w: "break_lines ns = w # ws" by (cases "break_lines ns") auto
  let ?ls = "map (line_md num) (break_lines ns)"
  have prose: "\<forall>l \<in> set ?ls. is_prose l" using good good_para_line_md(1) by auto
  have rest: "takeWhile is_prose r = []" "dropWhile is_prose r = r"
    using r by (cases r; auto simp: block_end_def)+
  have tw: "takeWhile is_prose (?ls @ r) = ?ls" "dropWhile is_prose (?ls @ r) = r"
    using prose rest by (simp_all add: takeWhile_append dropWhile_append)
  have "map unescape_start ?ls = map (inlineToMarkdown num) (break_lines ns)"
    using good good_para_line_md(2) by simp
  moreover have "para_content (map (inlineToMarkdown num) (break_lines ns)) = ns"
    using good by (simp add: content_of_lines good_para_line_def join_break_lines)
  ultimately have "para_content (map unescape_start ?ls) = ns" by (simp only:)
  moreover have "ns \<noteq> []"
    using good by (auto simp: good_para_line_def good_line_def)
  ultimately have p: "para_node (map unescape_start ?ls) = b" by (simp add: para_node_def b del: map_map)
  have "is_prose (line_md num w)" using prose w by simp
  with tw p show "parse_blocks (?ls @ r) = b # parse_blocks r"
    by (simp add: w parse_blocks.simps is_prose_def del: takeWhile.simps dropWhile.simps)
qed

section \<open>The other blocks\<close>

text \<open>The lines of a block start with one that is not indented and end with one that says something.\<close>

definition firm :: "string list \<Rightarrow> bool" where
  "firm ls \<longleftrightarrow> ls \<noteq> [] \<and> hd ls \<noteq> [] \<and> \<not> space_first (hd ls) \<and> last ls \<noteq> []"

lemma heading_back:
  assumes "good_heading num b"
  shows "\<exists>l. text_lines (blockToMarkdown num b) = [l] \<and> firm [l] \<and> parse_blocks (l # r) = b # parse_blocks r"
proof -
  from assms obtain level where lv: "level \<in> {1, 2, 3}"
    and b: "b = DocNode ''heading'' None (Some [(''level'', JNum level)]) None (Some (kids b))"
    and k: "kids b = [] \<or> good_line (kids b) \<and> \<not> space_first (inlineToMarkdown num (kids b))"
    unfolding good_heading_def HEADING_LEVELS_def by auto
  let ?t = "inlineToMarkdown num (kids b)"
  define n where "n = nat \<lfloor>level\<rfloor>"
  have n: "n \<in> {1, 2, 3}" "real n = level" "heading_marks (Fin level) = n"
    using lv by (auto simp: n_def heading_marks_def)
  have t: "CHR 0x0A \<notin> set ?t" "parseInline ?t [] = kids b" "dropWhile is_space ?t = ?t"
    using k good_line_md [of "kids b" num] parse_go.simps [of "[]" "[]" "[]"]
    by (auto simp: inlineToMarkdown_def parseInline_def space_first_def dropWhile_eq_self_iff split: list.splits)
  let ?l = "replicate n (CHR ''#'') @ CHR '' '' # ?t"
  have "map (\<lambda>c. if c = CHR 0x0A then CHR '' '' else c) ?t = ?t" using t(1) by (intro map_idI) auto
  then have md: "blockToMarkdown num b = ?l"
    using n(3) by (subst b, subst blockToMarkdown.simps) (simp add: attr_at_def json_or_def number_of_def kids_def)
  have "CHR 0x0A \<notin> set ?l" using t(1) by auto
  then have "text_lines (blockToMarkdown num b) = [?l]" unfolding md by (intro split_at_no_sep) auto
  moreover have sp: "\<not> space_first ?l" "?l \<noteq> []" using n(1) by (auto simp: space_first_def is_space_def numeral_eq_Suc)
  moreover have "HEADING ?l = Some (n, ?t)"
  proof -
    have "hashes ?l = replicate n (CHR ''#'')" by (simp add: hashes_def takeWhile_append)
    then show ?thesis using n(1) t(3) by (auto simp: HEADING_def Let_def space_first_def is_space_def)
  qed
  moreover have "FENCE ?l = None" using n(1) by (auto simp: FENCE_def startsWith_def fence_mark_def numeral_eq_Suc)
  moreover have "heading_node n ?t = b" using b n(2) t(2) by (metis heading_node_def)
  ultimately show ?thesis using nonblank [of ?l] by (auto simp: parse_blocks.simps firm_def)
qed

lemma take_code_body: "(\<forall>l \<in> set body. FENCE l = None) \<Longrightarrow> FENCE e \<noteq> None \<Longrightarrow> take_code (body @ e # r) = (body, r)"
  by (induction body) auto

lemma FENCE_language: "(\<forall>c \<in> set language. is_word c) \<Longrightarrow> FENCE (fence_mark @ language) = Some language"
proof -
  assume w: "\<forall>c \<in> set language. is_word c"
  then have d: "dropWhile is_word language = []" by simp
  from w show ?thesis by (simp add: FENCE_def startsWith_def fence_mark_def d)
qed

lemma code_back:
  assumes "good_code b"
  shows "\<exists>ls. text_lines (blockToMarkdown num b) = ls \<and> firm ls \<and> parse_blocks (ls @ r) = b # parse_blocks r"
proof -
  from assms obtain language n where b: "b = code_block language (text_lines (text_or n))" and kb: "kids b = [n]"
    and la: "attr_at (node_attrs b) ''language'' = Some (JStr language)"
    and w: "\<forall>c \<in> set language. is_word c" and f: "\<forall>l \<in> set (text_lines (text_or n)). FENCE l = None"
    unfolding good_code_def by (auto split: option.splits json.splits list.splits)
  let ?body = "text_lines (text_or n)"
  let ?ls = "(fence_mark @ language) # ?body @ [fence_mark]"
  have "node_type b = ''codeBlock''" by (simp add: b code_block_def)
  then have md: "blockToMarkdown num b = fence_mark @ language @ [CHR 0x0A] @ text_or n @ [CHR 0x0A] @ fence_mark"
    by (subst blockToMarkdown.simps) (simp add: la textOfCode_def kb)
  have lang: "CHR 0x0A \<notin> set (fence_mark @ language)" using w by (auto simp: is_word_def fence_mark_def)
  have "text_lines ((fence_mark @ language) @ CHR 0x0A # text_or n @ CHR 0x0A # fence_mark) = ?ls"
  proof -
    have "text_lines (text_or n @ CHR 0x0A # fence_mark) = ?body @ [fence_mark]"
      using append_butlast_last_id [of ?body] by (simp add: split_at_append fence_mark_def)
    then show ?thesis using lang by (subst split_at_append_sep) auto
  qed
  then have "text_lines (blockToMarkdown num b) = ?ls" by (simp add: md)
  moreover have nb: "fence_mark @ language \<noteq> []" "\<not> space_first (fence_mark @ language)"
    by (simp_all add: fence_mark_def space_first_def is_space_def)
  then have "firm ?ls" by (simp add: firm_def) (simp add: fence_mark_def)
  moreover have "take_code (?body @ fence_mark # r) = (?body, r)"
    using take_code_body [OF f] FENCE_language [of "[]"] by simp
  then have "parse_blocks (?ls @ r) = b # parse_blocks r"
    using nonblank [OF nb] by (simp add: parse_blocks.simps FENCE_language [OF w] b)
  ultimately show ?thesis by blast
qed

lemma blank_between_firm:
  assumes "xs \<noteq> []" and "\<forall>x \<in> set xs. firm x"
  shows "firm (blank_between xs)"
  using assms by (induction xs rule: blank_between.induct) (auto simp: firm_def)

lemma blank_between_hd: "firm x \<Longrightarrow> hd (blank_between (x # xs)) = hd x"
  by (cases xs) (auto simp: firm_def)

text \<open>Blocks that each come back come back one after the other.\<close>

lemma blocks_back:
  assumes "\<forall>b \<in> set bs. firm (f b) \<and> (\<forall>r. block_end r \<longrightarrow> parse_blocks (f b @ r) = b # parse_blocks r)"
  shows "parse_blocks (blank_between (map f bs)) = bs"
  using assms
proof (induction bs rule: induct_list012)
  case (2 b)
  from 2 [THEN bspec, of b] show ?case by (auto simp: block_end_def dest: spec [of _ "[]"])
next
  case (3 b c bs)
  have "firm (f c)" using 3 by simp
  then have "block_end ([] # blank_between (map f (c # bs)))"
    using blank_between_hd [of "f c" "map f bs"] by (simp add: block_end_def firm_def)
  then have "parse_blocks (f b @ [] # blank_between (map f (c # bs))) = b # parse_blocks ([] # blank_between (map f (c # bs)))"
    using 3 by simp
  with 3 show ?case by (simp add: parse_blocks.simps(2) [of "[]"])
qed (simp add: parse_blocks.simps)

lemma QUOTE_quote_line: "QUOTE (quote_line l) = Some l"
  by (cases l) (auto simp: quote_line_def QUOTE_def startsWith_def space_first_def is_space_def)

lemma take_quote_lines: "block_end r \<Longrightarrow> take_quote (map quote_line ls @ r) = (ls, r)"
  by (induction ls; cases r) (auto simp: QUOTE_quote_line block_end_def, auto simp: QUOTE_def startsWith_def)

lemma quote_back:
  assumes b: "b = quote_node bs" and i: "parse_blocks (md_lines num bs) = bs"
  defines "ls \<equiv> map quote_line (md_lines num bs)"
  shows "text_lines (blockToMarkdown num b) = ls" "firm ls"
    "block_end r \<Longrightarrow> parse_blocks (ls @ r) = b # parse_blocks r"
proof -
  obtain l ms where l: "md_lines num bs = l # ms" by (cases "md_lines num bs") (auto simp: md_lines_def)
  have nl: "\<forall>q \<in> set ls. CHR 0x0A \<notin> set q"
    unfolding ls_def md_lines_def by (auto simp: quote_line_def split: if_splits dest: split_no_sep)
  have "node_type b = ''blockquote''" "kids b = bs" by (simp_all add: b quote_node_def kids_def)
  then have "blockToMarkdown num b = join [CHR 0x0A] ls"
    by (subst blockToMarkdown.simps) (simp add: ls_def md_lines_def)
  then show "text_lines (blockToMarkdown num b) = ls" using nl l by (simp add: split_join ls_def)
  have q: "quote_line k \<noteq> [] \<and> \<not> space_first (quote_line k) \<and> FENCE (quote_line k) = None \<and> HEADING (quote_line k) = None" for k
    by (auto simp: quote_line_def space_first_def is_space_def FENCE_def HEADING_def hashes_def startsWith_def fence_mark_def)
  show "firm ls" using q l by (auto simp: firm_def ls_def last_map)
  assume r: "block_end r"
  have "take_quote (quote_line l # map quote_line ms @ r) = (l # ms, r)"
    using take_quote_lines [OF r, of "l # ms"] by simp
  then show "parse_blocks (ls @ r) = b # parse_blocks r"
    using q [of l] nonblank [of "quote_line l"] i
    by (simp add: ls_def l parse_blocks.simps(2) QUOTE_quote_line b del: take_quote.simps)
qed

section \<open>Lists\<close>

definition item_head :: "bool \<Rightarrow> nat \<Rightarrow> string" where
  "item_head ordered i = (if ordered then nat_str (i + 1) @ ''.'' else ''-'')"

lemma list_marker_head: "list_marker ordered i = item_head ordered i @ '' ''"
  by (simp add: list_marker_def item_head_def)

lemma item_head_first: "item_head ordered i \<noteq> [] \<and> (hd (item_head ordered i) = CHR ''-'' \<or> is_digit (hd (item_head ordered i)))"
  using nat_str_digits [of "i + 1"] by (auto simp: item_head_def hd_append)

lemma digit_no_space: "is_digit c \<Longrightarrow> \<not> is_space c"
  by (auto simp: is_digit_def is_space_def)

lemma item_head_marker: "item_marker (item_head ordered i @ '' '' @ l) = Some (item_head ordered i)"
proof (cases ordered)
  case True
  obtain c ds where c: "nat_str (i + 1) = c # ds" by (cases "nat_str (i + 1)") auto
  with nat_str_digits [of "i + 1"] have d: "is_digit c" "\<forall>d \<in> set ds. is_digit d" by auto
  then have "c \<noteq> CHR ''-''" "c \<noteq> CHR ''*''" by (auto simp: is_digit_def)
  moreover have "takeWhile is_digit (ds @ ''.'' @ '' '' @ l) = ds" using d(2) by (simp add: takeWhile_append is_digit_def)
  ultimately show ?thesis using True d c by (simp add: item_head_def item_marker_def startsWith_def)
qed (simp add: item_head_def item_marker_def)

lemma item_head_ordered: "is_ordered (item_head ordered i) = ordered"
proof -
  obtain c ds where "nat_str (i + 1) = c # ds" by (cases "nat_str (i + 1)") auto
  with nat_str_digits [of "i + 1"] show ?thesis by (auto simp: is_ordered_def item_head_def is_digit_def)
qed

text \<open>The first line of an item is read as one, and as nothing else.\<close>

lemma item_line:
  fixes ordered :: bool and i :: nat
  assumes "\<not> space_first l"
  defines "line \<equiv> item_head ordered i @ '' '' @ l"
  shows "ITEM line = Some (0, item_head ordered i, l)" "FENCE line = None" "HEADING line = None" "QUOTE line = None"
    "line \<noteq> []" "\<not> space_first line"
proof -
  obtain c m where c: "item_head ordered i = c # m" "c = CHR ''-'' \<or> is_digit c"
    using item_head_first [of ordered i] by (cases "item_head ordered i") auto
  then have sp: "\<not> is_space c" using digit_no_space by (auto simp: is_space_def)
  have l: "dropWhile is_space l = l" using assms(1) by (cases l) (auto simp: space_first_def)
  show "ITEM line = Some (0, item_head ordered i, l)"
    using item_head_marker [of ordered i l] c sp l by (simp add: ITEM_def line_def space_first_def is_space_def)
  show "line \<noteq> []" "\<not> space_first line" using c sp by (simp_all add: line_def space_first_def)
  show "FENCE line = None" "HEADING line = None" "QUOTE line = None"
    using c by (auto simp: line_def FENCE_def HEADING_def QUOTE_def hashes_def startsWith_def fence_mark_def is_digit_def Let_def)
qed

text \<open>Where an item ends: at a line that is not indented, nor blank before one that is.\<close>

definition item_end :: "nat \<Rightarrow> string list \<Rightarrow> bool" where
  "item_end w r \<longleftrightarrow> r = [] \<or> \<not> startsWith (hd r) (spaces w)
     \<and> \<not> (blank (hd r) \<and> tl r \<noteq> [] \<and> startsWith (hd (tl r)) (spaces w))"

lemma length_spaces [simp]: "length (spaces w) = w"
  by (simp add: spaces_def)

lemma spaces_space: "0 < w \<Longrightarrow> startsWith l (spaces w) \<Longrightarrow> space_first l"
  by (cases w; cases l) (auto simp: startsWith_def spaces_def space_first_def is_space_def)

lemma block_end_item: "0 < w \<Longrightarrow> block_end r \<Longrightarrow> item_end w r"
  using spaces_space [of w "[]"] spaces_space [of w "hd (tl r)"] by (auto simp: block_end_def item_end_def)

lemma take_body_item:
  assumes "0 < w" and "no_gap ls" and "ls = [] \<or> last ls \<noteq> []" and "item_end w r"
  shows "take_body w (map (\<lambda>l. if l \<noteq> [] then spaces w @ l else []) ls @ r) = (ls, r)"
proof -
  have st: "startsWith (spaces w @ l) (spaces w)" "drop w (spaces w @ l) = l" for l
    by (simp_all add: startsWith_def spaces_def)
  have e: "take_body w r = ([], r)" using assms(4) by (cases r) (auto simp: item_end_def)
  from assms(2,3) show ?thesis
  proof (induction ls rule: no_gap.induct)
    case (1 l m ls)
    then show ?case by (auto simp: st)
  qed (use e st in auto)
qed

text \<open>The lines of an item: the empty line of an empty paragraph, or lines that come back.\<close>

definition item_inner :: "string list \<Rightarrow> bool" where
  "item_inner ls \<longleftrightarrow> ls = [[]] \<or> firm ls \<and> no_gap ls"

lemma no_gap_tl: "no_gap (l # ls) \<Longrightarrow> no_gap ls"
  by (cases ls) auto

lemma item_inner_shape:
  assumes "item_inner ls"
  obtains l ms where "ls = l # ms" "\<not> space_first l" "no_gap ms" "ms = [] \<or> last ms \<noteq> []"
  using assms no_gap_tl by (cases ls) (auto simp: item_inner_def firm_def space_first_def split: if_splits)

definition list_lines :: "bool \<Rightarrow> nat \<Rightarrow> string list list \<Rightarrow> string list" where
  "list_lines ordered i inners = concat (map (\<lambda>(k, inner). item_lines (list_marker ordered k) inner) (enumerate i inners))"

lemma list_lines_Cons: "list_lines ordered i (inner # inners) = item_lines (list_marker ordered i) inner @ list_lines ordered (Suc i) inners"
  by (simp add: list_lines_def)

lemma item_lines_Cons:
  "item_lines (list_marker ordered i) (l # ms) =
    (item_head ordered i @ '' '' @ l) # map (\<lambda>l. if l \<noteq> [] then spaces (length (item_head ordered i) + 1) @ l else []) ms"
proof -
  have "length (list_marker ordered i) = length (item_head ordered i) + 1" by (simp add: list_marker_head)
  then show ?thesis by (simp only: item_lines_def list.case) (simp add: list_marker_head)
qed

lemma list_lines_end:
  assumes "\<forall>ls \<in> set inners. item_inner ls" and "block_end r" and "0 < w"
  shows "item_end w (list_lines ordered i inners @ r)"
proof (cases inners)
  case Nil
  then show ?thesis using assms by (simp add: list_lines_def block_end_item)
next
  case (Cons inner rest)
  with assms obtain l ms where l: "inner = l # ms" "\<not> space_first l" by (auto elim: item_inner_shape)
  note line = item_line(5,6) [OF l(2), of ordered i]
  then show ?thesis
    using Cons l spaces_space [OF assms(3), of "item_head ordered i @ '' '' @ l"] nonblank [OF line]
    by (auto simp: list_lines_Cons item_lines_Cons item_end_def)
qed

lemma take_items_lines:
  assumes "\<forall>ls \<in> set inners. item_inner ls" and "block_end r"
  shows "take_items 0 ordered (list_lines ordered i inners @ r) = (inners, r)"
  using assms
proof (induction inners arbitrary: i)
  case Nil
  then show ?case
    by (cases r) (auto simp: list_lines_def block_end_def, auto simp: ITEM_def item_marker_def)
next
  case (Cons inner rest)
  then obtain l ms where l: "inner = l # ms" "\<not> space_first l" "no_gap ms" "ms = [] \<or> last ms \<noteq> []"
    by (auto elim: item_inner_shape)
  let ?r = "list_lines ordered (Suc i) rest @ r"
  let ?w = "length (item_head ordered i) + 1"
  have "take_body ?w (map (\<lambda>l. if l \<noteq> [] then spaces ?w @ l else []) ms @ ?r) = (ms, ?r)"
    using Cons.prems l by (intro take_body_item list_lines_end) auto
  then show ?case
    using Cons item_line(1) [OF l(2), of ordered i]
    by (simp add: list_lines_Cons l(1) item_lines_Cons item_head_ordered)
qed

lemma item_lines_no_break:
  assumes "\<forall>l \<in> set inner. CHR 0x0A \<notin> set l" and "q \<in> set (item_lines (list_marker ordered i) inner)"
  shows "CHR 0x0A \<notin> set q"
proof -
  have "CHR 0x0A \<notin> set (list_marker ordered i)"
    using nat_str_digits [of "i + 1"] by (auto simp: list_marker_def is_digit_def)
  then show ?thesis using assms
    by (cases inner) (auto simp: item_lines_def spaces_def split: if_splits)
qed

lemma map_enumerate: "map g (enumerate n (map f xs)) = map (\<lambda>(i, x). g (i, f x)) (enumerate n xs)"
  by (induction xs arbitrary: n) auto

lemma list_lines_firm:
  assumes "\<forall>ls \<in> set inners. item_inner ls" and "inners \<noteq> []"
  shows "firm (list_lines ordered i inners)"
proof -
  have one: "firm (item_lines (list_marker ordered i) ls)" if inner: "item_inner ls" for i ls
  proof -
    from inner obtain l ms where l: "ls = l # ms" "\<not> space_first l" "ms = [] \<or> last ms \<noteq> []"
      by (auto elim: item_inner_shape)
    with item_line(5,6) [OF l(2), of ordered i] show ?thesis
      by (auto simp: firm_def item_lines_Cons last_map)
  qed
  from assms show ?thesis
  proof (induction inners arbitrary: i)
    case (Cons ls rest)
    show ?case
    proof (cases "rest = []")
      case True
      with one [of ls i] Cons.prems show ?thesis by (simp add: list_lines_def)
    next
      case False
      with one [of ls i] Cons.IH [of "Suc i"] Cons.prems show ?thesis by (simp add: list_lines_Cons firm_def)
    qed
  qed simp
qed

lemma list_back:
  assumes b: "b = list_node ordered items" and ne: "items \<noteq> []"
    and it: "\<forall>item \<in> set items. item_inner (md_lines num (kids item))
      \<and> list_item (parse_blocks (md_lines num (kids item))) = item"
  defines "ls \<equiv> list_lines ordered 0 (map (\<lambda>item. md_lines num (kids item)) items)"
  shows "text_lines (blockToMarkdown num b) = ls" "firm ls"
    "block_end r \<Longrightarrow> parse_blocks (ls @ r) = b # parse_blocks r"
proof -
  let ?ins = "map (\<lambda>item. md_lines num (kids item)) items"
  have kb: "kids b = items" "node_type b = (if ordered then ''orderedList'' else ''bulletList'')"
    by (simp_all add: b list_node_def kids_def)
  have ins: "\<forall>l \<in> set ?ins. item_inner l" using it by simp
  have "blockToMarkdown num b = join [CHR 0x0A] (map (\<lambda>(i, inner). join [CHR 0x0A] (item_lines (list_marker ordered i) inner)) (enumerate 0 ?ins))"
    by (subst blockToMarkdown.simps) (simp add: kb md_lines_def map_enumerate split_def)
  moreover have "text_lines (join [CHR 0x0A] (item_lines (list_marker ordered i) inner)) = item_lines (list_marker ordered i) inner"
    if "inner \<in> set ?ins" for i inner
  proof (rule split_join)
    have "\<forall>l \<in> set inner. CHR 0x0A \<notin> set l" using that by (auto simp: md_lines_def dest: split_no_sep)
    then show "\<forall>q \<in> set (item_lines (list_marker ordered i) inner). CHR 0x0A \<notin> set q" by (auto dest: item_lines_no_break)
    show "item_lines (list_marker ordered i) inner \<noteq> []"
      using that ins by (auto simp: item_lines_def elim!: item_inner_shape split: list.splits)
  qed
  moreover have "enumerate 0 ?ins \<noteq> []" using ne by (cases items) auto
  moreover have "snd p \<in> set ?ins" if "p \<in> set (enumerate 0 ?ins)" for p
    using that by (metis enumerate_eq_zip prod.collapse set_zip_rightD)
  ultimately show "text_lines (blockToMarkdown num b) = ls"
    by (simp add: lines_join ls_def list_lines_def split_def cong: map_cong)
  obtain item rest where c: "items = item # rest" using ne by (cases items) auto
  with it obtain l ms where l: "md_lines num (kids item) = l # ms" "\<not> space_first l" by (auto elim: item_inner_shape)
  note line = item_line [OF l(2), of ordered 0]
  obtain t where t: "ls = (item_head ordered 0 @ '' '' @ l) # t"
    by (simp add: ls_def c l list_lines_Cons item_lines_Cons)
  show "firm ls" unfolding ls_def using ins ne by (intro list_lines_firm) auto
  assume r: "block_end r"
  have "take_items 0 ordered ((item_head ordered 0 @ '' '' @ l) # t @ r) = (?ins, r)"
    using take_items_lines [OF ins r, of ordered 0] t by (simp add: ls_def)
  moreover have "map (\<lambda>body. list_item (parse_blocks body)) ?ins = items" using it by (simp add: map_idI)
  ultimately show "parse_blocks (ls @ r) = b # parse_blocks r"
    using line nonblank [OF line(5,6)] unfolding t
    by (simp add: parse_blocks.simps(2) item_head_ordered b del: take_items.simps append_assoc map_map)
qed

section \<open>The round trip\<close>

abbreviation block_lines :: "(real \<Rightarrow> string) \<Rightarrow> DocNode \<Rightarrow> string list" where
  "block_lines num b \<equiv> text_lines (blockToMarkdown num b)"

definition comes_back :: "(real \<Rightarrow> string) \<Rightarrow> DocNode \<Rightarrow> bool" where
  "comes_back num b \<longleftrightarrow> firm (block_lines num b)
     \<and> (\<forall>r. block_end r \<longrightarrow> parse_blocks (block_lines num b @ r) = b # parse_blocks r)"

lemma md_lines_blocks: "md_lines num bs = blank_between (map (block_lines num) bs)"
  by (simp add: md_lines_def lines_join2 o_def)

lemma md_lines_back: "\<forall>b \<in> set bs. comes_back num b \<Longrightarrow> parse_blocks (md_lines num bs) = bs"
  unfolding md_lines_blocks by (rule blocks_back) (simp add: comes_back_def)

lemma item_back:
  assumes "item = list_item (kids item)"
    and "kids item = [empty_para] \<or> kids item \<noteq> [] \<and> no_gap (md_lines num (kids item)) \<and> (\<forall>c \<in> set (kids item). comes_back num c)"
  shows "item_inner (md_lines num (kids item)) \<and> list_item (parse_blocks (md_lines num (kids item))) = item"
  using assms(2)
proof
  assume k: "kids item = [empty_para]"
  have "escapeLineStarts [] = []"
    by (simp add: escapeLineStarts_def reads_as_block_def hashes_def startsWith_def item_marker_def fence_mark_def)
  then have "blockToMarkdown num empty_para = []"
    by (subst blockToMarkdown.simps) (simp add: empty_para_def kids_def inlineToMarkdown_def)
  then have "md_lines num (kids item) = [[]]" by (simp add: k md_lines_def)
  moreover have "list_item [] = list_item [empty_para]" by (simp add: list_item_def empty_para_def)
  ultimately show ?thesis using assms(1) k by (simp add: item_inner_def parse_blocks.simps)
next
  assume k: "kids item \<noteq> [] \<and> no_gap (md_lines num (kids item)) \<and> (\<forall>c \<in> set (kids item). comes_back num c)"
  then have "firm (md_lines num (kids item))"
    unfolding md_lines_blocks by (intro blank_between_firm) (auto simp: comes_back_def)
  with k md_lines_back [of "kids item" num] assms(1) show ?thesis by (simp add: item_inner_def)
qed

lemma good_block_back: "good_block num b \<Longrightarrow> comes_back num b"
proof (induction num b rule: good_block.induct)
  case (1 num b)
  from "1.prems" consider
      (para) "b = DocNode ''paragraph'' None None None (Some (kids b))" "\<forall>w \<in> set (break_lines (kids b)). good_para_line num w"
    | (heading) "good_heading num b" | (code) "good_code b"
    | (quote) "b = quote_node (kids b)" "\<forall>c \<in> set (kids b). good_block num c"
    | (items) ordered where "b = list_node ordered (kids b)" "kids b \<noteq> []"
        "\<forall>item \<in> set (kids b). item = list_item (kids item) \<and> (kids item = [empty_para]
           \<or> kids item \<noteq> [] \<and> no_gap (md_lines num (kids item)) \<and> (\<forall>c \<in> set (kids item). good_block num c))"
    by (subst (asm) good_block.simps) blast
  then show ?case
  proof cases
    case para
    have "firm (map (line_md num) (break_lines (kids b)))"
      using para(2) good_para_line_md(4,5) by (auto simp: firm_def hd_map last_map)
    with paragraph_back [OF para(2,1)] show ?thesis by (simp add: comes_back_def)
  next
    case heading
    then show ?thesis using heading_back [OF heading] by (fastforce simp: comes_back_def)
  next
    case code
    then show ?thesis using code_back [OF code] by (fastforce simp: comes_back_def)
  next
    case quote
    then have "parse_blocks (md_lines num (kids b)) = kids b" using "1.IH" by (intro md_lines_back) auto
    from quote_back [OF quote(1) this] show ?thesis by (simp add: comes_back_def)
  next
    case items
    have "item_inner (md_lines num (kids item)) \<and> list_item (parse_blocks (md_lines num (kids item))) = item"
      if item: "item \<in> set (kids b)" for item
      using item_back [of item num] items(3) item "1.IH" by blast
    then show ?thesis using list_back [OF items(1,2)] by (simp add: comes_back_def)
  qed
qed

lemma normalise_no_return: "CHR 0x0D \<notin> set t \<Longrightarrow> normalise_breaks t = t"
  by (induction t) auto


definition sample_doc :: Doc where
  "sample_doc =
     [heading_node 2 ''Plan'',
      DocNode ''paragraph'' None None None (Some [text_node ''Ask'' [plain_mark ''bold''], text_node '' 2 * 3 ['' [],
        text_node ''soft'' [plain_mark ''italic''], text_node ''x'' [plain_mark ''code''], hard_break, text_node ''- no'' []]),
      list_node True [list_item [DocNode ''paragraph'' None None None (Some [text_node ''one'' []]), code_block ''go'' [''a'', [], '' b'']],
        list_item [], list_item [quote_node [DocNode ''paragraph'' None None None
          (Some [text_node ''s'' [link_mark ''https://a.b'']])]]]]"


section \<open>What is read stays inside the schema\<close>

definition schema_mark :: "DocMark \<Rightarrow> bool" where
  "schema_mark m \<longleftrightarrow> mark_type m \<in> set MARK_TYPES
     \<and> (mark_type m = ''link'' \<longrightarrow> safeHref (attr_at (mark_attrs m) ''href'') \<noteq> None)"

function schema_node :: "DocNode \<Rightarrow> bool" where
  "schema_node n \<longleftrightarrow> node_type n \<in> set NODE_TYPES \<and> (\<forall>m \<in> set (marks_of n). schema_mark m)
     \<and> (node_type n = ''heading'' \<longrightarrow> (\<exists>level \<in> set HEADING_LEVELS. attr_at (node_attrs n) ''level'' = Some (JNum level)))
     \<and> (\<forall>k \<in> set (kids n). schema_node k)"
  by pat_completeness auto
termination by (relation "measure size") (auto dest: kids_smaller)

declare schema_node.simps [simp del]

lemma safeHref_again: "safeHref h = Some g \<Longrightarrow> safeHref (Some (JStr g)) = Some g"
  by (auto simp: safeHref_def Let_def trim_trim split: option.splits json.splits if_splits)

lemma schema_text: "\<forall>m \<in> set marks. schema_mark m \<Longrightarrow> schema_node (text_node t marks)"
  by (subst schema_node.simps) (simp add: text_node_def NODE_TYPES_def marks_of_def kids_def)

lemma schema_flush: "\<forall>m \<in> set marks. schema_mark m \<Longrightarrow> \<forall>n \<in> set (flush marks buf). schema_node n"
  by (simp add: flush_def schema_text)

lemma delimited_mark: "delim_at ds marks t = Some (m, x) \<Longrightarrow> m \<in> snd ` set ds"
  by (induction ds marks t rule: delim_at.induct) (auto split: option.splits if_splits)

lemma schema_plain: "k \<in> {''bold'', ''italic'', ''code'', ''strike''} \<Longrightarrow> schema_mark (plain_mark k)"
  by (auto simp: schema_mark_def plain_mark_def MARK_TYPES_def)

lemma schema_link: "link_at t = Some (h, x) \<Longrightarrow> schema_mark (link_mark h)"
  by (auto simp: link_at_def schema_mark_def link_mark_def MARK_TYPES_def attr_at_def
      split: if_splits option.splits dest: safeHref_again)

lemma parse_go_schema: "\<forall>m \<in> set marks. schema_mark m \<Longrightarrow> \<forall>n \<in> set (parse_go marks buf t). schema_node n"
proof (induction marks buf t rule: parse_go.induct)
  case (1 marks buf t)
  show ?case
  proof (cases t)
    case Nil
    then show ?thesis using schema_flush [OF "1.prems"] by (simp add: parse_go.simps)
  next
    case (Cons c s)
    note unf = parse_go.simps [of marks buf "c # s"]
    consider (esc) "c = CHR 0x5C \<and> s \<noteq> []"
      | (code) x r where "\<not> (c = CHR 0x5C \<and> s \<noteq> [])" "code_at t = Some (x, r)"
      | (delim) m x r where "\<not> (c = CHR 0x5C \<and> s \<noteq> [])" "code_at t = None" "delim_at delimited marks t = Some (m, x, r)"
      | (link) h x r where "\<not> (c = CHR 0x5C \<and> s \<noteq> [])" "code_at t = None" "delim_at delimited marks t = None" "link_at t = Some (h, x, r)"
      | (plain) "\<not> (c = CHR 0x5C \<and> s \<noteq> [])" "code_at t = None" "delim_at delimited marks t = None" "link_at t = None"
      by (metis option.exhaust prod.exhaust)
    then show ?thesis
    proof cases
      case esc
      with 1(1) [OF Cons esc "1.prems"] show ?thesis unfolding Cons unf by simp
    next
      case (code x r)
      have "schema_node (text_node x (marks @ [plain_mark ''code'']))"
        using "1.prems" schema_plain by (intro schema_text) auto
      with 1(7) [OF Cons code(1,2) refl "1.prems"] code Cons schema_flush [OF "1.prems"] show ?thesis
        by (simp add: unf) blast
    next
      case (delim m x r)
      have "schema_mark (plain_mark m)" using delimited_mark [OF delim(3)] by (intro schema_plain) (auto simp: delimited_def)
      with 1(5) [OF Cons delim refl refl] 1(6) [OF Cons delim refl refl "1.prems"] "1.prems" delim Cons schema_flush [OF "1.prems"]
      show ?thesis by (auto simp: unf)
    next
      case (link h x r)
      with 1(3) [OF Cons link refl refl] 1(4) [OF Cons link refl refl "1.prems"] "1.prems" schema_link [OF link(4)] Cons
        schema_flush [OF "1.prems"]
      show ?thesis by (auto simp: unf)
    next
      case plain
      with 1(2) [OF Cons plain "1.prems"] Cons show ?thesis by (auto simp: unf)
    qed
  qed
qed

lemma parseInline_schema: "\<forall>n \<in> set (parseInline t []). schema_node n"
  using parse_go_schema [of "[]"] by (simp add: parseInline_def)

lemma schema_para: "schema_node (para_node ls)"
proof -
  have "schema_node hard_break" by (subst schema_node.simps) (simp add: hard_break_def NODE_TYPES_def marks_of_def kids_def)
  then have "\<forall>n \<in> set (para_content ls). schema_node n"
    using parseInline_schema by (induction ls rule: para_content.induct) auto
  then show ?thesis
    by (subst schema_node.simps) (auto simp: para_node_def NODE_TYPES_def marks_of_def kids_def)
qed

lemma schema_heading: "HEADING l = Some (n, t) \<Longrightarrow> schema_node (heading_node n t)"
proof -
  assume "HEADING l = Some (n, t)"
  then have "n \<in> {1, 2, 3}" by (auto simp: HEADING_def Let_def split: if_splits)
  then show ?thesis using parseInline_schema [of t]
    by (subst schema_node.simps)
      (auto simp: heading_node_def NODE_TYPES_def marks_of_def kids_def attr_at_def HEADING_LEVELS_def)
qed

lemma schema_code: "schema_node (code_block language body)"
  using schema_text [of "[]"]
  by (subst schema_node.simps) (simp add: code_block_def NODE_TYPES_def marks_of_def kids_def)

lemma schema_groups:
  assumes "\<forall>n \<in> set ns. schema_node n"
  shows "schema_node (quote_node ns)" "schema_node (list_node ordered ns)" "schema_node (list_item ns)"
  using assms schema_para [of "[]"]
  by (subst schema_node.simps, auto simp: quote_node_def list_node_def list_item_def para_node_def NODE_TYPES_def marks_of_def kids_def)+

lemma parse_blocks_schema: "\<forall>n \<in> set (parse_blocks ls). schema_node n"
proof (induction "weight ls" arbitrary: ls rule: less_induct)
  case less
  show ?case
  proof (cases ls)
    case (Cons l rest)
    note un = parse_blocks.simps(2) [of l rest]
    have rest: "\<forall>n \<in> set (parse_blocks rest). schema_node n" by (rule less) (simp add: Cons)
    consider (blank) "blank l"
      | (code) x where "\<not> blank l" "FENCE l = Some x"
      | (heading) k t where "\<not> blank l" "FENCE l = None" "HEADING l = Some (k, t)"
      | (quote) q where "\<not> blank l" "FENCE l = None" "HEADING l = None" "QUOTE l = Some q"
      | (item) n m f where "\<not> blank l" "FENCE l = None" "HEADING l = None" "QUOTE l = None" "ITEM l = Some (n, m, f)"
      | (prose) "\<not> blank l" "FENCE l = None" "HEADING l = None" "QUOTE l = None" "ITEM l = None"
      by (metis option.exhaust prod.exhaust)
    then show ?thesis
    proof cases
      case (code x)
      obtain body r where b: "take_code rest = (body, r)" by fastforce
      then have "\<forall>n \<in> set (parse_blocks r). schema_node n"
        using take_code_weight [of rest body r] by (intro less) (simp add: Cons)
      with code b schema_code show ?thesis unfolding Cons un by simp
    next
      case (quote q)
      obtain inner r where b: "take_quote (l # rest) = (inner, r)" by fastforce
      have "\<forall>n \<in> set (parse_blocks r). schema_node n" "\<forall>n \<in> set (parse_blocks inner). schema_node n"
        using take_quote_progress [OF quote(4) b] by (auto intro!: less simp: Cons)
      with quote b schema_groups(1) show ?thesis unfolding Cons un by (simp del: take_quote.simps)
    next
      case (item n m f)
      obtain bodies r where b: "take_items n (is_ordered m) (l # rest) = (bodies, r)" by fastforce
      note p = take_items_progress [OF item(5) b]
      have r: "\<forall>n \<in> set (parse_blocks r). schema_node n" using p(1) by (intro less) (simp add: Cons)
      have "\<forall>n \<in> set (parse_blocks body). schema_node n" if "body \<in> set bodies" for body
        using p(2) [OF that] by (intro less) (simp add: Cons)
      then have "schema_node (list_node (is_ordered m) (map (\<lambda>body. list_item (parse_blocks body)) bodies))"
        by (intro schema_groups(2)) (auto intro: schema_groups(3))
      with item b r show ?thesis unfolding Cons un by (simp del: take_items.simps)
    next
      case prose
      show ?thesis
      proof (cases "takeWhile is_prose (l # rest) = []")
        case False
        then have "\<forall>n \<in> set (parse_blocks (dropWhile is_prose (l # rest))). schema_node n"
          using dropWhile_progress [OF False] by (intro less) (simp only: Cons)
        with prose False schema_para show ?thesis
          unfolding Cons un by (simp del: takeWhile.simps dropWhile.simps)
      next
        case True
        with prose rest schema_para show ?thesis
          unfolding Cons un by (simp del: takeWhile.simps dropWhile.simps)
      qed
    qed (use rest schema_heading in \<open>auto simp: Cons un\<close>)
  qed simp
qed

text \<open>
  C10: whatever text is read as markdown, the document stays inside the schema: its nodes and marks are
  of the types the schema names, its headings of a level it names, and every link leads to an address
  that is safe to open.
\<close>

theorem markdown_safe:
  assumes "markdownToDoc t = Some d"
  shows "\<forall>n \<in> set d. schema_node n"
  using assms parse_blocks_schema by (auto simp: markdownToDoc_def split: if_splits)

theorem markdown_safe_witness:
  "markdownToDoc ''[x](http://a)'' = Some [DocNode ''paragraph'' None None None (Some [text_node ''x'' [link_mark ''http://a'']])]
   \<and> schema_node (DocNode ''paragraph'' None None None (Some [text_node ''x'' [link_mark ''http://a'']]))"
proof -
  have r: "markdownToDoc ''[x](http://a)'' = Some [DocNode ''paragraph'' None None None (Some [text_node ''x'' [link_mark ''http://a'']])]"
    by code_simp
  from markdown_safe [OF r] r show ?thesis by simp
qed

section \<open>Documents that do not come back\<close>

text \<open>Text that is bold and slanted is written with three stars, of which the reader takes two for bold.\<close>

lemma bold_italic_lost:
  "markdownToDoc (docToMarkdown num (Some [DocNode ''paragraph'' None None None
      (Some [text_node ''x'' [plain_mark ''bold'', plain_mark ''italic'']])])) =
    Some [DocNode ''paragraph'' None None None (Some [text_node ''*x'' [plain_mark ''bold''], text_node ''*'' []])]"
  by code_simp

text \<open>An address ends for the reader at its first closing parenthesis.\<close>

lemma link_address_lost:
  "markdownToDoc (docToMarkdown num (Some [DocNode ''paragraph'' None None None
      (Some [text_node ''x'' [link_mark ''http://a(b)c'']])])) =
    Some [DocNode ''paragraph'' None None None (Some [text_node ''x'' [link_mark ''http://a(b''], text_node ''c)'' []])]"
  by code_simp

text \<open>A backslash at the end of code escapes the tick that closes it.\<close>

lemma code_backslash_lost:
  "markdownToDoc (docToMarkdown num (Some [DocNode ''paragraph'' None None None
      (Some [text_node [CHR ''a'', CHR 0x5C] [plain_mark ''code'']])])) =
    Some [DocNode ''paragraph'' None None None (Some [text_node [CHR 0x60, CHR ''a'', CHR 0x60] []])]"
  by code_simp

text \<open>The escape of a star at the start of a line is taken for the escape of a list item.\<close>

lemma leading_star_lost:
  "markdownToDoc (docToMarkdown num (Some [DocNode ''paragraph'' None None None
      (Some [text_node ''* x '' [], text_node ''y'' [plain_mark ''italic'']])])) =
    Some [DocNode ''paragraph'' None None None (Some [text_node '' x '' [plain_mark ''italic''], text_node ''y*'' []])]"
  by code_simp

text \<open>A dash after white space is not escaped, and the reader makes a list of it.\<close>

lemma indented_dash_lost:
  "markdownToDoc (docToMarkdown num (Some [DocNode ''paragraph'' None None None (Some [text_node '' - x'' []])])) =
    Some [list_node False [list_item [DocNode ''paragraph'' None None None (Some [text_node ''x'' []])]]]"
  by code_simp

text \<open>Code in a list ends for the reader at two blank lines.\<close>

lemma list_code_lost:
  "docToMarkdown num (Some [list_node False [list_item [code_block [] [''a'', [], [], ''b'']]]]) =
     join [CHR 0x0A] [''- '' @ fence_mark, ''  a'', [], [], ''  b'', ''  '' @ fence_mark]
   \<and> (case markdownToDoc (docToMarkdown num (Some [list_node False [list_item [code_block [] [''a'', [], [], ''b'']]]])) of
        Some (b # _) \<Rightarrow> b = list_node False [list_item [code_block [] [''a'']]] | _ \<Rightarrow> False)"
  by code_simp

end
