(* ===== verification/JsonText.thy ===== *)
theory JsonText
  imports JsValue
begin

text \<open>
  \<open>JSON.stringify\<close> and \<open>JSON.parse\<close> as the modules use them: on values of JSON, with how a number is
  written a parameter. A text that names a code unit past 255 by its number is outside the model, as
  such units are everywhere.
\<close>

section \<open>Writing\<close>

definition hex_digit :: "nat \<Rightarrow> char" where
  "hex_digit d = (if d < 10 then char_of (48 + d) else char_of (87 + d))"

definition quote_unit :: "char \<Rightarrow> string" where
  "quote_unit c =
     (if c = CHR 0x22 then [CHR 0x5C, CHR 0x22]
      else if c = CHR 0x5C then [CHR 0x5C, CHR 0x5C]
      else if c = CHR 0x08 then [CHR 0x5C, CHR ''b'']
      else if c = CHR 0x0C then [CHR 0x5C, CHR ''f'']
      else if c = CHR 0x0A then [CHR 0x5C, CHR ''n'']
      else if c = CHR 0x0D then [CHR 0x5C, CHR ''r'']
      else if c = CHR 0x09 then [CHR 0x5C, CHR ''t'']
      else if (of_char c :: nat) < 32
        then [CHR 0x5C, CHR ''u'', CHR ''0'', CHR ''0'', hex_digit (of_char c div 16), hex_digit (of_char c mod 16)]
      else [c])"

definition quote_text :: "string \<Rightarrow> string" where
  "quote_text s = [CHR 0x22] @ concat (map quote_unit s) @ [CHR 0x22]"

fun stringify :: "(real \<Rightarrow> string) \<Rightarrow> json \<Rightarrow> string" and stringify_all :: "(real \<Rightarrow> string) \<Rightarrow> json list \<Rightarrow> string"
  and stringify_members :: "(real \<Rightarrow> string) \<Rightarrow> (string \<times> json) list \<Rightarrow> string" where
  "stringify num JNull = ''null''"
| "stringify num (JBool b) = (if b then ''true'' else ''false'')"
| "stringify num (JNum x) = num x"
| "stringify num (JStr s) = quote_text s"
| "stringify num (JArr vs) = ''['' @ stringify_all num vs @ '']''"
| "stringify num (JObj kvs) = ''{'' @ stringify_members num kvs @ ''}''"
| "stringify_all num [] = []"
| "stringify_all num (v # vs) = stringify num v @ (if vs = [] then [] else '','' @ stringify_all num vs)"
| "stringify_members num [] = []"
| "stringify_members num ((k, v) # kvs) =
     quote_text k @ '':'' @ stringify num v @ (if kvs = [] then [] else '','' @ stringify_members num kvs)"

section \<open>Reading\<close>

definition json_space :: "char \<Rightarrow> bool" where
  "json_space c \<longleftrightarrow> c \<in> {CHR '' '', CHR 0x09, CHR 0x0A, CHR 0x0D}"

definition skip :: "string \<Rightarrow> string" where
  "skip s = dropWhile json_space s"

definition short_escape :: "char \<Rightarrow> char option" where
  "short_escape c =
     (if c = CHR 0x22 \<or> c = CHR 0x5C \<or> c = CHR ''/'' then Some c
      else if c = CHR ''b'' then Some (CHR 0x08) else if c = CHR ''f'' then Some (CHR 0x0C)
      else if c = CHR ''n'' then Some (CHR 0x0A) else if c = CHR ''r'' then Some (CHR 0x0D)
      else if c = CHR ''t'' then Some (CHR 0x09) else None)"

definition read_hex :: "string \<Rightarrow> nat option" where
  "read_hex ds =
     (if \<forall>c \<in> set ds. radix_digit 16 c \<noteq> None
      then Some (foldl (\<lambda>n c. 16 * n + the (radix_digit 16 c)) 0 ds) else None)"

text \<open>The rest of a text after its opening quote.\<close>

fun read_text :: "string \<Rightarrow> (string \<times> string) option" where
  "read_text [] = None"
| "read_text (c # s) =
     (if c = CHR 0x22 then Some ([], s)
      else if (of_char c :: nat) < 32 then None
      else if c \<noteq> CHR 0x5C then map_option (apfst (Cons c)) (read_text s)
      else case s of [] \<Rightarrow> None
        | e # r \<Rightarrow>
            if e = CHR ''u'' then
              (case r of
                 a # b # x # y # t \<Rightarrow>
                   (case read_hex [a, b, x, y] of
                      Some n \<Rightarrow> if n < 256 then map_option (apfst (Cons (char_of n))) (read_text t) else None
                    | None \<Rightarrow> None)
               | _ \<Rightarrow> None)
            else (case short_escape e of Some d \<Rightarrow> map_option (apfst (Cons d)) (read_text r) | None \<Rightarrow> None))"

definition number_unit :: "char \<Rightarrow> bool" where
  "number_unit c \<longleftrightarrow> is_digit c \<or> c \<in> {CHR ''-'', CHR ''+'', CHR ''.'', CHR ''e'', CHR ''E''}"

text \<open>The longest run of units a number is made of, and whether it is one: \<open>01\<close>, \<open>.5\<close> and \<open>1.\<close> are not.\<close>

definition is_json_number :: "string \<Rightarrow> bool" where
  "is_json_number s =
     (let r = (case s of c # t \<Rightarrow> if c = CHR ''-'' then t else s | [] \<Rightarrow> []);
          (ip, r) = span_digits r;
          (dot, fp, r) = (case r of c # t \<Rightarrow> if c = CHR ''.'' then (True, span_digits t) else (False, [], r) | [] \<Rightarrow> (False, [], []))
      in ip \<noteq> [] \<and> (length ip = 1 \<or> hd ip \<noteq> CHR ''0'') \<and> (dot \<longrightarrow> fp \<noteq> []) \<and> read_exponent r \<noteq> None)"

definition read_json_number :: "string \<Rightarrow> (json \<times> string) option" where
  "read_json_number s =
     (let t = takeWhile number_unit s
      in if is_json_number t
         then (case read_number t of Fin x \<Rightarrow> Some (JNum x, dropWhile number_unit s) | _ \<Rightarrow> None) else None)"

text \<open>
  A value, and what is left. Every value takes a unit at least, so twice as many steps as the text
  has units, and two, are enough (\<open>steps_enough\<close> below).
\<close>

fun read_value :: "nat \<Rightarrow> string \<Rightarrow> (json \<times> string) option"
  and read_items :: "nat \<Rightarrow> string \<Rightarrow> (json list \<times> string) option"
  and read_members :: "nat \<Rightarrow> string \<Rightarrow> ((string \<times> json) list \<times> string) option" where
  "read_value 0 s = None"
| "read_value (Suc n) s =
     (let t = skip s
      in if t = [] then None
         else if hd t = CHR 0x22 then map_option (apfst JStr) (read_text (tl t))
         else if hd t = CHR ''['' then
           (if startsWith (skip (tl t)) '']'' then Some (JArr [], tl (skip (tl t)))
            else map_option (apfst JArr) (read_items n (tl t)))
         else if hd t = CHR ''{'' then
           (if startsWith (skip (tl t)) ''}'' then Some (JObj [], tl (skip (tl t)))
            else map_option (apfst JObj) (read_members n (tl t)))
         else if startsWith t ''null'' then Some (JNull, drop 4 t)
         else if startsWith t ''true'' then Some (JBool True, drop 4 t)
         else if startsWith t ''false'' then Some (JBool False, drop 5 t)
         else read_json_number t)"
| "read_items 0 s = None"
| "read_items (Suc n) s =
     (case read_value n s of
        None \<Rightarrow> None
      | Some (v, r) \<Rightarrow>
          let t = skip r
          in if startsWith t '','' then map_option (apfst (Cons v)) (read_items n (tl t))
             else if startsWith t '']'' then Some ([v], tl t) else None)"
| "read_members 0 s = None"
| "read_members (Suc n) s =
     (if startsWith (skip s) [CHR 0x22] then
        (case read_text (tl (skip s)) of
           None \<Rightarrow> None
         | Some (k, r) \<Rightarrow>
             if startsWith (skip r) '':'' then
               (case read_value n (tl (skip r)) of
                  None \<Rightarrow> None
                | Some (v, r') \<Rightarrow>
                    let t = skip r'
                    in if startsWith t '','' then map_option (apfst (Cons (k, v))) (read_members n (tl t))
                       else if startsWith t ''}'' then Some ([(k, v)], tl t) else None)
             else None)
      else None)"

text \<open>A name that comes twice keeps its place and takes the later value.\<close>

fun settle :: "json \<Rightarrow> json" and settle_all :: "json list \<Rightarrow> json list"
  and settle_members :: "(string \<times> json) list \<Rightarrow> (string \<times> json) list \<Rightarrow> (string \<times> json) list" where
  "settle (JArr vs) = JArr (settle_all vs)"
| "settle (JObj kvs) = JObj (settle_members [] kvs)"
| "settle v = v"
| "settle_all [] = []"
| "settle_all (v # vs) = settle v # settle_all vs"
| "settle_members m [] = m"
| "settle_members m ((k, v) # kvs) = settle_members (AList.update k (settle v) m) kvs"

definition json_parse :: "string \<Rightarrow> json option" where
  "json_parse s =
     (case read_value (2 * length s + 2) s of
        Some (v, r) \<Rightarrow> if skip r = [] then Some (settle v) else None
      | None \<Rightarrow> None)"

section \<open>Enough steps\<close>

lemma skip_shorter: "length (skip s) \<le> length s"
  by (simp add: skip_def length_dropWhile_le)

lemma read_text_shorter: "read_text s = Some (t, r) \<Longrightarrow> length r < length s"
proof (induction s arbitrary: t rule: read_text.induct)
  case (2 c s)
  then show ?case
    by (auto split: if_splits list.splits option.splits)
      (metis less_Suc_eq less_trans)+
qed simp

lemma read_json_number_shorter: "read_json_number s = Some (v, r) \<Longrightarrow> length r < length s"
proof -
  assume a: "read_json_number s = Some (v, r)"
  then have "is_json_number (takeWhile number_unit s)" and r: "r = dropWhile number_unit s"
    by (auto simp: read_json_number_def Let_def split: if_splits js_number.splits)
  then have "takeWhile number_unit s \<noteq> []" by (auto simp: is_json_number_def span_digits_def)
  moreover have "length s = length (takeWhile number_unit s) + length r"
    unfolding r by (metis length_append takeWhile_dropWhile_id)
  ultimately show ?thesis by simp
qed

lemma starts_nonempty: "startsWith t [c] \<Longrightarrow> length (tl t) < length t"
  by (cases t) (auto simp: startsWith_def)

lemma starts_drop: "startsWith t p \<Longrightarrow> p \<noteq> [] \<Longrightarrow> length (drop (length p) t) < length t"
  by (cases t; cases p) (auto simp: startsWith_def)

lemma value_shorter:
  "read_value n s = Some (v, r) \<Longrightarrow> length r < length s"
  "read_items n s = Some (vs, r) \<Longrightarrow> length r < length s"
  "read_members n s = Some (kvs, r) \<Longrightarrow> length r < length s"
proof (induction n s and n s and n s arbitrary: v r and vs r and kvs r rule: read_value_read_items_read_members.induct)
  case (2 n s)
  let ?t = "skip s"
  have t: "?t \<noteq> []" using "2.prems" by (auto simp: Let_def)
  then have tl: "length (tl ?t) < length ?t" "length ?t \<le> length s" by (simp_all add: skip_shorter)
  have sk: "startsWith (skip (tl ?t)) [c] \<Longrightarrow> length (tl (skip (tl ?t))) < length s" for c
    using starts_nonempty [of "skip (tl ?t)" c] skip_shorter [of "tl ?t"] tl by simp
  have lit: "length (drop 4 ?t) < length s" "length (drop 5 ?t) < length s" using t tl(2) by (cases ?t; simp)+
  from "2.prems" t tl sk lit show ?case
    using "2.IH"(1) [OF refl t] "2.IH"(2) [OF refl t] read_text_shorter [of "tl ?t"] read_json_number_shorter [of ?t]
    by (auto simp: Let_def split: if_splits; fastforce dest: less_le_trans less_trans)
next
  case (4 n s)
  from "4.prems" obtain v r1 where v: "read_value n s = Some (v, r1)" by (auto split: option.splits)
  from "4.IH"(1) [OF v] skip_shorter [of r1] starts_nonempty [of "skip r1"] "4.prems" "4.IH"(2) [OF v refl refl]
  show ?case by (auto simp: v Let_def split: if_splits; fastforce dest: less_le_trans less_trans)
next
  case (6 n s)
  from "6.prems" obtain k r1 where k: "startsWith (skip s) [CHR 0x22]" "read_text (tl (skip s)) = Some (k, r1)" "startsWith (skip r1) '':''"
    by (auto split: option.splits if_splits)
  from "6.prems" k obtain v r2 where v: "read_value n (tl (skip r1)) = Some (v, r2)" by (auto split: option.splits)
  have "length r2 < length s"
    using "6.IH"(1) [OF k(1,2) refl k(3) v] read_text_shorter [OF k(2)] skip_shorter [of r1] skip_shorter [of s]
      starts_nonempty [OF k(1)] starts_nonempty [OF k(3)] by simp
  with skip_shorter [of r2] starts_nonempty [of "skip r2"] "6.prems" "6.IH"(2) [OF k(1,2) refl k(3) v refl refl] k v
  show ?case by (auto simp: Let_def split: if_splits; fastforce dest: less_le_trans less_trans)
qed simp_all

text \<open>Past that many steps, more of them change nothing.\<close>

lemma steps_irrelevant:
  "2 * length s + 2 \<le> n \<Longrightarrow> 2 * length s + 2 \<le> m \<Longrightarrow> read_value n s = read_value m s"
  "2 * length s + 3 \<le> n \<Longrightarrow> 2 * length s + 3 \<le> m \<Longrightarrow> read_items n s = read_items m s"
  "2 * length s + 3 \<le> n \<Longrightarrow> 2 * length s + 3 \<le> m \<Longrightarrow> read_members n s = read_members m s"
proof (induction n s and n s and n s arbitrary: m and m and m rule: read_value_read_items_read_members.induct)
  case (2 n s)
  obtain k where m: "m = Suc k" using "2.prems" by (cases m) auto
  let ?t = "skip s"
  show ?case
  proof (cases "?t = []")
    case False
    then have "length (tl ?t) + 1 \<le> length s" using skip_shorter [of s] by (cases ?t) auto
    then have b: "2 * length (tl ?t) + 3 \<le> n" "2 * length (tl ?t) + 3 \<le> k" using "2.prems" m by auto
    have "read_items n (tl ?t) = read_items k (tl ?t)"
      if "hd ?t \<noteq> CHR 0x22" "hd ?t = CHR ''[''" "\<not> startsWith (skip (tl ?t)) '']''" using "2.IH"(1) [OF refl False that b] .
    moreover have "read_members n (tl ?t) = read_members k (tl ?t)"
      if "hd ?t \<noteq> CHR 0x22" "hd ?t \<noteq> CHR ''[''" "hd ?t = CHR ''{''" "\<not> startsWith (skip (tl ?t)) ''}''"
      using "2.IH"(2) [OF refl False that b] .
    ultimately show ?thesis unfolding m read_value.simps Let_def by (intro if_cong refl) simp_all
  qed (simp add: m)
next
  case (4 n s)
  obtain k where m: "m = Suc k" using "4.prems" by (cases m) auto
  have v: "read_value n s = read_value k s" using "4.prems" m by (intro "4.IH"(1)) auto
  show ?case
  proof (cases "read_value k s")
    case (Some p)
    obtain x r where p: "p = (x, r)" by (cases p)
    have r: "length r < length s" using value_shorter(1) Some p by blast
    have "read_items n (tl (skip r)) = read_items k (tl (skip r))" if c: "startsWith (skip r) '',''"
    proof (rule "4.IH"(2) [OF _ refl refl c])
      show "read_value n s = Some (x, r)" using v Some p by simp
      show "2 * length (tl (skip r)) + 3 \<le> n" "2 * length (tl (skip r)) + 3 \<le> k"
        using r skip_shorter [of r] starts_nonempty [OF c] "4.prems" m by auto
    qed
    with Some p v m show ?thesis by (simp add: Let_def)
  qed (simp add: m v)
next
  case (6 n s)
  obtain k where m: "m = Suc k" using "6.prems" by (cases m) auto
  show ?case
  proof (cases "startsWith (skip s) [CHR 0x22]")
    case q: True
    show ?thesis
    proof (cases "read_text (tl (skip s))")
      case (Some p)
      obtain key r1 where p: "read_text (tl (skip s)) = Some (key, r1)" using Some by (cases p) auto
      have r1: "length r1 + 2 \<le> length s"
        using read_text_shorter [OF p] skip_shorter [of s] starts_nonempty [OF q] by simp
      have more: "read_members n (tl (skip r2)) = read_members k (tl (skip r2))"
        if c: "startsWith (skip r1) '':''" and v: "read_value n (tl (skip r1)) = Some (x, r2)" and e: "startsWith (skip r2) '',''" for x r2
      proof (rule "6.IH"(2) [OF q p refl c v refl refl e])
        show "2 * length (tl (skip r2)) + 3 \<le> n" "2 * length (tl (skip r2)) + 3 \<le> k"
          using value_shorter(1) [OF v] r1 skip_shorter [of r1] skip_shorter [of r2] starts_nonempty [OF c] starts_nonempty [OF e]
            "6.prems" m by auto
      qed
      have "read_value n (tl (skip r1)) = read_value k (tl (skip r1))" if c: "startsWith (skip r1) '':''"
        by (rule "6.IH"(1) [OF q p refl c]) (use r1 skip_shorter [of r1] starts_nonempty [OF c] "6.prems" m in auto)
      with more show ?thesis by (auto simp: m q p Let_def split: option.splits)
    qed (simp add: m)
  qed (simp add: m)
qed simp_all

text \<open>So the reader never gives up for want of steps: its result is the one with any number past enough.\<close>

lemma steps_enough: "2 * length s + 2 \<le> n \<Longrightarrow> read_value n s = read_value (2 * length s + 2) s"
  by (rule steps_irrelevant(1)) simp_all

section \<open>What is written is read\<close>

lemma hex_digit_back: "d < 16 \<Longrightarrow> radix_digit 16 (hex_digit d) = Some d"
  by (auto simp: radix_digit_def hex_digit_def is_digit_def Let_def)

lemma hex_back: "n < 32 \<Longrightarrow> read_hex [CHR ''0'', CHR ''0'', hex_digit (n div 16), hex_digit (n mod 16)] = Some n"
proof -
  assume "n < 32"
  moreover have "radix_digit 16 (CHR ''0'') = Some 0" by (simp add: radix_digit_def is_digit_def)
  ultimately show ?thesis using hex_digit_back [of "n div 16"] hex_digit_back [of "n mod 16"] by (simp add: read_hex_def)
qed

lemma read_unit: "read_text (quote_unit c @ t) = map_option (apfst (Cons c)) (read_text t)"
proof (cases "(of_char c :: nat) < 32")
  case True
  from hex_back [OF this] True show ?thesis by (auto simp: quote_unit_def short_escape_def)
next
  case False
  then show ?thesis by (auto simp: quote_unit_def short_escape_def)
qed

lemma read_quoted_back: "read_text (concat (map quote_unit s) @ CHR 0x22 # t) = Some (s, t)"
  by (induction s) (simp_all add: read_unit)

text \<open>How the numbers of a value have to be written for it to be read again.\<close>

definition number_back :: "(real \<Rightarrow> string) \<Rightarrow> real \<Rightarrow> bool" where
  "number_back num x \<longleftrightarrow> (\<forall>c \<in> set (num x). number_unit c) \<and> is_json_number (num x) \<and> read_number (num x) = Fin x"

fun json_ok :: "(real \<Rightarrow> bool) \<Rightarrow> json \<Rightarrow> bool" and json_all_ok :: "(real \<Rightarrow> bool) \<Rightarrow> json list \<Rightarrow> bool"
  and json_members_ok :: "(real \<Rightarrow> bool) \<Rightarrow> (string \<times> json) list \<Rightarrow> bool" where
  "json_ok p (JNum x) = p x"
| "json_ok p (JArr vs) = json_all_ok p vs"
| "json_ok p (JObj kvs) = (json_members_ok p kvs \<and> distinct (map fst kvs))"
| "json_ok p v = True"
| "json_all_ok p [] = True"
| "json_all_ok p (v # vs) = (json_ok p v \<and> json_all_ok p vs)"
| "json_members_ok p [] = True"
| "json_members_ok p ((k, v) # kvs) = (json_ok p v \<and> json_members_ok p kvs)"

lemma number_start:
  assumes "number_back num x"
  obtains c s where "num x = c # s" "is_digit c \<or> c = CHR ''-''"
proof (cases "num x")
  case Nil
  with assms show ?thesis by (auto simp: number_back_def is_json_number_def span_digits_def)
next
  case (Cons c s)
  have "is_digit c \<or> c = CHR ''-''"
    using assms Cons by (auto simp: number_back_def is_json_number_def span_digits_def split: if_splits)
  with Cons that show ?thesis by blast
qed

lemma skip_unit: "\<not> json_space c \<Longrightarrow> skip (c # s) = c # s"
  by (simp add: skip_def)

lemma read_number_back:
  assumes "number_back num x" and "t = [] \<or> \<not> number_unit (hd t)"
  shows "read_value (Suc n) (num x @ t) = Some (JNum x, t)"
proof -
  obtain c s where c: "num x = c # s" "is_digit c \<or> c = CHR ''-''" using number_start [OF assms(1)] by blast
  have u: "\<forall>c \<in> set (num x). number_unit c" using assms(1) by (simp add: number_back_def)
  have "takeWhile number_unit t = []" "dropWhile number_unit t = t" using assms(2) by (cases t; simp)+
  with u have w: "takeWhile number_unit (num x @ t) = num x" "dropWhile number_unit (num x @ t) = t" by simp_all
  have ne: "c \<noteq> CHR 0x22" "c \<noteq> CHR ''[''" "c \<noteq> CHR ''{''" "c \<noteq> CHR ''n''" "c \<noteq> CHR ''t''" "c \<noteq> CHR ''f''" "\<not> json_space c"
    using c(2) by (auto simp: is_digit_def json_space_def)
  have "read_json_number (num x @ t) = Some (JNum x, t)"
    using assms(1) w by (simp add: read_json_number_def number_back_def)
  then show ?thesis using ne by (simp add: c(1) Let_def startsWith_def skip_unit)
qed

lemma stringify_first:
  assumes "json_ok (number_back num) v"
  obtains c s where "stringify num v = c # s" "c \<notin> {CHR '']'', CHR ''}'', CHR '',''}" "\<not> json_space c"
proof (cases v)
  case (JNum x)
  with assms have "number_back num x" by simp
  then obtain c s where "num x = c # s" "is_digit c \<or> c = CHR ''-''" by (rule number_start)
  moreover from this(2) have "c \<notin> {CHR '']'', CHR ''}'', CHR '',''} \<and> \<not> json_space c" by (auto simp: is_digit_def json_space_def)
  ultimately show ?thesis using JNum that [of c s] by simp
next
  case (JBool b)
  with that show ?thesis by (cases b) (auto simp: json_space_def)
qed (use that in \<open>auto simp: json_space_def quote_text_def\<close>)

definition value_end :: "string \<Rightarrow> bool" where
  "value_end t \<longleftrightarrow> t = [] \<or> hd t \<in> {CHR '']'', CHR ''}'', CHR '',''}"

lemma value_end_Cons: "value_end (CHR '','' # t)" "value_end (CHR '']'' # t)" "value_end (CHR ''}'' # t)"
  by (simp_all add: value_end_def)

lemma value_end_number: "value_end t \<Longrightarrow> t = [] \<or> \<not> number_unit (hd t)"
  by (auto simp: value_end_def number_unit_def is_digit_def)

lemmas read_steps = Let_def startsWith_def skip_def json_space_def

lemma read_back:
  "json_ok (number_back num) v \<Longrightarrow> 2 * length (stringify num v) \<le> n \<Longrightarrow> value_end t \<Longrightarrow>
    read_value n (stringify num v @ t) = Some (v, t)"
  "json_all_ok (number_back num) vs \<Longrightarrow> vs \<noteq> [] \<Longrightarrow> 2 * length (stringify_all num vs) + 1 \<le> n \<Longrightarrow>
    read_items n (stringify_all num vs @ CHR '']'' # t) = Some (vs, t)"
  "json_members_ok (number_back num) kvs \<Longrightarrow> kvs \<noteq> [] \<Longrightarrow> 2 * length (stringify_members num kvs) + 1 \<le> n \<Longrightarrow>
    read_members n (stringify_members num kvs @ CHR ''}'' # t) = Some (kvs, t)"
proof (induction num v and num vs and num kvs arbitrary: n t and n t and n t
    rule: stringify_stringify_all_stringify_members.induct)
  case (2 num b)
  then show ?case by (cases n; cases b) (auto simp: read_steps)
next
  case (3 num x)
  have "number_back num x" using "3.prems"(1) by simp
  then obtain c s where "num x = c # s" by (rule number_start)
  with "3.prems"(2) obtain k where "n = Suc k" by (cases n) auto
  with 3 value_end_number read_number_back [of num x t k] show ?case by simp
next
  case (5 num vs)
  then obtain k where n: "n = Suc k" by (cases n) auto
  show ?case
  proof (cases vs)
    case (Cons v ws)
    have "json_ok (number_back num) v" using "5.prems"(1) Cons by simp
    then obtain c s where c: "stringify num v = c # s" "c \<noteq> CHR '']''" "\<not> json_space c"
      by (rule stringify_first) auto
    from "5.IH" [of k t] 5 n Cons have "read_items k (stringify_all num vs @ CHR '']'' # t) = Some (vs, t)" by simp
    moreover have "skip (stringify_all num vs @ CHR '']'' # t) = stringify_all num vs @ CHR '']'' # t"
      using c by (simp add: Cons skip_unit)
    ultimately show ?thesis using c by (simp add: n Let_def skip_unit json_space_def) (simp add: Cons startsWith_def)
  qed (simp add: n read_steps)
next
  case (6 num kvs)
  then obtain k where n: "n = Suc k" by (cases n) auto
  show ?case
  proof (cases kvs)
    case (Cons kv ws)
    obtain c s where c: "stringify_members num kvs = CHR 0x22 # s" by (cases kv) (simp add: Cons quote_text_def)
    from "6.IH" [of k t] 6 n Cons have "read_members k (stringify_members num kvs @ CHR ''}'' # t) = Some (kvs, t)" by simp
    moreover have "skip (stringify_members num kvs @ CHR ''}'' # t) = stringify_members num kvs @ CHR ''}'' # t"
      using c by (simp add: skip_unit json_space_def)
    ultimately show ?thesis by (simp add: n Let_def skip_unit json_space_def) (simp add: c startsWith_def)
  qed (simp add: n read_steps)
next
  case (8 num v vs)
  then obtain k where n: "n = Suc k" by (cases n) auto
  show ?case
  proof (cases "vs = []")
    case True
    have "read_value k (stringify num v @ CHR '']'' # t) = Some (v, CHR '']'' # t)"
      using 8 n True by (intro "8.IH"(1)) (auto simp: value_end_Cons)
    then show ?thesis by (simp add: n True read_steps)
  next
    case False
    have "read_value k (stringify num v @ CHR '','' # stringify_all num vs @ CHR '']'' # t) =
        Some (v, CHR '','' # stringify_all num vs @ CHR '']'' # t)"
      using 8 n False by (intro "8.IH"(1)) (auto simp: value_end_Cons)
    moreover have "read_items k (stringify_all num vs @ CHR '']'' # t) = Some (vs, t)"
      using 8 n False by (intro "8.IH"(2)) auto
    ultimately show ?thesis by (simp add: n False read_steps)
  qed
next
  case (10 num key v kvs)
  then obtain k where n: "n = Suc k" by (cases n) auto
  have key: "read_text (concat (map quote_unit key) @ CHR 0x22 # r) = Some (key, r)" for r by (rule read_quoted_back)
  show ?case
  proof (cases "kvs = []")
    case True
    have "read_value k (stringify num v @ CHR ''}'' # t) = Some (v, CHR ''}'' # t)"
      using 10 n True by (intro "10.IH"(1)) (auto simp: value_end_Cons)
    then show ?thesis by (simp add: n True read_steps quote_text_def key)
  next
    case False
    have "read_value k (stringify num v @ CHR '','' # stringify_members num kvs @ CHR ''}'' # t) =
        Some (v, CHR '','' # stringify_members num kvs @ CHR ''}'' # t)"
      using 10 n False by (intro "10.IH"(1)) (auto simp: value_end_Cons)
    moreover have "read_members k (stringify_members num kvs @ CHR ''}'' # t) = Some (kvs, t)"
      using 10 n False by (intro "10.IH"(2)) auto
    ultimately show ?thesis by (simp add: n False read_steps quote_text_def key)
  qed
next
  case (1 num)
  then show ?case by (cases n) (auto simp: read_steps)
next
  case (4 num s)
  then show ?case by (cases n) (auto simp: read_steps quote_text_def read_quoted_back)
qed simp_all

lemma update_new: "k \<notin> fst ` set m \<Longrightarrow> AList.update k v m = m @ [(k, v)]"
  by (induction m) auto

lemma settle_ok:
  "json_ok p v \<Longrightarrow> settle v = v"
  "json_all_ok p vs \<Longrightarrow> settle_all vs = vs"
  "json_members_ok p kvs \<Longrightarrow> distinct (map fst (m @ kvs)) \<Longrightarrow> settle_members m kvs = m @ kvs"
proof (induction v and vs and m kvs rule: settle_settle_all_settle_members.induct)
  case (7 m k v kvs)
  then have "AList.update k (settle v) m = m @ [(k, v)]" by (simp add: update_new)
  with 7 show ?case by simp
qed simp_all

text \<open>
  A value with no name twice in an object, whose numbers are written so that they are read again, is
  read as it was written.
\<close>

lemma json_back:
  assumes "json_ok (number_back num) v"
  shows "json_parse (stringify num v) = Some v"
proof -
  have "read_value (2 * length (stringify num v) + 2) (stringify num v @ []) = Some (v, [])"
    using assms by (intro read_back(1)) (auto simp: value_end_def)
  then show ?thesis using settle_ok(1) [OF assms] by (simp add: json_parse_def skip_def)
qed

end
