(* ===== verification/Client.thy ===== *)
theory Client
  imports JsonText
begin

text \<open>
  Talking to the API and what becomes of a failure: \<open>api/client.ts\<close>, \<open>api/mutation.ts\<close> and
  \<open>lib/queryClient.ts\<close>. The network is a parameter. The query library calls one handler for a failed
  read and one for a failed change; both are modelled whole, over what they read and change: whether
  a session is cached, how often its end was told, how often it was read again, who listens and
  what the listeners heard.
\<close>

section \<open>Requests\<close>

text \<open>A member of a parsed value; only an object has any of those the client asks for.\<close>

definition member_of :: "json \<Rightarrow> string \<Rightarrow> json option" where
  "member_of v k = (case v of JObj m \<Rightarrow> map_of m k | _ \<Rightarrow> None)"

record ApiError =
  err_status :: nat
  err_code :: "json option"
  err_message :: string
  err_fields :: json
  err_position :: "json option"
  err_project :: "json option"
  err_requestId :: "json option"

text \<open>The constructor, on whatever the envelope holds; an error's message is a text.\<close>

definition new_ApiError :: "(real \<Rightarrow> string) \<Rightarrow> nat \<Rightarrow> json \<Rightarrow> ApiError" where
  "new_ApiError num status body =
     \<lparr>err_status = status,
      err_code = member_of body ''code'',
      err_message = (case member_of body ''message'' of Some v \<Rightarrow> json_text num v | None \<Rightarrow> []),
      err_fields = json_or (member_of body ''fields'') (JObj []),
      err_position = member_of body ''position'',
      err_project = member_of body ''project'',
      err_requestId = member_of body ''requestId''\<rparr>"

definition HTTP_UNAUTHORIZED :: nat where
  "HTTP_UNAUTHORIZED = 401"

definition SESSION_MISSING_CODE :: string where
  "SESSION_MISSING_CODE = ''unauthorized''"

definition isUnauthenticated :: "ApiError \<Rightarrow> bool" where
  "isUnauthenticated e \<longleftrightarrow> err_status e = HTTP_UNAUTHORIZED"

definition isSessionMissing :: "ApiError \<Rightarrow> bool" where
  "isSessionMissing e \<longleftrightarrow> err_status e = HTTP_UNAUTHORIZED \<and> err_code e = Some (JStr SESSION_MISSING_CODE)"

record http_response =
  res_status :: nat
  res_text :: string

definition response_ok :: "http_response \<Rightarrow> bool" where
  "response_ok r \<longleftrightarrow> 200 \<le> res_status r \<and> res_status r \<le> 299"

definition unexpected :: "nat \<Rightarrow> json" where
  "unexpected status =
     JObj [(''code'', JStr ''unexpected_response''), (''message'', JStr (''The server returned '' @ nat_str status @ ''.''))]"

text \<open>A body, undefined where there is none, or the error it is thrown as.\<close>

definition unwrap :: "(real \<Rightarrow> string) \<Rightarrow> http_response \<Rightarrow> ApiError + json option" where
  "unwrap num r =
     (let fail = (\<lambda>body. Inl (new_ApiError num (res_status r) body))
      in if res_status r = 204 then Inr None
         else if res_text r \<noteq> [] \<and> json_parse (res_text r) = None \<and> \<not> response_ok r then fail (unexpected (res_status r))
         else let parsed = (if res_text r \<noteq> [] then json_parse (res_text r) else None)
              in if response_ok r then Inr parsed
                 else fail (json_or (Option.bind parsed (\<lambda>v. member_of v ''error'')) (unexpected (res_status r))))"

definition BASE :: string where
  "BASE = ''/api/v1''"

record http_request =
  req_url :: string
  req_method :: string
  req_json :: bool
  req_body :: "string option"

datatype failure = ApiFailure ApiError | OtherFailure string

text \<open>The request the browser is handed, and what its answer becomes; the browser may fail to get one.\<close>

definition http_of :: "(real \<Rightarrow> string) \<Rightarrow> string \<Rightarrow> string option \<Rightarrow> json option \<Rightarrow> http_request" where
  "http_of num path meth body =
     \<lparr>req_url = BASE @ path, req_method = (case meth of Some m \<Rightarrow> m | None \<Rightarrow> ''GET''),
      req_json = (body \<noteq> None), req_body = map_option (stringify num) body\<rparr>"

definition request :: "(real \<Rightarrow> string) \<Rightarrow> (http_request \<Rightarrow> string + http_response) \<Rightarrow> string \<Rightarrow> string option
    \<Rightarrow> json option \<Rightarrow> failure + json option" where
  "request num fetch path meth body =
     (case fetch (http_of num path meth body) of
        Inl message \<Rightarrow> Inl (OtherFailure message)
      | Inr r \<Rightarrow> (case unwrap num r of Inl e \<Rightarrow> Inl (ApiFailure e) | Inr v \<Rightarrow> Inr v))"

section \<open>What becomes of a failure\<close>

definition SECOND_FACTOR_REQUIRED_CODE :: string where
  "SECOND_FACTOR_REQUIRED_CODE = ''second_factor_required''"

definition UNSAVED_MESSAGE :: string where
  "UNSAVED_MESSAGE = ''That change could not be saved. Check your connection and try again.''"

text \<open>
  The client's state: a session in its cache, how often \<open>onSessionEnded\<close> was called and the session
  invalidated, the listeners in the order they came, and what they heard.
\<close>

record query_client =
  qc_me :: bool
  qc_ended :: nat
  qc_reread :: nat
  qc_listeners :: "nat list"
  qc_heard :: "(nat \<times> string) list"

definition refused :: "failure \<Rightarrow> query_client \<Rightarrow> bool \<times> query_client" where
  "refused error c =
     (case error of
        ApiFailure e \<Rightarrow>
          if \<not> isSessionMissing e then (False, c)
          else (True, if qc_me c then c\<lparr>qc_me := False, qc_ended := qc_ended c + 1\<rparr> else c)
      | OtherFailure _ \<Rightarrow> (False, c))"

definition held :: "failure \<Rightarrow> query_client \<Rightarrow> query_client" where
  "held error c =
     (case error of
        ApiFailure e \<Rightarrow>
          if err_code e = Some (JStr SECOND_FACTOR_REQUIRED_CODE) then c\<lparr>qc_reread := qc_reread c + 1\<rparr> else c
      | OtherFailure _ \<Rightarrow> c)"

definition query_failed :: "failure \<Rightarrow> query_client \<Rightarrow> query_client" where
  "query_failed error c = (case refused error c of (True, c') \<Rightarrow> c' | (False, c') \<Rightarrow> held error c')"

definition failure_message :: "failure \<Rightarrow> string" where
  "failure_message error = (case error of ApiFailure e \<Rightarrow> err_message e | OtherFailure _ \<Rightarrow> UNSAVED_MESSAGE)"

definition mutation_failed :: "failure \<Rightarrow> bool \<Rightarrow> query_client \<Rightarrow> query_client" where
  "mutation_failed error handlesError c =
     (case refused error c of
        (True, c') \<Rightarrow> c'
      | (False, c') \<Rightarrow>
          if handlesError then c'
          else c'\<lparr>qc_heard := qc_heard c' @ map (\<lambda>l. (l, failure_message error)) (qc_listeners c')\<rparr>)"

definition onUnreportedMutationError :: "nat \<Rightarrow> query_client \<Rightarrow> query_client" where
  "onUnreportedMutationError l c =
     c\<lparr>qc_listeners := (if l \<in> set (qc_listeners c) then qc_listeners c else qc_listeners c @ [l])\<rparr>"

definition stop_listening :: "nat \<Rightarrow> query_client \<Rightarrow> query_client" where
  "stop_listening l c = c\<lparr>qc_listeners := removeAll l (qc_listeners c)\<rparr>"

section \<open>Whether the caller shows a failure\<close>

text \<open>\<open>useMutation\<close>: the hook's flag, and what its caller does with the result.\<close>

record mutation_hook =
  mh_declared :: bool
  mh_shown :: bool

datatype hook_use = ReadError | ReadIsError | ReadFailureReason | ReadMutateAsync | Mutate bool | ReadElse

definition use_hook :: "hook_use \<Rightarrow> mutation_hook \<Rightarrow> mutation_hook" where
  "use_hook u h = (case u of
      Mutate withOnError \<Rightarrow> if withOnError then h\<lparr>mh_shown := True\<rparr> else h
    | ReadElse \<Rightarrow> h
    | _ \<Rightarrow> h\<lparr>mh_shown := True\<rparr>)"

definition handlesError :: "mutation_hook \<Rightarrow> bool" where
  "handlesError h \<longleftrightarrow> mh_declared h \<or> mh_shown h"

definition useMutation :: "bool \<Rightarrow> hook_use list \<Rightarrow> mutation_hook" where
  "useMutation declared uses = fold use_hook uses \<lparr>mh_declared = declared, mh_shown = False\<rparr>"

section \<open>What the server sends is what the caller gets\<close>



section \<open>A session ends once\<close>

datatype client_event = SignedIn | QueryFailed failure | MutationFailed failure bool | Listen nat | Stop nat

fun client_step :: "client_event \<Rightarrow> query_client \<Rightarrow> query_client" where
  "client_step SignedIn c = c\<lparr>qc_me := True\<rparr>"
| "client_step (QueryFailed e) c = query_failed e c"
| "client_step (MutationFailed e h) c = mutation_failed e h c"
| "client_step (Listen l) c = onUnreportedMutationError l c"
| "client_step (Stop l) c = stop_listening l c"

definition session_missing :: "failure \<Rightarrow> bool" where
  "session_missing e = (case e of ApiFailure a \<Rightarrow> isSessionMissing a | OtherFailure _ \<Rightarrow> False)"

definition event_failure :: "client_event \<Rightarrow> failure option" where
  "event_failure ev = (case ev of QueryFailed e \<Rightarrow> Some e | MutationFailed e _ \<Rightarrow> Some e | _ \<Rightarrow> None)"

definition ends_session :: "client_event \<Rightarrow> bool" where
  "ends_session ev = (case event_failure ev of Some e \<Rightarrow> session_missing e | None \<Rightarrow> False)"

lemma refused_eq:
  "refused e c = (session_missing e, if session_missing e \<and> qc_me c then c\<lparr>qc_me := False, qc_ended := qc_ended c + 1\<rparr> else c)"
  by (auto simp: refused_def session_missing_def split: failure.splits)

lemma failed_session:
  "qc_me (query_failed e c) = (qc_me c \<and> \<not> session_missing e)"
  "qc_ended (query_failed e c) = qc_ended c + (if qc_me c \<and> session_missing e then 1 else 0)"
  "qc_me (mutation_failed e h c) = (qc_me c \<and> \<not> session_missing e)"
  "qc_ended (mutation_failed e h c) = qc_ended c + (if qc_me c \<and> session_missing e then 1 else 0)"
proof -
  have "qc_me (held e c) = qc_me c \<and> qc_ended (held e c) = qc_ended c" for c by (cases e) (simp_all add: held_def)
  then show "qc_me (query_failed e c) = (qc_me c \<and> \<not> session_missing e)"
    "qc_ended (query_failed e c) = qc_ended c + (if qc_me c \<and> session_missing e then 1 else 0)"
    by (cases "session_missing e"; simp add: query_failed_def refused_eq)+
  show "qc_me (mutation_failed e h c) = (qc_me c \<and> \<not> session_missing e)"
    "qc_ended (mutation_failed e h c) = qc_ended c + (if qc_me c \<and> session_missing e then 1 else 0)"
    by (cases "session_missing e"; simp add: mutation_failed_def refused_eq)+
qed

lemma step_session:
  assumes "ev \<noteq> SignedIn"
  shows "qc_me (client_step ev c) = (qc_me c \<and> \<not> ends_session ev)"
    "qc_ended (client_step ev c) = qc_ended c + (if qc_me c \<and> ends_session ev then 1 else 0)"
  using assms
  by (cases ev; simp add: failed_session ends_session_def event_failure_def onUnreportedMutationError_def stop_listening_def)+

text \<open>
  C15: until somebody signs in again, the first failure that says there is no session ends it and tells
  so once; however many requests were in flight, the others tell nothing, and with no session there
  is nothing to end.
\<close>

theorem session_ends_once:
  assumes "SignedIn \<notin> set evs"
  shows "qc_ended (fold client_step evs c) = qc_ended c + (if qc_me c \<and> (\<exists>ev \<in> set evs. ends_session ev) then 1 else 0)
    \<and> qc_me (fold client_step evs c) = (qc_me c \<and> \<not> (\<exists>ev \<in> set evs. ends_session ev))"
  using assms
proof (induction evs arbitrary: c)
  case (Cons ev evs)
  then have "ev \<noteq> SignedIn" and ih: "SignedIn \<notin> set evs" by auto
  with Cons.IH [OF ih, of "client_step ev c"] step_session [of ev c] show ?case by simp
qed simp

definition no_session :: failure where
  "no_session = ApiFailure (new_ApiError (\<lambda>_. []) 401 (JObj [(''code'', JStr ''unauthorized'')]))"

theorem session_ends_once_witness:
  "qc_ended (fold client_step [QueryFailed no_session, MutationFailed no_session False, QueryFailed no_session]
     \<lparr>qc_me = True, qc_ended = 0, qc_reread = 0, qc_listeners = [1], qc_heard = []\<rparr>) = 1"
  using session_ends_once [of "[QueryFailed no_session, MutationFailed no_session False, QueryFailed no_session]"
      "\<lparr>qc_me = True, qc_ended = 0, qc_reread = 0, qc_listeners = [1], qc_heard = []\<rparr>"]
  by (simp add: ends_session_def event_failure_def session_missing_def no_session_def new_ApiError_def isSessionMissing_def
      HTTP_UNAUTHORIZED_def SESSION_MISSING_CODE_def member_of_def)

section \<open>A failed change is told to somebody\<close>

definition shows_failure :: "hook_use \<Rightarrow> bool" where
  "shows_failure u \<longleftrightarrow> u \<noteq> ReadElse \<and> u \<noteq> Mutate False"

lemma hook_shown: "handlesError (useMutation declared uses) \<longleftrightarrow> declared \<or> (\<exists>u \<in> set uses. shows_failure u)"
proof -
  have "mh_declared (fold use_hook uses h) = mh_declared h \<and>
      mh_shown (fold use_hook uses h) = (mh_shown h \<or> (\<exists>u \<in> set uses. shows_failure u))" for h
    by (induction uses arbitrary: h) (auto simp: use_hook_def shows_failure_def split: hook_use.splits)
  then show ?thesis by (simp add: handlesError_def useMutation_def)
qed

text \<open>
  A change that fails is never lost: either it says there is no session, and then no session is
  left, or its caller declared or showed that it tells the reader itself, or every listener hears the
  server's sentence once, the client's own where there is none.
\<close>

lemma failed_change_told:
  "let c' = mutation_failed e (handlesError (useMutation declared uses)) c
   in if session_missing e then \<not> qc_me c' \<and> qc_heard c' = qc_heard c
      else if declared \<or> (\<exists>u \<in> set uses. shows_failure u) then c' = c
      else qc_heard c' = qc_heard c @ map (\<lambda>l. (l, failure_message e)) (qc_listeners c)"
  by (auto simp: mutation_failed_def refused_eq hook_shown Let_def)

end
