(* ===== verification/NewIssue.thy ===== *)
theory NewIssue
  imports Markdown Client WorkflowDesign
begin

text \<open>
  The form for a new issue and what follows its first request, \<open>features/issues/create/draft.ts\<close> and
  \<open>apply.ts\<close>; the places a page asks about, \<open>features/issues/view/areas.ts\<close>; the change of an issue's
  type, \<open>typeChange.ts\<close>; words not yet sent, \<open>features/issues/drafts.ts\<close>; and a form seeded from the
  server, \<open>lib/draft.ts\<close>. The server is a parameter with a state of its own.
\<close>

section \<open>The places of a page\<close>

datatype Area = Main | People | Planning | Tracking | More | Hidden

record Placement =
  place_area :: Area
  place_fieldId :: "string option"
  place_slot :: "string option"

definition ASKED_AREAS :: "Area list" where
  "ASKED_AREAS = [Main, People, Planning, Tracking, More]"

definition placesIn :: "Placement list \<Rightarrow> Area \<Rightarrow> Placement list" where
  "placesIn places area = filter (\<lambda>place. place_area place = area) places"

definition askedPlaces :: "Placement list \<Rightarrow> Placement list" where
  "askedPlaces places = concat (map (\<lambda>area. filter (\<lambda>place. place_area place = area) places) ASKED_AREAS)"

definition keyOf :: "Placement \<Rightarrow> string" where
  "keyOf place =
     (if truthy (place_fieldId place) then ''custom:'' @ the (place_fieldId place)
      else case place_slot place of Some s \<Rightarrow> s | None \<Rightarrow> [])"

definition namedFields :: "Placement list \<Rightarrow> string list" where
  "namedFields places =
     concat (map (\<lambda>place. if truthy (place_fieldId place) then [the (place_fieldId place)] else []) places)"

section \<open>The draft of a new issue\<close>

record Answer =
  answer_name :: string
  answer_value :: json

record Draft =
  new_summary :: string
  new_description :: string
  new_priority :: "Priority option"
  new_assigneeId :: string
  new_reporterId :: string
  new_parentKey :: string
  new_startDate :: string
  new_dueDate :: string
  new_sprintId :: string
  new_milestoneId :: string
  new_teamId :: string
  new_estimate :: string
  new_timeEstimate :: string
  new_componentIds :: "string list"
  new_fixVersionIds :: "string list"
  new_affectsVersionIds :: "string list"
  new_labels :: "string list"
  new_values :: "(string \<times> Answer) list"

definition emptyDraft :: Draft where
  "emptyDraft =
     \<lparr>new_summary = [], new_description = [], new_priority = None, new_assigneeId = [], new_reporterId = [],
      new_parentKey = [], new_startDate = [], new_dueDate = [], new_sprintId = [], new_milestoneId = [],
      new_teamId = [], new_estimate = [], new_timeEstimate = [], new_componentIds = [], new_fixVersionIds = [],
      new_affectsVersionIds = [], new_labels = [], new_values = []\<rparr>"

record CreateIssueInput =
  ci_projectKey :: string
  ci_summary :: string
  ci_description :: "Doc option"
  ci_typeId :: "string option"
  ci_parentKey :: "string option"
  ci_priority :: "Priority option"
  ci_assigneeId :: "string option"
  ci_startDate :: "string option"
  ci_dueDate :: "string option"
  ci_teamId :: "string option"
  ci_estimate :: "js_number option"
  ci_sprintId :: "string option"
  ci_componentIds :: "string list option"

definition if_said :: "'a list \<Rightarrow> 'a list option" where
  "if_said s = (if s \<noteq> [] then Some s else None)"

definition createBody :: "Draft \<Rightarrow> string \<Rightarrow> string \<Rightarrow> CreateIssueInput" where
  "createBody draft projectKey typeId =
     \<lparr>ci_projectKey = projectKey, ci_summary = trim (new_summary draft),
      ci_description = markdownToDoc (new_description draft),
      ci_typeId = if_said typeId,
      ci_parentKey = if_said (trim (new_parentKey draft)),
      ci_priority = new_priority draft,
      ci_assigneeId = if_said (new_assigneeId draft),
      ci_startDate = if_said (new_startDate draft), ci_dueDate = if_said (new_dueDate draft),
      ci_teamId = if_said (new_teamId draft),
      ci_estimate = (if trim (new_estimate draft) \<noteq> [] then Some (read_number (new_estimate draft)) else None),
      ci_sprintId = if_said (new_sprintId draft),
      ci_componentIds = if_said (new_componentIds draft)\<rparr>"

section \<open>What follows the create\<close>

record create_words =
  cw_reporter :: string
  cw_timeEstimate :: string
  cw_labels :: string
  cw_versions :: string
  cw_milestone :: string

definition createEn :: create_words where
  "createEn = \<lparr>cw_reporter = ''Reporter'', cw_timeEstimate = ''Time estimate'', cw_labels = ''Labels'',
     cw_versions = ''Versions'', cw_milestone = ''Milestone''\<rparr>"

definition createDe :: create_words where
  "createDe = \<lparr>cw_reporter = ''Melder'', cw_timeEstimate = ''Zeitsch'' @ [CHR 0xE4] @ ''tzung'',
     cw_labels = ''Schlagw'' @ [CHR 0xF6] @ ''rter'', cw_versions = ''Versionen'', cw_milestone = ''Meilenstein''\<rparr>"

record Leftover =
  left_what :: string
  left_why :: string

record rest_step =
  rest_what :: string
  rest_path :: string
  rest_method :: string
  rest_body :: json

text \<open>A number in a body: JSON writes one that is not finite as null.\<close>

definition body_number :: "js_number \<Rightarrow> json" where
  "body_number n = (case n of Fin x \<Rightarrow> JNum x | _ \<Rightarrow> JNull)"

definition steps :: "create_words \<Rightarrow> string \<Rightarrow> Draft \<Rightarrow> rest_step list" where
  "steps t issueKey draft =
     (let issue = ''/issues/'' @ issueKey;
          patch = (\<lambda>what body. [\<lparr>rest_what = what, rest_path = issue, rest_method = ''PATCH'', rest_body = body\<rparr>]);
          put = (\<lambda>what path body. [\<lparr>rest_what = what, rest_path = issue @ path, rest_method = ''PUT'', rest_body = body\<rparr>])
      in (if new_reporterId draft \<noteq> [] then patch (cw_reporter t) (JObj [(''reporterId'', JStr (new_reporterId draft))]) else [])
       @ (if trim (new_timeEstimate draft) \<noteq> []
          then patch (cw_timeEstimate t) (JObj [(''timeEstimateMinutes'', body_number (read_number (new_timeEstimate draft)))]) else [])
       @ (if new_labels draft \<noteq> [] then put (cw_labels t) ''/labels'' (JObj [(''labels'', JArr (map JStr (new_labels draft)))]) else [])
       @ (if new_fixVersionIds draft \<noteq> [] \<or> new_affectsVersionIds draft \<noteq> []
          then put (cw_versions t) ''/versions''
            (JObj [(''fix'', JArr (map JStr (new_fixVersionIds draft))), (''affects'', JArr (map JStr (new_affectsVersionIds draft)))])
          else [])
       @ (if new_milestoneId draft \<noteq> []
          then put (cw_milestone t) ''/milestone'' (JObj [(''milestoneId'', JStr (new_milestoneId draft))]) else [])
       @ concat (map (\<lambda>(fieldId, answer).
            if answer_value answer = JNull \<or> answer_value answer = JBool False then []
            else put (answer_name answer) (''/fields/'' @ fieldId) (JObj [(''value'', answer_value answer)])) (new_values draft)))"

text \<open>One step: the request goes out, the server answers and may change, and the answer is unwrapped.\<close>

definition run_step :: "(real \<Rightarrow> string) \<Rightarrow> (http_request \<Rightarrow> 's \<Rightarrow> (string + http_response) \<times> 's) \<Rightarrow> rest_step \<Rightarrow> 's
    \<Rightarrow> (failure + json option) \<times> 's" where
  "run_step num send step st =
     (let (a, st') = send (http_of num (rest_path step) (Some (rest_method step)) (Some (rest_body step))) st
      in (request num (\<lambda>_. a) (rest_path step) (Some (rest_method step)) (Some (rest_body step)), st'))"

definition why :: "failure \<Rightarrow> string" where
  "why err = (case err of ApiFailure e \<Rightarrow> err_message e | OtherFailure m \<Rightarrow> m)"

fun apply_steps :: "(real \<Rightarrow> string) \<Rightarrow> (http_request \<Rightarrow> 's \<Rightarrow> (string + http_response) \<times> 's) \<Rightarrow> rest_step list
    \<Rightarrow> Leftover list \<Rightarrow> 's \<Rightarrow> Leftover list \<times> 's" where
  "apply_steps num send [] left st = (left, st)"
| "apply_steps num send (step # rest) left st =
     (case run_step num send step st of
        (Inl err, st') \<Rightarrow> apply_steps num send rest (left @ [\<lparr>left_what = rest_what step, left_why = why err\<rparr>]) st'
      | (Inr _, st') \<Rightarrow> apply_steps num send rest left st')"

definition applyRest :: "create_words \<Rightarrow> (real \<Rightarrow> string) \<Rightarrow> (http_request \<Rightarrow> 's \<Rightarrow> (string + http_response) \<times> 's)
    \<Rightarrow> string \<Rightarrow> Draft \<Rightarrow> 's \<Rightarrow> Leftover list \<times> 's" where
  "applyRest t num send issueKey draft st = apply_steps num send (steps t issueKey draft) [] st"

section \<open>Another type\<close>

definition typeChoices :: "TypeRef list \<Rightarrow> TypeRef \<Rightarrow> TypeRef list" where
  "typeChoices types own =
     filter (\<lambda>t. type_id t \<noteq> type_id own \<and> type_level t = type_level own \<and> type_isSubtask t = type_isSubtask own) types"

record Origin =
  origin_scope :: string
  origin_schemeId :: string
  origin_schemeName :: string
  origin_named :: bool

record Assignment =
  assign_issueTypeId :: string
  assign_issueTypeName :: string
  assign_workflowId :: string
  assign_workflowName :: string
  assign_origin :: Origin

definition workflowFor :: "Assignment list \<Rightarrow> string \<Rightarrow> string option" where
  "workflowFor assignments typeId =
     map_option assign_workflowId (List.find (\<lambda>a. assign_issueTypeId a = typeId) assignments)"

definition landingStatus :: "Workflow \<Rightarrow> Status \<Rightarrow> Status option" where
  "landingStatus workflow status =
     (if \<exists>step \<in> set (workflow_steps workflow). status_id (step_status step) = status_id status then None
      else map_option step_status (List.find step_isInitial (workflow_steps workflow)))"

section \<open>Words not yet sent\<close>

datatype DraftKind = Description | Comment

record KeptDraft =
  kept_doc :: "Doc option"
  kept_startedFrom :: "string option"

definition kind_text :: "DraftKind \<Rightarrow> string" where
  "kind_text kind = (case kind of Description \<Rightarrow> ''description'' | Comment \<Rightarrow> ''comment'')"

definition draft_slot :: "DraftKind \<Rightarrow> string \<Rightarrow> string" where
  "draft_slot kind issueKey = kind_text kind @ '':'' @ issueKey"

definition readDraft :: "(string \<times> KeptDraft) list \<Rightarrow> DraftKind \<Rightarrow> string \<Rightarrow> KeptDraft option" where
  "readDraft kept kind issueKey = map_of kept (draft_slot kind issueKey)"

definition keepDraft :: "DraftKind \<Rightarrow> string \<Rightarrow> Doc option \<Rightarrow> string option \<Rightarrow> (string \<times> KeptDraft) list \<Rightarrow> (string \<times> KeptDraft) list" where
  "keepDraft kind issueKey doc startedFrom kept =
     AList.update (draft_slot kind issueKey) \<lparr>kept_doc = doc, kept_startedFrom = startedFrom\<rparr> kept"

definition forgetDraft :: "DraftKind \<Rightarrow> string \<Rightarrow> (string \<times> KeptDraft) list \<Rightarrow> (string \<times> KeptDraft) list" where
  "forgetDraft kind issueKey kept = AList.delete (draft_slot kind issueKey) kept"

section \<open>A form seeded from the server\<close>

text \<open>
  A form's fields are a function from the keys of its type. The server's answers are objects: each
  comes with the identity the hook compares by.
\<close>

type_synonym 'k form = "'k \<Rightarrow> string"

record 'k form_state =
  form_draft :: "'k form option"
  form_base :: "(nat \<times> 'k form) option"

definition form_start :: "(nat \<times> 'k form) option \<Rightarrow> 'k form_state" where
  "form_start server = \<lparr>form_draft = map_option snd server, form_base = server\<rparr>"

definition form_answer :: "(nat \<times> 'k form) option \<Rightarrow> 'k form_state \<Rightarrow> 'k form_state" where
  "form_answer server st =
     (case server of None \<Rightarrow> st
      | Some (i, values) \<Rightarrow>
          if map_option fst (form_base st) = Some i then st
          else \<lparr>form_draft = Some (case (form_draft st, form_base st) of
                    (Some current, Some (_, was)) \<Rightarrow> (\<lambda>key. if current key \<noteq> was key then current key else values key)
                  | _ \<Rightarrow> values),
                form_base = Some (i, values)\<rparr>)"

definition form_set :: "'k \<Rightarrow> string \<Rightarrow> 'k form_state \<Rightarrow> 'k form_state" where
  "form_set key v st = st\<lparr>form_draft := map_option (\<lambda>current. current(key := v)) (form_draft st)\<rparr>"

section \<open>Every place is asked about once\<close>

lemma asked_places:
  "mset (askedPlaces places) = mset (filter (\<lambda>place. place_area place \<noteq> Hidden) places)"
  "placesIn (askedPlaces places) area = (if area = Hidden then [] else placesIn places area)"
proof -
  show "mset (askedPlaces places) = mset (filter (\<lambda>place. place_area place \<noteq> Hidden) places)"
  proof (induction places)
    case (Cons p ps)
    then show ?case by (cases "place_area p") (simp_all add: askedPlaces_def ASKED_AREAS_def)
  qed (simp add: askedPlaces_def ASKED_AREAS_def)
  have "filter (\<lambda>p. place_area p = area) (filter (\<lambda>p. place_area p = a) places) =
      (if a = area then filter (\<lambda>p. place_area p = area) places else [])" for a
    by (auto simp: filter_empty_conv intro!: filter_cong)
  then show "placesIn (askedPlaces places) area = (if area = Hidden then [] else placesIn places area)"
    by (cases area) (simp_all add: placesIn_def askedPlaces_def ASKED_AREAS_def del: filter_filter)
qed

section \<open>Nothing is lost after the create\<close>

text \<open>The same requests with nobody looking at the answers: each in turn, whatever came before.\<close>

fun all_tried :: "(real \<Rightarrow> string) \<Rightarrow> (http_request \<Rightarrow> 's \<Rightarrow> (string + http_response) \<times> 's) \<Rightarrow> rest_step list
    \<Rightarrow> 's \<Rightarrow> (rest_step \<times> (failure + json option)) list \<times> 's" where
  "all_tried num send [] st = ([], st)"
| "all_tried num send (step # rest) st =
     (let (r, st') = run_step num send step st; (answers, st'') = all_tried num send rest st' in ((step, r) # answers, st''))"

definition refusals :: "(rest_step \<times> (failure + json option)) list \<Rightarrow> Leftover list" where
  "refusals answers =
     concat (map (\<lambda>(step, r). case r of Inl err \<Rightarrow> [\<lparr>left_what = rest_what step, left_why = why err\<rparr>] | Inr _ \<Rightarrow> []) answers)"

lemma all_tried_length: "map fst (fst (all_tried num send ss st)) = ss"
  by (induction ss arbitrary: st) (auto simp: Let_def split: prod.splits, metis fst_conv)

lemma apply_steps_eq:
  "apply_steps num send ss left st = (left @ refusals (fst (all_tried num send ss st)), snd (all_tried num send ss st))"
proof (induction ss arbitrary: left st)
  case (Cons s ss)
  obtain r st' where r: "run_step num send s st = (r, st')" by fastforce
  obtain answers st'' where a: "all_tried num send ss st' = (answers, st'')" by fastforce
  show ?case using Cons [of _ st'] by (cases r) (auto simp: r a refusals_def)
qed (simp add: refusals_def)

text \<open>
  What the form asks, and the answers a draft gives: every one that is not left empty, as JSON where it
  is sent as it is. The summary is always given, a description that reads as no document is none, a
  number that is none is null, and a custom field says nothing with null and with a box not ticked.
\<close>

datatype question = Summary | Description | PriorityQ | Assignee | Reporter | Parent | StartDate | DueDate | Sprint
  | Milestone | Team | Estimate | TimeEstimate | Components | FixVersions | AffectsVersions | Labels | Field string

datatype given = Plain json | Ranked Priority | Written Doc

abbreviation texts :: "string list \<Rightarrow> given" where
  "texts xs \<equiv> Plain (JArr (map JStr xs))"

definition said :: "question \<Rightarrow> string \<Rightarrow> (question \<times> given) list" where
  "said q s = (if s = [] then [] else [(q, Plain (JStr s))])"

definition said_number :: "question \<Rightarrow> string \<Rightarrow> (question \<times> given) list" where
  "said_number q s = (if trim s = [] then [] else [(q, Plain (body_number (read_number s)))])"

definition said_list :: "question \<Rightarrow> string list \<Rightarrow> (question \<times> given) list" where
  "said_list q xs = (if xs = [] then [] else [(q, texts xs)])"

definition said_fields :: "(string \<times> Answer) list \<Rightarrow> (question \<times> given) list" where
  "said_fields vs = map (\<lambda>(i, a). (Field i, Plain (answer_value a)))
     (filter (\<lambda>(i, a). answer_value a \<notin> {JNull, JBool False}) vs)"

definition answers :: "Draft \<Rightarrow> (question \<times> given) list" where
  "answers d = [(Summary, Plain (JStr (trim (new_summary d))))]
     @ (case markdownToDoc (new_description d) of Some doc \<Rightarrow> [(Description, Written doc)] | None \<Rightarrow> [])
     @ (case new_priority d of Some p \<Rightarrow> [(PriorityQ, Ranked p)] | None \<Rightarrow> [])
     @ said Assignee (new_assigneeId d) @ said Reporter (new_reporterId d) @ said Parent (trim (new_parentKey d))
     @ said StartDate (new_startDate d) @ said DueDate (new_dueDate d) @ said Sprint (new_sprintId d)
     @ said Milestone (new_milestoneId d) @ said Team (new_teamId d)
     @ said_number Estimate (new_estimate d) @ said_number TimeEstimate (new_timeEstimate d)
     @ said_list Components (new_componentIds d) @ said_list FixVersions (new_fixVersionIds d)
     @ said_list AffectsVersions (new_affectsVersionIds d) @ said_list Labels (new_labels d)
     @ said_fields (new_values d)"

text \<open>The answers the create request holds, read off its body.\<close>

definition held_text :: "question \<Rightarrow> string option \<Rightarrow> (question \<times> given) list" where
  "held_text q v = (case v of None \<Rightarrow> [] | Some s \<Rightarrow> [(q, Plain (JStr s))])"

definition body_answers :: "CreateIssueInput \<Rightarrow> (question \<times> given) list" where
  "body_answers b = [(Summary, Plain (JStr (ci_summary b)))]
     @ (case ci_description b of Some doc \<Rightarrow> [(Description, Written doc)] | None \<Rightarrow> [])
     @ (case ci_priority b of Some p \<Rightarrow> [(PriorityQ, Ranked p)] | None \<Rightarrow> [])
     @ held_text Assignee (ci_assigneeId b) @ held_text Parent (ci_parentKey b) @ held_text StartDate (ci_startDate b)
     @ held_text DueDate (ci_dueDate b) @ held_text Sprint (ci_sprintId b) @ held_text Team (ci_teamId b)
     @ (case ci_estimate b of None \<Rightarrow> [] | Some n \<Rightarrow> [(Estimate, Plain (body_number n))])
     @ (case ci_componentIds b of None \<Rightarrow> [] | Some xs \<Rightarrow> [(Components, texts xs)])"

text \<open>
  The answers a later request holds, read off its address, its method and its body the way the addresses
  of an issue are laid out; an empty list of versions says nothing.
\<close>

definition at_key :: "question \<Rightarrow> string \<Rightarrow> (string \<times> json) list \<Rightarrow> (question \<times> given) list" where
  "at_key q key kvs = (case map_of kvs key of None \<Rightarrow> [] | Some v \<Rightarrow> [(q, Plain v)])"

definition step_answers :: "string \<Rightarrow> rest_step \<Rightarrow> (question \<times> given) list" where
  "step_answers issueKey step =
     (let issue = ''/issues/'' @ issueKey; path = rest_path step; sub = drop (length issue) path;
          kvs = (case rest_body step of JObj kvs \<Rightarrow> kvs | _ \<Rightarrow> [])
      in if take (length issue) path \<noteq> issue then []
         else if rest_method step = ''PATCH'' then
           if sub = [] then at_key Reporter ''reporterId'' kvs @ at_key TimeEstimate ''timeEstimateMinutes'' kvs else []
         else if rest_method step \<noteq> ''PUT'' then []
         else if sub = ''/labels'' then at_key Labels ''labels'' kvs
         else if sub = ''/versions'' then
           filter (\<lambda>(q, v). v \<noteq> texts []) (at_key FixVersions ''fix'' kvs @ at_key AffectsVersions ''affects'' kvs)
         else if sub = ''/milestone'' then at_key Milestone ''milestoneId'' kvs
         else if take 8 sub = ''/fields/'' then at_key (Field (drop 8 sub)) ''value'' kvs
         else [])"

text \<open>What a leftover answer is called.\<close>

fun called :: "create_words \<Rightarrow> Draft \<Rightarrow> question \<Rightarrow> string \<Rightarrow> bool" where
  "called t d Reporter what \<longleftrightarrow> what = cw_reporter t"
| "called t d TimeEstimate what \<longleftrightarrow> what = cw_timeEstimate t"
| "called t d Labels what \<longleftrightarrow> what = cw_labels t"
| "called t d FixVersions what \<longleftrightarrow> what = cw_versions t"
| "called t d AffectsVersions what \<longleftrightarrow> what = cw_versions t"
| "called t d Milestone what \<longleftrightarrow> what = cw_milestone t"
| "called t d (Field i) what \<longleftrightarrow> (\<exists>a. (i, a) \<in> set (new_values d) \<and> what = answer_name a)"
| "called t d _ what \<longleftrightarrow> False"

lemma step_answers_at:
  "step_answers k \<lparr>rest_what = w, rest_path = ''/issues/'' @ k, rest_method = ''PATCH'', rest_body = JObj kvs\<rparr>
     = at_key Reporter ''reporterId'' kvs @ at_key TimeEstimate ''timeEstimateMinutes'' kvs"
  "step_answers k \<lparr>rest_what = w, rest_path = (''/issues/'' @ k) @ ''/labels'', rest_method = ''PUT'', rest_body = JObj kvs\<rparr>
     = at_key Labels ''labels'' kvs"
  "step_answers k \<lparr>rest_what = w, rest_path = (''/issues/'' @ k) @ ''/versions'', rest_method = ''PUT'', rest_body = JObj kvs\<rparr>
     = filter (\<lambda>(q, v). v \<noteq> texts []) (at_key FixVersions ''fix'' kvs @ at_key AffectsVersions ''affects'' kvs)"
  "step_answers k \<lparr>rest_what = w, rest_path = (''/issues/'' @ k) @ ''/milestone'', rest_method = ''PUT'', rest_body = JObj kvs\<rparr>
     = at_key Milestone ''milestoneId'' kvs"
  "step_answers k \<lparr>rest_what = w, rest_path = (''/issues/'' @ k) @ ''/fields/'' @ i, rest_method = ''PUT'', rest_body = JObj kvs\<rparr>
     = at_key (Field i) ''value'' kvs"
  by (simp_all add: step_answers_def Let_def)

lemmas step_answers_simps = step_answers_at [unfolded append_assoc append_Cons append_Nil]

lemma body_holds:
  "body_answers (createBody d p ty) = [(Summary, Plain (JStr (trim (new_summary d))))]
     @ (case markdownToDoc (new_description d) of Some doc \<Rightarrow> [(Description, Written doc)] | None \<Rightarrow> [])
     @ (case new_priority d of Some p \<Rightarrow> [(PriorityQ, Ranked p)] | None \<Rightarrow> [])
     @ said Assignee (new_assigneeId d) @ said Parent (trim (new_parentKey d)) @ said StartDate (new_startDate d)
     @ said DueDate (new_dueDate d) @ said Sprint (new_sprintId d) @ said Team (new_teamId d)
     @ said_number Estimate (new_estimate d) @ said_list Components (new_componentIds d)"
proof -
  have "held_text q (if_said s) = said q s" for q s by (simp add: held_text_def if_said_def said_def)
  moreover have "(case if_said xs of None \<Rightarrow> [] | Some xs \<Rightarrow> [(q, texts xs)]) = said_list q xs" for q xs
    by (simp add: if_said_def said_list_def)
  moreover have "(case if trim s \<noteq> [] then Some (read_number s) else None of None \<Rightarrow> [] | Some n \<Rightarrow> [(q, Plain (body_number n))])
      = said_number q s" for q s by (simp add: said_number_def)
  ultimately show ?thesis unfolding body_answers_def createBody_def by simp
qed

lemma steps_hold:
  "concat (map (step_answers k) (steps t k d)) = said Reporter (new_reporterId d) @ said_number TimeEstimate (new_timeEstimate d)
     @ said_list Labels (new_labels d) @ said_list FixVersions (new_fixVersionIds d) @ said_list AffectsVersions (new_affectsVersionIds d)
     @ said Milestone (new_milestoneId d) @ said_fields (new_values d)"
proof -
  let ?holds = "\<lambda>ss. concat (map (step_answers k) ss)"
  have cond: "?holds (if b then ss else []) = (if b then ?holds ss else [])" for b ss by simp
  have fields: "?holds (concat (map (\<lambda>(i, a). if answer_value a = JNull \<or> answer_value a = JBool False then []
      else [\<lparr>rest_what = answer_name a, rest_path = (''/issues/'' @ k) @ ''/fields/'' @ i, rest_method = ''PUT'',
        rest_body = JObj [(''value'', answer_value a)]\<rparr>]) vs)) = said_fields vs" for vs
    by (induction vs) (auto simp: said_fields_def step_answers_simps at_key_def)
  show ?thesis unfolding steps_def Let_def map_append concat_append cond fields list.map concat.simps step_answers_at
    by (simp add: at_key_def said_def said_number_def said_list_def)
qed

lemma steps_called: "list_all (\<lambda>step. \<exists>(q, v) \<in> set (step_answers k step). called t d q (rest_what step)) (steps t k d)"
proof -
  let ?P = "\<lambda>step. \<exists>(q, v) \<in> set (step_answers k step). called t d q (rest_what step)"
  have cond: "list_all ?P (if b then ss else []) \<longleftrightarrow> (b \<longrightarrow> list_all ?P ss)" for b ss by simp
  have "list_all ?P (concat (map (\<lambda>(i, a). if answer_value a = JNull \<or> answer_value a = JBool False then []
      else [\<lparr>rest_what = answer_name a, rest_path = (''/issues/'' @ k) @ ''/fields/'' @ i, rest_method = ''PUT'',
        rest_body = JObj [(''value'', answer_value a)]\<rparr>]) vs))" if "set vs \<subseteq> set (new_values d)" for vs
    using that by (induction vs) (auto simp: step_answers_simps at_key_def)
  note fields = this [OF subset_refl]
  show ?thesis unfolding steps_def Let_def list_all_append cond
  proof (intro conjI impI)
    show "list_all ?P [\<lparr>rest_what = cw_versions t, rest_path = (''/issues/'' @ k) @ ''/versions'', rest_method = ''PUT'',
       rest_body = JObj [(''fix'', JArr (map JStr (new_fixVersionIds d))), (''affects'', JArr (map JStr (new_affectsVersionIds d)))]\<rparr>]"
      if "new_fixVersionIds d \<noteq> [] \<or> new_affectsVersionIds d \<noteq> []"
      using that by (auto simp: step_answers_simps at_key_def)
  qed (use fields in \<open>simp_all add: step_answers_simps at_key_def\<close>)
qed

text \<open>
  C18: Nothing a new issue was given is lost. The create request and the requests that follow it carry,
  between them, every answer of the form once and nothing else, each to the address, with the method and
  under the key it belongs to. The requests that follow are all sent, each whatever became of the
  others, and what is reported back is exactly the ones the server refused, in their order, each under
  the name of the answer it carries and with the server's words.
\<close>

theorem rest_all_tried:
  "mset (body_answers (createBody draft projectKey typeId)) + mset (concat (map (step_answers issueKey) (steps t issueKey draft)))
     = mset (answers draft)
   \<and> list_all (\<lambda>step. \<exists>(q, v) \<in> set (step_answers issueKey step). called t draft q (rest_what step)) (steps t issueKey draft)
   \<and> (let (tried, st') = all_tried num send (steps t issueKey draft) st
      in map fst tried = steps t issueKey draft \<and> applyRest t num send issueKey draft st = (refusals tried, st'))"
proof (intro conjI)
  show "mset (body_answers (createBody draft projectKey typeId)) + mset (concat (map (step_answers issueKey) (steps t issueKey draft)))
     = mset (answers draft)"
    unfolding body_holds steps_hold answers_def mset_append by (simp add: ac_simps)
  show "list_all (\<lambda>step. \<exists>(q, v) \<in> set (step_answers issueKey step). called t draft q (rest_what step)) (steps t issueKey draft)"
    by (rule steps_called)
  show "let (tried, st') = all_tried num send (steps t issueKey draft) st
      in map fst tried = steps t issueKey draft \<and> applyRest t num send issueKey draft st = (refusals tried, st')"
    using all_tried_length [of num send "steps t issueKey draft" st]
    by (simp add: applyRest_def apply_steps_eq split: prod.splits) (metis fst_conv)
qed

section \<open>Where a change of type leads\<close>

lemma landing_in_workflow:
  "landingStatus w status = Some st \<Longrightarrow>
    (\<exists>step \<in> set (workflow_steps w). step_isInitial step \<and> step_status step = st) \<and>
    (\<forall>step \<in> set (workflow_steps w). status_id (step_status step) \<noteq> status_id status)"
  by (auto simp: landingStatus_def find_Some_iff split: if_splits intro!: bexI [OF _ nth_mem])

lemma type_choices_stay: "c \<in> set (typeChoices types own) \<Longrightarrow> type_level c = type_level own \<and> type_isSubtask c = type_isSubtask own"
  by (simp add: typeChoices_def)

section \<open>Drafts do not meet\<close>

lemma draft_slot_inj: "draft_slot k i = draft_slot l j \<longleftrightarrow> k = l \<and> i = j"
  by (cases k; cases l) (auto simp: draft_slot_def kind_text_def)

lemma drafts_apart:
  "readDraft (keepDraft k i doc from kept) l j =
     (if k = l \<and> i = j then Some \<lparr>kept_doc = doc, kept_startedFrom = from\<rparr> else readDraft kept l j)"
  "readDraft (forgetDraft k i kept) l j = (if k = l \<and> i = j then None else readDraft kept l j)"
  by (auto simp: readDraft_def keepDraft_def forgetDraft_def update_conv delete_conv draft_slot_inj)

section \<open>An edit outlives the server's answers\<close>

datatype 'k form_event = Answered nat "'k form" | Typed 'k string

fun form_step :: "'k form_event \<Rightarrow> 'k form_state \<Rightarrow> 'k form_state" where
  "form_step (Answered i values) st = form_answer (Some (i, values)) st"
| "form_step (Typed key v) st = form_set key v st"

text \<open>
  What the hook promises: the server's last answer, and over it the fields somebody edited away from
  it. An answer takes an edit off only where it says the same.
\<close>

record 'k overlay =
  ov_server :: "'k form"
  ov_edits :: "'k \<Rightarrow> string option"

definition ov_value :: "'k overlay \<Rightarrow> 'k form" where
  "ov_value ov key = (case ov_edits ov key of Some v \<Rightarrow> v | None \<Rightarrow> ov_server ov key)"

fun overlay_step :: "'k form_event \<Rightarrow> 'k overlay \<Rightarrow> 'k overlay" where
  "overlay_step (Answered i values) ov =
     \<lparr>ov_server = values, ov_edits = (\<lambda>key. if ov_edits ov key = Some (values key) then None else ov_edits ov key)\<rparr>"
| "overlay_step (Typed key v) ov =
     ov\<lparr>ov_edits := (ov_edits ov)(key := if v = ov_server ov key then None else Some v)\<rparr>"

definition abs_form :: "'k form_state \<Rightarrow> 'k overlay" where
  "abs_form st =
     (let server = snd (the (form_base st)); current = the (form_draft st)
      in \<lparr>ov_server = server, ov_edits = (\<lambda>key. if current key \<noteq> server key then Some (current key) else None)\<rparr>)"

text \<open>An object keeps its fields: answers with one identity say one thing.\<close>

definition one_face :: "(nat \<Rightarrow> 'k form) \<Rightarrow> 'k form_event \<Rightarrow> bool" where
  "one_face face ev = (case ev of Answered i values \<Rightarrow> values = face i | Typed _ _ \<Rightarrow> True)"

definition seeded :: "(nat \<Rightarrow> 'k form) \<Rightarrow> 'k form_state \<Rightarrow> bool" where
  "seeded face st \<longleftrightarrow> form_draft st \<noteq> None \<and> (\<exists>i. form_base st = Some (i, face i))"

lemma form_step_refines:
  assumes "seeded face st" and "one_face face ev"
  shows "seeded face (form_step ev st) \<and> abs_form (form_step ev st) = overlay_step ev (abs_form st)"
proof -
  obtain d i where st: "st = \<lparr>form_draft = Some d, form_base = Some (i, face i)\<rparr>"
    using assms(1) by (cases st) (auto simp: seeded_def)
  show ?thesis
  proof (cases ev)
    case (Answered j f)
    with assms(2) have "f = face j" by (simp add: one_face_def)
    with Answered st show ?thesis by (cases "i = j") (auto simp: seeded_def form_answer_def abs_form_def Let_def intro!: ext)
  next
    case (Typed key v)
    with st show ?thesis by (auto simp: seeded_def form_set_def abs_form_def Let_def intro!: ext)
  qed
qed

text \<open>
  C16: a form seeded from the server is, after any run of answers and typing, the server's last answer
  with the edits over it: an answer that lands while somebody types takes nothing back, and one
  that repeats what was typed makes the field the server's again.
\<close>

theorem form_refines:
  assumes "\<forall>ev \<in> set evs. one_face face ev"
  shows "abs_form (fold form_step evs (form_start (Some (i, face i)))) =
      fold overlay_step evs \<lparr>ov_server = face i, ov_edits = (\<lambda>_. None)\<rparr>
    \<and> form_draft (fold form_step evs (form_start (Some (i, face i)))) =
      Some (ov_value (fold overlay_step evs \<lparr>ov_server = face i, ov_edits = (\<lambda>_. None)\<rparr>))"
proof -
  have run: "seeded face st \<Longrightarrow> \<forall>ev \<in> set evs. one_face face ev \<Longrightarrow>
      seeded face (fold form_step evs st) \<and> abs_form (fold form_step evs st) = fold overlay_step evs (abs_form st)" for st
    by (induction evs arbitrary: st) (auto simp: form_step_refines)
  have "seeded face (form_start (Some (i, face i)))" by (simp add: seeded_def form_start_def)
  note r = run [OF this assms]
  have "abs_form (form_start (Some (i, face i))) = \<lparr>ov_server = face i, ov_edits = (\<lambda>_. None)\<rparr>"
    by (simp add: abs_form_def form_start_def)
  moreover have "form_draft st = Some (ov_value (abs_form st))" if "seeded face st" for st
    using that by (auto simp: seeded_def abs_form_def ov_value_def fun_eq_iff Let_def)
  ultimately show ?thesis using r by metis
qed

definition sample_face :: "nat \<Rightarrow> bool form" where
  "sample_face i = (\<lambda>key. if key then nat_str i else ''x'')"

theorem form_refines_witness:
  "form_draft (fold form_step [Typed True ''a'', Answered 1 (sample_face 1)] (form_start (Some (0, sample_face 0)))) =
    Some (ov_value (fold overlay_step [Typed True ''a'', Answered 1 (sample_face 1)]
      \<lparr>ov_server = sample_face 0, ov_edits = (\<lambda>_. None)\<rparr>))"
  using form_refines [of "[Typed True ''a'', Answered 1 (sample_face 1)]" sample_face 0] by (simp add: one_face_def)

lemma edit_survives:
  assumes "ov_edits ov key = Some v" and "\<forall>s \<in> set (butlast ss). snd s key \<noteq> v"
  shows "ov_value (fold overlay_step (map (\<lambda>(i, f). Answered i f) ss) ov) key = v"
  using assms
proof (induction ss arbitrary: ov)
  case (Cons s ss)
  obtain i f where s: "s = (i, f)" by (cases s)
  show ?case
  proof (cases "ss = []")
    case True
    with Cons.prems s show ?thesis by (simp add: ov_value_def)
  next
    case False
    with Cons.prems s have "ov_edits (overlay_step (Answered i f) ov) key = Some v" by auto
    from Cons.IH [OF this] Cons.prems(2) False s show ?thesis by simp
  qed
qed (simp add: ov_value_def)

end
