(* ===== verification/Desk.thy ===== *)
theory Desk
  imports Api
begin

text \<open>
  The service desk's shaping of its lists: \<open>features/desk/templates.ts\<close>, \<open>features/desk/company.ts\<close> and
  the writing of a domain in \<open>features/desk/DeskExtras.tsx\<close>.
\<close>

section \<open>Request types by category\<close>

record RequestType =
  rt_id :: string
  rt_projectId :: string
  rt_projectKey :: string
  rt_name :: string
  rt_description :: "string option"
  rt_issueTypeId :: string
  rt_issueTypeName :: string
  rt_priority :: Priority
  rt_position :: int
  rt_category :: string
  rt_detailsTemplate :: string
  rt_teamId :: "string option"
  rt_teamName :: "string option"

record CategoryGroup =
  cg_name :: string
  cg_types :: "RequestType list"

record desk_words =
  dw_general :: string
  dw_companyShared :: "string \<Rightarrow> string"

definition deskEn :: desk_words where
  "deskEn = \<lparr>dw_general = ''General'', dw_companyShared = (\<lambda>name. name @ '', shared'')\<rparr>"

definition deskDe :: desk_words where
  "deskDe = \<lparr>dw_general = ''Allgemein'', dw_companyShared = (\<lambda>name. name @ '', geteilt'')\<rparr>"

definition GENERAL_CATEGORY :: string where
  "GENERAL_CATEGORY = ''General''"

definition categoryHeading :: "desk_words \<Rightarrow> string \<Rightarrow> string" where
  "categoryHeading t name = (if name = GENERAL_CATEGORY then dw_general t else name)"

definition category_name :: "RequestType \<Rightarrow> string" where
  "category_name type = (let c = trim (rt_category type) in if c \<noteq> [] then c else GENERAL_CATEGORY)"

definition add_type :: "(string \<times> CategoryGroup) list \<Rightarrow> RequestType \<Rightarrow> (string \<times> CategoryGroup) list" where
  "add_type groups type =
     (let name = category_name type; gid = toLowerCase name;
          g = (case map_of groups gid of Some g \<Rightarrow> g | None \<Rightarrow> \<lparr>cg_name = name, cg_types = []\<rparr>)
      in AList.update gid (g\<lparr>cg_types := cg_types g @ [type]\<rparr>) groups)"

definition groupByCategory :: "RequestType list \<Rightarrow> CategoryGroup list" where
  "groupByCategory types =
     (let groups = foldl add_type [] types;
          general = map_of groups (toLowerCase GENERAL_CATEGORY);
          others = map snd (filter (\<lambda>(gid, g). gid \<noteq> toLowerCase GENERAL_CATEGORY) groups)
      in case general of Some g \<Rightarrow> g # others | None \<Rightarrow> others)"

definition prefillDetails :: "string \<Rightarrow> string \<Rightarrow> string \<Rightarrow> string" where
  "prefillDetails current previousTemplate nextTemplate =
     (if trim current = [] \<or> current = previousTemplate then nextTemplate else current)"

definition categoriesOf :: "RequestType list \<Rightarrow> string list" where
  "categoriesOf types = filter (\<lambda>name. name \<noteq> GENERAL_CATEGORY) (map cg_name (groupByCategory types))"

section \<open>Companies\<close>

definition cleanDomain :: "string \<Rightarrow> string" where
  "cleanDomain raw = toLowerCase (let s = trim raw in if startsWith s ''@'' then tl s else s)"

text \<open>A run of white space and commas is one separator.\<close>

fun split_runs :: "(char \<Rightarrow> bool) \<Rightarrow> bool \<Rightarrow> string \<Rightarrow> string list" where
  "split_runs p inside [] = [[]]"
| "split_runs p inside (c # s) =
     (if p c then (if inside then split_runs p True s else [] # split_runs p True s)
      else (case split_runs p False s of w # ws \<Rightarrow> (c # w) # ws | [] \<Rightarrow> [[c]]))"

definition parseDomains :: "string \<Rightarrow> string list" where
  "parseDomains raw =
     uniq (filter (\<lambda>d. d \<noteq> []) (map cleanDomain (split_runs (\<lambda>c. is_space c \<or> c = CHR '','') False raw)))"

definition companyLine :: "desk_words \<Rightarrow> string \<Rightarrow> bool \<Rightarrow> string" where
  "companyLine t name shared = (if shared then dw_companyShared t name else name)"

record PortalPerson =
  person_id :: string
  person_name :: string
  person_avatarUrl :: "string option"

record PortalRequest =
  pr_key :: string
  pr_summary :: string
  pr_description :: "Doc option"
  pr_statusName :: string
  pr_statusCategory :: StatusCategory
  pr_requestTypeName :: "string option"
  pr_team :: "NamedRef option"
  pr_company :: "NamedRef option"
  pr_sharedWithCompany :: bool
  pr_assignee :: "PortalPerson option"
  pr_reporter :: "PortalPerson option"
  pr_updatedAt :: string

definition company_of :: "PortalRequest \<Rightarrow> string" where
  "company_of r = (case pr_company r of Some c \<Rightarrow> ref_name c | None \<Rightarrow> [])"

fun share_into :: "(string \<times> PortalRequest list) list \<Rightarrow> string \<Rightarrow> PortalRequest \<Rightarrow> (string \<times> PortalRequest list) list" where
  "share_into [] company r = [(company, [r])]"
| "share_into ((c, rs) # gs) company r =
     (if c = company then (c, rs @ [r]) # gs else (c, rs) # share_into gs company r)"

definition sharedByCompany :: "PortalRequest list \<Rightarrow> (string \<times> PortalRequest list) list" where
  "sharedByCompany requests = foldl (\<lambda>gs r. share_into gs (company_of r) r) [] requests"

section \<open>Grouping keeps everything\<close>

lemma uniq_snoc: "uniq (xs @ [x]) = uniq xs @ (if x \<in> set xs then [] else [x])"
  by (induction xs) auto

lemma none_met: "k \<notin> key ` set xs \<Longrightarrow> filter (\<lambda>x. key x = k) xs = []"
  by (induction xs) auto

text \<open>Entries keyed by what is met, each with what it is met with, in the order of meeting.\<close>

definition grouped :: "('a \<Rightarrow> 'k) \<Rightarrow> 'a list \<Rightarrow> ('k \<times> 'a list) list" where
  "grouped key xs = map (\<lambda>k. (k, filter (\<lambda>x. key x = k) xs)) (uniq (map key xs))"

lemma grouped_snoc:
  "grouped key (xs @ [x]) =
    (if key x \<in> set (map key xs) then map (\<lambda>(k, ys). (k, if k = key x then ys @ [x] else ys)) (grouped key xs)
     else grouped key xs @ [(key x, [x])])"
proof (cases "key x \<in> set (map key xs)")
  case False
  then have "filter (\<lambda>y. key y = key x) xs = []" by (simp add: none_met)
  with False show ?thesis by (auto simp: grouped_def uniq_snoc)
qed (auto simp: grouped_def uniq_snoc)

lemma grouped_members: "mset (concat (map snd (grouped key xs))) = mset xs"
proof (induction xs rule: rev_induct)
  case (snoc x xs)
  show ?case
  proof (cases "key x \<in> set (map key xs)")
    case True
    have one: "mset (concat (map (\<lambda>k. filter (\<lambda>y. key y = k) xs @ (if k = key x then [x] else [])) ks)) =
        mset (concat (map (\<lambda>k. filter (\<lambda>y. key y = k) xs) ks)) + (if key x \<in> set ks then {#x#} else {#})"
      if "distinct ks" for ks using that by (induction ks) auto
    have "map snd (grouped key (xs @ [x])) = map (\<lambda>k. filter (\<lambda>y. key y = k) xs @ (if k = key x then [x] else [])) (uniq (map key xs))"
      using True by (auto simp: grouped_def uniq_snoc)
    with one [OF distinct_uniq, of "map key xs"] True snoc show ?thesis by (simp add: grouped_def o_def)
  qed (use snoc grouped_snoc [of key xs x] in simp)
qed (simp add: grouped_def)

lemma share_into_grouped:
  "share_into (map (\<lambda>k. (k, f k)) ks) c r =
    (if c \<in> set ks then map (\<lambda>k. (k, if k = c then f k @ [r] else f k)) ks else map (\<lambda>k. (k, f k)) ks @ [(c, [r])])"
  if "distinct ks"
  using that by (induction ks) auto

text \<open>Shared requests stand under their companies in the order they came, none lost and none twice.\<close>

lemma shared_exact: "sharedByCompany requests = grouped company_of requests"
proof (induction requests rule: rev_induct)
  case (snoc r rs)
  then have "sharedByCompany (rs @ [r]) = share_into (grouped company_of rs) (company_of r) r" by (simp add: sharedByCompany_def)
  also have "\<dots> = grouped company_of (rs @ [r])"
    unfolding grouped_snoc unfolding grouped_def by (simp add: share_into_grouped split_def o_def)
  finally show ?case .
qed (simp add: sharedByCompany_def grouped_def)

definition category_id :: "RequestType \<Rightarrow> string" where
  "category_id type = toLowerCase (category_name type)"

text \<open>A category's entry: the spelling first met, and its types in their order.\<close>

definition category_group :: "RequestType list \<Rightarrow> string \<Rightarrow> CategoryGroup" where
  "category_group types gid =
     (let ts = filter (\<lambda>type. category_id type = gid) types in \<lparr>cg_name = category_name (hd ts), cg_types = ts\<rparr>)"

lemma update_mapped:
  "distinct ks \<Longrightarrow> AList.update k v (map (\<lambda>k. (k, f k)) ks) =
    (if k \<in> set ks then map (\<lambda>j. (j, if j = k then v else f j)) ks else map (\<lambda>k. (k, f k)) ks @ [(k, v)])"
  by (induction ks) auto

lemma categories_exact:
  "foldl add_type [] types = map (\<lambda>gid. (gid, category_group types gid)) (uniq (map category_id types))"
proof (induction types rule: rev_induct)
  case (snoc t ts)
  let ?g = "category_id t"
  let ?ks = "uniq (map category_id ts)"
  have get: "map_of (map (\<lambda>gid. (gid, category_group ts gid)) ?ks) ?g = (if ?g \<in> set ?ks then Some (category_group ts ?g) else None)"
    by (simp add: map_of_map_restrict restrict_map_def)
  show ?case
  proof (cases "?g \<in> set ?ks")
    case True
    then have ne: "filter (\<lambda>type. category_id type = ?g) ts \<noteq> []" by (auto simp: filter_empty_conv)
    have "category_group (ts @ [t]) k = (if k = ?g then (category_group ts k)\<lparr>cg_types := cg_types (category_group ts k) @ [t]\<rparr> else category_group ts k)" for k
      using ne by (simp add: category_group_def Let_def)
    then show ?thesis using snoc True get
      by (simp add: add_type_def category_id_def [symmetric] Let_def update_mapped uniq_snoc cong: if_cong)
  next
    case False
    then have e: "filter (\<lambda>type. category_id type = ?g) ts = []" by (simp add: none_met)
    have "category_group (ts @ [t]) k = category_group ts k" if "k \<in> set ?ks" for k
      using that False by (auto simp: category_group_def)
    moreover have "category_group (ts @ [t]) ?g = \<lparr>cg_name = category_name t, cg_types = [t]\<rparr>" using e by (simp add: category_group_def)
    ultimately show ?thesis using snoc False get
      by (simp add: add_type_def category_id_def [symmetric] Let_def update_mapped uniq_snoc cong: map_cong)
  qed
qed simp

text \<open>
  C30: request types stand under their categories, whatever their letters' case: the general list first
  when there is one, the others in the order they are first met, each under the spelling first
  seen and with its types in the desk's order; every type stands in exactly one of them.
\<close>

theorem categories_grouped:
  "groupByCategory types =
      map (category_group types)
        (let gids = uniq (map category_id types); general = toLowerCase GENERAL_CATEGORY
         in filter (\<lambda>gid. gid = general) gids @ filter (\<lambda>gid. gid \<noteq> general) gids)
   \<and> mset (concat (map cg_types (groupByCategory types))) = mset types"
proof -
  let ?gids = "uniq (map category_id types)" and ?gen = "toLowerCase GENERAL_CATEGORY"
  have one: "filter (\<lambda>gid. gid = ?gen) ks = (if ?gen \<in> set ks then [?gen] else [])" if "distinct ks" for ks
    using that by (induction ks) auto
  have "map_of (map (\<lambda>gid. (gid, category_group types gid)) ?gids) ?gen = (if ?gen \<in> set ?gids then Some (category_group types ?gen) else None)"
    by (simp add: map_of_map_restrict restrict_map_def)
  moreover have "map snd (filter (\<lambda>(gid, g). gid \<noteq> ?gen) (map (\<lambda>gid. (gid, category_group types gid)) ?gids)) =
      map (category_group types) (filter (\<lambda>gid. gid \<noteq> ?gen) ?gids)"
    by (induction ?gids) (auto simp: filter_map o_def)
  ultimately have groups: "groupByCategory types =
      map (category_group types) (filter (\<lambda>gid. gid = ?gen) ?gids @ filter (\<lambda>gid. gid \<noteq> ?gen) ?gids)"
    using one [OF distinct_uniq, of "map category_id types"]
    by (simp add: groupByCategory_def categories_exact Let_def split: option.splits)
  have split: "mset (concat (map f (filter p ks @ filter (\<lambda>k. \<not> p k) ks))) = mset (concat (map f ks))" for f p and ks :: "string list"
    by (induction ks) auto
  have "mset (concat (map cg_types (groupByCategory types))) = mset (concat (map (\<lambda>k. filter (\<lambda>t. category_id t = k) types) ?gids))"
    using split [of "\<lambda>k. filter (\<lambda>t. category_id t = k) types" "\<lambda>g. g = ?gen" ?gids]
    by (simp add: groups category_group_def Let_def o_def)
  also have "\<dots> = mset types" using grouped_members [of category_id types] by (simp add: grouped_def o_def)
  finally show ?thesis using groups by (simp add: Let_def)
qed

text \<open>The domains of a list are each there once and none is empty.\<close>

lemma domains_clean: "distinct (parseDomains raw) \<and> [] \<notin> set (parseDomains raw)"
  by (simp add: parseDomains_def)

end
