(* ===== verification/Kept.thy ===== *)
theory Kept
  imports Language JsonText
begin

text \<open>
  More of what the browser keeps: the last queries, \<open>features/search/recent.ts\<close>; the theme and the
  compiled theme, \<open>lib/theme.ts\<close>; the folded groups of the sidebar, \<open>features/shell/state.ts\<close>; and the
  editor's face, \<open>features/editor/useEditorMode.ts\<close>. How a number is written is a parameter; no value
  kept here has one.
\<close>

section \<open>The last queries\<close>

definition RECENT_KEY :: string where
  "RECENT_KEY = ''armature.recentQueries''"

definition RECENT_QUERIES_MAX :: nat where
  "RECENT_QUERIES_MAX = 6"

definition json_strings :: "json list \<Rightarrow> string list" where
  "json_strings vs = concat (map (\<lambda>v. case v of JStr s \<Rightarrow> [s] | _ \<Rightarrow> []) vs)"

definition read_recent :: "storage \<Rightarrow> string list" where
  "read_recent st =
     (case getItem st RECENT_KEY of
        None \<Rightarrow> []
      | Some kept \<Rightarrow>
          (case json_parse (case kept of Some raw \<Rightarrow> raw | None \<Rightarrow> ''[]'') of Some (JArr vs) \<Rightarrow> json_strings vs | _ \<Rightarrow> []))"

text \<open>Remembering a query; the write is not guarded, so a browser that refuses it raises: \<^const>\<open>None\<close>.\<close>

definition remember :: "(real \<Rightarrow> string) \<Rightarrow> storage \<Rightarrow> string list \<Rightarrow> string \<Rightarrow> (storage \<times> string list) option" where
  "remember num st recent query =
     (if trim query = [] then Some (st, recent)
      else let nxt = take RECENT_QUERIES_MAX (query # filter (\<lambda>q. q \<noteq> query) (read_recent st))
           in map_option (\<lambda>st'. (st', nxt)) (setItem st RECENT_KEY (stringify num (JArr (map JStr nxt)))))"

section \<open>The theme\<close>

datatype Theme = Light | Dark | System

definition theme_text :: "Theme \<Rightarrow> string" where
  "theme_text t = (case t of Light \<Rightarrow> ''light'' | Dark \<Rightarrow> ''dark'' | System \<Rightarrow> ''system'')"

definition THEME_KEY :: string where
  "THEME_KEY = ''armature.theme''"

definition readTheme :: "storage \<Rightarrow> Theme" where
  "readTheme st =
     (case getItem st THEME_KEY of
        Some (Some v) \<Rightarrow> if v = ''light'' then Light else if v = ''dark'' then Dark else System
      | _ \<Rightarrow> System)"

text \<open>The page: the attribute of its root element, and the text of the theme's style element.\<close>

record page =
  data_theme :: "string option"
  theme_style :: "string option"

definition applyTheme :: "Theme \<Rightarrow> page \<Rightarrow> storage \<Rightarrow> page \<times> storage" where
  "applyTheme theme pg st =
     (pg\<lparr>data_theme := (if theme = System then None else Some (theme_text theme))\<rparr>,
      attempt st (setItem st THEME_KEY (theme_text theme)))"

definition applyCustomTheme :: "string option \<Rightarrow> page \<Rightarrow> page" where
  "applyCustomTheme css pg =
     (case css of None \<Rightarrow> pg\<lparr>theme_style := None\<rparr>
      | Some c \<Rightarrow> if theme_style pg = Some c then pg else pg\<lparr>theme_style := Some c\<rparr>)"

definition CACHE_KEY :: string where
  "CACHE_KEY = ''armature.theme-css''"

definition cacheCustomTheme :: "(real \<Rightarrow> string) \<Rightarrow> storage \<Rightarrow> (string \<times> string) option \<Rightarrow> storage" where
  "cacheCustomTheme num st entry =
     attempt st (case entry of None \<Rightarrow> removeItem st CACHE_KEY
       | Some (key, css) \<Rightarrow> setItem st CACHE_KEY (stringify num (JObj [(''key'', JStr key), (''css'', JStr css)])))"

definition readCachedTheme :: "storage \<Rightarrow> (string \<times> string) option" where
  "readCachedTheme st =
     (case getItem st CACHE_KEY of
        Some (Some raw) \<Rightarrow>
          if raw = [] then None
          else (case json_parse raw of
             Some (JObj m) \<Rightarrow> (case (map_of m ''key'', map_of m ''css'') of (Some (JStr key), Some (JStr css)) \<Rightarrow> Some (key, css) | _ \<Rightarrow> None)
           | _ \<Rightarrow> None)
      | _ \<Rightarrow> None)"

section \<open>The folded groups\<close>

definition GROUPS_KEY :: string where
  "GROUPS_KEY = ''armature.sidebar-groups''"

text \<open>An array is an object too: its members are named by their places.\<close>

definition read_groups :: "storage \<Rightarrow> (string \<times> json) list" where
  "read_groups st =
     (case json_parse (case readStorage st GROUPS_KEY of Some raw \<Rightarrow> raw | None \<Rightarrow> ''{}'') of
        Some (JObj m) \<Rightarrow> m
      | Some (JArr vs) \<Rightarrow> map (\<lambda>(i, v). (nat_str i, v)) (enumerate 0 vs)
      | _ \<Rightarrow> [])"

definition group_open :: "(string \<times> json) list \<Rightarrow> string \<Rightarrow> bool \<Rightarrow> bool" where
  "group_open groups gid defaultOpen = json_truthy (json_or (map_of groups gid) (JBool defaultOpen))"

definition toggle_group :: "(real \<Rightarrow> string) \<Rightarrow> string \<Rightarrow> bool \<Rightarrow> storage \<times> (string \<times> json) list \<Rightarrow> storage \<times> (string \<times> json) list" where
  "toggle_group num gid defaultOpen s =
     (let (st, groups) = s; nxt = AList.update gid (JBool (\<not> group_open groups gid defaultOpen)) groups
      in (writeStorage st GROUPS_KEY (Some (stringify num (JObj nxt))), nxt))"

section \<open>The editor's face\<close>

datatype EditorMode = Rich | MarkdownText

definition EDITOR_KEY :: string where
  "EDITOR_KEY = ''armature.editor''"

definition read_mode :: "storage \<Rightarrow> EditorMode" where
  "read_mode st = (if readStorage st EDITOR_KEY = Some ''markdown'' then MarkdownText else Rich)"

definition mode_text :: "EditorMode \<Rightarrow> string" where
  "mode_text m = (case m of MarkdownText \<Rightarrow> ''markdown'' | Rich \<Rightarrow> ''rich'')"

text \<open>The editors on the page, each with its face; one switch turns them all and is kept.\<close>

definition mount_editor :: "nat \<Rightarrow> storage \<Rightarrow> (nat \<times> EditorMode) list \<Rightarrow> (nat \<times> EditorMode) list" where
  "mount_editor i st editors = AList.update i (read_mode st) editors"

definition unmount_editor :: "nat \<Rightarrow> (nat \<times> EditorMode) list \<Rightarrow> (nat \<times> EditorMode) list" where
  "unmount_editor i editors = AList.delete i editors"

definition switch_mode :: "EditorMode \<Rightarrow> storage \<times> (nat \<times> EditorMode) list \<Rightarrow> storage \<times> (nat \<times> EditorMode) list" where
  "switch_mode m s =
     (let (st, editors) = s in (writeStorage st EDITOR_KEY (Some (mode_text m)), map (\<lambda>(i, _). (i, m)) editors))"

section \<open>What is kept is found again\<close>

lemma json_strings_back: "json_strings (map JStr ss) = ss"
  by (induction ss) (simp_all add: json_strings_def)

lemma strings_ok: "json_all_ok p (map JStr ss)"
  by (induction ss) simp_all

lemma read_recent_written:
  assumes "st_readable st" and "setItem st RECENT_KEY (stringify num (JArr (map JStr qs))) = Some st'"
  shows "read_recent st' = qs" "st_readable st'" "st_writable st'"
proof -
  have w: "st' = st\<lparr>st_items := (st_items st)(RECENT_KEY \<mapsto> stringify num (JArr (map JStr qs)))\<rparr>" "st_writable st"
    using assms(2) by (auto simp: setItem_def split: if_splits)
  have "json_parse (stringify num (JArr (map JStr qs))) = Some (JArr (map JStr qs))"
    by (rule json_back) (simp add: strings_ok)
  then show "read_recent st' = qs" using assms(1) w by (simp add: read_recent_def getItem_def json_strings_back)
  show "st_readable st'" "st_writable st'" using assms(1) w by simp_all
qed

lemma take_filter_take:
  assumes "distinct ys"
  shows "take n (filter (\<lambda>y. y \<noteq> q) (take (Suc n) ys)) = take n (filter (\<lambda>y. y \<noteq> q) ys)"
  using assms
proof (induction ys arbitrary: n)
  case (Cons y ys)
  show ?case
  proof (cases "y = q")
    case True
    with Cons.prems have "filter (\<lambda>y. y \<noteq> q) zs = zs" if "set zs \<subseteq> set ys" for zs using that by (auto simp: filter_id_conv)
    with True show ?thesis by (simp add: set_take_subset)
  next
    case False
    with Cons show ?thesis by (cases n) simp_all
  qed
qed simp

fun remember_all :: "(real \<Rightarrow> string) \<Rightarrow> storage \<Rightarrow> string list \<Rightarrow> string list \<Rightarrow> (storage \<times> string list) option" where
  "remember_all num st recent [] = Some (st, recent)"
| "remember_all num st recent (q # qs) =
     (case remember num st recent q of Some (st', recent') \<Rightarrow> remember_all num st' recent' qs | None \<Rightarrow> None)"

definition newest :: "string list \<Rightarrow> string list" where
  "newest qs = take RECENT_QUERIES_MAX (uniq (rev qs))"

lemma newest_snoc: "newest (qs @ [q]) = take RECENT_QUERIES_MAX (q # filter (\<lambda>p. p \<noteq> q) (newest qs))"
  using take_filter_take [OF distinct_uniq, of 5 q "rev qs"] by (simp add: newest_def RECENT_QUERIES_MAX_def)

text \<open>
  C22: the queries a browser keeps are the last six that said something, newest first, each once at the
  place it was last run, and another tab or a reload reads exactly those.
\<close>

theorem recent_newest_first:
  assumes "st_readable st" and "st_writable st" and "read_recent st = newest old"
  shows "\<exists>st' recent'. remember_all num st (newest old) qs = Some (st', recent') \<and> recent' = read_recent st'
    \<and> read_recent st' = newest (old @ filter (\<lambda>q. trim q \<noteq> []) qs)"
  using assms
proof (induction qs arbitrary: st old)
  case (Cons q qs)
  show ?case
  proof (cases "trim q = []")
    case True
    with Cons.IH [OF Cons.prems] show ?thesis by (simp add: remember_def)
  next
    case False
    define nxt where "nxt = newest (old @ [q])"
    obtain st' where w: "setItem st RECENT_KEY (stringify num (JArr (map JStr nxt))) = Some st'"
      using Cons.prems(2) by (simp add: setItem_def)
    have r: "remember num st (newest old) q = Some (st', nxt)"
      using False w Cons.prems(3) by (simp add: remember_def nxt_def newest_snoc)
    note read = read_recent_written [OF Cons.prems(1) w]
    from Cons.IH [OF read(2,3), of "old @ [q]"] read(1) r False show ?thesis by (simp add: nxt_def)
  qed
qed simp

theorem recent_newest_first_witness:
  "\<exists>st' recent'. remember_all (\<lambda>_. []) empty_storage (newest []) [''a'', '' '', ''b'', ''a''] = Some (st', recent') \<and> recent' = read_recent st'
    \<and> read_recent st' = newest ([] @ filter (\<lambda>q. trim q \<noteq> []) [''a'', '' '', ''b'', ''a''])"
proof (rule recent_newest_first)
  show "read_recent empty_storage = newest []" by code_simp
qed (simp_all add: empty_storage_def)

text \<open>A browser that refuses a write makes remembering raise.\<close>

lemma remember_raises: "\<not> st_writable st \<Longrightarrow> trim q \<noteq> [] \<Longrightarrow> remember num st recent q = None"
  by (simp add: remember_def setItem_def)

interpretation theme: setting readTheme "\<lambda>st t. snd (applyTheme t pg st)" "\<lambda>t. t" System for pg
  by unfold_locales
    (auto simp: readTheme_def applyTheme_def getItem_def setItem_def attempt_def theme_text_def split: Theme.splits)

lemma cached_text: "stringify num (JObj [(''key'', JStr k), (''css'', JStr c)]) \<noteq> []"
  "json_parse (stringify num (JObj [(''key'', JStr k), (''css'', JStr c)])) = Some (JObj [(''key'', JStr k), (''css'', JStr c)])"
  by (simp, rule json_back, simp)

interpretation cached_theme: setting readCachedTheme "cacheCustomTheme num" "\<lambda>e. e" None for num
proof
  fix st e
  show "st_readable (cacheCustomTheme num st e) = st_readable st" "st_writable (cacheCustomTheme num st e) = st_writable st"
    by (cases e; auto simp: cacheCustomTheme_def)+
  then show "\<not> st_readable st \<Longrightarrow> readCachedTheme (cacheCustomTheme num st e) = None"
    by (simp add: readCachedTheme_def getItem_def)
  show "\<not> st_readable st \<Longrightarrow> readCachedTheme st = None" by (simp add: readCachedTheme_def getItem_def)
  show "st_readable st \<Longrightarrow> st_writable st \<Longrightarrow> readCachedTheme (cacheCustomTheme num st e) = e"
    using cached_text [of num "fst (the e)" "snd (the e)"]
    by (cases e) (auto simp del: stringify.simps simp: readCachedTheme_def cacheCustomTheme_def getItem_def setItem_def removeItem_def attempt_def)
qed

interpretation editor_mode: setting read_mode "\<lambda>st m. fst (switch_mode m (st, editors))" "\<lambda>m. m" Rich for editors
  by unfold_locales
    (auto simp: read_mode_def switch_mode_def readStorage_def writeStorage_def getItem_def setItem_def attempt_def mode_text_def split: EditorMode.splits)

text \<open>Every editor on the page shows one face, and the next one opens with it where the browser keeps it.\<close>

lemma one_face_everywhere:
  assumes "st_readable st" and "st_writable st" and "switch_mode m (st, editors) = (st', editors')"
  shows "\<forall>(i, f) \<in> set (mount_editor j st' editors'). f = m"
proof -
  have "read_mode (fst (switch_mode m (st, editors))) = m" using assms(1,2) by (rule editor_mode.read_write)
  then have "read_mode st' = m" using assms(3) by simp
  moreover have "\<forall>(i, f) \<in> set editors'. f = m" using assms(3) by (auto simp: switch_mode_def)
  ultimately show ?thesis by (induction editors') (auto simp: mount_editor_def split: if_splits)
qed

text \<open>A group that was turned is found as it was left.\<close>

lemma groups_kept:
  assumes "st_readable st" and "st_writable st" and "json_members_ok (number_back num) groups" and "distinct (map fst groups)"
    and "toggle_group num gid d (st, groups) = (st', groups')"
  shows "read_groups st' = groups'" "group_open groups' gid e = (\<not> group_open groups gid d)"
    "other \<noteq> gid \<Longrightarrow> group_open groups' other e = group_open groups other e"
proof -
  have g: "groups' = AList.update gid (JBool (\<not> group_open groups gid d)) groups"
    and st: "st' = writeStorage st GROUPS_KEY (Some (stringify num (JObj groups')))"
    using assms(5) by (auto simp: toggle_group_def Let_def)
  have "json_members_ok p (AList.update k (JBool b) m)" if "json_members_ok p m" for p k b m
    using that by (induction m) auto
  then have "json_ok (number_back num) (JObj groups')" using assms(3,4) by (simp add: g distinct_update)
  from json_back [OF this] show "read_groups st' = groups'"
    using assms(1,2) by (simp add: st read_groups_def readStorage_def writeStorage_def getItem_def setItem_def attempt_def del: stringify.simps)
  show "group_open groups' gid e = (\<not> group_open groups gid d)" by (simp add: g group_open_def json_or_def)
  show "other \<noteq> gid \<Longrightarrow> group_open groups' other e = group_open groups other e" by (simp add: g group_open_def)
qed

end
