(* ===== verification/ThemeSheet.thy ===== *)
theory ThemeSheet
  imports Kept
begin

text \<open>
  Custom themes: the stylesheet a theme compiles to, \<open>lib/theme-css.ts\<close> with the names of
  \<open>lib/theme-tokens.ts\<close>, and what the server lets into a theme, \<open>backend/internal/theme/spec.go\<close>. An object
  of the client and a map of the server are the list of their entries, in the order they are walked
  in. A file is named by the text of its UUID, and the length of a theme as JSON is an argument.
\<close>

section \<open>Names of tokens and cursors\<close>

type_synonym TokenGroup = "string \<times> string list"

definition TOKEN_GROUPS :: "TokenGroup list" where
  "TOKEN_GROUPS =
     [(''Surfaces'', [''canvas'', ''surface'', ''surface-raised'', ''surface-sunken'', ''surface-overlay'', ''surface-glass'']),
      (''Backdrop'', [''backdrop-from'', ''backdrop-to'']),
      (''Borders'', [''border'', ''border-strong'']),
      (''Text'', [''ink'', ''ink-muted'', ''ink-subtle'', ''ink-disabled'']),
      (''Actions'', [''primary'', ''primary-hover'', ''on-primary'']),
      (''Accent'', [''accent'', ''accent-hover'', ''accent-subtle'', ''on-accent'', ''focus'', ''selection'']),
      (''Feedback'', [''danger'', ''danger-hover'', ''danger-subtle'', ''on-danger'', ''success'', ''success-subtle'',
         ''warning'', ''warning-subtle'', ''epic'']),
      (''Statuses'', [''status-todo'', ''status-progress'', ''status-done'', ''status-todo-subtle'',
         ''status-progress-subtle'', ''status-done-subtle'']),
      (''Charts'', [''chart-1'', ''chart-2'', ''chart-3'', ''chart-4'', ''chart-5'', ''chart-6''])]"

definition TOKEN_NAMES :: "string list" where
  "TOKEN_NAMES = concat (map snd TOKEN_GROUPS)"

abbreviation dq :: string where "dq \<equiv> [CHR 0x22]"

abbreviation nl :: string where "nl \<equiv> [CHR 0x0A]"

record cursor_kind =
  ck_kind :: string
  ck_keyword :: string
  ck_selector :: string

definition CURSOR_KINDS :: "cursor_kind list" where
  "CURSOR_KINDS =
     [\<lparr>ck_kind = ''default'', ck_keyword = ''default'', ck_selector = '':root, body''\<rparr>,
      \<lparr>ck_kind = ''pointer'', ck_keyword = ''pointer'',
        ck_selector = ''a, button, [role='' @ dq @ ''button'' @ dq @ ''], [role='' @ dq @ ''tab'' @ dq @ ''], [role='' @ dq @ ''option'' @ dq
          @ ''], label, select, summary, .cursor-pointer''\<rparr>,
      \<lparr>ck_kind = ''text'', ck_keyword = ''text'',
        ck_selector = ''input:not([type='' @ dq @ ''checkbox'' @ dq @ '']):not([type='' @ dq @ ''radio'' @ dq @ '']):not([type='' @ dq @ ''file'' @ dq
          @ '']), textarea, [contenteditable='' @ dq @ ''true'' @ dq @ ''], .cursor-text''\<rparr>,
      \<lparr>ck_kind = ''grab'', ck_keyword = ''grab'', ck_selector = ''.cursor-grab''\<rparr>,
      \<lparr>ck_kind = ''grabbing'', ck_keyword = ''grabbing'', ck_selector = ''.cursor-grabbing''\<rparr>,
      \<lparr>ck_kind = ''move'', ck_keyword = ''move'', ck_selector = ''.cursor-move''\<rparr>,
      \<lparr>ck_kind = ''notAllowed'', ck_keyword = ''not-allowed'',
        ck_selector = '':disabled, [aria-disabled='' @ dq @ ''true'' @ dq @ ''], .cursor-not-allowed''\<rparr>,
      \<lparr>ck_kind = ''wait'', ck_keyword = ''wait'', ck_selector = ''.cursor-wait, .cursor-progress''\<rparr>]"

definition SHADOW_KEYS :: "string list" where
  "SHADOW_KEYS = [''1'', ''2'', ''3'']"

section \<open>A theme\<close>

record ThemeFont =
  font_family :: string
  font_assetId :: "string option"

record ThemeCursor =
  cur_assetId :: string
  cur_hotspotX :: int
  cur_hotspotY :: int

record ThemeIcon =
  icon_assetId :: "string option"
  icon_paths :: "string list option"

record ThemeBackdrop =
  bd_assetId :: string
  bd_fit :: string

record ThemeSpec =
  th_light :: "(string \<times> string) list"
  th_dark :: "(string \<times> string) list"
  th_sans :: "ThemeFont option"
  th_mono :: "ThemeFont option"
  th_radiusControl :: "int option"
  th_radiusOverlay :: "int option"
  th_shadows :: "(string \<times> string) list"
  th_cursors :: "(string \<times> ThemeCursor) list"
  th_icons :: "(string \<times> ThemeIcon) list"
  th_backdrop :: "ThemeBackdrop option"
  th_effect :: "string option"
  th_css :: string

record ThemeAssetRef =
  ta_id :: string
  ta_contentType :: string

record CompilableTheme =
  ct_id :: string
  ct_spec :: ThemeSpec
  ct_assets :: "ThemeAssetRef list"

definition themeAssetURL :: "string \<Rightarrow> string \<Rightarrow> string" where
  "themeAssetURL themeId assetId = ''/api/v1/themes/'' @ themeId @ ''/assets/'' @ assetId"

definition emptySpec :: ThemeSpec where
  "emptySpec = \<lparr>th_light = [], th_dark = [], th_sans = None, th_mono = None, th_radiusControl = None, th_radiusOverlay = None,
     th_shadows = [], th_cursors = [], th_icons = [], th_backdrop = None, th_effect = None, th_css = []\<rparr>"

section \<open>Its stylesheet\<close>

definition ICON_STROKE :: real where
  "ICON_STROKE = 3 / 2"

definition is_letter :: "char \<Rightarrow> bool" where
  "is_letter c \<longleftrightarrow> (let n = (of_char c :: nat) in 65 \<le> n \<and> n \<le> 90 \<or> 97 \<le> n \<and> n \<le> 122)"

definition declarations :: "(string \<times> string) list \<Rightarrow> string" where
  "declarations entries =
     join nl (map (\<lambda>(name, v). ''  --color-'' @ name @ '': '' @ v @ '';'') (filter (\<lambda>(name, v). name \<in> set TOKEN_NAMES) entries))"

definition url :: "string \<Rightarrow> string" where
  "url href = ''url('' @ quote_text href @ '')''"

definition fontFormat :: "string \<Rightarrow> string" where
  "fontFormat contentType = (if contentType = ''font/woff2'' then ''woff2'' else ''woff'')"

text \<open>\<open>encodeURIComponent\<close>: the bytes of a unit past 127 are two.\<close>

definition upper_hex :: "nat \<Rightarrow> char" where
  "upper_hex d = (if d < 10 then char_of (48 + d) else char_of (55 + d))"

definition percent :: "nat \<Rightarrow> string" where
  "percent b = ''%'' @ [upper_hex (b div 16), upper_hex (b mod 16)]"

definition encode_unit :: "char \<Rightarrow> string" where
  "encode_unit c =
     (let n = (of_char c :: nat)
      in if is_letter c \<or> is_digit c \<or> c \<in> set ''_-.!~*()'' \<or> c = CHR 0x27 then [c]
         else if n < 128 then percent n
         else percent (192 + n div 64) @ percent (128 + n mod 64))"

definition encodeURIComponent :: "string \<Rightarrow> string" where
  "encodeURIComponent s = concat (map encode_unit s)"

definition path_element :: "string \<Rightarrow> string" where
  "path_element d = ''<path d='' @ dq @ d @ dq @ ''/>''"

definition pathsAsImage :: "string list \<Rightarrow> string" where
  "pathsAsImage paths =
     ''data:image/svg+xml,'' @ encodeURIComponent
       (''<svg xmlns='' @ dq @ ''http://www.w3.org/2000/svg'' @ dq @ '' viewBox='' @ dq @ ''0 0 16 16'' @ dq @ '' fill='' @ dq @ ''none'' @ dq
        @ '' stroke='' @ dq @ ''black'' @ dq @ '' stroke-width='' @ dq @ scaled_str 1 (js_round (ICON_STROKE * 10)) @ dq
        @ '' stroke-linecap='' @ dq @ ''round'' @ dq @ '' stroke-linejoin='' @ dq @ ''round'' @ dq @ ''>''
        @ concat (map path_element paths) @ ''</svg>'')"

definition palette_rules :: "string \<Rightarrow> string \<Rightarrow> string \<Rightarrow> string list" where
  "palette_rules mode other decls =
     (if decls = [] then []
      else ['':root[data-theme='' @ dq @ mode @ dq @ ''] {'' @ nl @ decls @ nl @ ''}'',
            ''@media (prefers-color-scheme: '' @ mode @ '') {'' @ nl @ '':root:not([data-theme='' @ dq @ other @ dq @ '']) {'' @ nl @ decls @ nl
              @ ''}'' @ nl @ ''}''])"

definition assetType :: "CompilableTheme \<Rightarrow> string \<Rightarrow> string" where
  "assetType theme i = (case find (\<lambda>a. ta_id a = i) (ct_assets theme) of Some a \<Rightarrow> ta_contentType a | None \<Rightarrow> [])"

definition font_face :: "CompilableTheme \<Rightarrow> ThemeFont option \<Rightarrow> string list" where
  "font_face theme font =
     (case font of Some f \<Rightarrow>
        (case font_assetId f of Some i \<Rightarrow>
           if i = [] then []
           else [''@font-face {'' @ nl @ ''  font-family: '' @ quote_text (font_family f) @ '';'' @ nl @ ''  src: '' @ url (themeAssetURL (ct_id theme) i)
             @ '' format('' @ dq @ fontFormat (assetType theme i) @ dq @ '');'' @ nl @ ''  font-display: swap;'' @ nl @ ''}'']
         | None \<Rightarrow> [])
      | None \<Rightarrow> [])"

definition font_line :: "string \<Rightarrow> string \<Rightarrow> ThemeFont option \<Rightarrow> string list" where
  "font_line role fallback font =
     (case font of Some f \<Rightarrow> [''  --font-'' @ role @ '': '' @ quote_text (font_family f) @ '', '' @ fallback @ '';''] | None \<Rightarrow> [])"

definition radius_line :: "string \<Rightarrow> int option \<Rightarrow> string list" where
  "radius_line which r = (case r of Some n \<Rightarrow> [''  --radius-'' @ which @ '': '' @ int_str n @ ''px;''] | None \<Rightarrow> [])"

definition root_lines :: "ThemeSpec \<Rightarrow> string list" where
  "root_lines spec =
     font_line ''sans'' ''ui-sans-serif, system-ui, sans-serif'' (th_sans spec)
     @ font_line ''mono'' ''ui-monospace, monospace'' (th_mono spec)
     @ radius_line ''control'' (th_radiusControl spec) @ radius_line ''overlay'' (th_radiusOverlay spec)
     @ map (\<lambda>(key, v). ''  --shadow-'' @ key @ '': '' @ v @ '';'') (filter (\<lambda>(key, v). key \<in> set [''1'', ''2'', ''3'']) (th_shadows spec))"

definition cursor_rule :: "CompilableTheme \<Rightarrow> cursor_kind \<Rightarrow> string list" where
  "cursor_rule theme each =
     (case map_of (th_cursors (ct_spec theme)) (ck_kind each) of Some c \<Rightarrow>
        [ck_selector each @ '' {'' @ nl @ ''  cursor: '' @ url (themeAssetURL (ct_id theme) (cur_assetId c)) @ '' '' @ int_str (cur_hotspotX c) @ '' ''
         @ int_str (cur_hotspotY c) @ '', '' @ ck_keyword each @ '';'' @ nl @ ''}'']
      | None \<Rightarrow> [])"

definition icon_image :: "CompilableTheme \<Rightarrow> ThemeIcon \<Rightarrow> string option" where
  "icon_image theme icon =
     (case icon_assetId icon of
        Some i \<Rightarrow> if i \<noteq> [] then Some (themeAssetURL (ct_id theme) i) else
          (case icon_paths icon of Some (p # ps) \<Rightarrow> Some (pathsAsImage (p # ps)) | _ \<Rightarrow> None)
      | None \<Rightarrow> (case icon_paths icon of Some (p # ps) \<Rightarrow> Some (pathsAsImage (p # ps)) | _ \<Rightarrow> None))"

definition icon_rules :: "CompilableTheme \<Rightarrow> string \<times> ThemeIcon \<Rightarrow> string list" where
  "icon_rules theme entry =
     (case icon_image theme (snd entry) of None \<Rightarrow> []
      | Some img \<Rightarrow>
          let which = ''svg[data-icon='' @ quote_text (fst entry) @ '']''; drawn = url img @ '' center / contain no-repeat''
          in [which @ '' > path {'' @ nl @ ''  display: none;'' @ nl @ ''}'',
              which @ '' {'' @ nl @ ''  background-color: currentColor;'' @ nl @ ''  -webkit-mask: '' @ drawn @ '';'' @ nl @ ''  mask: '' @ drawn @ '';''
                @ nl @ ''}''])"

definition backdrop_rule :: "CompilableTheme \<Rightarrow> string list" where
  "backdrop_rule theme =
     (case th_backdrop (ct_spec theme) of None \<Rightarrow> []
      | Some b \<Rightarrow>
          [''.bg-backdrop {'' @ nl @ ''  background: '' @ url (themeAssetURL (ct_id theme) (bd_assetId b))
           @ (if bd_fit b = ''tile'' then '' repeat;'' else '' center / cover no-repeat;'') @ nl @ ''}''])"

definition own_rules :: "CompilableTheme \<Rightarrow> string list" where
  "own_rules theme =
     (let spec = ct_spec theme
      in palette_rules ''light'' ''dark'' (declarations (th_light spec)) @ palette_rules ''dark'' ''light'' (declarations (th_dark spec))
         @ font_face theme (th_sans spec) @ font_face theme (th_mono spec)
         @ (if root_lines spec \<noteq> [] then ['':root {'' @ nl @ join nl (root_lines spec) @ nl @ ''}''] else [])
         @ concat (map (cursor_rule theme) CURSOR_KINDS)
         @ concat (map (icon_rules theme) (th_icons spec))
         @ backdrop_rule theme)"

definition compileTheme :: "CompilableTheme \<Rightarrow> string" where
  "compileTheme theme =
     join (nl @ nl) (own_rules theme @ (if trim (th_css (ct_spec theme)) \<noteq> [] then [trim (th_css (ct_spec theme))] else []))"

section \<open>What the server lets in\<close>

definition MaxSpecBytes :: nat where "MaxSpecBytes = 256 * 1024"

definition MaxCSSBytes :: nat where "MaxCSSBytes = 32 * 1024"

definition MaxTokensPerSet :: nat where "MaxTokensPerSet = 64"

definition MaxIcons :: nat where "MaxIcons = 128"

definition MaxPathsPerIcon :: nat where "MaxPathsPerIcon = 16"

definition MaxPathBytes :: nat where "MaxPathBytes = 2048"

definition MaxRadius :: int where "MaxRadius = 32"

definition MaxHotspot :: int where "MaxHotspot = 128"

definition MaxShadowBytes :: nat where "MaxShadowBytes = 200"

definition MaxFamilyBytes :: nat where "MaxFamilyBytes = 64"

text \<open>\<open>len\<close> of a string counts the bytes of its UTF-8.\<close>

definition byte_length :: "string \<Rightarrow> nat" where
  "byte_length s = sum_list (map (\<lambda>c. if (of_char c :: nat) < 128 then 1 else 2) s)"

definition is_lower :: "char \<Rightarrow> bool" where
  "is_lower c \<longleftrightarrow> is_letter c \<and> lower_char c = c"

definition is_hex :: "char \<Rightarrow> bool" where
  "is_hex c \<longleftrightarrow> radix_digit 16 c \<noteq> None"

definition tokenName :: "string \<Rightarrow> bool" where
  "tokenName s \<longleftrightarrow> s \<noteq> [] \<and> is_lower (hd s) \<and> (\<forall>c \<in> set (tl s). is_lower c \<or> is_digit c \<or> c = CHR ''-'')"

definition iconName :: "string \<Rightarrow> bool" where
  "iconName s \<longleftrightarrow> s \<noteq> [] \<and> is_lower (hd s) \<and> (\<forall>c \<in> set (tl s). is_lower c \<or> c = CHR ''-'')"

definition hexColour :: "string \<Rightarrow> bool" where
  "hexColour s \<longleftrightarrow> startsWith s ''#'' \<and> length (tl s) \<in> {3, 4, 6, 8} \<and> (\<forall>c \<in> set (tl s). is_hex c)"

text \<open>The white space class of a Go pattern.\<close>

definition pattern_space :: "char \<Rightarrow> bool" where
  "pattern_space c \<longleftrightarrow> (of_char c :: nat) \<in> {9, 10, 12, 13, 32}"

definition colour_unit :: "char \<Rightarrow> bool" where
  "colour_unit c \<longleftrightarrow> is_digit c \<or> is_lower c \<or> c \<in> set ''.,%/-'' \<or> pattern_space c"

definition funcColour :: "string \<Rightarrow> bool" where
  "funcColour s \<longleftrightarrow>
     (\<exists>f \<in> set [''rgb'', ''rgba'', ''hsl'', ''hsla'', ''oklch'', ''oklab'', ''color''].
        startsWith s (f @ ''('') \<and>
        (let r = drop (length f + 1) s in r \<noteq> [] \<and> last r = CHR '')'' \<and> butlast r \<noteq> [] \<and> (\<forall>c \<in> set (butlast r). colour_unit c)))"

definition family_unit :: "char \<Rightarrow> bool" where
  "family_unit c \<longleftrightarrow> is_letter c \<or> is_digit c \<or> c \<in> set '' _-''"

definition family :: "string \<Rightarrow> bool" where
  "family s \<longleftrightarrow> s \<noteq> [] \<and> (\<forall>c \<in> set s. family_unit c)"

definition path_unit :: "char \<Rightarrow> bool" where
  "path_unit c \<longleftrightarrow> c \<in> set ''MmLlHhVvCcSsQqTtAaZz .,eE-'' \<or> is_digit c"

definition pathData :: "string \<Rightarrow> bool" where
  "pathData s \<longleftrightarrow> s \<noteq> [] \<and> (\<forall>c \<in> set s. path_unit c)"

definition shadow_unit :: "char \<Rightarrow> bool" where
  "shadow_unit c \<longleftrightarrow> is_digit c \<or> is_letter c \<or> c \<in> set ''#.,%()/ -''"

definition shadowText :: "string \<Rightarrow> bool" where
  "shadowText s \<longleftrightarrow> s \<noteq> [] \<and> (\<forall>c \<in> set s. shadow_unit c)"

text \<open>
  The pattern for a \<open>url()\<close> from just behind its parenthesis: white space, a quote, the target, a quote,
  white space, the closing parenthesis. Its choices never need to be taken back: what they leave
  open, the target's class would read the same way.
\<close>

definition is_quote :: "char \<Rightarrow> bool" where
  "is_quote c \<longleftrightarrow> c = CHR 0x22 \<or> c = CHR 0x27"

definition drop_quote :: "string \<Rightarrow> string" where
  "drop_quote s = (case s of c # t \<Rightarrow> if is_quote c then t else s | [] \<Rightarrow> [])"

definition match_call :: "string \<Rightarrow> (string \<times> string) option" where
  "match_call s =
     (let r = drop_quote (dropWhile pattern_space s);
          inside = (\<lambda>c. \<not> is_quote c \<and> c \<noteq> CHR '')'');
          target = takeWhile inside r;
          e = dropWhile pattern_space (drop_quote (dropWhile inside r))
      in case e of c # t \<Rightarrow> if c = CHR '')'' then Some (target, t) else None | [] \<Rightarrow> None)"

definition opens_url :: "string \<Rightarrow> bool" where
  "opens_url s \<longleftrightarrow> toLowerCase (take 4 s) = ''url(''"

lemma match_call_shorter: "match_call s = Some (t, r) \<Longrightarrow> length r < length s"
proof -
  have d: "length (drop_quote u) \<le> length u" for u by (cases u) (auto simp: drop_quote_def)
  assume "match_call s = Some (t, r)"
  then obtain c where "c # r = dropWhile pattern_space (drop_quote (dropWhile (\<lambda>c. \<not> is_quote c \<and> c \<noteq> CHR '')'')
      (drop_quote (dropWhile pattern_space s))))"
    by (auto simp: match_call_def Let_def split: list.splits if_splits)
  then have "Suc (length r) = length (dropWhile pattern_space (drop_quote (dropWhile (\<lambda>c. \<not> is_quote c \<and> c \<noteq> CHR '')'')
      (drop_quote (dropWhile pattern_space s)))))" by (metis length_Cons)
  also have "\<dots> \<le> length s" by (meson d length_dropWhile_le le_trans)
  finally show ?thesis by simp
qed

text \<open>\<open>FindAllStringSubmatch\<close>: the targets of the matches, which do not overlap.\<close>

function urlCall :: "string \<Rightarrow> string list" where
  "urlCall [] = []"
| "urlCall (c # s) =
     (case (if opens_url (c # s) then match_call (drop 3 s) else None) of
        Some (target, r) \<Rightarrow> target # urlCall r | None \<Rightarrow> urlCall s)"
  by pat_completeness auto
termination
proof (relation "measure length")
  fix c s x target r
  assume "(if opens_url (c # s) then match_call (drop 3 s) else None) = Some x" "(target, r) = x"
  then have "length r < length (drop 3 s)" by (auto split: if_splits dest: match_call_shorter)
  then show "(r, c # s) \<in> measure length" by simp
qed simp_all

text \<open>The file a target names, as the text of its theme and of itself.\<close>

definition uuid_unit :: "char \<Rightarrow> bool" where
  "uuid_unit c \<longleftrightarrow> is_digit c \<or> c \<in> set ''abcdef-''"

definition ownFile :: "string \<Rightarrow> (string \<times> string) option" where
  "ownFile s =
     (let theme = take 36 (drop 15 s); file = drop 59 s
      in if s = themeAssetURL theme file \<and> length theme = 36 \<and> length file = 36 \<and> (\<forall>c \<in> set (theme @ file). uuid_unit c)
         then Some (theme, file) else None)"

definition forbiddenCSS :: "string list" where
  "forbiddenCSS = [''@import'', ''expression('', ''-moz-binding'', ''</'', ''behavior:'', ''@charset'']"

datatype theme_refusal =
    TooLong | TooManyTokens string | NotToken string | NotColour string | NotFamily string | NotOwn string | NotRadius string
  | NotShadow string | NotShadowValue string | NotCursor string | NotHotspot | TooManyIcons | NotIcon string | EmptyIcon string
  | TooManyPaths string | NotPath string | NotFit | NotEffect string | LongCSS | Forbidden string | LoadsElsewhere string

text \<open>The first refusal of a run of checks.\<close>

definition first_refusal :: "theme_refusal option list \<Rightarrow> theme_refusal option" where
  "first_refusal checks = (case filter (\<lambda>c. c \<noteq> None) checks of [] \<Rightarrow> None | c # _ \<Rightarrow> c)"

definition refuse :: "bool \<Rightarrow> theme_refusal \<Rightarrow> theme_refusal option" where
  "refuse b e = (if b then Some e else None)"

definition validColour :: "string \<Rightarrow> bool" where
  "validColour v =
     (let u = TrimSpace v in u = ''transparent'' \<or> hexColour u \<or> funcColour (toLowerCase u))"

definition own_target :: "string \<Rightarrow> string list \<Rightarrow> string \<Rightarrow> bool" where
  "own_target themeID assets target \<longleftrightarrow>
     startsWith (toLowerCase target) ''data:image/''
     \<or> (case ownFile target of Some (theme, file) \<Rightarrow> theme = themeID \<and> file \<in> set assets | None \<Rightarrow> False)"

definition validateCSS :: "string \<Rightarrow> string \<Rightarrow> string list \<Rightarrow> theme_refusal option" where
  "validateCSS css themeID assets = first_refusal
     (refuse (byte_length css > MaxCSSBytes) LongCSS
      # map (\<lambda>w. refuse (includes_str (toLowerCase css) w) (Forbidden w)) forbiddenCSS
      @ map (\<lambda>m. let target = TrimSpace m in refuse (\<not> own_target themeID assets target) (LoadsElsewhere target)) (urlCall css))"

definition normalise :: "ThemeSpec \<Rightarrow> ThemeSpec" where
  "normalise spec = spec\<lparr>
     th_icons := map (\<lambda>(name, icon). (name, case icon_paths icon of None \<Rightarrow> icon\<lparr>icon_paths := Some []\<rparr> | Some _ \<Rightarrow> icon)) (th_icons spec),
     th_css := TrimSpace (th_css spec)\<rparr>"

definition check_palette :: "string \<Rightarrow> (string \<times> string) list \<Rightarrow> theme_refusal option list" where
  "check_palette which entries =
     refuse (length entries > MaxTokensPerSet) (TooManyTokens which)
     # concat (map (\<lambda>(name, v). [refuse (\<not> tokenName name) (NotToken name), refuse (\<not> validColour v) (NotColour v)]) entries)"

definition check_own :: "string list \<Rightarrow> string option \<Rightarrow> string \<Rightarrow> theme_refusal option" where
  "check_own assets i what = (case i of None \<Rightarrow> None | Some a \<Rightarrow> refuse (a \<notin> set assets) (NotOwn what))"

definition check_font :: "string list \<Rightarrow> string \<Rightarrow> ThemeFont option \<Rightarrow> theme_refusal option list" where
  "check_font assets which font =
     (case font of None \<Rightarrow> []
      | Some f \<Rightarrow> [refuse (font_family f = [] \<or> byte_length (font_family f) > MaxFamilyBytes \<or> \<not> family (font_family f)) (NotFamily which),
                   check_own assets (font_assetId f) (which @ '' font'')])"

definition check_radius :: "string \<Rightarrow> int option \<Rightarrow> theme_refusal option" where
  "check_radius which r = (case r of None \<Rightarrow> None | Some n \<Rightarrow> refuse (n < 0 \<or> n > MaxRadius) (NotRadius which))"

definition check_shadow :: "string \<times> string \<Rightarrow> theme_refusal option list" where
  "check_shadow entry =
     (case entry of (key, v) \<Rightarrow>
        [refuse (key \<notin> set SHADOW_KEYS) (NotShadow key),
         refuse (byte_length v > MaxShadowBytes \<or> \<not> shadowText v \<or> includes_str (toLowerCase v) ''url('') (NotShadowValue key)])"

definition check_cursor :: "string list \<Rightarrow> string \<times> ThemeCursor \<Rightarrow> theme_refusal option list" where
  "check_cursor assets entry =
     (case entry of (kind, c) \<Rightarrow>
        [refuse (kind \<notin> set (map ck_kind CURSOR_KINDS)) (NotCursor kind),
         refuse (cur_assetId c \<notin> set assets) (NotOwn (kind @ '' cursor'')),
         refuse (cur_hotspotX c < 0 \<or> cur_hotspotY c < 0 \<or> cur_hotspotX c > MaxHotspot \<or> cur_hotspotY c > MaxHotspot) NotHotspot])"

definition check_icon :: "string list \<Rightarrow> string \<times> ThemeIcon \<Rightarrow> theme_refusal option list" where
  "check_icon assets entry =
     (case entry of (name, icon) \<Rightarrow>
        let paths = (case icon_paths icon of Some ps \<Rightarrow> ps | None \<Rightarrow> [])
        in [refuse (\<not> iconName name) (NotIcon name),
            refuse (icon_assetId icon = None \<and> paths = []) (EmptyIcon name),
            check_own assets (icon_assetId icon) (name @ '' icon''),
            refuse (length paths > MaxPathsPerIcon) (TooManyPaths name)]
           @ map (\<lambda>d. refuse (d = [] \<or> byte_length d > MaxPathBytes \<or> \<not> pathData d) (NotPath name)) paths)"

definition check_backdrop :: "string list \<Rightarrow> ThemeBackdrop option \<Rightarrow> theme_refusal option list" where
  "check_backdrop assets backdrop =
     (case backdrop of None \<Rightarrow> []
      | Some b \<Rightarrow> [refuse (bd_assetId b \<notin> set assets) (NotOwn ''backdrop''), refuse (bd_fit b \<notin> set [''cover'', ''tile'']) NotFit])"

definition spec_checks :: "(ThemeSpec \<Rightarrow> nat) \<Rightarrow> ThemeSpec \<Rightarrow> string \<Rightarrow> string list \<Rightarrow> theme_refusal option list" where
  "spec_checks encoded spec themeID assets =
     refuse (encoded spec > MaxSpecBytes) TooLong
     # check_palette ''light'' (th_light spec) @ check_palette ''dark'' (th_dark spec)
     @ check_font assets ''sans'' (th_sans spec) @ check_font assets ''mono'' (th_mono spec)
     @ [check_radius ''control'' (th_radiusControl spec), check_radius ''overlay'' (th_radiusOverlay spec)]
     @ concat (map check_shadow (th_shadows spec)) @ concat (map (check_cursor assets) (th_cursors spec))
     @ refuse (length (th_icons spec) > MaxIcons) TooManyIcons # concat (map (check_icon assets) (th_icons spec))
     @ check_backdrop assets (th_backdrop spec)
     @ [case th_effect spec of None \<Rightarrow> None | Some e \<Rightarrow> refuse (e \<noteq> [] \<and> e \<notin> set [''constellation'', ''confetti'']) (NotEffect e),
        validateCSS (th_css spec) themeID assets]"

definition Validate :: "(ThemeSpec \<Rightarrow> nat) \<Rightarrow> ThemeSpec \<Rightarrow> string \<Rightarrow> string list \<Rightarrow> theme_refusal + ThemeSpec" where
  "Validate encoded spec themeID assets =
     (let stored = normalise spec
      in case first_refusal (spec_checks encoded stored themeID assets) of Some e \<Rightarrow> Inl e | None \<Rightarrow> Inr stored)"

definition font_assets :: "ThemeFont option \<Rightarrow> string list" where
  "font_assets font = (case font of Some f \<Rightarrow> (case font_assetId f of Some i \<Rightarrow> [i] | None \<Rightarrow> []) | None \<Rightarrow> [])"

definition AssetIDs :: "ThemeSpec \<Rightarrow> string list" where
  "AssetIDs s =
     font_assets (th_sans s) @ font_assets (th_mono s) @ map (\<lambda>(_, c). cur_assetId c) (th_cursors s)
     @ concat (map (\<lambda>(_, icon). case icon_assetId icon of Some i \<Rightarrow> [i] | None \<Rightarrow> []) (th_icons s))
     @ (case th_backdrop s of Some b \<Rightarrow> [bd_assetId b] | None \<Rightarrow> [])
     @ concat (map (\<lambda>m. case ownFile (TrimSpace m) of Some (_, file) \<Rightarrow> [file] | None \<Rightarrow> []) (urlCall (th_css s)))"

end
