(* ===== verification/ThemeProofs.thy ===== *)
theory ThemeProofs
  imports ThemeSheet
begin

text \<open>
  Where a theme's stylesheet loads from. \<open>calls\<close> are the places of a text where a \<open>url()\<close> opens, whatever
  its letters' case; a theme the server stored calls only its own files and images it carries. The
  last section holds texts the server lets into the extra CSS though they load from elsewhere.
\<close>

section \<open>Calls in a text\<close>

text \<open>What follows each opening of a \<open>url()\<close>.\<close>

fun calls :: "string \<Rightarrow> string list" where
  "calls [] = []"
| "calls (c # s) = (if opens_url (c # s) then drop 3 s # calls s else calls s)"

text \<open>Every call is closed, and its argument is one of those meant.\<close>

definition loads_only :: "(string \<Rightarrow> bool) \<Rightarrow> string \<Rightarrow> bool" where
  "loads_only p s \<longleftrightarrow> (\<forall>r \<in> set (calls s). CHR '')'' \<in> set r \<and> p (takeWhile (\<lambda>c. c \<noteq> CHR '')'') r))"

text \<open>A unit no call can run across.\<close>

definition breaks :: "char \<Rightarrow> bool" where
  "breaks c \<longleftrightarrow> lower_char c \<notin> set ''url(''"

lemma lower_paren: "lower_char c = CHR ''('' \<longleftrightarrow> c = CHR ''(''"
proof
  assume "lower_char c = CHR ''(''"
  then have "(of_char (lower_char c) :: nat) = 40" by simp
  then have "(of_char c :: nat) = of_char (CHR ''('')" 
    by (auto simp: lower_char_def Let_def split: if_splits)
  then show "c = CHR ''(''" by (simp only: of_char_eq_iff)
qed (simp add: lower_char_def)

lemma opens_url_starts: "opens_url s = startsWith (toLowerCase s) ''url(''"
  by (simp add: opens_url_def startsWith_def toLowerCase_def take_map eval_nat_numeral)

lemma opens_url_iff: "opens_url s \<longleftrightarrow> (\<exists>a b c t. s = a # b # c # CHR ''('' # t \<and> lower_char a = CHR ''u'' \<and> lower_char b = CHR ''r'' \<and> lower_char c = CHR ''l'')"
  by (cases s; cases "tl s"; cases "tl (tl s)"; cases "tl (tl (tl s))")
    (auto simp: opens_url_def toLowerCase_def lower_paren)

lemma opens_url_append:
  assumes "s \<noteq> []" and "t = [] \<or> breaks (last s) \<or> breaks (hd t)"
  shows "opens_url (s @ t) = opens_url s"
  using assms
  by (cases s; cases "tl s"; cases "tl (tl s)"; cases "tl (tl (tl s))"; cases t)
    (auto simp: opens_url_iff breaks_def lower_paren lower_char_def Cons_eq_append_conv)

lemma calls_append:
  assumes "s = [] \<or> t = [] \<or> breaks (last s) \<or> breaks (hd t)"
  shows "calls (s @ t) = map (\<lambda>r. r @ t) (calls s) @ calls t"
  using assms
proof (induction s)
  case (Cons c s)
  have o: "opens_url ((c # s) @ t) = opens_url (c # s)" using Cons.prems by (intro opens_url_append) auto
  have l: "opens_url (c # s) \<Longrightarrow> 3 \<le> length s" by (auto simp: opens_url_iff)
  have "calls (s @ t) = map (\<lambda>r. r @ t) (calls s) @ calls t"
    using Cons.prems by (intro Cons.IH) (auto split: if_splits)
  with o l show ?case by simp
qed simp

lemma loads_append:
  assumes "loads_only p s" and "loads_only p t" and "s = [] \<or> t = [] \<or> breaks (last s) \<or> breaks (hd t)"
  shows "loads_only p (s @ t)"
  using assms(1,2) calls_append [OF assms(3)] by (auto simp: loads_only_def)

lemma calls_none: "CHR ''('' \<notin> set s \<Longrightarrow> calls s = []"
  by (induction s) (auto simp: opens_url_iff)

lemma loads_none: "calls s = [] \<Longrightarrow> loads_only p s"
  by (simp add: loads_only_def)

lemma calls_lower: "toLowerCase s = toLowerCase t \<Longrightarrow> calls s = [] \<Longrightarrow> calls t = []"
proof (induction s arbitrary: t)
  case (Cons c s)
  then obtain d u where "t = d # u" by (cases t) (auto simp: toLowerCase_def)
  with Cons show ?case by (auto simp: opens_url_starts toLowerCase_def split: if_splits)
qed (simp add: toLowerCase_def)

section \<open>A text that is safe to write\<close>

text \<open>No backslash, so no call is spelt another way.\<close>

definition sheet_ok :: "(string \<Rightarrow> bool) \<Rightarrow> string \<Rightarrow> bool" where
  "sheet_ok p s \<longleftrightarrow> loads_only p s \<and> CHR 0x5C \<notin> set s"

lemma ok_append:
  "sheet_ok p s \<Longrightarrow> sheet_ok p t \<Longrightarrow> s = [] \<or> t = [] \<or> breaks (last s) \<or> breaks (hd t) \<Longrightarrow> sheet_ok p (s @ t)"
  by (auto simp: sheet_ok_def intro: loads_append)

lemma ok_none: "calls s = [] \<Longrightarrow> CHR 0x5C \<notin> set s \<Longrightarrow> sheet_ok p s"
  by (simp add: sheet_ok_def loads_none)

lemma ok_plain: "CHR ''('' \<notin> set s \<Longrightarrow> CHR 0x5C \<notin> set s \<Longrightarrow> sheet_ok p s"
  by (rule ok_none [OF calls_none])

lemma ok_Nil: "sheet_ok p []"
  by (rule ok_plain) simp_all

lemma ok_join:
  assumes "\<forall>s \<in> set ss. sheet_ok p s" and "sep \<noteq> []" and "\<forall>c \<in> set sep. breaks c \<and> c \<noteq> CHR 0x5C \<and> c \<noteq> CHR ''(''"
  shows "sheet_ok p (join sep ss)"
  using assms
proof (induction sep ss rule: join.induct)
  case (3 sep w v vs)
  then have "sheet_ok p sep" by (intro ok_plain) auto
  moreover have "breaks (hd sep)" "breaks (last sep)" using 3 by auto
  ultimately have "sheet_ok p (w @ sep @ join sep (v # vs))"
    using 3 by (intro ok_append) auto
  then show ?case by simp
qed (simp_all add: ok_Nil)

lemma break_units [simp]:
  "breaks (CHR '' '')" "breaks (CHR '':'')" "breaks (CHR '';'')" "breaks (CHR ''-'')" "breaks (CHR '','')" "breaks (CHR 0x22)" "breaks (CHR 0x0A)"
  "breaks (CHR ''['')" "breaks (CHR '']'')" "breaks (CHR ''{'')" "breaks (CHR ''}'')" "breaks (CHR '')'')" "breaks (CHR ''p'')" "breaks (CHR ''@'')"
  "breaks (CHR ''='')" "breaks (CHR ''.'')"
  by (simp_all add: breaks_def lower_char_def)

lemma ok_url:
  assumes "p (quote_text href)" and "\<forall>c \<in> set (quote_text href). c \<notin> set ''()'' \<and> c \<noteq> CHR 0x5C"
  shows "sheet_ok p (url href)"
proof -
  let ?t = "quote_text href @ '')''"
  have "calls (''url('' @ ?t) = map (\<lambda>r. r @ ?t) (calls ''url('') @ calls ?t"
    by (rule calls_append) (simp add: quote_text_def)
  moreover have "calls ''url('' = [[]]" by code_simp
  moreover have "calls ?t = []" using assms(2) by (intro calls_none) auto
  ultimately have c: "calls (url href) = [?t]" by (simp add: url_def)
  have "takeWhile (\<lambda>c. c \<noteq> CHR '')'') ?t = quote_text href"
    using assms(2) by (subst takeWhile_append2) auto
  with c assms show ?thesis by (auto simp: sheet_ok_def loads_only_def url_def)
qed

section \<open>The values of a theme\<close>

definition uuid_text :: "string \<Rightarrow> bool" where
  "uuid_text s \<longleftrightarrow> length s = 36 \<and> (\<forall>c \<in> set s. uuid_unit c)"

text \<open>A unit that a quoted text holds as itself and that closes nothing.\<close>

definition still :: "char \<Rightarrow> bool" where
  "still c \<longleftrightarrow> (let n = (of_char c :: nat) in 32 \<le> n \<and> n \<notin> {34, 40, 41, 92})"

lemma still_not: "still c \<Longrightarrow> c \<noteq> CHR ''('' \<and> c \<noteq> CHR '')'' \<and> c \<noteq> CHR 0x5C \<and> c \<noteq> CHR 0x22 \<and> 32 \<le> (of_char c :: nat)"
  by (auto simp: still_def Let_def)

lemma still_digit: "is_digit c \<Longrightarrow> still c"
  by (auto simp: still_def is_digit_def Let_def)

lemma still_letter: "is_letter c \<Longrightarrow> still c"
  by (auto simp: still_def is_letter_def Let_def)

lemma still_uuid: "uuid_unit c \<Longrightarrow> still c"
  by (auto simp: uuid_unit_def still_digit) (simp_all add: still_def)

lemma quote_still:
  assumes "\<forall>c \<in> set s. still c"
  shows "quote_text s = dq @ s @ dq"
proof -
  have "quote_unit c = [c]" if "still c" for c
  proof -
    have "c \<notin> {CHR 0x08, CHR 0x0C, CHR 0x0A, CHR 0x0D, CHR 0x09}" using that by (auto simp: still_def)
    with still_not [OF that] show ?thesis by (simp add: quote_unit_def)
  qed
  with assms have "concat (map quote_unit s) = s" by (induction s) auto
  then show ?thesis by (simp add: quote_text_def)
qed

lemma quoted_units: "\<forall>c \<in> set s. still c \<Longrightarrow> c \<in> set (quote_text s) \<Longrightarrow> c \<noteq> CHR ''('' \<and> c \<noteq> CHR '')'' \<and> c \<noteq> CHR 0x5C"
  using still_not [of c] by (auto simp: quote_still)

lemma quoted_ok: "\<forall>c \<in> set s. still c \<Longrightarrow> sheet_ok p (quote_text s)"
  by (rule ok_plain; use quoted_units in blast)

lemma url_ok: "\<forall>c \<in> set href. still c \<Longrightarrow> p (quote_text href) \<Longrightarrow> sheet_ok p (url href)"
  by (rule ok_url) (use quoted_units [of href] in auto)

lemma hex_still: "d < 16 \<Longrightarrow> still (upper_hex d)"
  by (auto simp: still_def upper_hex_def Let_def)

lemma percent_still: "b < 256 \<Longrightarrow> \<forall>x \<in> set (percent b). still x"
  using hex_still [of "b div 16"] hex_still [of "b mod 16"] by (simp add: percent_def) (simp add: still_def)

lemma encode_still:
  assumes "c \<noteq> CHR ''(''" and "c \<noteq> CHR '')''"
  shows "\<forall>x \<in> set (encode_unit c). still x"
proof -
  have n: "(of_char c :: nat) < 256" by (rule nat_of_char_less_256)
  have m: "c \<in> set ''_-.!~*()'' \<or> c = CHR 0x27 \<Longrightarrow> still c" using assms by (auto simp: still_def)
  have "192 + of_char c div 64 < (256 :: nat)" "128 + of_char c mod 64 < (256 :: nat)" using n by linarith+
  then have "\<forall>x \<in> set (percent (192 + of_char c div 64) @ percent (128 + of_char c mod 64)). still x"
    using percent_still by (metis Un_iff set_append)
  then show ?thesis
    using percent_still [OF n] m still_letter [of c] still_digit [of c] unfolding encode_unit_def Let_def by (simp split: if_splits)
qed

lemma encoded_still:
  assumes "CHR ''('' \<notin> set s" and "CHR '')'' \<notin> set s"
  shows "\<forall>c \<in> set (encodeURIComponent s). still c"
proof -
  have "\<forall>x \<in> set (encode_unit c). still x" if "c \<in> set s" for c using that assms by (intro encode_still) auto
  then show ?thesis by (auto simp: encodeURIComponent_def)
qed

lemma path_units:
  assumes "pathData d"
  shows "CHR ''('' \<notin> set d \<and> CHR '')'' \<notin> set d"
proof -
  have "\<not> path_unit (CHR ''('')" "\<not> path_unit (CHR '')'')" by code_simp+
  then show ?thesis using assms unfolding pathData_def by blast
qed

lemma path_elements:
  assumes "\<forall>d \<in> set paths. pathData d"
  shows "CHR ''('' \<notin> set (concat (map path_element paths)) \<and> CHR '')'' \<notin> set (concat (map path_element paths))"
  using assms
proof (induction paths)
  case (Cons d paths)
  then show ?case using path_units [of d] by (simp add: path_element_def)
qed simp

lemma image_still:
  assumes "\<forall>d \<in> set paths. pathData d"
  shows "\<forall>c \<in> set (pathsAsImage paths). still c"
proof -
  have stroke: "scaled_str 1 (js_round (ICON_STROKE * 10)) = ''1.5''"
    by (simp add: ICON_STROKE_def) code_simp
  have prefix: "\<forall>c \<in> set ''data:image/svg+xml,''. still c" by (simp add: still_def)
  show ?thesis
    unfolding pathsAsImage_def stroke set_append ball_Un using path_elements [OF assms]
    by (intro conjI prefix encoded_still) simp_all
qed

lemma asset_still:
  assumes "uuid_text i" and "uuid_text f"
  shows "\<forall>c \<in> set (themeAssetURL i f). still c"
proof -
  have "\<forall>c \<in> set ''/api/v1/themes/'' \<union> set ''/assets/''. still c" by (simp add: still_def)
  then show ?thesis
    using assms unfolding themeAssetURL_def set_append uuid_text_def by (blast intro: still_uuid)
qed

lemma TrimSpace_split: "\<exists>a b. v = a @ TrimSpace v @ b \<and> (\<forall>c \<in> set a \<union> set b. go_space c)"
proof -
  define w where "w = dropWhile go_space v"
  have "w = rev (dropWhile go_space (rev w)) @ rev (takeWhile go_space (rev w))"
    by (metis rev_append rev_rev_ident takeWhile_dropWhile_id)
  moreover have "v = takeWhile go_space v @ w" by (simp add: w_def)
  ultimately have "v = takeWhile go_space v @ TrimSpace v @ rev (takeWhile go_space (rev w))"
    unfolding TrimSpace_def w_def [symmetric] by metis
  moreover have "\<forall>c \<in> set (takeWhile go_space v) \<union> set (rev (takeWhile go_space (rev w))). go_space c"
    by (auto dest: set_takeWhileD)
  ultimately show ?thesis by blast
qed

lemma space_plain: "go_space c \<Longrightarrow> c \<noteq> CHR ''('' \<and> c \<noteq> CHR 0x5C \<and> breaks c"
  by (auto simp: go_space_def breaks_def lower_char_def)

lemma spaces_ok: "\<forall>c \<in> set a. go_space c \<Longrightarrow> sheet_ok p a"
  by (rule ok_plain; use space_plain in blast)

lemma trimmed_ok:
  assumes "sheet_ok p (TrimSpace v)"
  shows "sheet_ok p v"
proof -
  obtain a b where v: "v = a @ TrimSpace v @ b" and sp: "\<forall>c \<in> set a. go_space c" "\<forall>c \<in> set b. go_space c"
    using TrimSpace_split [of v] by blast
  have "sheet_ok p (TrimSpace v @ b)"
    by (rule ok_append [OF assms spaces_ok [OF sp(2)]]) (metis hd_in_set sp(2) space_plain)
  then have "sheet_ok p (a @ TrimSpace v @ b)"
    by (rule ok_append [OF spaces_ok [OF sp(1)]]) (metis last_in_set sp(1) space_plain)
  with v show ?thesis by metis
qed

lemma lower_backslash: "CHR 0x5C \<in> set s \<Longrightarrow> CHR 0x5C \<in> set (toLowerCase s)"
proof -
  have "lower_char (CHR 0x5C) = CHR 0x5C" by code_simp
  then show "CHR 0x5C \<in> set s \<Longrightarrow> CHR 0x5C \<in> set (toLowerCase s)" unfolding toLowerCase_def by (metis image_eqI list.set_map)
qed

lemma lower_u: "lower_char c = CHR ''u'' \<Longrightarrow> c = CHR ''u'' \<or> c = CHR ''U''"
proof -
  assume "lower_char c = CHR ''u''"
  then have "(of_char (lower_char c) :: nat) = 117" by simp
  then have "(of_char c :: nat) = of_char (CHR ''u'') \<or> (of_char c :: nat) = of_char (CHR ''U'')"
    by (auto simp: lower_char_def Let_def split: if_splits)
  then show ?thesis by (simp only: of_char_eq_iff)
qed

lemma calls_past: "c \<noteq> CHR ''u'' \<Longrightarrow> c \<noteq> CHR ''U'' \<Longrightarrow> calls (c # s) = calls s"
  using lower_u [of c] by (auto simp: opens_url_iff)

lemma func_colour:
  assumes "funcColour s"
  shows "calls s = [] \<and> CHR 0x5C \<notin> set s"
proof -
  have u: "\<not> colour_unit (CHR ''('')" "\<not> colour_unit (CHR 0x5C)" by code_simp+
  from assms obtain f r where f: "f \<in> set [''rgb'', ''rgba'', ''hsl'', ''hsla'', ''oklch'', ''oklab'', ''color'']"
    and s: "startsWith s (f @ ''('')" and r: "r = drop (length f + 1) s" "r \<noteq> []" "last r = CHR '')''" "\<forall>c \<in> set (butlast r). colour_unit c"
    unfolding funcColour_def Let_def by blast
  have "r = butlast r @ '')''" using r(2,3) append_butlast_last_id by metis
  then have "set r = set (butlast r) \<union> {CHR '')''}" by (metis empty_set list.simps(15) set_append)
  moreover have "CHR ''('' \<notin> set (butlast r)" "CHR 0x5C \<notin> set (butlast r)" using u r(4) by blast+
  ultimately have n: "CHR ''('' \<notin> set r \<and> CHR 0x5C \<notin> set r" by simp
  have "length (f @ ''('') = length f + 1" by simp
  then have "s = (f @ ''('') @ r"
    using s r(1) unfolding startsWith_def by (metis append_take_drop_id)
  moreover have "calls r = []" using n by (intro calls_none) simp
  moreover have "calls ((g @ ''('') @ t) = calls t \<and> CHR 0x5C \<notin> set (g @ ''('')"
    if "g \<in> set [''rgb'', ''rgba'', ''hsl'', ''hsla'', ''oklch'', ''oklab'', ''color'']" for g t
    using that unfolding list.set(1,2) insert_iff empty_iff
    by (elim disjE) (simp_all add: calls_past del: calls.simps)
  ultimately show ?thesis using f n by (metis Un_iff set_append)
qed

lemma colour_ok:
  assumes "validColour v"
  shows "sheet_ok p v"
proof (rule trimmed_ok)
  let ?u = "TrimSpace v"
  consider "?u = ''transparent''" | "hexColour ?u" | "funcColour (toLowerCase ?u)" using assms by (auto simp: validColour_def Let_def)
  then show "sheet_ok p ?u"
  proof cases
    case 1
    then show ?thesis by (simp only:) (rule ok_plain; simp)
  next
    case 2
    have h: "\<not> is_hex (CHR ''('')" "\<not> is_hex (CHR 0x5C)" by code_simp+
    obtain t where t: "?u = CHR ''#'' # t" and "\<forall>c \<in> set t. is_hex c"
      using 2 by (cases ?u) (auto simp: hexColour_def startsWith_def)
    with h have "CHR ''('' \<notin> set t" "CHR 0x5C \<notin> set t" by blast+
    then show ?thesis unfolding t by (intro ok_plain) simp_all
  next
    case 3
    have l: "toLowerCase (toLowerCase ?u) = toLowerCase ?u" by (simp add: toLowerCase_def lower_char_def Let_def)
    from func_colour [OF 3] show ?thesis
      using calls_lower [OF l] lower_backslash [of ?u] by (intro ok_none) blast+
  qed
qed

lemma shadow_ok:
  assumes "shadowText v" and "\<not> includes_str (toLowerCase v) ''url(''"
  shows "sheet_ok p v"
proof (rule ok_none)
  have "\<not> includes_str (toLowerCase s) ''url('' \<Longrightarrow> calls s = []" for s
    by (induction s) (auto simp: opens_url_starts toLowerCase_def split: if_splits)
  then show "calls v = []" using assms(2) .
  have "\<not> shadow_unit (CHR 0x5C)" by code_simp
  then show "CHR 0x5C \<notin> set v" using assms(1) unfolding shadowText_def by blast
qed

lemma number_ok: "0 \<le> n \<Longrightarrow> sheet_ok p (int_str n)"
proof -
  have "\<not> is_digit (CHR ''('')" "\<not> is_digit (CHR 0x5C)" by code_simp+
  moreover have "\<forall>c \<in> set (nat_str m). is_digit c" for m using nat_str_digits [of m] by (auto simp: is_digit_def)
  ultimately show "0 \<le> n \<Longrightarrow> sheet_ok p (int_str n)" unfolding int_str_def by (intro ok_plain) (auto split: if_splits)
qed

lemma family_still:
  assumes "family s"
  shows "\<forall>c \<in> set s. still c"
proof -
  have "still c" if "family_unit c" for c using that still_letter [of c] still_digit [of c] by (auto simp: family_unit_def still_def)
  then show ?thesis using assms by (auto simp: family_def)
qed

section \<open>The rules of a theme\<close>

lemma token_ok: "name \<in> set TOKEN_NAMES \<Longrightarrow> sheet_ok p name"
proof -
  have "\<forall>n \<in> set TOKEN_NAMES. CHR ''('' \<notin> set n \<and> CHR 0x5C \<notin> set n" by code_simp
  then show "name \<in> set TOKEN_NAMES \<Longrightarrow> sheet_ok p name" by (intro ok_plain) blast+
qed

lemma declarations_ok:
  assumes "\<forall>(name, v) \<in> set entries. validColour v"
  shows "sheet_ok p (declarations entries)"
proof -
  have "sheet_ok p (''  --color-'' @ name @ '': '' @ v @ '';'')" if "name \<in> set TOKEN_NAMES" "validColour v" for name v
    using token_ok [OF that(1)] colour_ok [OF that(2)] by (intro ok_append) (simp_all add: ok_plain)
  with assms show ?thesis unfolding declarations_def by (intro ok_join) auto
qed

lemma in_single: "x \<in> set [y] \<Longrightarrow> x = y"
  by simp

lemma in_pair: "x \<in> set [y, z] \<Longrightarrow> q y \<Longrightarrow> q z \<Longrightarrow> q x"
  by auto

lemma palette_ok:
  assumes "sheet_ok p decls" and "sheet_ok p mode" and "sheet_ok p other" and "s \<in> set (palette_rules mode other decls)"
  shows "sheet_ok p s"
proof -
  have "calls '':root:not([data-theme='' = []" "calls ''@media (prefers-color-scheme: '' = []" by code_simp+
  then have "sheet_ok p '':root:not([data-theme=''" "sheet_ok p ''@media (prefers-color-scheme: ''" by (simp_all add: ok_none)
  moreover have "sheet_ok p ('':root[data-theme='' @ dq @ mode @ dq @ ''] {'' @ nl @ decls @ nl @ ''}'')"
    using assms by (intro ok_append) (simp_all add: ok_plain)
  moreover from calculation have "sheet_ok p (''@media (prefers-color-scheme: '' @ mode @ '') {'' @ nl @ '':root:not([data-theme='' @ dq @ other @ dq
      @ '']) {'' @ nl @ decls @ nl @ ''}'' @ nl @ ''}'')"
    using assms by (intro ok_append) (simp_all add: ok_plain)
  moreover have "decls \<noteq> []" using assms(4) by (auto simp: palette_rules_def)
  ultimately show ?thesis using assms(4) unfolding palette_rules_def by (simp only: if_False) (rule in_pair)
qed

text \<open>What the addresses of a theme are: its files, and images drawn from path data.\<close>

definition own_call :: "string \<Rightarrow> string list \<Rightarrow> string \<Rightarrow> bool" where
  "own_call themeID files a \<longleftrightarrow>
     (\<exists>f \<in> set files. a = quote_text (themeAssetURL themeID f))
     \<or> (\<exists>paths. a = quote_text (pathsAsImage paths) \<and> (\<forall>d \<in> set paths. pathData d))"

lemma file_ok: "uuid_text i \<Longrightarrow> uuid_text f \<Longrightarrow> f \<in> set files \<Longrightarrow> sheet_ok (own_call i files) (url (themeAssetURL i f))"
  using asset_still [of i f] by (intro url_ok) (auto simp: own_call_def)

lemma image_ok: "\<forall>d \<in> set paths. pathData d \<Longrightarrow> sheet_ok (own_call i files) (url (pathsAsImage paths))"
  using image_still [of paths] by (intro url_ok) (auto simp: own_call_def)

lemma font_face_ok:
  assumes "\<forall>f. font = Some f \<longrightarrow> family (font_family f) \<and> (\<forall>a. font_assetId f = Some a \<longrightarrow> sheet_ok p (url (themeAssetURL (ct_id theme) a)))"
    and "s \<in> set (font_face theme font)"
  shows "sheet_ok p s"
proof -
  obtain f where f: "font = Some f" using assms(2) by (cases font) (simp_all add: font_face_def)
  obtain a where a: "font_assetId f = Some a" "a \<noteq> []"
    using assms(2) by (cases "font_assetId f") (auto simp add: font_face_def f split: if_splits)
  note font = f a(1)
  have s: "s = ''@font-face {'' @ nl @ ''  font-family: '' @ quote_text (font_family f) @ '';'' @ nl @ ''  src: '' @ url (themeAssetURL (ct_id theme) a)
       @ '' format('' @ dq @ fontFormat (assetType theme a) @ dq @ '');'' @ nl @ ''  font-display: swap;'' @ nl @ ''}''"
    using assms(2) unfolding font_face_def font option.case if_not_P [OF a(2)] by (rule in_single)
  have "calls '' format('' = []" by code_simp
  then have "sheet_ok p '' format(''" by (simp add: ok_none)
  moreover have "sheet_ok p (fontFormat t)" for t unfolding fontFormat_def by (simp add: ok_plain)
  moreover have "sheet_ok p (quote_text (font_family f))" "sheet_ok p (url (themeAssetURL (ct_id theme) a))"
    using assms(1) font quoted_ok [OF family_still] by blast+
  ultimately show ?thesis unfolding s by (intro ok_append) (simp_all add: ok_plain)
qed

lemma font_line_ok:
  assumes "\<forall>f. font = Some f \<longrightarrow> family (font_family f)" and "sheet_ok p role" and "sheet_ok p fallback" and "s \<in> set (font_line role fallback font)"
  shows "sheet_ok p s"
proof -
  obtain f where f: "font = Some f" using assms(4) by (cases font) (simp_all add: font_line_def)
  have s: "s = ''  --font-'' @ role @ '': '' @ quote_text (font_family f) @ '', '' @ fallback @ '';''"
    using assms(4) unfolding font_line_def f option.case by (rule in_single)
  have "sheet_ok p (quote_text (font_family f))" using assms(1) f quoted_ok [OF family_still] by blast
  with assms(2,3) show ?thesis unfolding s by (intro ok_append) (simp_all add: ok_plain)
qed

lemma radius_ok:
  assumes "\<forall>n. r = Some n \<longrightarrow> 0 \<le> n" and "sheet_ok p which" and "s \<in> set (radius_line which r)"
  shows "sheet_ok p s"
proof -
  obtain n where n: "r = Some n" using assms(3) by (cases r) (simp_all add: radius_line_def)
  have s: "s = ''  --radius-'' @ which @ '': '' @ int_str n @ ''px;''"
    using assms(3) unfolding radius_line_def n option.case by (rule in_single)
  have "sheet_ok p (int_str n)" using assms(1) n by (simp add: number_ok)
  with assms(2) show ?thesis unfolding s by (intro ok_append) (simp_all add: ok_plain)
qed

lemma shadow_line_ok: "key \<in> set [''1'', ''2'', ''3''] \<Longrightarrow> sheet_ok p v \<Longrightarrow> sheet_ok p (''  --shadow-'' @ key @ '': '' @ v @ '';'')"
  by (intro ok_append) (auto intro!: ok_plain)

lemma cursor_ok:
  assumes "\<forall>(kind, c) \<in> set (th_cursors (ct_spec theme)). sheet_ok p (url (themeAssetURL (ct_id theme) (cur_assetId c))) \<and> 0 \<le> cur_hotspotX c \<and> 0 \<le> cur_hotspotY c"
    and "each \<in> set CURSOR_KINDS" and "s \<in> set (cursor_rule theme each)"
  shows "sheet_ok p s"
proof -
  obtain c where c: "map_of (th_cursors (ct_spec theme)) (ck_kind each) = Some c"
    using assms(3) by (cases "map_of (th_cursors (ct_spec theme)) (ck_kind each)") (simp_all add: cursor_rule_def)
  have s: "s = ck_selector each @ '' {'' @ nl @ ''  cursor: '' @ url (themeAssetURL (ct_id theme) (cur_assetId c)) @ '' '' @ int_str (cur_hotspotX c) @ '' ''
         @ int_str (cur_hotspotY c) @ '', '' @ ck_keyword each @ '';'' @ nl @ ''}''"
    using assms(3) unfolding cursor_rule_def c option.case by (rule in_single)
  have "\<forall>k \<in> set CURSOR_KINDS. calls (ck_selector k) = [] \<and> CHR 0x5C \<notin> set (ck_selector k) \<and> calls (ck_keyword k) = [] \<and> CHR 0x5C \<notin> set (ck_keyword k)"
    by code_simp
  with assms(2) have "sheet_ok p (ck_selector each)" "sheet_ok p (ck_keyword each)" by (simp_all add: ok_none)
  moreover have "sheet_ok p (url (themeAssetURL (ct_id theme) (cur_assetId c)))" "sheet_ok p (int_str (cur_hotspotX c))" "sheet_ok p (int_str (cur_hotspotY c))"
    using assms(1) map_of_SomeD [OF c] by (auto intro: number_ok)
  ultimately show ?thesis unfolding s by (intro ok_append) (simp_all add: ok_plain)
qed

lemma icon_name_still:
  assumes "iconName s"
  shows "\<forall>c \<in> set s. still c"
proof -
  have "still c" if "is_lower c \<or> c = CHR ''-''" for c using that still_letter [of c] by (auto simp: is_lower_def still_def)
  with assms show ?thesis by (cases s) (auto simp: iconName_def)
qed

lemma icon_texts_ok:
  assumes "sheet_ok p w" and "sheet_ok p d"
  shows "sheet_ok p (w @ '' > path {'' @ nl @ ''  display: none;'' @ nl @ ''}'')"
    "sheet_ok p (w @ '' {'' @ nl @ ''  background-color: currentColor;'' @ nl @ ''  -webkit-mask: '' @ d @ '';'' @ nl @ ''  mask: '' @ d @ '';'' @ nl @ ''}'')"
  using assms by (intro ok_append; simp add: ok_plain)+

lemma icon_ok:
  assumes "iconName (fst entry)" and "\<forall>img. icon_image theme (snd entry) = Some img \<longrightarrow> sheet_ok p (url img)" and "s \<in> set (icon_rules theme entry)"
  shows "sheet_ok p s"
proof -
  obtain img where i: "icon_image theme (snd entry) = Some img"
    using assms(3) by (cases "icon_image theme (snd entry)") (simp_all add: icon_rules_def)
  have "sheet_ok p (quote_text (fst entry))" using quoted_ok [OF icon_name_still [OF assms(1)]] .
  then have which: "sheet_ok p (''svg[data-icon='' @ quote_text (fst entry) @ '']'')" by (intro ok_append) (simp_all add: ok_plain)
  have drawn: "sheet_ok p (url img @ '' center / contain no-repeat'')" using assms(2) i by (intro ok_append) (simp_all add: ok_plain)
  from assms(3) icon_texts_ok [OF which drawn] show ?thesis
    unfolding icon_rules_def i option.case Let_def by (metis empty_iff empty_set set_ConsD)
qed

lemma backdrop_ok:
  assumes "\<forall>b. th_backdrop (ct_spec theme) = Some b \<longrightarrow> sheet_ok p (url (themeAssetURL (ct_id theme) (bd_assetId b)))" and "s \<in> set (backdrop_rule theme)"
  shows "sheet_ok p s"
proof -
  obtain b where b: "th_backdrop (ct_spec theme) = Some b"
    using assms(2) by (cases "th_backdrop (ct_spec theme)") (simp_all add: backdrop_rule_def)
  have s: "s = ''.bg-backdrop {'' @ nl @ ''  background: '' @ url (themeAssetURL (ct_id theme) (bd_assetId b))
           @ (if bd_fit b = ''tile'' then '' repeat;'' else '' center / cover no-repeat;'') @ nl @ ''}''"
    using assms(2) unfolding backdrop_rule_def b option.case by (rule in_single)
  have "sheet_ok p (if bd_fit b = ''tile'' then '' repeat;'' else '' center / cover no-repeat;'')" by (simp add: ok_plain)
  with assms(1) b show ?thesis unfolding s by (intro ok_append) (simp_all add: ok_plain)
qed

section \<open>What is stored\<close>

lemma no_refusal: "first_refusal checks = None \<longleftrightarrow> (\<forall>c \<in> set checks. c = None)"
proof (cases "filter (\<lambda>c. c \<noteq> None) checks")
  case Nil
  then show ?thesis by (simp add: first_refusal_def filter_empty_conv)
next
  case (Cons c cs)
  then have "c \<in> set (filter (\<lambda>c. c \<noteq> None) checks)" by simp
  then have "c \<in> set checks" "c \<noteq> None" by simp_all
  then show ?thesis using Cons by (auto simp: first_refusal_def)
qed

lemma refuse_none [simp]: "refuse b e = None \<longleftrightarrow> \<not> b"
  by (simp add: refuse_def)

lemma stored_checked:
  "Validate encoded spec i assets = Inr stored \<Longrightarrow> \<forall>c \<in> set (spec_checks encoded stored i assets). c = None"
  by (auto simp: Validate_def Let_def no_refusal split: option.splits)

lemma palette_checked:
  assumes "\<forall>c \<in> set (check_palette which entries). c = None" and "(name, v) \<in> set entries"
  shows "validColour v"
proof -
  have "refuse (\<not> validColour v) (NotColour v) \<in> set (check_palette which entries)"
    using assms(2) by (force simp: check_palette_def)
  with assms(1) have "refuse (\<not> validColour v) (NotColour v) = None" by blast
  then show ?thesis by simp
qed

lemma font_checked:
  assumes "\<forall>c \<in> set (check_font assets which (Some f)). c = None"
  shows "family (font_family f) \<and> set_option (font_assetId f) \<subseteq> set assets"
  using assms by (cases "font_assetId f") (simp_all add: check_font_def check_own_def)

lemma shadow_checked: "\<forall>c \<in> set (check_shadow (key, v)). c = None \<Longrightarrow> shadowText v \<and> \<not> includes_str (toLowerCase v) ''url(''"
  by (simp add: check_shadow_def)

lemma cursor_checked:
  "\<forall>x \<in> set (check_cursor assets (kind, c)). x = None \<Longrightarrow> cur_assetId c \<in> set assets \<and> 0 \<le> cur_hotspotX c \<and> 0 \<le> cur_hotspotY c"
  by (simp add: check_cursor_def)

lemma icon_checked:
  assumes "\<forall>c \<in> set (check_icon assets (name, icon)). c = None"
  shows "iconName name \<and> set_option (icon_assetId icon) \<subseteq> set assets \<and> (\<forall>ps d. icon_paths icon = Some ps \<longrightarrow> d \<in> set ps \<longrightarrow> pathData d)"
proof -
  have "iconName name" using assms by (simp add: check_icon_def Let_def)
  moreover have "check_own assets (icon_assetId icon) (name @ '' icon'') = None" using assms by (simp add: check_icon_def Let_def)
  then have "set_option (icon_assetId icon) \<subseteq> set assets" by (cases "icon_assetId icon") (simp_all add: check_own_def)
  moreover have "pathData d" if "icon_paths icon = Some ps" "d \<in> set ps" for ps d
    using assms that by (simp add: check_icon_def Let_def)
  ultimately show ?thesis by blast
qed

lemma stored_values:
  assumes "Validate encoded spec i assets = Inr stored"
  shows "\<forall>(name, v) \<in> set (th_light stored) \<union> set (th_dark stored). validColour v"
    and "\<forall>f. th_sans stored = Some f \<or> th_mono stored = Some f \<longrightarrow> family (font_family f) \<and> set_option (font_assetId f) \<subseteq> set assets"
    and "\<forall>n. th_radiusControl stored = Some n \<or> th_radiusOverlay stored = Some n \<longrightarrow> 0 \<le> n"
    and "\<forall>(key, v) \<in> set (th_shadows stored). shadowText v \<and> \<not> includes_str (toLowerCase v) ''url(''"
    and "\<forall>(kind, c) \<in> set (th_cursors stored). cur_assetId c \<in> set assets \<and> 0 \<le> cur_hotspotX c \<and> 0 \<le> cur_hotspotY c"
    and "\<forall>(name, icon) \<in> set (th_icons stored). iconName name \<and> set_option (icon_assetId icon) \<subseteq> set assets
          \<and> (\<forall>ps d. icon_paths icon = Some ps \<longrightarrow> d \<in> set ps \<longrightarrow> pathData d)"
    and "\<forall>b. th_backdrop stored = Some b \<longrightarrow> bd_assetId b \<in> set assets"
proof -
  note ok = stored_checked [OF assms]
  have "\<forall>c \<in> set (check_palette ''light'' (th_light stored)) \<union> set (check_palette ''dark'' (th_dark stored)). c = None"
    using ok by (auto simp: spec_checks_def)
  then show "\<forall>(name, v) \<in> set (th_light stored) \<union> set (th_dark stored). validColour v"
    using palette_checked by blast
  have "\<forall>c \<in> set (check_font assets ''sans'' (th_sans stored)) \<union> set (check_font assets ''mono'' (th_mono stored)). c = None"
    using ok by (auto simp: spec_checks_def)
  then show "\<forall>f. th_sans stored = Some f \<or> th_mono stored = Some f \<longrightarrow> family (font_family f) \<and> set_option (font_assetId f) \<subseteq> set assets"
    using font_checked by (metis Un_iff)
  have "check_radius ''control'' (th_radiusControl stored) = None" "check_radius ''overlay'' (th_radiusOverlay stored) = None"
    using ok by (auto simp: spec_checks_def)
  then show "\<forall>n. th_radiusControl stored = Some n \<or> th_radiusOverlay stored = Some n \<longrightarrow> 0 \<le> n"
    by (auto simp: check_radius_def)
  have "\<forall>e \<in> set (th_shadows stored). \<forall>c \<in> set (check_shadow e). c = None" using ok by (auto simp: spec_checks_def)
  then show "\<forall>(key, v) \<in> set (th_shadows stored). shadowText v \<and> \<not> includes_str (toLowerCase v) ''url(''"
    using shadow_checked by blast
  have "\<forall>e \<in> set (th_cursors stored). \<forall>c \<in> set (check_cursor assets e). c = None" using ok by (auto simp: spec_checks_def)
  then show "\<forall>(kind, c) \<in> set (th_cursors stored). cur_assetId c \<in> set assets \<and> 0 \<le> cur_hotspotX c \<and> 0 \<le> cur_hotspotY c"
    using cursor_checked by blast
  have "\<forall>e \<in> set (th_icons stored). \<forall>c \<in> set (check_icon assets e). c = None" using ok by (auto simp: spec_checks_def)
  then show "\<forall>(name, icon) \<in> set (th_icons stored). iconName name \<and> set_option (icon_assetId icon) \<subseteq> set assets
      \<and> (\<forall>ps d. icon_paths icon = Some ps \<longrightarrow> d \<in> set ps \<longrightarrow> pathData d)" using icon_checked by blast
  have "\<forall>c \<in> set (check_backdrop assets (th_backdrop stored)). c = None" using ok by (auto simp: spec_checks_def)
  then show "\<forall>b. th_backdrop stored = Some b \<longrightarrow> bd_assetId b \<in> set assets" by (auto simp: check_backdrop_def)
qed

lemma named_files:
  "th_sans spec = Some f \<or> th_mono spec = Some f \<Longrightarrow> font_assetId f = Some a \<Longrightarrow> a \<in> set (AssetIDs spec)"
  "(kind, c) \<in> set (th_cursors spec) \<Longrightarrow> cur_assetId c \<in> set (AssetIDs spec)"
  "(name, icon) \<in> set (th_icons spec) \<Longrightarrow> icon_assetId icon = Some a \<Longrightarrow> a \<in> set (AssetIDs spec)"
  "th_backdrop spec = Some b \<Longrightarrow> bd_assetId b \<in> set (AssetIDs spec)"
  by (force simp: AssetIDs_def font_assets_def)+

section \<open>A stored theme stays at home\<close>

lemma icon_image_cases:
  assumes "icon_image theme icon = Some img"
  shows "(\<exists>a. icon_assetId icon = Some a \<and> img = themeAssetURL (ct_id theme) a) \<or> (\<exists>ps. icon_paths icon = Some ps \<and> img = pathsAsImage ps)"
  using assms by (auto simp: icon_image_def split: option.splits list.splits if_splits)

lemma root_lines_ok:
  assumes faces: "\<And>font f. font = th_sans spec \<or> font = th_mono spec \<Longrightarrow> \<forall>f. font = Some f \<longrightarrow> family (font_family f)"
    and radii: "\<forall>n. th_radiusControl spec = Some n \<or> th_radiusOverlay spec = Some n \<longrightarrow> 0 \<le> n"
    and shadows: "\<forall>(key, v) \<in> set (th_shadows spec). shadowText v \<and> \<not> includes_str (toLowerCase v) ''url(''"
    and l: "l \<in> set (root_lines spec)"
  shows "sheet_ok p l"
proof -
  have r: "\<forall>n. th_radiusControl spec = Some n \<longrightarrow> 0 \<le> n" "\<forall>n. th_radiusOverlay spec = Some n \<longrightarrow> 0 \<le> n" using radii by blast+
  have w: "sheet_ok p ''sans''" "sheet_ok p ''mono''" "sheet_ok p ''ui-sans-serif, system-ui, sans-serif''" "sheet_ok p ''ui-monospace, monospace''"
    "sheet_ok p ''control''" "sheet_ok p ''overlay''" by (simp_all add: ok_plain)
  show ?thesis
    using l unfolding root_lines_def set_append Un_iff
  proof (elim disjE)
    assume "l \<in> set (font_line ''sans'' ''ui-sans-serif, system-ui, sans-serif'' (th_sans spec))"
    then show ?thesis by (rule font_line_ok [OF faces w(1,3), rotated]) simp
  next
    assume "l \<in> set (font_line ''mono'' ''ui-monospace, monospace'' (th_mono spec))"
    then show ?thesis by (rule font_line_ok [OF faces w(2,4), rotated]) simp
  next
    assume "l \<in> set (radius_line ''control'' (th_radiusControl spec))"
    then show ?thesis by (rule radius_ok [OF r(1) w(5)])
  next
    assume "l \<in> set (radius_line ''overlay'' (th_radiusOverlay spec))"
    then show ?thesis by (rule radius_ok [OF r(2) w(6)])
  next
    assume "l \<in> set (map (\<lambda>(key, v). ''  --shadow-'' @ key @ '': '' @ v @ '';'') (filter (\<lambda>(key, v). key \<in> set [''1'', ''2'', ''3'']) (th_shadows spec)))"
    then obtain e where e: "e \<in> set (th_shadows spec)" "case e of (key, v) \<Rightarrow> key \<in> set [''1'', ''2'', ''3'']"
      "l = (case e of (key, v) \<Rightarrow> ''  --shadow-'' @ key @ '': '' @ v @ '';'')"
      unfolding set_map set_filter image_iff mem_Collect_eq by blast
    obtain key v where kv: "e = (key, v)" by (cases e)
    then have k: "(key, v) \<in> set (th_shadows spec)" "key \<in> set [''1'', ''2'', ''3'']" and l: "l = ''  --shadow-'' @ key @ '': '' @ v @ '';''"
      using e unfolding kv prod.case by blast+
    show ?thesis unfolding l using k shadows by (intro shadow_line_ok shadow_ok) blast+
  qed
qed

lemma own_rules_ok:
  fixes theme :: CompilableTheme and assets :: "string list"
  defines "stored \<equiv> ct_spec theme" and "p \<equiv> own_call (ct_id theme) (filter (\<lambda>f. f \<in> set assets) (AssetIDs (ct_spec theme)))"
  assumes v: "Validate encoded spec (ct_id theme) assets = Inr stored" and u: "\<forall>a \<in> set (ct_id theme # assets). uuid_text a"
    and s: "s \<in> set (own_rules theme)"
  shows "sheet_ok p s"
proof -
  note ok = stored_values [OF v]
  have ours: "sheet_ok p (url (themeAssetURL (ct_id theme) f))" if "f \<in> set (AssetIDs stored)" "f \<in> set assets" for f
    unfolding p_def using u that by (intro file_ok) (auto simp: stored_def)
  have decl: "sheet_ok p (declarations (th_light stored))" "sheet_ok p (declarations (th_dark stored))"
    using ok(1) by (auto intro!: declarations_ok)
  have modes: "sheet_ok p ''light''" "sheet_ok p ''dark''" by (simp_all add: ok_plain)
  have fonts: "\<forall>f. font = Some f \<longrightarrow> family (font_family f) \<and> (\<forall>a. font_assetId f = Some a \<longrightarrow> sheet_ok p (url (themeAssetURL (ct_id theme) a)))"
    if "font = th_sans stored \<or> font = th_mono stored" for font
  proof (intro allI impI conjI)
    fix f assume f: "font = Some f"
    then have named: "th_sans stored = Some f \<or> th_mono stored = Some f" using that by metis
    then show "family (font_family f)" using ok(2) by blast
    fix a assume a: "font_assetId f = Some a"
    then have "a \<in> set assets" using ok(2) named by (metis elem_set subsetD)
    then show "sheet_ok p (url (themeAssetURL (ct_id theme) a))" using ours named_files(1) [OF named a] by blast
  qed
  have faces: "\<forall>f. font = Some f \<longrightarrow> family (font_family f)" if "font = th_sans stored \<or> font = th_mono stored" for font
    using fonts [OF that] by blast
  have lines: "sheet_ok p l" if "l \<in> set (root_lines stored)" for l
    using root_lines_ok [OF faces ok(3,4) that] by blast
  have root: "sheet_ok p ('':root {'' @ nl @ join nl (root_lines stored) @ nl @ ''}'')"
    using lines ok_join [of "root_lines stored" p nl] by (intro ok_append) (simp_all add: ok_plain)
  have cursors: "\<forall>(kind, c) \<in> set (th_cursors stored). sheet_ok p (url (themeAssetURL (ct_id theme) (cur_assetId c))) \<and> 0 \<le> cur_hotspotX c \<and> 0 \<le> cur_hotspotY c"
    using ok(5) ours named_files(2) [of _ _ stored] by fast
  have icons: "iconName (fst e) \<and> (\<forall>img. icon_image theme (snd e) = Some img \<longrightarrow> sheet_ok p (url img))" if "e \<in> set (th_icons stored)" for e
  proof -
    obtain name icon where e: "e = (name, icon)" by (cases e)
    then have i: "iconName name" "set_option (icon_assetId icon) \<subseteq> set assets" "\<forall>ps d. icon_paths icon = Some ps \<longrightarrow> d \<in> set ps \<longrightarrow> pathData d"
      using ok(6) that by blast+
    have "sheet_ok p (url img)" if "icon_image theme icon = Some img" for img
      using icon_image_cases [OF that] i(2,3) ours named_files(3) [of name icon stored] \<open>e \<in> set (th_icons stored)\<close> e image_ok p_def
      by (metis elem_set subsetD)
    then show ?thesis using i(1) e by simp
  qed
  have behind: "\<forall>b. th_backdrop stored = Some b \<longrightarrow> sheet_ok p (url (themeAssetURL (ct_id theme) (bd_assetId b)))"
    using ok(7) ours named_files(4) [of stored] by blast
  show ?thesis
    using s unfolding own_rules_def Let_def set_append Un_iff stored_def [symmetric]
  proof (elim disjE)
    assume "s \<in> set (palette_rules ''light'' ''dark'' (declarations (th_light stored)))"
    then show ?thesis by (rule palette_ok [OF decl(1) modes])
  next
    assume "s \<in> set (palette_rules ''dark'' ''light'' (declarations (th_dark stored)))"
    then show ?thesis by (rule palette_ok [OF decl(2) modes(2,1)])
  next
    assume "s \<in> set (font_face theme (th_sans stored))"
    then show ?thesis by (rule font_face_ok [OF fonts, rotated]) simp
  next
    assume "s \<in> set (font_face theme (th_mono stored))"
    then show ?thesis by (rule font_face_ok [OF fonts, rotated]) simp
  next
    assume "s \<in> set (if root_lines stored \<noteq> [] then ['':root {'' @ nl @ join nl (root_lines stored) @ nl @ ''}''] else [])"
    then have "s = '':root {'' @ nl @ join nl (root_lines stored) @ nl @ ''}''" by (simp only: split: if_splits) simp_all
    then show ?thesis using root by (simp only:)
  next
    assume "s \<in> set (concat (map (cursor_rule theme) CURSOR_KINDS))"
    then show ?thesis using cursor_ok [of theme p] cursors unfolding stored_def by auto
  next
    assume "s \<in> set (concat (map (icon_rules theme) (th_icons stored)))"
    then show ?thesis using icon_ok icons by fastforce
  next
    assume "s \<in> set (backdrop_rule theme)"
    then show ?thesis by (rule backdrop_ok [OF behind [unfolded stored_def]])
  qed
qed

text \<open>
  C6: a theme the server has stored, and whose extra CSS calls nothing else, compiles to a stylesheet
  that loads from nowhere else: every url() in it, in whatever letters, is closed and names one of the
  theme's own files, which the server counts among those the theme names and so does not delete, or
  an image drawn from path data; and no backslash stands in it that could spell a call another way.
\<close>

theorem theme_loads_own:
  assumes "Validate encoded spec themeID assets = Inr stored"
    and "\<forall>a \<in> set (themeID # assets). uuid_text a"
    and "sheet_ok (own_call themeID (filter (\<lambda>f. f \<in> set assets) (AssetIDs stored))) (trim (th_css stored))"
  shows "sheet_ok (own_call themeID (filter (\<lambda>f. f \<in> set assets) (AssetIDs stored)))
    (compileTheme \<lparr>ct_id = themeID, ct_spec = stored, ct_assets = refs\<rparr>)"
proof -
  let ?theme = "\<lparr>ct_id = themeID, ct_spec = stored, ct_assets = refs\<rparr>"
  have "sheet_ok (own_call themeID (filter (\<lambda>f. f \<in> set assets) (AssetIDs stored))) s" if "s \<in> set (own_rules ?theme)" for s
    using own_rules_ok [of encoded spec ?theme assets s] assms(1,2) that by simp
  then show ?thesis unfolding compileTheme_def using assms(3) by (intro ok_join) auto
qed

definition sample_theme_id :: string where
  "sample_theme_id = ''11111111-1111-4111-8111-111111111111''"

definition sample_asset :: string where
  "sample_asset = ''22222222-2222-4222-8222-222222222222''"

definition sample_theme :: ThemeSpec where
  "sample_theme = emptySpec\<lparr>th_light := [(''canvas'', ''#fff'')],
     th_backdrop := Some \<lparr>bd_assetId = sample_asset, bd_fit = ''cover''\<rparr>\<rparr>"

theorem theme_loads_own_witness:
  "sheet_ok (own_call sample_theme_id (filter (\<lambda>f. f \<in> set [sample_asset]) (AssetIDs sample_theme)))
     (compileTheme \<lparr>ct_id = sample_theme_id, ct_spec = sample_theme, ct_assets = []\<rparr>)"
proof (rule theme_loads_own)
  have "tokenName ''canvas''" "validColour ''#fff''" "validateCSS [] sample_theme_id [sample_asset] = None" by code_simp+
  then have "first_refusal (spec_checks (\<lambda>_. 0) sample_theme sample_theme_id [sample_asset]) = None"
    by (simp add: no_refusal spec_checks_def sample_theme_def emptySpec_def check_palette_def check_font_def check_radius_def check_backdrop_def
        MaxTokensPerSet_def)
  moreover have "normalise sample_theme = sample_theme" by (simp add: normalise_def sample_theme_def emptySpec_def TrimSpace_def)
  ultimately show "Validate (\<lambda>_. 0) sample_theme sample_theme_id [sample_asset] = Inr sample_theme" by (simp add: Validate_def)
  show "\<forall>a \<in> set (sample_theme_id # [sample_asset]). uuid_text a" by code_simp
  show "sheet_ok (own_call sample_theme_id (filter (\<lambda>f. f \<in> set [sample_asset]) (AssetIDs sample_theme))) (trim (th_css sample_theme))"
    by (simp add: sample_theme_def emptySpec_def trim_def trim_start_def ok_Nil)
qed

section \<open>Extra CSS that loads from elsewhere\<close>

text \<open>An apostrophe in a quoted target ends it for the pattern, which then finds no call at all.\<close>

lemma quoted_apostrophe_let_in:
  "validateCSS (''a{background:url('' @ dq @ ''https://e.x/'' @ [CHR 0x27] @ ''b'' @ dq @ '')}'') themeID assets = None"
  by code_simp

text \<open>A stylesheet may spell any letter by its number, so neither the calls nor the words are all found.\<close>

lemma escaped_call_let_in:
  "validateCSS (''a{background:u'' @ [CHR 0x5C] @ ''72l(https://e.x/b)}'') themeID assets = None"
  by code_simp

lemma escaped_import_let_in:
  "validateCSS (''@'' @ [CHR 0x5C] @ ''69mport '' @ dq @ ''https://e.x/b'' @ dq @ '';'') themeID assets = None"
  by code_simp

text \<open>Images are also named by a bare text.\<close>

lemma image_set_let_in:
  "validateCSS (''a{background:image-set('' @ dq @ ''https://e.x/b'' @ dq @ '' 1x)}'') themeID assets = None"
  by code_simp

end
