(* ===== verification/Resources.thy ===== *)
theory Resources
  imports PlanDraw Week
begin

text \<open>
  The resources view, \<open>features/resources/cells.ts\<close>: how a week stands, what it is drawn and said as, and
  the weeks the view shows. \<open>Intl\<close> is a parameter; a day that cannot be read makes the functions that
  write one raise: \<^const>\<open>None\<close>.
\<close>

section \<open>Weeks and rows\<close>

datatype ResourceKind = TeamRow | PersonRow | UnassignedRow

record WeekIssue =
  wi_hours :: real
  wi_key :: string
  wi_summary :: string

record ResourceWeek =
  rw_start :: string
  rw_loadHours :: real
  rw_capacityHours :: "real option"
  rw_nominalHours :: "real option"
  rw_daysAway :: "real option"
  rw_holidays :: "int option"
  rw_issues :: "WeekIssue list"

record ResourceRow =
  rr_id :: "string option"
  rr_kind :: ResourceKind
  rr_name :: string
  rr_sharePercent :: "int option"
  rr_weeks :: "ResourceWeek list"

record resource_words =
  rs_share :: "int \<Rightarrow> string"
  rs_loadOfLong :: "string \<Rightarrow> string \<Rightarrow> string \<Rightarrow> string"
  rs_hours :: "string \<Rightarrow> string"
  rs_daysAway :: "string \<Rightarrow> real \<Rightarrow> string"
  rs_holidays :: "int \<Rightarrow> string"
  rs_weekOf :: "string \<Rightarrow> string \<Rightarrow> string"

definition resourcesEn :: resource_words where
  "resourcesEn =
     \<lparr>rs_share = (\<lambda>percent. '' ('' @ int_str percent @ ''% of the week)''),
      rs_loadOfLong = (\<lambda>load capacity share. load @ '' of '' @ capacity @ '' h'' @ share),
      rs_hours = (\<lambda>h. h @ '' h''),
      rs_daysAway = (\<lambda>days count. days @ '' day'' @ (if count = 1 then [] else ''s'') @ '' away''),
      rs_holidays = (\<lambda>count. int_str count @ '' holiday'' @ (if count = 1 then [] else ''s'')),
      rs_weekOf = (\<lambda>name week. name @ '', week of '' @ week)\<rparr>"

definition resourcesDe :: resource_words where
  "resourcesDe =
     \<lparr>rs_share = (\<lambda>percent. '' ('' @ int_str percent @ '' % der Woche)''),
      rs_loadOfLong = (\<lambda>load capacity share. load @ '' von '' @ capacity @ '' Std.'' @ share),
      rs_hours = (\<lambda>h. h @ '' Std.''),
      rs_daysAway = (\<lambda>days count. days @ '' '' @ (if count = 1 then ''Tag'' else ''Tage'') @ '' abwesend''),
      rs_holidays = (\<lambda>count. int_str count @ '' '' @ (if count = 1 then ''Feiertag'' else ''Feiertage'')),
      rs_weekOf = (\<lambda>name week. name @ '', Woche ab '' @ week)\<rparr>"

section \<open>A cell\<close>

definition cellState :: "ResourceWeek \<Rightarrow> Utilisation" where
  "cellState week = utilisation (rw_loadHours week) (rw_capacityHours week)"

record cell_shares =
  share_load :: real
  share_capacity :: "real option"
  share_nominal :: "real option"

definition cellShares :: "ResourceRow \<Rightarrow> ResourceWeek \<Rightarrow> cell_shares" where
  "cellShares row week =
     (let nominal = (case rw_nominalHours week of Some n \<Rightarrow> Some n | None \<Rightarrow> rw_capacityHours week);
          ceiling = (case nominal of Some n \<Rightarrow> max n (rw_loadHours week) | None \<Rightarrow> foldl max 1 (map rw_loadHours (rr_weeks row)));
          share = (\<lambda>v. min 1 (v / ceiling))
      in if ceiling \<le> 0 then \<lparr>share_load = 0, share_capacity = Some 0, share_nominal = Some 0\<rparr>
         else \<lparr>share_load = share (rw_loadHours week), share_capacity = map_option share (rw_capacityHours week),
               share_nominal = map_option share nominal\<rparr>)"

definition RESOURCE_HOUR_DECIMALS :: nat where
  "RESOURCE_HOUR_DECIMALS = 1"

definition resource_hours :: "real \<Rightarrow> string" where
  "resource_hours v = scaled_str RESOURCE_HOUR_DECIMALS (js_round (v * 10 ^ RESOURCE_HOUR_DECIMALS))"

definition describeHours :: "resource_words \<Rightarrow> ResourceWeek \<Rightarrow> int option \<Rightarrow> string" where
  "describeHours t week sharePercent =
     (let share = (case sharePercent of Some p \<Rightarrow> rs_share t p | None \<Rightarrow> [])
      in join ''; ''
        ((case rw_capacityHours week of
            Some c \<Rightarrow> rs_loadOfLong t (resource_hours (rw_loadHours week)) (resource_hours c) share
          | None \<Rightarrow> rs_hours t (resource_hours (rw_loadHours week)))
         # (case rw_daysAway week of Some d \<Rightarrow> if d \<noteq> 0 then [rs_daysAway t (number_str d) d] else [] | None \<Rightarrow> [])
         @ (case rw_holidays week of Some n \<Rightarrow> if n \<noteq> 0 then [rs_holidays t n] else [] | None \<Rightarrow> [])))"

definition weekLabel :: "(string \<Rightarrow> int \<Rightarrow> string) \<Rightarrow> string \<Rightarrow> string \<Rightarrow> string" where
  "weekLabel intl start locale = (case date_value start of Some t \<Rightarrow> intl locale (day t) | None \<Rightarrow> ''Invalid Date'')"

definition describeCell :: "(string \<Rightarrow> int \<Rightarrow> string) \<Rightarrow> resource_words \<Rightarrow> ResourceRow \<Rightarrow> ResourceWeek \<Rightarrow> string \<Rightarrow> string" where
  "describeCell intl t row week locale =
     rs_weekOf t (rr_name row) (weekLabel intl (rw_start week) locale) @ '': '' @ describeHours t week (rr_sharePercent row)"

section \<open>The weeks shown\<close>

definition mondayOf :: "zone \<Rightarrow> int \<Rightarrow> string option" where
  "mondayOf z date =
     map_option (\<lambda>t. let d = day t; offset = (getUTCDay d + DAYS_PER_WEEK - 1) mod DAYS_PER_WEEK in isoDay (addDays d (- offset)))
       (date_value (today z date))"

definition windowFrom :: "string \<Rightarrow> int \<Rightarrow> (string \<times> string) option" where
  "windowFrom monday weeks =
     map_option (\<lambda>t. (monday, isoDay (addDays (day t) (weeks * DAYS_PER_WEEK - 1)))) (date_value monday)"

definition shiftWeeks :: "string \<Rightarrow> int \<Rightarrow> string option" where
  "shiftWeeks monday weeks = map_option (\<lambda>t. isoDay (addDays (day t) (weeks * DAYS_PER_WEEK))) (date_value monday)"

text \<open>
  The page itself, \<open>routes/resources.tsx\<close>: the Monday it starts with, what its buttons make of it, Today
  at the time it is pressed, and the days it asks the server for.
\<close>

definition RESOURCE_WINDOW_WEEKS :: int where "RESOURCE_WINDOW_WEEKS = 8"

definition RESOURCE_STEP_WEEKS :: int where "RESOURCE_STEP_WEEKS = 4"

datatype resource_button = PreviousButton | TodayButton int | NextButton

definition press_button :: "zone \<Rightarrow> string \<Rightarrow> resource_button \<Rightarrow> string option" where
  "press_button z monday button =
     (case button of
        PreviousButton \<Rightarrow> shiftWeeks monday (- RESOURCE_STEP_WEEKS)
      | TodayButton now \<Rightarrow> mondayOf z now
      | NextButton \<Rightarrow> shiftWeeks monday RESOURCE_STEP_WEEKS)"

definition resource_monday :: "zone \<Rightarrow> int \<Rightarrow> resource_button list \<Rightarrow> string option" where
  "resource_monday z now buttons = foldl (\<lambda>m button. Option.bind m (\<lambda>monday. press_button z monday button)) (mondayOf z now) buttons"

definition resource_window :: "zone \<Rightarrow> int \<Rightarrow> resource_button list \<Rightarrow> (string \<times> string) option" where
  "resource_window z now buttons = Option.bind (resource_monday z now buttons) (\<lambda>monday. windowFrom monday RESOURCE_WINDOW_WEEKS)"

definition hasPlannedRows :: "ResourceRow list \<Rightarrow> bool" where
  "hasPlannedRows rows \<longleftrightarrow> (\<exists>row \<in> set rows. rr_kind row \<noteq> UnassignedRow)"

section \<open>Shares\<close>

lemma share_bounds:
  assumes "0 < bound" and "0 \<le> v"
  shows "0 \<le> min 1 (v / bound)" "min 1 (v / bound) \<le> (1 :: real)"
  using assms by auto

lemma share_mono: "0 < bound \<Longrightarrow> v \<le> w \<Longrightarrow> min 1 (v / bound) \<le> min 1 (w / (bound :: real))"
  by (intro min.mono) (auto simp: divide_right_mono)

text \<open>
  For hours that are not negative, and hours left that are no more than the whole week, every share
  a cell is drawn with lies between nothing and the whole cell, the hours left never past the whole
  week, and a week that is over shows no less load than hours.
\<close>

lemma cell_shares_fit:
  assumes "0 \<le> rw_loadHours week" and "\<forall>c \<in> set_option (rw_capacityHours week). 0 \<le> c"
    and "\<forall>n \<in> set_option (rw_nominalHours week). 0 \<le> n \<and> (\<forall>c \<in> set_option (rw_capacityHours week). c \<le> n)"
  shows "0 \<le> share_load (cellShares row week) \<and> share_load (cellShares row week) \<le> 1
     \<and> (\<forall>c \<in> set_option (share_capacity (cellShares row week)). 0 \<le> c
          \<and> (\<exists>n \<in> set_option (share_nominal (cellShares row week)). c \<le> n \<and> n \<le> 1)
          \<and> (cellState week = Over \<longrightarrow> c \<le> share_load (cellShares row week)))"
proof -
  define nominal where "nominal = (case rw_nominalHours week of Some n \<Rightarrow> Some n | None \<Rightarrow> rw_capacityHours week)"
  define bound where "bound = (case nominal of Some n \<Rightarrow> max n (rw_loadHours week)
      | None \<Rightarrow> foldl max 1 (map rw_loadHours (rr_weeks row)))"
  have s: "cellShares row week = (if bound \<le> 0 then \<lparr>share_load = 0, share_capacity = Some 0, share_nominal = Some 0\<rparr>
      else \<lparr>share_load = min 1 (rw_loadHours week / bound), share_capacity = map_option (\<lambda>v. min 1 (v / bound)) (rw_capacityHours week),
            share_nominal = map_option (\<lambda>v. min 1 (v / bound)) nominal\<rparr>)"
    unfolding cellShares_def Let_def nominal_def [symmetric] bound_def [symmetric] by (rule refl)
  have nom: "\<exists>n. nominal = Some n \<and> c \<le> n" if "rw_capacityHours week = Some c" for c
    using that assms(3) by (auto simp: nominal_def split: option.splits)
  have over: "c < rw_loadHours week" if "cellState week = Over" "rw_capacityHours week = Some c" for c
    using that by (simp add: cellState_def utilisation_def split: if_splits)
  show ?thesis
  proof (cases "bound \<le> 0")
    case True
    then show ?thesis by (simp add: s)
  next
    case False
    then have pos: "0 < bound" by simp
    show ?thesis
    proof (intro conjI ballI)
      show "0 \<le> share_load (cellShares row week)" "share_load (cellShares row week) \<le> 1"
        using share_bounds [OF pos assms(1)] False by (simp_all add: s)
      fix x
      assume "x \<in> set_option (share_capacity (cellShares row week))"
      then obtain c where c: "rw_capacityHours week = Some c" "x = min 1 (c / bound)" using False by (auto simp: s)
      obtain n where n: "nominal = Some n" "c \<le> n" using nom [OF c(1)] by blast
      show "0 \<le> x" using share_bounds(1) [OF pos, of c] assms(2) c by simp
      show "\<exists>n \<in> set_option (share_nominal (cellShares row week)). x \<le> n \<and> n \<le> 1"
        using share_mono [OF pos n(2)] n(1) c(2) False by (simp add: s)
      show "cellState week = Over \<longrightarrow> x \<le> share_load (cellShares row week)"
        using over [OF _ c(1)] share_mono [OF pos, of c "rw_loadHours week"] c(2) False by (auto simp: s)
    qed
  qed
qed

definition sample_week :: ResourceWeek where
  "sample_week = \<lparr>rw_start = ''2026-03-02T00:00:00Z'', rw_loadHours = 36, rw_capacityHours = Some 32, rw_nominalHours = Some 40,
     rw_daysAway = Some 1, rw_holidays = None, rw_issues = []\<rparr>"

definition sample_row :: ResourceRow where
  "sample_row = \<lparr>rr_id = None, rr_kind = TeamRow, rr_name = ''Ada'', rr_sharePercent = None, rr_weeks = [sample_week]\<rparr>"

lemma cell_shares_fit_witness:
  "share_load (cellShares sample_row sample_week) \<le> 1 \<and> (\<forall>c \<in> set_option (share_capacity (cellShares sample_row sample_week)). 0 \<le> c)"
  using cell_shares_fit [of sample_week sample_row] by (simp add: sample_week_def)

section \<open>The reader's week\<close>

lemma modern_day_number: "modern (d * MS_PER_DAY) \<longleftrightarrow> 100 \<le> year_from_day d"
  by (simp add: modern_def getUTCFullYear_def)

lemma isoDay_midnight:
  assumes "100 \<le> year_from_day d" and "year_from_day d \<le> 9999"
  shows "isoDay (d * MS_PER_DAY) = iso_date d"
  using assms take_iso_date [of "d * MS_PER_DAY"] by (simp add: isoDay_def day_modern modern_day_number plain_day_def)

lemma today_iso:
  assumes "1000 \<le> year_from_day (local_day z now)" and "year_from_day (local_day z now) \<le> 9999"
  shows "today z now = iso_date (local_day z now)"
proof -
  have "iso_year y = int_str y" if "1000 \<le> y" "y \<le> 9999" for y
  proof -
    have less: "nat y < 10 ^ length (nat_str (nat y))"
      using str_nat_less [of "nat_str (nat y)"] nat_str_digits [of "nat y"] by (simp add: list_all_iff)
    have "4 \<le> length (nat_str (nat y))"
    proof (rule ccontr)
      assume "\<not> 4 \<le> length (nat_str (nat y))"
      then have "(10 :: nat) ^ length (nat_str (nat y)) \<le> 10 ^ 3" by (intro power_increasing) auto
      with less have "nat y < 10 ^ 3" by (rule less_le_trans)
      with that show False by simp
    qed
    then show ?thesis using that by (simp add: iso_year_def int_str_def padStart_def)
  qed
  then show ?thesis using assms
    by (simp add: today_def iso_date_def getFullYear_def getMonth_def getDate_def local_day_def getUTCFullYear_def getUTCMonth_def getUTCDate_def)
qed

definition own_monday :: "int \<Rightarrow> int" where
  "own_monday d = d - (day_weekday d + 6) mod 7"

lemma own_monday: "own_monday d \<le> d" "d < own_monday d + 7" "day_weekday (own_monday d) = 1"
proof -
  show "own_monday d \<le> d" "d < own_monday d + 7" by (simp_all add: own_monday_def)
  show "day_weekday (own_monday d) = 1" unfolding own_monday_def day_weekday_def by presburger
qed

text \<open>Days of years with four digits are read, moved and written exactly.\<close>

definition four_digits :: "int \<Rightarrow> bool" where
  "four_digits d \<longleftrightarrow> 1000 \<le> year_from_day d \<and> year_from_day d \<le> 9999"

lemma four_digits_between: "four_digits a \<Longrightarrow> four_digits b \<Longrightarrow> a \<le> d \<Longrightarrow> d \<le> b \<Longrightarrow> four_digits d"
  using year_from_day_mono [of a d] year_from_day_mono [of d b] by (auto simp: four_digits_def)

lemma four_digits_days:
  assumes "four_digits d"
  shows "date_value (iso_date d) = Some (d * MS_PER_DAY)" "day (d * MS_PER_DAY) = d * MS_PER_DAY" "isoDay (d * MS_PER_DAY) = iso_date d"
  using assms by (auto simp: four_digits_def day_modern modern_day_number plain_day_def intro!: date_value_day isoDay_midnight)

lemma addDays_midnight: "addDays (d * MS_PER_DAY) j = (d + j) * MS_PER_DAY"
  by (simp add: addDays_def algebra_simps)

lemma windowFrom_iso:
  assumes "four_digits d" "four_digits (d + 7 * n - 1)"
  shows "windowFrom (iso_date d) n = Some (iso_date d, iso_date (d + 7 * n - 1))"
proof -
  have "addDays (d * MS_PER_DAY) (n * DAYS_PER_WEEK - 1) = (d + 7 * n - 1) * MS_PER_DAY"
    by (simp add: addDays_def DAYS_PER_WEEK_def algebra_simps)
  then show ?thesis using four_digits_days [OF assms(1)] four_digits_days(3) [OF assms(2)] by (simp add: windowFrom_def)
qed

lemma shiftWeeks_iso: "four_digits d \<Longrightarrow> four_digits (d + 7 * n) \<Longrightarrow> shiftWeeks (iso_date d) n = Some (iso_date (d + 7 * n))"
  using four_digits_days [of d] four_digits_days(3) [of "d + 7 * n"] addDays_midnight [of d "n * 7"]
  by (simp add: shiftWeeks_def DAYS_PER_WEEK_def algebra_simps)

lemma mondayOf_iso:
  assumes "four_digits (local_day z now)" "four_digits (own_monday (local_day z now))"
  shows "mondayOf z now = Some (iso_date (own_monday (local_day z now)))"
proof -
  let ?d = "local_day z now"
  have "today z now = iso_date ?d" using assms(1) by (intro today_iso) (simp_all add: four_digits_def)
  moreover have "?d + - ((day_weekday ?d + DAYS_PER_WEEK - 1) mod DAYS_PER_WEEK) = own_monday ?d"
    by (simp add: own_monday_def DAYS_PER_WEEK_def add.commute)
  ultimately show ?thesis
    using four_digits_days [OF assms(1)] four_digits_days(3) [OF assms(2)]
    by (simp add: mondayOf_def Let_def addDays_midnight getUTCDay_def)
qed

text \<open>The time a run of buttons last started from, and how many steps on from it.\<close>

fun stepped :: "int \<times> int \<Rightarrow> resource_button \<Rightarrow> int \<times> int" where
  "stepped (t, k) PreviousButton = (t, k - 1)"
| "stepped (t, k) (TodayButton now) = (now, 0)"
| "stepped (t, k) NextButton = (t, k + 1)"

definition start_times :: "int \<Rightarrow> resource_button list \<Rightarrow> int set" where
  "start_times now buttons = insert now {t. TodayButton t \<in> set buttons}"

text \<open>So many steps of four weeks from the day of a time stay in years with four digits.\<close>

definition stays_written :: "zone \<Rightarrow> int \<Rightarrow> int \<Rightarrow> bool" where
  "stays_written z n t \<longleftrightarrow> four_digits (local_day z t - 28 * n - 6) \<and> four_digits (local_day z t + 28 * n + 56)"

lemma stays_written_days:
  assumes "stays_written z n t" "0 \<le> n" "\<bar>k\<bar> \<le> n"
  shows "four_digits (local_day z t)" "four_digits (own_monday (local_day z t) + 28 * k)" "four_digits (own_monday (local_day z t) + 28 * k + 55)"
proof -
  let ?d = "local_day z t"
  have a: "four_digits (?d - 28 * n - 6)" "four_digits (?d + 28 * n + 56)" using assms(1) by (simp_all add: stays_written_def)
  show "four_digits ?d" using assms(2) by (intro four_digits_between [OF a]) auto
  show "four_digits (own_monday ?d + 28 * k)" "four_digits (own_monday ?d + 28 * k + 55)"
    using assms(3) own_monday(1,2) [of ?d] by (intro four_digits_between [OF a]; linarith)+
qed

lemma resource_monday_at:
  assumes "\<forall>t \<in> start_times now buttons. stays_written z n t" "int (length buttons) \<le> n" "foldl stepped (now, 0) buttons = (t, k)"
  shows "resource_monday z now buttons = Some (iso_date (own_monday (local_day z t) + 28 * k)) \<and> \<bar>k\<bar> \<le> int (length buttons) \<and> t \<in> start_times now buttons"
  using assms
proof (induction buttons arbitrary: t k rule: rev_induct)
  case Nil
  then have "stays_written z n now" by (simp add: start_times_def)
  from stays_written_days(1,2) [OF this, of 0] show ?case using Nil mondayOf_iso by (simp add: resource_monday_def start_times_def)
next
  case (snoc b bs)
  obtain u j where u: "foldl stepped (now, 0) bs = (u, j)" by fastforce
  have sub: "start_times now bs \<subseteq> start_times now (bs @ [b])" by (auto simp: start_times_def)
  have IH: "resource_monday z now bs = Some (iso_date (own_monday (local_day z u) + 28 * j))" "\<bar>j\<bar> \<le> int (length bs)" "u \<in> start_times now bs"
    using snoc.IH [OF _ _ u] snoc.prems(1,2) sub by auto
  have ru: "stays_written z n u" using snoc.prems(1) sub IH(3) by blast
  have len: "0 \<le> n" "\<bar>j\<bar> \<le> n" "\<bar>j + 1\<bar> \<le> n" "\<bar>j - 1\<bar> \<le> n" using snoc.prems(2) IH(2) by auto
  have run: "resource_monday z now (bs @ [b]) = press_button z (iso_date (own_monday (local_day z u) + 28 * j)) b"
    using IH(1) by (simp add: resource_monday_def)
  note days = stays_written_days(2) [OF ru len(1)]
  show ?case
  proof (cases b)
    case PreviousButton
    then show ?thesis using run u snoc.prems(3) IH(2,3) sub shiftWeeks_iso [OF days [OF len(2)], of "- 4"] days [OF len(4)]
      by (auto simp: press_button_def RESOURCE_STEP_WEEKS_def algebra_simps)
  next
    case (TodayButton now')
    then have "stays_written z n now'" using snoc.prems(1) by (simp add: start_times_def)
    from stays_written_days(1,2) [OF this len(1), of 0] show ?thesis
      using run u snoc.prems(3) TodayButton len(1) mondayOf_iso by (auto simp: press_button_def start_times_def)
  next
    case NextButton
    then show ?thesis using run u snoc.prems(3) IH(2,3) sub shiftWeeks_iso [OF days [OF len(2)], of 4] days [OF len(3)]
      by (auto simp: press_button_def RESOURCE_STEP_WEEKS_def algebra_simps)
  qed
qed

lemma resource_window_at:
  assumes "\<forall>t \<in> start_times now buttons. stays_written z n t" "int (length buttons) \<le> n" "foldl stepped (now, 0) buttons = (t, k)"
  shows "resource_window z now buttons = Some (iso_date (own_monday (local_day z t) + 28 * k), iso_date (own_monday (local_day z t) + 28 * k + 55))"
proof -
  note M = resource_monday_at [OF assms]
  have "stays_written z n t" "0 \<le> n" "\<bar>k\<bar> \<le> n" using M assms(1,2) by auto
  note days = stays_written_days(2,3) [OF this]
  then show ?thesis using M windowFrom_iso [of "own_monday (local_day z t) + 28 * k" 8]
    by (simp add: resource_window_def RESOURCE_WINDOW_WEEKS_def algebra_simps)
qed

text \<open>
  C38: The resources view opens on the reader's own week and moves by half of what it shows. However its
  buttons are pressed, it shows the 56 days from a Monday: the Monday of the reader's week when it was
  opened or Today was last pressed, and from there four weeks on for each Next and four weeks earlier for
  each Previous since. Next and Previous therefore keep four of the eight weeks in view and skip no day.
  The days stay in the years of four digits.
\<close>

theorem resource_weeks:
  assumes "\<forall>t \<in> start_times now buttons. stays_written z (int (length buttons) + 1) t" "foldl stepped (now, 0) buttons = (t, k)"
  shows "\<exists>m. day_weekday m = 1 \<and> m \<le> local_day z t \<and> local_day z t < m + 7
    \<and> resource_window z now buttons = Some (iso_date (m + 28 * k), iso_date (m + 28 * k + 55))
    \<and> resource_window z now (buttons @ [NextButton]) = Some (iso_date (m + 28 * k + 28), iso_date (m + 28 * k + 83))
    \<and> resource_window z now (buttons @ [PreviousButton]) = Some (iso_date (m + 28 * k - 28), iso_date (m + 28 * k + 27))"
proof (intro exI [of _ "own_monday (local_day z t)"] conjI own_monday)
  let ?n = "int (length buttons) + 1"
  have same: "\<forall>t \<in> start_times now (buttons @ [b]). stays_written z ?n t" if "b \<in> {NextButton, PreviousButton}" for b
    using assms(1) that by (auto simp: start_times_def)
  show "resource_window z now buttons = Some (iso_date (own_monday (local_day z t) + 28 * k), iso_date (own_monday (local_day z t) + 28 * k + 55))"
    by (rule resource_window_at [OF assms(1) _ assms(2)]) simp
  show "resource_window z now (buttons @ [NextButton])
      = Some (iso_date (own_monday (local_day z t) + 28 * k + 28), iso_date (own_monday (local_day z t) + 28 * k + 83))"
    using resource_window_at [OF same, of NextButton t "k + 1"] assms(2) by (simp add: algebra_simps)
  show "resource_window z now (buttons @ [PreviousButton])
      = Some (iso_date (own_monday (local_day z t) + 28 * k - 28), iso_date (own_monday (local_day z t) + 28 * k + 27))"
    using resource_window_at [OF same, of PreviousButton t "k - 1"] assms(2) by (simp add: algebra_simps)
qed

theorem resource_weeks_witness:
  "\<exists>m. m \<le> 20000 \<and> 20000 < m + 7
     \<and> resource_window \<lparr>zone_local = \<lambda>t. t, zone_utc = \<lambda>t. t\<rparr> (20000 * MS_PER_DAY) [NextButton]
       = Some (iso_date (m + 28), iso_date (m + 83))"
proof -
  let ?z = "\<lparr>zone_local = \<lambda>t. t, zone_utc = \<lambda>t. t\<rparr>"
  have d: "local_day ?z (20000 * MS_PER_DAY) = 20000" by (simp add: local_day_def)
  have y: "year_from_day 19938 = 2024" "year_from_day 20112 = 2025" by code_simp+
  have "\<forall>t \<in> start_times (20000 * MS_PER_DAY) [NextButton]. stays_written ?z (int (length [NextButton]) + 1) t"
    by (simp add: start_times_def stays_written_def d four_digits_def y)
  from resource_weeks [OF this, of "20000 * MS_PER_DAY" 1] d
  obtain m where "m \<le> 20000" "20000 < m + 7"
    "resource_window ?z (20000 * MS_PER_DAY) [NextButton] = Some (iso_date (m + 28 * 1), iso_date (m + 28 * 1 + 55))" by auto
  then show ?thesis by (intro exI [of _ m]) (simp add: add.assoc)
qed

end
