(* ===== verification/CustomFields.thy ===== *)
theory CustomFields
  imports JsonText
begin

text \<open>
  Custom fields, \<open>features/fields/values.ts\<close>, and the sentence for an automation rule,
  \<open>features/automation/describe.ts\<close>.
\<close>

section \<open>Answers to custom fields\<close>

datatype FieldKind = TextField | NumberField | DateField | SelectField | CheckboxField | UrlField

text \<open>What a control hands over: a text, or whether it is ticked.\<close>

definition valueFromInput :: "FieldKind \<Rightarrow> string + bool \<Rightarrow> json" where
  "valueFromInput kind raw =
     (if kind = CheckboxField then JBool (raw = Inr True \<or> raw = Inl ''true'')
      else let t = (case raw of Inl s \<Rightarrow> trim s | Inr b \<Rightarrow> if b then ''true'' else ''false'')
           in if t = [] then JNull
              else if kind = NumberField then (case read_number t of Fin x \<Rightarrow> JNum x | _ \<Rightarrow> JStr t)
              else JStr t)"

definition inputFromValue :: "(real \<Rightarrow> string) \<Rightarrow> FieldKind \<Rightarrow> json option \<Rightarrow> string" where
  "inputFromValue num kind v =
     (case v of
        None \<Rightarrow> [] | Some JNull \<Rightarrow> []
      | Some w \<Rightarrow> if kind = CheckboxField then (if w = JBool True then ''true'' else []) else json_text num w)"

definition inputTypeFor :: "FieldKind \<Rightarrow> string" where
  "inputTypeFor kind = (case kind of NumberField \<Rightarrow> ''number'' | DateField \<Rightarrow> ''date'' | UrlField \<Rightarrow> ''url'' | _ \<Rightarrow> ''text'')"

fun parse_lines :: "string list \<Rightarrow> string list \<Rightarrow> string list \<Rightarrow> string list" where
  "parse_lines [] seen out = out"
| "parse_lines (line # ls) seen out =
     (let option = trim line
      in if option = [] \<or> option \<in> set seen then parse_lines ls seen out
         else parse_lines ls (seen @ [option]) (out @ [option]))"

definition parseOptions :: "string \<Rightarrow> string list" where
  "parseOptions t = parse_lines (split_on (CHR 0x0A) t) [] []"

record field_words =
  fw_takesNumber :: "string \<Rightarrow> string"
  fw_takesDate :: "string \<Rightarrow> string"
  fw_cannotTake :: "string \<Rightarrow> string"

definition fieldsEn :: field_words where
  "fieldsEn = \<lparr>fw_takesNumber = (\<lambda>name. name @ '' takes a number, such as 12 or 2.5.''),
     fw_takesDate = (\<lambda>name. name @ '' takes a date such as 2026-01-31.''),
     fw_cannotTake = (\<lambda>name. name @ '' cannot take that.'')\<rparr>"

definition fieldsDe :: field_words where
  "fieldsDe = \<lparr>fw_takesNumber = (\<lambda>name. name @ '' nimmt eine Zahl, etwa 12 oder 2,5.''),
     fw_takesDate = (\<lambda>name. name @ '' nimmt ein Datum wie 2026-01-31.''),
     fw_cannotTake = (\<lambda>name. name @ '' kann das nicht aufnehmen.'')\<rparr>"

definition badInputMessage :: "field_words \<Rightarrow> FieldKind \<Rightarrow> string \<Rightarrow> string" where
  "badInputMessage t kind name =
     (case kind of NumberField \<Rightarrow> fw_takesNumber t name | DateField \<Rightarrow> fw_takesDate t name | _ \<Rightarrow> fw_cannotTake t name)"

section \<open>A rule in one sentence\<close>

datatype DescriptorKind = TriggerKind | ConditionKind | ActionKind

record RuleOption =
  opt_name :: string
  opt_label :: string
  opt_roles :: bool
  opt_required :: bool
  opt_choices :: "string list"

record RuleDescriptor =
  rd_kind :: DescriptorKind
  rd_type :: string
  rd_label :: string
  rd_description :: string
  rd_options :: "RuleOption list"
  rd_needsIssue :: "bool option"

datatype ScheduleUnit = Hours | Daily | Weekly

record Schedule =
  sch_unit :: ScheduleUnit
  sch_every :: "int option"
  sch_at :: "string option"
  sch_weekday :: "int option"

record Trigger =
  trig_kind :: string
  trig_field :: "string option"
  trig_query :: "string option"
  trig_schedule :: "Schedule option"
  trig_token :: "string option"

record Condition =
  cond_kind :: string
  cond_query :: "string option"
  cond_field :: "string option"
  cond_value :: "string option"
  cond_roles :: "string list option"

record Action =
  act_kind :: string
  act_field :: "string option"
  act_value :: "string option"
  act_text :: "string option"
  act_subject :: "string option"
  act_to :: "string option"
  act_endpointId :: "string option"

record describe_words =
  ds_when :: "string \<Rightarrow> string"
  ds_if :: "string \<Rightarrow> string"
  ds_then :: "string \<Rightarrow> string"
  ds_and :: string
  ds_thenNext :: string
  ds_or :: string
  ds_trigger :: "string \<Rightarrow> string"
  ds_fieldChanges :: "string \<Rightarrow> string"
  ds_everyHours :: "int \<Rightarrow> string \<Rightarrow> string"
  ds_daily :: "string \<Rightarrow> string \<Rightarrow> string"
  ds_weekly :: "string \<Rightarrow> string \<Rightarrow> string"
  ds_matches :: "string \<Rightarrow> string"
  ds_fieldIs :: "string \<Rightarrow> string \<Rightarrow> string"
  ds_actorIs :: "string \<Rightarrow> string"
  ds_setField :: "string \<Rightarrow> string \<Rightarrow> string"
  ds_take :: "string \<Rightarrow> string"
  ds_assignTo :: "string \<Rightarrow> string"
  ds_addLabel :: "string \<Rightarrow> string"
  ds_addComment :: string
  ds_createSubtask :: string
  ds_createIssue :: string
  ds_sendWebhook :: string
  ds_mail :: "string \<Rightarrow> string"

definition describeEn :: describe_words where
  "describeEn =
     \<lparr>ds_when = (\<lambda>s. ''When '' @ s), ds_if = (\<lambda>s. ''if '' @ s), ds_then = (\<lambda>s. ''then '' @ s),
      ds_and = '' and '', ds_thenNext = '', then '', ds_or = '' or '',
      ds_trigger = (\<lambda>label. toLowerCase (take 1 label) @ drop 1 label),
      ds_fieldChanges = (\<lambda>f. f @ '' changes''),
      ds_everyHours = (\<lambda>n q. ''every '' @ int_str n @ '' hour'' @ (if n = 1 then [] else ''s'') @ '', over '' @ q),
      ds_daily = (\<lambda>a q. ''daily at '' @ a @ '', over '' @ q), ds_weekly = (\<lambda>a q. ''weekly at '' @ a @ '', over '' @ q),
      ds_matches = (\<lambda>q. ''it matches '' @ q), ds_fieldIs = (\<lambda>f v. f @ '' is '' @ v), ds_actorIs = (\<lambda>r. ''the actor is '' @ r),
      ds_setField = (\<lambda>f v. ''set '' @ f @ '' to '' @ v), ds_take = (\<lambda>s. ''take '' @ s), ds_assignTo = (\<lambda>s. ''assign to '' @ s),
      ds_addLabel = (\<lambda>s. ''add the label '' @ s), ds_addComment = ''add a comment'', ds_createSubtask = ''create a subtask'',
      ds_createIssue = ''create an issue'', ds_sendWebhook = ''send a webhook'', ds_mail = (\<lambda>s. ''mail '' @ s)\<rparr>"

definition describeDe :: describe_words where
  "describeDe =
     \<lparr>ds_when = (\<lambda>s. ''Wenn '' @ s), ds_if = (\<lambda>s. ''falls '' @ s), ds_then = (\<lambda>s. ''dann '' @ s),
      ds_and = '' und '', ds_thenNext = '', dann '', ds_or = '' oder '',
      ds_trigger = (\<lambda>label. label),
      ds_fieldChanges = (\<lambda>f. ''sich '' @ f @ '' '' @ [CHR 0xE4] @ ''ndert''),
      ds_everyHours = (\<lambda>n q. ''alle '' @ int_str n @ '' '' @ (if n = 1 then ''Stunde'' else ''Stunden'') @ '' f'' @ [CHR 0xFC] @ ''r '' @ q @ '' gepr'' @ [CHR 0xFC] @ ''ft wird''),
      ds_daily = (\<lambda>a q. ''t'' @ [CHR 0xE4] @ ''glich um '' @ a @ '' f'' @ [CHR 0xFC] @ ''r '' @ q @ '' gepr'' @ [CHR 0xFC] @ ''ft wird''),
      ds_weekly = (\<lambda>a q. ''w'' @ [CHR 0xF6] @ ''chentlich um '' @ a @ '' f'' @ [CHR 0xFC] @ ''r '' @ q @ '' gepr'' @ [CHR 0xFC] @ ''ft wird''),
      ds_matches = (\<lambda>q. ''er zu '' @ q @ '' passt''), ds_fieldIs = (\<lambda>f v. f @ '' gleich '' @ v @ '' ist''),
      ds_actorIs = (\<lambda>r. ''der Ausl'' @ [CHR 0xF6] @ ''ser '' @ r @ '' ist''),
      ds_setField = (\<lambda>f v. f @ '' auf '' @ v @ '' setzen''), ds_take = (\<lambda>s. s @ '' ausf'' @ [CHR 0xFC] @ ''hren''),
      ds_assignTo = (\<lambda>s. s @ '' zuweisen''), ds_addLabel = (\<lambda>s. ''das Schlagwort '' @ s @ '' hinzuf'' @ [CHR 0xFC] @ ''gen''),
      ds_addComment = ''einen Kommentar hinzuf'' @ [CHR 0xFC] @ ''gen'', ds_createSubtask = ''eine Unteraufgabe anlegen'',
      ds_createIssue = ''einen Vorgang anlegen'', ds_sendWebhook = ''einen Webhook senden'',
      ds_mail = (\<lambda>s. ''eine E-Mail an '' @ s @ '' senden'')\<rparr>"

definition labelFor :: "RuleDescriptor list \<Rightarrow> DescriptorKind \<Rightarrow> string \<Rightarrow> string" where
  "labelFor catalog kind type =
     (case List.find (\<lambda>d. rd_kind d = kind \<and> rd_type d = type) catalog of Some d \<Rightarrow> rd_label d | None \<Rightarrow> type)"

definition said :: "string option \<Rightarrow> string" where
  "said v = (case v of Some s \<Rightarrow> s | None \<Rightarrow> [])"

definition triggerWords :: "describe_words \<Rightarrow> Trigger \<Rightarrow> RuleDescriptor list \<Rightarrow> string" where
  "triggerWords t trigger catalog =
     (if trig_kind trigger = ''issue.updated'' \<and> truthy (trig_field trigger) then ds_fieldChanges t (said (trig_field trigger))
      else case (if trig_kind trigger = ''scheduled'' then trig_schedule trigger else None) of
        Some s \<Rightarrow>
          (case sch_unit s of
             Hours \<Rightarrow> ds_everyHours t (case sch_every s of Some n \<Rightarrow> n | None \<Rightarrow> 1) (said (trig_query trigger))
           | Daily \<Rightarrow> ds_daily t (said (sch_at s)) (said (trig_query trigger))
           | Weekly \<Rightarrow> ds_weekly t (said (sch_at s)) (said (trig_query trigger)))
      | None \<Rightarrow> ds_trigger t (labelFor catalog TriggerKind (trig_kind trigger)))"

definition conditionWords :: "describe_words \<Rightarrow> Condition \<Rightarrow> string" where
  "conditionWords t c =
     (if cond_kind c = ''nql'' then ds_matches t (said (cond_query c))
      else if cond_kind c = ''field_equals'' then ds_fieldIs t (said (cond_field c)) (said (cond_value c))
      else if cond_kind c = ''actor_role'' then ds_actorIs t (join (ds_or t) (case cond_roles c of Some rs \<Rightarrow> rs | None \<Rightarrow> []))
      else cond_kind c)"

definition actionWords :: "describe_words \<Rightarrow> Action \<Rightarrow> string" where
  "actionWords t a =
     (if act_kind a = ''set_field'' then ds_setField t (said (act_field a)) (said (act_value a))
      else if act_kind a = ''transition'' then ds_take t (said (act_value a))
      else if act_kind a = ''assign'' then ds_assignTo t (said (act_value a))
      else if act_kind a = ''add_label'' then ds_addLabel t (said (act_value a))
      else if act_kind a = ''add_comment'' then ds_addComment t
      else if act_kind a = ''create_subissue'' then ds_createSubtask t
      else if act_kind a = ''create_issue'' then ds_createIssue t
      else if act_kind a = ''send_webhook'' then ds_sendWebhook t
      else if act_kind a = ''send_mail'' then ds_mail t (said (act_to a))
      else act_kind a)"

definition automation_describeRule :: "describe_words \<Rightarrow> Trigger \<Rightarrow> Condition list \<Rightarrow> Action list \<Rightarrow> RuleDescriptor list \<Rightarrow> string" where
  "automation_describeRule t trigger conditions actions catalog =
     join '', ''
       ([ds_when t (triggerWords t trigger catalog)]
        @ (if conditions \<noteq> [] then [ds_if t (join (ds_and t) (map (conditionWords t) conditions))] else [])
        @ [ds_then t (join (ds_thenNext t) (map (actionWords t) actions))]) @ ''.''"

section \<open>What is stored is shown and read again\<close>

text \<open>The values a field of a kind stores.\<close>

definition stored :: "(real \<Rightarrow> string) \<Rightarrow> FieldKind \<Rightarrow> json \<Rightarrow> bool" where
  "stored num kind v =
     (case v of
        JNull \<Rightarrow> kind \<noteq> CheckboxField
      | JBool b \<Rightarrow> kind = CheckboxField
      | JNum x \<Rightarrow> kind = NumberField \<and> trim (num x) = num x \<and> num x \<noteq> [] \<and> read_number (num x) = Fin x
      | JStr s \<Rightarrow> kind \<noteq> CheckboxField \<and> trim s = s \<and> s \<noteq> [] \<and> (kind = NumberField \<longrightarrow> (\<forall>x. read_number s \<noteq> Fin x))
      | _ \<Rightarrow> False)"

lemma field_back: "stored num kind v \<Longrightarrow> valueFromInput kind (Inl (inputFromValue num kind (Some v))) = v"
  by (cases v) (auto simp: stored_def valueFromInput_def inputFromValue_def trim_def trim_start_def Let_def split: js_number.splits)

lemma parse_lines_eq:
  "parse_lines ls out out = out @ filter (\<lambda>x. x \<notin> set out) (uniq (filter (\<lambda>x. x \<noteq> []) (map trim ls)))"
proof (induction ls arbitrary: out)
  case (Cons l ls)
  have "filter (\<lambda>x. x \<notin> set out \<and> x \<noteq> trim l) zs = filter (\<lambda>x. x \<notin> set out) (filter (\<lambda>x. x \<noteq> trim l) zs)" for zs :: "string list"
    by (simp add: conj_commute)
  with Cons [of out] Cons [of "out @ [trim l]"] show ?case by (auto simp: Let_def filter_id_conv intro!: filter_cong)
qed simp

text \<open>The options are the lines that say something, each once, in the order they first come.\<close>

lemma options_exact: "parseOptions t = uniq (filter (\<lambda>x. x \<noteq> []) (map trim (split_on (CHR 0x0A) t)))"
  using parse_lines_eq [of "split_on (CHR 0x0A) t" "[]"] by (simp add: parseOptions_def)

end
