(* ===== verification/Places.thy ===== *)
theory Places
  imports Prelude
begin

text \<open>
  Which pages there are and who is shown them: \<open>features/projects/features.ts\<close>,
  \<open>features/projects/settingsTabs.ts\<close> and \<open>features/shell/places.ts\<close>. A label is a string of the reader's
  catalogue, so the lists take the catalogue as a function from the name of a string.
\<close>

section \<open>Features of a project\<close>

datatype Feature = F_board | F_sprints | F_plan | F_calendar | F_resources | F_milestones | F_releases | F_components | F_hierarchy | F_dashboard | F_queues | F_desk | F_teams | F_repositories | F_automation | F_import

definition feature_text :: "Feature \<Rightarrow> string" where
  "feature_text f = (case f of
     F_board \<Rightarrow> ''board''
   | F_sprints \<Rightarrow> ''sprints''
   | F_plan \<Rightarrow> ''plan''
   | F_calendar \<Rightarrow> ''calendar''
   | F_resources \<Rightarrow> ''resources''
   | F_milestones \<Rightarrow> ''milestones''
   | F_releases \<Rightarrow> ''releases''
   | F_components \<Rightarrow> ''components''
   | F_hierarchy \<Rightarrow> ''hierarchy''
   | F_dashboard \<Rightarrow> ''dashboard''
   | F_queues \<Rightarrow> ''queues''
   | F_desk \<Rightarrow> ''desk''
   | F_teams \<Rightarrow> ''teams''
   | F_repositories \<Rightarrow> ''repositories''
   | F_automation \<Rightarrow> ''automation''
   | F_import \<Rightarrow> ''import'')"

record feature_entry =
  fe_key :: Feature
  fe_label :: string
  fe_word :: string
  fe_listed :: string
  fe_deskOnly :: bool

definition feature_entry_of :: "(string \<Rightarrow> string) \<Rightarrow> Feature \<Rightarrow> bool \<Rightarrow> feature_entry" where
  "feature_entry_of t f desk =
     (let name = ''projectSetup.features.'' @ feature_text f
      in \<lparr>fe_key = f, fe_label = t (name @ ''.label''), fe_word = t (name @ ''.word''), fe_listed = t (name @ ''.listed''), fe_deskOnly = desk\<rparr>)"

definition FEATURES :: "(string \<Rightarrow> string) \<Rightarrow> feature_entry list" where
  "FEATURES t =
     [feature_entry_of t F_board False,
      feature_entry_of t F_sprints False,
      feature_entry_of t F_plan False,
      feature_entry_of t F_calendar False,
      feature_entry_of t F_resources False,
      feature_entry_of t F_milestones False,
      feature_entry_of t F_releases False,
      feature_entry_of t F_components False,
      feature_entry_of t F_hierarchy False,
      feature_entry_of t F_dashboard False,
      feature_entry_of t F_queues True,
      feature_entry_of t F_desk True,
      feature_entry_of t F_teams False,
      feature_entry_of t F_repositories False,
      feature_entry_of t F_automation False,
      feature_entry_of t F_import False]"

definition featureWord :: "(string \<Rightarrow> string) \<Rightarrow> Feature \<Rightarrow> string" where
  "featureWord t feature =
     (case List.find (\<lambda>f. fe_key f = feature) (FEATURES t) of Some f \<Rightarrow> fe_word f | None \<Rightarrow> feature_text feature)"

text \<open>The names every object inherits are no slug of a route.\<close>

definition slugs :: "(string \<times> Feature) list" where
  "slugs =
     [(''board'', F_board),
      (''sprints'', F_sprints),
      (''plan'', F_plan),
      (''calendar'', F_calendar),
      (''resources'', F_resources),
      (''milestones'', F_milestones),
      (''releases'', F_releases),
      (''components'', F_components),
      (''hierarchy'', F_hierarchy),
      (''dashboard'', F_dashboard),
      (''queues'', F_queues),
      (''service-desk'', F_desk),
      (''teams'', F_teams),
      (''repositories'', F_repositories),
      (''automation'', F_automation),
      (''import'', F_import)]"

definition featureOfPath :: "string \<Rightarrow> string \<Rightarrow> Feature option" where
  "featureOfPath projectKey pathname =
     (let prefix = ''/projects/'' @ projectKey @ ''/''
      in if \<not> startsWith pathname prefix then None
         else map_of slugs (hd (split_on (CHR ''/'') (drop (length prefix) pathname))))"

text \<open>A project as these functions read it: its features; one still loading is absent.\<close>

definition hasFeature :: "Feature list option \<Rightarrow> Feature option \<Rightarrow> bool" where
  "hasFeature project feature = (case (feature, project) of (Some f, Some fs) \<Rightarrow> f \<in> set fs | _ \<Rightarrow> True)"

definition leftOut :: "(string \<Rightarrow> string) \<Rightarrow> Feature list \<Rightarrow> string list" where
  "leftOut t fs = map fe_listed (filter (\<lambda>f. \<not> fe_deskOnly f \<and> fe_key f \<notin> set fs) (FEATURES t))"

section \<open>A project's settings\<close>

datatype SettingsSection = General | Work | Workflow | Integrations | Import

record SetupPage =
  setup_path :: string
  setup_section :: SettingsSection
  setup_label :: string
  setup_tab :: string
  setup_icon :: string
  setup_feature :: "Feature option"
  setup_adminOnly :: bool

definition projectSetupPages :: "(string \<Rightarrow> string) \<Rightarrow> SetupPage list" where
  "projectSetupPages t =
     [\<lparr>setup_path = ''/settings'', setup_section = General, setup_label = t ''shell.projectPages.settings'', setup_tab = t ''projectSetup.settings.general'',
        setup_icon = ''Settings'', setup_feature = None, setup_adminOnly = False\<rparr>,
      \<lparr>setup_path = ''/issue-types'', setup_section = Work, setup_label = t ''shell.projectPages.issueTypes'', setup_tab = t ''shell.projectPages.issueTypes'',
        setup_icon = ''Tag'', setup_feature = None, setup_adminOnly = False\<rparr>,
      \<lparr>setup_path = ''/fields'', setup_section = Work, setup_label = t ''shell.projectPages.fields'', setup_tab = t ''shell.projectPages.fields'',
        setup_icon = ''Field'', setup_feature = None, setup_adminOnly = False\<rparr>,
      \<lparr>setup_path = ''/issue-view'', setup_section = Work, setup_label = t ''shell.projectPages.issueView'', setup_tab = t ''shell.projectPages.issueView'',
        setup_icon = ''Issue'', setup_feature = None, setup_adminOnly = False\<rparr>,
      \<lparr>setup_path = ''/workflows'', setup_section = Workflow, setup_label = t ''shell.projectPages.workflow'', setup_tab = t ''shell.projectPages.workflow'',
        setup_icon = ''Workflow'', setup_feature = None, setup_adminOnly = False\<rparr>,
      \<lparr>setup_path = ''/components'', setup_section = Integrations, setup_label = t ''shell.projectPages.components'', setup_tab = t ''shell.projectPages.components'',
        setup_icon = ''Component'', setup_feature = Some F_components, setup_adminOnly = False\<rparr>,
      \<lparr>setup_path = ''/repositories'', setup_section = Integrations, setup_label = t ''shell.projectPages.repositories'', setup_tab = t ''shell.projectPages.repositories'',
        setup_icon = ''Repository'', setup_feature = Some F_repositories, setup_adminOnly = False\<rparr>,
      \<lparr>setup_path = ''/automation'', setup_section = Integrations, setup_label = t ''shell.projectPages.automation'', setup_tab = t ''shell.projectPages.automation'',
        setup_icon = ''Bolt'', setup_feature = Some F_automation, setup_adminOnly = True\<rparr>,
      \<lparr>setup_path = ''/import'', setup_section = Import, setup_label = t ''shell.projectPages.import'', setup_tab = t ''shell.projectPages.import'',
        setup_icon = ''Upload'', setup_feature = Some F_import, setup_adminOnly = True\<rparr>]"

definition SETTINGS_PAGE_PATH :: string where
  "SETTINGS_PAGE_PATH = setup_path (hd (projectSetupPages (\<lambda>_. [])))"

definition setupAddress :: "string \<Rightarrow> string" where
  "setupAddress path = (if path = SETTINGS_PAGE_PATH then path else ''/settings'' @ path)"

definition settingsPagesFor :: "(string \<Rightarrow> string) \<Rightarrow> Feature list option \<Rightarrow> bool \<Rightarrow> SetupPage list" where
  "settingsPagesFor t project administers =
     filter (\<lambda>page. hasFeature project (setup_feature page) \<and> (administers \<or> \<not> setup_adminOnly page)) (projectSetupPages t)"

definition MOVED_PROJECT_PAGES :: "string list" where
  "MOVED_PROJECT_PAGES = filter (\<lambda>path. path \<noteq> SETTINGS_PAGE_PATH) (map setup_path (projectSetupPages (\<lambda>_. [])))"

definition movedProjectAddress :: "string \<Rightarrow> string \<Rightarrow> string \<Rightarrow> string \<Rightarrow> string option" where
  "movedProjectAddress projectKey slug searchStr hash =
     (if ''/'' @ slug \<notin> set MOVED_PROJECT_PAGES then None
      else Some (''/projects/'' @ projectKey @ setupAddress (''/'' @ slug) @ searchStr @ (if hash \<noteq> [] then ''#'' @ hash else [])))"

section \<open>Places of the shell\<close>

record Place =
  page_to :: string
  page_label :: string
  page_icon :: string
  page_detail :: "string option"
  page_search :: "(string \<times> string) list option"
  page_hash :: "string option"

definition WATCHING_QUERY :: string where
  "WATCHING_QUERY = ''watcher = currentUser()''"

definition SETTINGS_PATH :: string where
  "SETTINGS_PATH = ''/settings''"

definition ADMIN_PATH :: string where
  "ADMIN_PATH = ''/admin''"

definition workPlaces :: "(string \<Rightarrow> string) \<Rightarrow> Place list" where
  "workPlaces t =
     [\<lparr>page_to = ''/'', page_label = t ''shell.places.home'', page_icon = ''Home'', page_detail = None, page_search = None, page_hash = None\<rparr>,
      \<lparr>page_to = ''/search'', page_label = t ''shell.places.search'', page_icon = ''Search'', page_detail = None, page_search = None, page_hash = None\<rparr>,
      \<lparr>page_to = ''/notifications'', page_label = t ''shell.places.notifications'', page_icon = ''Bell'', page_detail = None, page_search = None, page_hash = None\<rparr>,
      \<lparr>page_to = ''/filters'', page_label = t ''shell.places.savedSearches'', page_icon = ''Filter'', page_detail = None, page_search = None, page_hash = None\<rparr>,
      \<lparr>page_to = ''/projects'', page_label = t ''shell.places.projects'', page_icon = ''Folder'', page_detail = None, page_search = None, page_hash = None\<rparr>]"

definition personalPlaces :: "(string \<Rightarrow> string) \<Rightarrow> Place list" where
  "personalPlaces t =
     [\<lparr>page_to = ''/settings/profile'', page_label = t ''shell.places.profile'', page_icon = ''User'', page_detail = Some (t ''shell.places.profileDetail''), page_search = None, page_hash = None\<rparr>,
      \<lparr>page_to = ''/settings/profile'', page_label = t ''shell.places.notificationSettings'', page_icon = ''Bell'', page_detail = Some (t ''shell.places.notificationSettingsDetail''), page_search = None, page_hash = Some ''notifications''\<rparr>,
      \<lparr>page_to = ''/search'', page_label = t ''shell.places.watching'', page_icon = ''Eye'', page_detail = Some (t ''shell.places.watchingDetail''), page_search = Some [(''q'', WATCHING_QUERY)], page_hash = None\<rparr>,
      \<lparr>page_to = ''/settings/themes'', page_label = t ''shell.places.themes'', page_icon = ''Palette'', page_detail = Some (t ''shell.places.themesDetail''), page_search = None, page_hash = None\<rparr>,
      \<lparr>page_to = ''/settings/tokens'', page_label = t ''shell.places.accessTokens'', page_icon = ''Command'', page_detail = Some (t ''shell.places.accessTokensDetail''), page_search = None, page_hash = None\<rparr>]"

datatype AdminSection = AdminPeople | AdminWork | AdminIntegrations | AdminRecords

definition ADMIN_SECTIONS :: "AdminSection list" where
  "ADMIN_SECTIONS = [AdminPeople, AdminWork, AdminIntegrations, AdminRecords]"

definition adminEntry :: "(string \<Rightarrow> string) \<Rightarrow> Place" where
  "adminEntry t = \<lparr>page_to = ADMIN_PATH, page_label = t ''shell.admin.title'', page_icon = ''Settings'', page_detail = None,
     page_search = None, page_hash = None\<rparr>"

definition adminPlaces :: "(string \<Rightarrow> string) \<Rightarrow> (AdminSection \<times> Place) list" where
  "adminPlaces t =
     [(AdminPeople, \<lparr>page_to = ''/admin/installation'', page_label = t ''shell.places.installation'', page_icon = ''Settings'', page_detail = Some (t ''shell.places.installationDetail''), page_search = None, page_hash = None\<rparr>),
      (AdminPeople, \<lparr>page_to = ''/admin/access'', page_label = t ''shell.places.access'', page_icon = ''Key'', page_detail = Some (t ''shell.places.accessDetail''), page_search = None, page_hash = None\<rparr>),
      (AdminPeople, \<lparr>page_to = ''/admin/users'', page_label = t ''shell.places.users'', page_icon = ''Users'', page_detail = Some (t ''shell.places.usersDetail''), page_search = None, page_hash = None\<rparr>),
      (AdminWork, \<lparr>page_to = ''/admin/holidays'', page_label = t ''shell.places.holidays'', page_icon = ''Calendar'', page_detail = Some (t ''shell.places.holidaysDetail''), page_search = None, page_hash = None\<rparr>),
      (AdminWork, \<lparr>page_to = ''/admin/workflows'', page_label = t ''shell.places.workflows'', page_icon = ''Workflow'', page_detail = Some (t ''shell.places.workflowsDetail''), page_search = None, page_hash = None\<rparr>),
      (AdminWork, \<lparr>page_to = ''/admin/issue-types'', page_label = t ''shell.places.issueTypes'', page_icon = ''Issue'', page_detail = Some (t ''shell.places.issueTypesDetail''), page_search = None, page_hash = None\<rparr>),
      (AdminWork, \<lparr>page_to = ''/admin/project-templates'', page_label = t ''shell.places.projectTemplates'', page_icon = ''Component'', page_detail = Some (t ''shell.places.projectTemplatesDetail''), page_search = None, page_hash = None\<rparr>),
      (AdminWork, \<lparr>page_to = ''/admin/labels'', page_label = t ''shell.places.labels'', page_icon = ''Tag'', page_detail = Some (t ''shell.places.labelsDetail''), page_search = None, page_hash = None\<rparr>),
      (AdminWork, \<lparr>page_to = ''/admin/automation'', page_label = t ''shell.places.automation'', page_icon = ''Bolt'', page_detail = Some (t ''shell.places.automationDetail''), page_search = None, page_hash = None\<rparr>),
      (AdminWork, \<lparr>page_to = ''/admin/fields'', page_label = t ''shell.places.fields'', page_icon = ''Field'', page_detail = Some (t ''shell.places.fieldsDetail''), page_search = None, page_hash = None\<rparr>),
      (AdminWork, \<lparr>page_to = ''/admin/issue-view'', page_label = t ''shell.places.issueView'', page_icon = ''Issue'', page_detail = Some (t ''shell.places.issueViewDetail''), page_search = None, page_hash = None\<rparr>),
      (AdminIntegrations, \<lparr>page_to = ''/admin/connected-apps'', page_label = t ''shell.places.connectedApps'', page_icon = ''Link'', page_detail = Some (t ''shell.places.connectedAppsDetail''), page_search = None, page_hash = None\<rparr>),
      (AdminIntegrations, \<lparr>page_to = ''/admin/webhooks'', page_label = t ''shell.places.webhooks'', page_icon = ''Hook'', page_detail = Some (t ''shell.places.webhooksDetail''), page_search = None, page_hash = None\<rparr>),
      (AdminRecords, \<lparr>page_to = ''/admin/audit'', page_label = t ''shell.places.audit'', page_icon = ''Shield'', page_detail = Some (t ''shell.places.auditDetail''), page_search = None, page_hash = None\<rparr>)]"

definition adminFor :: "(string \<Rightarrow> string) \<Rightarrow> bool \<Rightarrow> (AdminSection \<times> Place) list" where
  "adminFor t canAdministerOrg = (if canAdministerOrg then adminPlaces t else [])"

definition inSettingsArea :: "string \<Rightarrow> bool" where
  "inSettingsArea pathname \<longleftrightarrow> pathname = SETTINGS_PATH \<or> startsWith pathname (SETTINGS_PATH @ ''/'')"

text \<open>How a query is written in an address is the browser's: a parameter.\<close>

definition placeKey :: "((string \<times> string) list \<Rightarrow> string) \<Rightarrow> Place \<Rightarrow> string" where
  "placeKey params place =
     page_to place @ (case page_search place of Some q \<Rightarrow> ''?'' @ params q | None \<Rightarrow> [])
       @ (if truthy (page_hash place) then ''#'' @ the (page_hash place) else [])"

section \<open>Every feature has one address\<close>

lemma slugs_one: "distinct (map fst slugs)" "distinct (map snd slugs)" "set (map snd slugs) = set (map fe_key (FEATURES t))"
  "\<forall>(slug, f) \<in> set slugs. CHR ''/'' \<notin> set slug"
  by (simp_all add: slugs_def FEATURES_def feature_entry_of_def Let_def)

lemma split_first: "d \<notin> set w \<Longrightarrow> r = [] \<or> hd r = d \<Longrightarrow> hd (split_on d (w @ r)) = w"
proof (induction w)
  case Nil
  then show ?case by (cases r) auto
next
  case (Cons c w)
  obtain v vs where "split_on d (w @ r) = v # vs" by (cases "split_on d (w @ r)") auto
  with Cons show ?case by auto
qed

text \<open>A page of a feature and every page below it belong to that feature, and to no other.\<close>

lemma feature_path_exact:
  assumes "(slug, f) \<in> set slugs" and "r = [] \<or> hd r = CHR ''/''"
  shows "featureOfPath key (''/projects/'' @ key @ ''/'' @ slug @ r) = Some f"
proof -
  let ?p = "''/projects/'' @ key @ ''/''"
  have "startsWith (?p @ slug @ r) ?p" "drop (length ?p) (?p @ slug @ r) = slug @ r" by (simp_all add: startsWith_def)
  moreover have "hd (split_on (CHR ''/'') (slug @ r)) = slug" using assms slugs_one(4) by (intro split_first) auto
  moreover have "map_of slugs slug = Some f" using assms(1) slugs_one(1) by (simp add: map_of_eq_Some_iff)
  ultimately have "featureOfPath key (?p @ slug @ r) = Some f" by (simp only: featureOfPath_def Let_def not_True_eq_False if_False)
  then show ?thesis by simp
qed

text \<open>A moved address leads to one that has not moved: a page of the settings.\<close>

lemma moved_once:
  "movedProjectAddress key slug [] [] = Some to \<Longrightarrow> to = ''/projects/'' @ key @ ''/settings/'' @ slug"
  "movedProjectAddress key ''settings'' s h = None"
  by (auto simp: movedProjectAddress_def MOVED_PROJECT_PAGES_def projectSetupPages_def SETTINGS_PAGE_PATH_def setupAddress_def split: if_splits)

text \<open>The address the source gives as its example is none that moved.\<close>

lemma teams_not_moved: "movedProjectAddress key ''teams'' s h = None"
  by (simp add: movedProjectAddress_def MOVED_PROJECT_PAGES_def projectSetupPages_def SETTINGS_PAGE_PATH_def)

text \<open>Two places on one path have keys of their own.\<close>

lemma place_keys_apart: "distinct (map (placeKey (\<lambda>_. ''q'')) (workPlaces t @ personalPlaces t @ map snd (adminPlaces t) @ [adminEntry t]))"
  by (simp add: placeKey_def workPlaces_def personalPlaces_def adminPlaces_def adminEntry_def ADMIN_PATH_def)

end
