(* ===== verification/Spec2Isabelle.thy ===== *)
theory Spec2Isabelle
  imports AutoPlan Calendar PlanLayout WorkflowServer WorkflowFlow Overlay QuickFilter Duration Burndown Format Guide
    MarkdownProofs NewIssue Desk ThemeProofs Resources CustomFields Places
begin

text \<open>
  A verification of the client of Armature, an issue tracker with planning, boards, dashboards and
  workflows. The program is a server in Go (\<open>backend\<close>) with a database behind it, and a single-page client
  in TypeScript (\<open>web/src\<close>). The client keeps its own logic in modules of pure functions beside the React
  components that draw: those modules are what is verified here, with the places of the server that answer
  what they send. Paths below are under \<open>web/src\<close> where nothing else is said.

  \<^bold>\<open>The parts and their theories.\<close>

  The ground. \<open>Prelude\<close>: arrays, maps, strings, rounding and sorting as ECMAScript has them, and the locales
  \<open>comparator\<close> and \<open>collation\<close>, the contract of a comparison function. \<open>JsDate\<close>: time values, the Gregorian
  calendar, ISO texts. \<open>JsNumber\<close>: reading and writing numbers.
  \<open>JsValue\<close> and \<open>JsonText\<close>: values of JSON, their text, and reading that text again. \<open>LocalTime\<close>:
  dates in a time zone, with the locale \<open>civil_zone\<close>. \<open>Storage\<close>: the browser's storage, which may refuse, with the locale \<open>setting\<close> of a value
  kept there. \<open>Config\<close>: \<open>config.ts\<close>. \<open>Api\<close>: the types of \<open>api/\<close>. \<open>PlanWords\<close> and \<open>KitWords\<close>: strings of \<open>i18n/\<close> in
  English and German; functions that speak take the catalogue as an argument, so what is shown holds in
  both languages.

  The plan, \<open>features/plan\<close>. \<open>PlanScale\<close> (\<open>scale.ts\<close>): dates to pixels and back, the header rows (locale
  \<open>tick_row\<close>), bars, drags, zooms. \<open>PlanViews\<close> (\<open>views.ts\<close>, \<open>reparent.ts\<close>): filters, the cut, the meter, the rows of
  each view, and what dropping a row on another would do. \<open>PlanDraw\<close> (\<open>create.ts\<close>, \<open>layout.ts\<close>, \<open>markers.ts\<close>,
  \<open>SprintBands.tsx\<close>, \<open>load.ts\<close>, \<open>warnings.ts\<close>, \<open>settings.ts\<close>): what is drawn beside the rows. \<open>AutoPlan\<close> (\<open>autoplan.ts\<close>):
  a proposed schedule, its saving and its undo, against \<open>backend/internal/issue/schedule_many.go\<close>. \<open>LibGraph\<close>
  (\<open>lib/graph.ts\<close>), \<open>PlanGraph\<close> (\<open>graph.ts\<close>), \<open>GraphWalk\<close> and \<open>PlanLayout\<close>: the dependency view, its walks and its
  layout.

  Time. \<open>Week\<close> (\<open>lib/week.ts\<close>): working hours, days and absences. \<open>Calendar\<close> (\<open>features/calendar\<close>): the month
  grid. \<open>Resources\<close> (\<open>features/resources/cells.ts\<close>, \<open>routes/resources.tsx\<close>): the load of a week, the weeks of a
  window, and the buttons that move it.
  \<open>Duration\<close> (\<open>features/time/duration.ts\<close>): time typed on a ticket. \<open>Format\<close> (\<open>lib/format.ts\<close>): relative
  time, today and the end of a day in the reader's zone, over the locales \<open>known_zone\<close> and \<open>changing_zone\<close>.

  Workflows, \<open>features/workflows/designer\<close>. \<open>WorkflowDesign\<close> (\<open>graph.ts\<close>): a design and its edits.
  \<open>WorkflowProofs\<close>: what they promise. \<open>Designer\<close> (\<open>WorkflowDesigner.tsx\<close>, \<open>Inspector.tsx\<close>): the designer as a
  state machine, an inductive step relation. \<open>WorkflowFlow\<close> (\<open>flow.ts\<close>): what is handed to the drawing library.
  \<open>WorkflowServer\<close> (\<open>backend/internal/workflow/graph.go\<close>, \<open>admin.go\<close>): the check a saved workflow meets.

  Dashboards and boards. \<open>QueryFilter\<close> (\<open>features/dashboard/filter.ts\<close>, with \<open>backend/internal/nql/lexer.go\<close>): a
  filter, the query it becomes and the server's first reading of it. \<open>QuickFilter\<close> (\<open>features/board/quickFilter.ts\<close>):
  a board's filter, and the locale \<open>travelling\<close> of a filter kept in the address, which both filters have.
  \<open>Chart\<close> (\<open>features/dashboard/chart.ts\<close>) and \<open>Burndown\<close> (\<open>burndown.ts\<close>).

  Documents and issues. \<open>Markdown\<close> (\<open>features/editor/markdown.ts\<close>, \<open>schema.ts\<close>): a document as markdown and
  markdown as a document, with the source's patterns as recognisers; \<open>MarkdownProofs\<close>: what they keep.
  \<open>NewIssue\<close> (\<open>features/issues/create\<close>, \<open>typeChange.ts\<close>, \<open>drafts.ts\<close>, \<open>view/areas.ts\<close>, \<open>lib/draft.ts\<close>): the form for a
  new issue, the requests that follow it, drafts, and forms seeded from the server. \<open>CustomFields\<close>
  (\<open>features/fields/values.ts\<close>, \<open>features/automation/describe.ts\<close>): custom fields and the sentence for a rule. \<open>Desk\<close>
  (\<open>features/desk/templates.ts\<close>, \<open>company.ts\<close>): the lists of the service desk.

  Requests. \<open>Client\<close> (\<open>api/client.ts\<close>, \<open>api/mutation.ts\<close>, \<open>lib/queryClient.ts\<close>): a request, its answer or error,
  the end of a session and who is told of a failed change. \<open>fetch\<close> is a parameter.

  Themes. \<open>ThemeSheet\<close> (\<open>lib/theme-css.ts\<close>, \<open>lib/theme-tokens.ts\<close>, with \<open>backend/internal/theme/spec.go\<close>): the
  stylesheet a theme compiles to and what the server lets into a theme. \<open>ThemeProofs\<close>: where it loads from.

  The shell. \<open>Overlay\<close> (\<open>components/ui/overlay.ts\<close>): Escape, focus, scroll lock and panels, with the locale
  \<open>newest_first\<close>. \<open>Language\<close> (\<open>i18n/index.ts\<close>, \<open>features/shell/state.ts\<close>): the language that is on, as a state
  machine over storage, and values the browser keeps. \<open>Kept\<close> (\<open>features/search/recent.ts\<close>, \<open>lib/theme.ts\<close>,
  \<open>features/editor/useEditorMode.ts\<close>): more of them, and further interpretations of \<open>setting\<close>. \<open>Places\<close>
  (\<open>features/projects/features.ts\<close>, \<open>settingsTabs.ts\<close>, \<open>features/shell/places.ts\<close>): which pages there are.
  \<open>Guide\<close> (\<open>features/guide/match.ts\<close>): answers to questions.

  \<^bold>\<open>What is shown.\<close> The theorems marked C1 to C40 are the properties; they stand in the theories of their
  components, since each rests on the definitions there, and where they have hypotheses a witness applies
  them.

  \<^item> Client and server agree: what the workflow designer calls clean the server accepts (C3), the query of a
    filter is read as the clauses that were meant, whatever its names hold (C4), a saved plan taken back is
    accepted and restores every date (C2), a theme the server stored loads only what is its own (C6), and what
    a request carries and is answered arrives (C17).
  \<^item> Nothing is lost: documents through markdown, but for the kinds C5 names (C5), workflows saved unchanged (C8), typing while an answer
    lands (C16), every answer of the form for a new issue (C18), filters without commas in the address (C29),
    settings in storage (C21, C22), durations and dates typed or drawn (C27, C34), sums under folding (C26).
  \<^item> State machines stay in their invariant: designs (C7), overlays (C13, C14, C40), sessions (C15), the
    language (C21).
  \<^item> What is drawn is right: rows of the plan (C31, C32), ticks (C33), the dependency view (C19, C20), curves,
    boxes and panels (C9, C11, C12, C39), charts (C25, C26), the month (C35, C37), weeks (C38), the desk's lists
    (C30), and documents read from any text stay in the schema (C10).
  \<^item> Edits are safe: dropping a row (C1), counting and dragging days (C36).
  \<^item> Choices are the best there are: the guide's answers (C23), a board's options (C28), the end of a day (C24).

  Further lemmas show, among others, the plan's counts (\<open>meter_counts\<close>), the fitted zoom (\<open>fitted_fills\<close>),
  dragged bars (\<open>applyDrag_keeps_order\<close>), the cells of a load row and of a week (\<open>week_cells_drawn\<close>, \<open>cell_shares_fit\<close>), ghost bars (\<open>ghosts_are_moves\<close>),
  parallel edges (\<open>bends_apart\<close>), absences (\<open>absence_problem_free\<close>), hours, the stored cut and the dashboard's filter
  read again (\<open>hours_roundtrip\<close>, \<open>closed_for_days_roundtrip\<close>, \<open>filter_address_roundtrip\<close>), who is told of a failed
  change (\<open>failed_change_told\<close>), JSON text read again (\<open>json_back\<close>), a custom field shown and typed again
  (\<open>field_back\<close>), drafts that do not meet (\<open>drafts_apart\<close>) and addresses that move once (\<open>moved_once\<close>).

  The findings are proved as lemmas: the scroll lock two modals leave behind (\<open>scroll_lock_left_behind\<close> of
  \<open>Overlay\<close>), the day that ends an hour early (\<open>day_ends_early\<close> of \<open>Format\<close>), the guide's keywords that no
  question can meet (\<open>plural_keyword_dead\<close>, \<open>phrase_keyword_dead\<close> of \<open>Guide\<close>), the documents markdown does not
  keep (the last section of \<open>MarkdownProofs\<close>), the recent queries that raise where a browser refuses to write
  (\<open>remember_raises\<close> of \<open>Kept\<close>), the type whose name holds a comma and is split by the address
  (\<open>comma_type_splits\<close> of \<open>QuickFilter\<close>), the panel aligned to an end that leaves the window
  (\<open>end_panel_leaves_window\<close> of \<open>Overlay\<close>), the extra CSS that loads from elsewhere though the server lets it in (the last
  section of \<open>ThemeProofs\<close>), and the page a comment calls moved that is not (\<open>teams_not_moved\<close> of \<open>Places\<close>).

  \<^bold>\<open>Bounds and idealisations.\<close> Measures are reals, so the rounding of double precision is not seen; strings are
  over the 256 units of Latin-1; time values are unbounded integers; dates are read in the ISO forms the server
  writes. What ECMAScript leaves to the engine is a parameter: \<open>localeCompare\<close>, \<open>Intl\<close>, the time zone, the text of
  an unrounded number. What a handler given to a hook does is a parameter too. A loop is a function with a termination proof; only the reader of JSON text carries
  fuel, two steps for each unit of the text and two more, which is shown to be enough. An
  exception is a value, \<^const>\<open>None\<close> or an error of a sum type.

  \<^bold>\<open>Not modelled.\<close> The React components, their events and requests, beyond the actions of the designer and the
  buttons of the resources page named above: their meaning is that of libraries. The Go services, but for the checks named above. The catalogues of
  strings as prose. The types generated from the API description, but for those the modelled functions read.
  The rich face of the editor, which rests on a library's document model. The query library behind the
  requests: its caches appear only as what the client's own callbacks do to them. What a browser makes of
  a style sheet, beyond the calls in its text, and the moving pictures drawn on a canvas. Build files and tests.
\<close>

end
